(* ===== verification/Prelude.thy ===== *)
theory Prelude
  imports Complex_Main "HOL-Library.Multiset" "HOL-Library.Sublist"
begin

section \<open>Python values, errors and strings\<close>

text \<open>
  The vocabulary the component theories share.  A Python exception is a value of
  \<^typ>\<open>'e + 'a\<close> with \<^theory_text>\<open>Inl\<close> for the exception; a Python byte string is a
  HOL \<^typ>\<open>string\<close>; a Python integer is an \<^typ>\<open>int\<close> (or a \<^typ>\<open>nat\<close> where the code
  only ever counts or indexes upwards).  The functions below are the string and path
  methods of the standard library that the modelled scripts call.
\<close>

named_theorems res_simps \<open>evaluation of exception-passing code\<close>
named_theorems str_simps \<open>evaluation of string helpers\<close>

subsection \<open>Exceptions\<close>

datatype py_error =
    AssertionError
  | IndexError
  | KeyError
  | ValueError
  | TypeError
  | AttributeError
  | ZeroDivisionError
  | UnboundLocalError
  | NameError
  | ImportError
  | IOError
  | OSError
  | GenericException string
  | WafError string
  | SystemExit int

type_synonym 'a res = "py_error + 'a"

definition bind_res :: "('e + 'a) \<Rightarrow> ('a \<Rightarrow> 'e + 'b) \<Rightarrow> 'e + 'b" where
  "bind_res m k = (case m of Inl e \<Rightarrow> Inl e | Inr x \<Rightarrow> k x)"

lemma bind_res_simps [simp, res_simps]:
  "bind_res (Inl e) k = Inl e"
  "bind_res (Inr x) k = k x"
  by (simp_all add: bind_res_def)

lemma bind_res_eq_Inr [res_simps]:
  "bind_res m k = Inr y \<longleftrightarrow> (\<exists>x. m = Inr x \<and> k x = Inr y)"
  by (cases m) simp_all

lemma bind_res_eq_Inl [res_simps]:
  "bind_res m k = Inl e \<longleftrightarrow> m = Inl e \<or> (\<exists>x. m = Inr x \<and> k x = Inl e)"
  by (cases m) simp_all

definition map_value :: "('a \<Rightarrow> 'b) \<Rightarrow> 'e + 'a \<Rightarrow> 'e + 'b" where
  "map_value f m = bind_res m (\<lambda>x. Inr (f x))"

lemma map_value_simps [simp, res_simps]:
  "map_value f (Inl e) = Inl e"
  "map_value f (Inr x) = Inr (f x)"
  by (simp_all add: map_value_def)

lemma map_value_eq_Inr [res_simps]: "map_value f m = Inr y \<longleftrightarrow> (\<exists>x. m = Inr x \<and> y = f x)"
  by (cases m) auto

text \<open>A loop whose body may raise: the first exception ends it.\<close>

fun fold_res :: "('s \<Rightarrow> 'a \<Rightarrow> 'e + 's) \<Rightarrow> 's \<Rightarrow> 'a list \<Rightarrow> 'e + 's" where
  "fold_res f s [] = Inr s"
| "fold_res f s (x # xs) = bind_res (f s x) (\<lambda>s'. fold_res f s' xs)"

fun traverse_res :: "('a \<Rightarrow> 'e + 'b) \<Rightarrow> 'a list \<Rightarrow> 'e + 'b list" where
  "traverse_res f [] = Inr []"
| "traverse_res f (x # xs) = bind_res (f x) (\<lambda>y. map_value ((#) y) (traverse_res f xs))"

lemma bind_res_assoc: "bind_res (bind_res m f) g = bind_res m (\<lambda>x. bind_res (f x) g)"
  by (cases m) simp_all

lemma fold_res_append [res_simps]:
  "fold_res f s (xs @ ys) = bind_res (fold_res f s xs) (\<lambda>s'. fold_res f s' ys)"
proof (induction xs arbitrary: s)
  case (Cons x xs)
  then show ?case by (cases "f s x") simp_all
qed simp

lemma fold_res_continue: "fold_res f s xs = Inr s' \<Longrightarrow> fold_res f s (xs @ ys) = fold_res f s' ys"
  by (simp add: fold_res_append)

lemma fold_res_Inr: "(\<And>s x. x \<in> set xs \<Longrightarrow> f s x = Inr (g s x)) \<Longrightarrow> fold_res f s xs = Inr (foldl g s xs)"
  by (induction xs arbitrary: s) simp_all

lemma traverse_res_append:
  "traverse_res f (xs @ ys) =
     bind_res (traverse_res f xs) (\<lambda>us. map_value ((@) us) (traverse_res f ys))"
proof (induction xs)
  case Nil
  show ?case by (cases "traverse_res f ys") simp_all
next
  case (Cons x xs)
  then show ?case
    by (cases "f x"; cases "traverse_res f xs"; cases "traverse_res f ys") simp_all
qed

lemma traverse_res_Inr: "(\<And>x. x \<in> set xs \<Longrightarrow> f x = Inr (g x)) \<Longrightarrow> traverse_res f xs = Inr (map g xs)"
  by (induction xs) simp_all

lemma traverse_res_cong [fundef_cong]:
  "xs = ys \<Longrightarrow> (\<And>x. x \<in> set ys \<Longrightarrow> f x = g x) \<Longrightarrow> traverse_res f xs = traverse_res g ys"
proof (induction ys arbitrary: xs)
  case (Cons y ys)
  then show ?case by simp
qed simp

lemma bind_res_cong [fundef_cong]:
  "m = m' \<Longrightarrow> (\<And>x. m' = Inr x \<Longrightarrow> k x = k' x) \<Longrightarrow> bind_res m k = bind_res m' k'"
  by (cases m') simp_all

subsection \<open>Invariants of loops\<close>

text \<open>
  The interface of a loop over a list of inputs whose step may raise: a property of the state
  that every step keeps, and the errors a step may end with.  Component theories interpret it
  on their own step function and get both for whole runs.
\<close>

locale res_loop =
  fixes step :: "'s \<Rightarrow> 'a \<Rightarrow> 's res" and inv :: "'s \<Rightarrow> bool" and may_raise :: "py_error \<Rightarrow> bool"
  assumes step_ok: "inv s \<Longrightarrow> (case step s x of Inl e \<Rightarrow> may_raise e | Inr s' \<Rightarrow> inv s')"
begin

lemma run_ok: "inv s \<Longrightarrow> (case fold_res step s xs of Inl e \<Rightarrow> may_raise e | Inr s' \<Rightarrow> inv s')"
proof (induction xs arbitrary: s)
  case (Cons x xs)
  then show ?case using step_ok[OF Cons.prems, of x] by (cases "step s x") simp_all
qed simp

lemma run_inv: "inv s \<Longrightarrow> fold_res step s xs = Inr s' \<Longrightarrow> inv s'"
  using run_ok[of s xs] by simp

lemma run_raises: "inv s \<Longrightarrow> fold_res step s xs = Inl e \<Longrightarrow> may_raise e"
  using run_ok[of s xs] by simp

end

subsection \<open>Strings\<close>

abbreviation newline :: char where "newline \<equiv> CHR 0x0A"
abbreviation tab :: char where "tab \<equiv> CHR 0x09"

text \<open>One line of output: the text followed by a newline.\<close>

definition ln :: "string \<Rightarrow> string" where
  "ln s = s @ [newline]"

lemma ln_simps [simp, str_simps]: "ln s \<noteq> []" "last (ln s) = newline" "butlast (ln s) = s"
  by (simp_all add: ln_def)

lemma ln_inject [simp]: "ln s = ln t \<longleftrightarrow> s = t"
  by (simp add: ln_def)

text \<open>\<open>sub in s\<close>\<close>

fun contains :: "'a list \<Rightarrow> 'a list \<Rightarrow> bool" where
  "contains sub [] = (sub = [])"
| "contains sub (x # xs) = (prefix sub (x # xs) \<or> contains sub xs)"

lemma contains_iff_sublist: "contains sub s = sublist sub s"
proof (induction s)
  case (Cons x xs)
  show ?case
  proof
    assume "contains sub (x # xs)"
    then show "sublist sub (x # xs)"
      using Cons.IH by (auto simp: sublist_Cons_right)
  next
    assume "sublist sub (x # xs)"
    then show "contains sub (x # xs)"
      using Cons.IH by (auto simp: sublist_Cons_right)
  qed
qed simp

text \<open>\<open>s.split(c)\<close> and \<open>s.split(c, 1)\<close>\<close>

fun split_on :: "'a \<Rightarrow> 'a list \<Rightarrow> 'a list list" where
  "split_on c [] = [[]]"
| "split_on c (x # xs) =
     (if x = c then [] # split_on c xs
      else (case split_on c xs of [] \<Rightarrow> [[x]] | w # ws \<Rightarrow> (x # w) # ws))"

definition split_once :: "'a \<Rightarrow> 'a list \<Rightarrow> 'a list list" where
  "split_once c s =
     (if c \<in> set s then [takeWhile (\<lambda>x. x \<noteq> c) s, tl (dropWhile (\<lambda>x. x \<noteq> c) s)] else [s])"

text \<open>\<open>sep.join(xs)\<close>\<close>

fun join :: "'a list \<Rightarrow> 'a list list \<Rightarrow> 'a list" where
  "join sep [] = []"
| "join sep [x] = x"
| "join sep (x # y # ys) = x @ sep @ join sep (y # ys)"

lemma split_on_ne [simp]: "split_on c s \<noteq> []"
  by (induction s) (auto split: list.splits)

lemma join_split_on: "join [c] (split_on c s) = s"
proof (induction s)
  case (Cons x xs)
  obtain w ws where "split_on c xs = w # ws"
    by (meson split_on_ne neq_Nil_conv)
  with Cons show ?case by (cases ws) auto
qed simp

lemma split_on_word: "c \<notin> set w \<Longrightarrow> split_on c w = [w]"
  by (induction w) auto

lemma split_on_append: "c \<notin> set w \<Longrightarrow> split_on c (w @ c # s) = w # split_on c s"
  by (induction w) auto

lemma split_on_app: "split_on c (a @ c # b) = split_on c a @ split_on c b"
proof (induction a)
  case (Cons x a)
  then show ?case by (cases "split_on c a") auto
qed simp

lemma split_on_join:
  "xs \<noteq> [] \<Longrightarrow> (\<And>w. w \<in> set xs \<Longrightarrow> c \<notin> set w) \<Longrightarrow> split_on c (join [c] xs) = xs"
proof (induction xs rule: induct_list012)
  case (3 x y zs)
  then show ?case by (simp add: split_on_append)
qed (simp_all add: split_on_word)

lemma take_drop_until:
  assumes "c \<notin> set a"
  shows "takeWhile (\<lambda>x. x \<noteq> c) (a @ c # b) = a" "dropWhile (\<lambda>x. x \<noteq> c) (a @ c # b) = c # b"
  using assms by (induction a) auto

lemma split_once_join: "c \<in> set s \<Longrightarrow> \<exists>a b. split_once c s = [a, b] \<and> s = a @ c # b \<and> c \<notin> set a"
proof -
  assume "c \<in> set s"
  then obtain a b where ab: "s = a @ c # b" "c \<notin> set a"
    by (meson split_list_first)
  then have "takeWhile (\<lambda>x. x \<noteq> c) s = a" "dropWhile (\<lambda>x. x \<noteq> c) s = c # b"
    by (simp_all add: take_drop_until)
  then show ?thesis
    using ab \<open>c \<in> set s\<close> by (auto simp: split_once_def)
qed

lemma split_once_word: "c \<notin> set a \<Longrightarrow> split_once c (a @ c # b) = [a, b]"
  by (simp add: split_once_def take_drop_until)

text \<open>\<open>s.strip()\<close>\<close>

definition is_space :: "char \<Rightarrow> bool" where
  "is_space c \<longleftrightarrow> c \<in> {CHR '' '', CHR 0x09, CHR 0x0A, CHR 0x0B, CHR 0x0C, CHR 0x0D}"

definition strip :: "string \<Rightarrow> string" where
  "strip s = rev (dropWhile is_space (rev (dropWhile is_space s)))"

lemma strip_no_space: "(\<And>c. c \<in> set s \<Longrightarrow> \<not> is_space c) \<Longrightarrow> strip s = s"
proof -
  assume ns: "\<And>c. c \<in> set s \<Longrightarrow> \<not> is_space c"
  then have "dropWhile is_space t = t" if "set t \<subseteq> set s" for t
    using that by (cases t) auto
  then have "dropWhile is_space s = s" "dropWhile is_space (rev s) = rev s"
    by simp_all
  then show ?thesis by (simp add: strip_def)
qed

text \<open>\<open>s.upper()\<close> and \<open>s.capitalize()\<close> on bytes\<close>

definition upper :: "string \<Rightarrow> string" where
  "upper s = map (\<lambda>c. if 97 \<le> (of_char c :: nat) \<and> (of_char c :: nat) \<le> 122 then char_of ((of_char c :: nat) - 32) else c) s"

definition lower :: "string \<Rightarrow> string" where
  "lower s = map (\<lambda>c. if 65 \<le> (of_char c :: nat) \<and> (of_char c :: nat) \<le> 90 then char_of ((of_char c :: nat) + 32) else c) s"

definition capitalize :: "string \<Rightarrow> string" where
  "capitalize s = upper (take 1 s) @ lower (drop 1 s)"

text \<open>\<open>'%s' % x\<close> for a value that may be \<open>None\<close>\<close>

definition str_of_option :: "string option \<Rightarrow> string" where
  "str_of_option x = (case x of None \<Rightarrow> ''None'' | Some s \<Rightarrow> s)"

lemma str_of_option_simps [simp, str_simps]:
  "str_of_option None = ''None''" "str_of_option (Some s) = s"
  by (simp_all add: str_of_option_def)

subsection \<open>Decimal numbers\<close>

definition digit_char :: "nat \<Rightarrow> char" where
  "digit_char d = char_of (48 + d)"

fun show_nat :: "nat \<Rightarrow> string" where
  "show_nat n = (if n < 10 then [digit_char n] else show_nat (n div 10) @ [digit_char (n mod 10)])"

declare show_nat.simps [simp del]

definition show_int :: "int \<Rightarrow> string" where
  "show_int i = (if i < 0 then CHR ''-'' # show_nat (nat (- i)) else show_nat (nat i))"

definition is_digit :: "char \<Rightarrow> bool" where
  "is_digit c \<longleftrightarrow> 48 \<le> (of_char c :: nat) \<and> (of_char c :: nat) \<le> 57"

definition digit_val :: "char \<Rightarrow> nat" where
  "digit_val c = of_char c - 48"

text \<open>\<open>int(s)\<close> on a string of decimal digits\<close>

definition parse_nat :: "string \<Rightarrow> nat" where
  "parse_nat s = foldl (\<lambda>n c. 10 * n + digit_val c) 0 s"

lemma of_char_digit: "d < 10 \<Longrightarrow> (of_char (digit_char d) :: nat) = 48 + d"
  by (simp add: digit_char_def)

lemma digit_char_val [simp]: "d < 10 \<Longrightarrow> digit_val (digit_char d) = d"
  by (simp add: digit_val_def of_char_digit)

lemma is_digit_digit_char [simp]: "d < 10 \<Longrightarrow> is_digit (digit_char d)"
  by (simp add: is_digit_def of_char_digit)

lemma show_nat_ne [simp]: "show_nat n \<noteq> []"
  by (subst show_nat.simps) simp

lemma show_nat_digits: "c \<in> set (show_nat n) \<Longrightarrow> is_digit c"
proof (induction n rule: show_nat.induct)
  case (1 n)
  then show ?case
    by (subst (asm) show_nat.simps) (auto split: if_splits)
qed

lemma parse_show_nat [simp]: "parse_nat (show_nat n) = n"
proof (induction n rule: show_nat.induct)
  case (1 n)
  show ?case
  proof (cases "n < 10")
    case True
    then show ?thesis by (subst show_nat.simps) (simp add: parse_nat_def)
  next
    case False
    have "parse_nat (show_nat n) = 10 * parse_nat (show_nat (n div 10)) + n mod 10"
      using False by (subst show_nat.simps) (simp add: parse_nat_def)
    with False 1 show ?thesis by simp
  qed
qed

lemma show_nat_inject [simp]: "show_nat m = show_nat n \<longleftrightarrow> m = n"
  by (metis parse_show_nat)

subsection \<open>Paths (\<open>posixpath\<close>)\<close>

abbreviation slash :: char where "slash \<equiv> CHR ''/''"

definition path_join :: "string \<Rightarrow> string \<Rightarrow> string" where
  "path_join a b =
     (if prefix [slash] b then b
      else if a = [] \<or> last a = slash then a @ b
      else a @ [slash] @ b)"

definition path_join3 :: "string \<Rightarrow> string \<Rightarrow> string \<Rightarrow> string" where
  "path_join3 a b c = path_join (path_join a b) c"

definition basename :: "string \<Rightarrow> string" where
  "basename s = rev (takeWhile (\<lambda>c. c \<noteq> slash) (rev s))"

definition dirname :: "string \<Rightarrow> string" where
  "dirname path =
     (let head = rev (dropWhile (\<lambda>c. c \<noteq> slash) (rev path))
      in if list_all (\<lambda>c. c = slash) head then head else rev (dropWhile (\<lambda>c. c = slash) (rev head)))"

lemma basename_no_slash: "slash \<notin> set (basename s)"
  unfolding basename_def set_rev by (auto dest: set_takeWhileD)

lemma basename_join: "slash \<notin> set b \<Longrightarrow> basename (path_join a b) = b"
proof -
  assume ns: "slash \<notin> set b"
  then have np: "\<not> prefix [slash] b" by (cases b) auto
  have all: "\<forall>c \<in> set (rev b). c \<noteq> slash" using ns by auto
  have b1: "basename b = b"
    unfolding basename_def using all by (subst takeWhile_eq_all_conv[THEN iffD2]) auto
  have b2: "basename (u @ slash # b) = b" for u
    using take_drop_until [of slash "rev b" "rev u"] ns by (simp add: basename_def)
  show ?thesis
  proof (cases "a = []")
    case True
    then show ?thesis using np b1 by (simp add: path_join_def)
  next
    case False
    then obtain u c where a: "a = u @ [c]" by (metis append_butlast_last_id)
    then show ?thesis
      using np b2 [of u] b2 [of a] by (auto simp: path_join_def)
  qed
qed

text \<open>\<open>posixpath.normpath\<close> and \<open>abspath\<close>\<close>

definition norm_step :: "bool \<Rightarrow> string list \<Rightarrow> string \<Rightarrow> string list" where
  "norm_step rooted parts part =
     (if part = [] \<or> part = ''.'' then parts
      else if part \<noteq> ''..'' \<or> (\<not> rooted \<and> parts = []) \<or> (parts \<noteq> [] \<and> last parts = ''..'') then parts @ [part]
      else if parts \<noteq> [] then butlast parts else parts)"

definition normpath :: "string \<Rightarrow> string" where
  "normpath path =
     (let slashes = (if \<not> prefix [slash] path then []
                     else if prefix [slash, slash] path \<and> \<not> prefix [slash, slash, slash] path then [slash, slash]
                     else [slash]);
          s = slashes @ join [slash] (foldl (norm_step (slashes \<noteq> [])) [] (split_on slash path))
      in if s = [] then ''.'' else s)"

definition abspath :: "string \<Rightarrow> string \<Rightarrow> string" where
  "abspath directory path = normpath (path_join directory path)"

subsection \<open>Dictionaries\<close>

text \<open>
  A dictionary is an association list in the order of insertion, each key once.  Python 2
  iterates over a dictionary in an order that depends on the hashes of its keys: where the
  order can show, the model takes it as a parameter \<open>ord\<close> that permutes the keys.
\<close>

type_synonym ('k, 'v) dict = "('k \<times> 'v) list"

definition dict_keys :: "('k, 'v) dict \<Rightarrow> 'k list" where
  "dict_keys d = map fst d"

definition dict_has :: "('k, 'v) dict \<Rightarrow> 'k \<Rightarrow> bool" where
  "dict_has d k \<longleftrightarrow> k \<in> fst ` set d"

fun dict_put :: "'k \<Rightarrow> 'v \<Rightarrow> ('k, 'v) dict \<Rightarrow> ('k, 'v) dict" where
  "dict_put k v [] = [(k, v)]"
| "dict_put k v (p # d) = (if fst p = k then (k, v) # d else p # dict_put k v d)"

definition dict_get :: "('k, 'v) dict \<Rightarrow> 'k \<Rightarrow> 'v res" where
  "dict_get d k = (case map_of d k of None \<Rightarrow> Inl KeyError | Some v \<Rightarrow> Inr v)"

definition dict_del :: "'k \<Rightarrow> ('k, 'v) dict \<Rightarrow> ('k, 'v) dict" where
  "dict_del k d = filter (\<lambda>p. fst p \<noteq> k) d"

definition permuting :: "('a list \<Rightarrow> 'a list) \<Rightarrow> bool" where
  "permuting ord \<longleftrightarrow> (\<forall>xs. mset (ord xs) = mset xs)"

lemma permutingD:
  assumes "permuting ord"
  shows "mset (ord xs) = mset xs" "set (ord xs) = set xs" "length (ord xs) = length xs"
    "distinct (ord xs) = distinct xs"
proof -
  show m: "mset (ord xs) = mset xs" using assms by (simp add: permuting_def)
  show "set (ord xs) = set xs" using m by (rule mset_eq_setD)
  show "length (ord xs) = length xs" using m by (rule mset_eq_length)
  show "distinct (ord xs) = distinct xs" using m by (rule mset_eq_imp_distinct_iff)
qed

lemma permuting_id [simp]: "permuting (\<lambda>xs. xs)"
  by (simp add: permuting_def)

lemma permuting_rev [simp]: "permuting rev"
  by (simp add: permuting_def)

lemma map_of_dict_put [simp]: "map_of (dict_put k v d) = (map_of d)(k \<mapsto> v)"
  by (induction d) (auto simp: fun_eq_iff)

lemma keys_dict_put: "dict_keys (dict_put k v d) = (if dict_has d k then dict_keys d else dict_keys d @ [k])"
  by (induction d) (auto simp: dict_keys_def dict_has_def)

lemma map_of_dict_del [simp]: "map_of (dict_del k d) = (map_of d)(k := None)"
  by (induction d) (auto simp: dict_del_def fun_eq_iff)

lemma keys_dict_del: "dict_keys (dict_del k d) = filter (\<lambda>x. x \<noteq> k) (dict_keys d)"
  by (induction d) (auto simp: dict_keys_def dict_del_def)

lemma dict_has_iff: "dict_has d k \<longleftrightarrow> k \<in> set (dict_keys d)" "dict_has d k \<longleftrightarrow> map_of d k \<noteq> None"
  by (auto simp: dict_has_def dict_keys_def map_of_eq_None_iff)

lemma distinct_dict_put: "distinct (dict_keys d) \<Longrightarrow> distinct (dict_keys (dict_put k v d))"
  by (simp add: keys_dict_put dict_has_iff)

lemma distinct_dict_del: "distinct (dict_keys d) \<Longrightarrow> distinct (dict_keys (dict_del k d))"
  by (simp add: keys_dict_del)

end
