(* ===== verification/Rad_Util.thy ===== *)
theory Rad_Util
  imports Prelude
begin

section \<open>The utility functions of \<open>rad_util.py\<close>\<close>

text \<open>
  The integer, bit-string, list and dictionary helpers of
  \<^verbatim>\<open>bindings/python/rad_util.py\<close>, which the binding generator's topological sort
  and the scripts around it build on.  Integer division is Python 2's floor division, which
  is \<^theory_text>\<open>div\<close> on \<^typ>\<open>int\<close>.  The functions on floating-point numbers
  (quantiles, unit formatting, float ranges) are not modelled.
\<close>

unbundle bit_operations_syntax

subsection \<open>Slices\<close>

text \<open>\<open>s[:k]\<close> and \<open>s[k:]\<close>, where a negative bound counts from the end.\<close>

definition slice_to :: "'a list \<Rightarrow> int \<Rightarrow> 'a list" where
  "slice_to s k = (if k < 0 then take (nat (int (length s) + k)) s else take (nat k) s)"

definition slice_from :: "'a list \<Rightarrow> int \<Rightarrow> 'a list" where
  "slice_from s k = (if k < 0 then drop (nat (int (length s) + k)) s else drop (nat k) s)"

subsection \<open>Binary strings\<close>

definition hex_chars :: string where
  "hex_chars = ''0123456789abcdef''"

fun show_hex :: "nat \<Rightarrow> string" where
  "show_hex n = (if n < 16 then [hex_chars ! n] else show_hex (n div 16) @ [hex_chars ! (n mod 16)])"

declare show_hex.simps [simp del]

text \<open>\<open>hex(i)\<close>, after the code has removed the \<open>L\<close> of a long integer\<close>

definition py_hex :: "int \<Rightarrow> string" where
  "py_hex i = (if i < 0 then ''-0x'' @ show_hex (nat (- i)) else ''0x'' @ show_hex (nat i))"

definition hex2bin :: "(char, string) dict" where
  "hex2bin = [(CHR ''0'', ''0000''), (CHR ''1'', ''0001''), (CHR ''2'', ''0010''), (CHR ''3'', ''0011''),
              (CHR ''4'', ''0100''), (CHR ''5'', ''0101''), (CHR ''6'', ''0110''), (CHR ''7'', ''0111''),
              (CHR ''8'', ''1000''), (CHR ''9'', ''1001''), (CHR ''a'', ''1010''), (CHR ''b'', ''1011''),
              (CHR ''c'', ''1100''), (CHR ''d'', ''1101''), (CHR ''e'', ''1110''), (CHR ''f'', ''1111'')]"

definition int2bin :: "int \<Rightarrow> int \<Rightarrow> string res" where
  "int2bin i n =
     bind_res (map_value concat (traverse_res (dict_get hex2bin) (drop 2 (py_hex i)))) (\<lambda>result.
       if CHR ''1'' \<in> set (slice_to result (- n)) then Inl ValueError
       else let result = slice_from result (- n)
            in Inr (replicate (nat (n - int (length result))) CHR ''0'' @ result))"

text \<open>\<open>int(bin_string, 2)\<close>: blanks around the number, a sign and a \<open>0b\<close> prefix are accepted.\<close>

definition bits_val :: "string \<Rightarrow> int" where
  "bits_val s = foldl (\<lambda>n c. 2 * n + (if c = CHR ''1'' then 1 else 0)) 0 s"

definition unsigned_bin :: "string \<Rightarrow> int res" where
  "unsigned_bin s =
     (let t = (if prefix ''0b'' s \<or> prefix ''0B'' s then drop 2 s else s)
      in if t \<noteq> [] \<and> set t \<subseteq> {CHR ''0'', CHR ''1''} then Inr (bits_val t) else Inl ValueError)"

definition bin2int :: "string \<Rightarrow> int res" where
  "bin2int bin_string =
     (case strip bin_string of
        [] \<Rightarrow> Inl ValueError
      | c # s \<Rightarrow> (if c = CHR ''-'' then map_value uminus (unsigned_bin s)
                  else if c = CHR ''+'' then unsigned_bin s
                  else unsigned_bin (c # s)))"

definition reverse :: "string \<Rightarrow> string" where
  "reverse input_string = rev input_string"

definition lsb :: "int \<Rightarrow> nat \<Rightarrow> int" where
  "lsb x n = x AND (2 ^ n - 1)"

definition gray_encode :: "int \<Rightarrow> int" where
  "gray_encode i = i XOR drop_bit 1 i"

text \<open>
  \<open>binary_range\<close>: the inner loop propagates the carry through \<open>v\<close> (lowest bit first), the
  outer loop runs until the carry leaves the highest bit.  The outer loop takes fuel;
  \<open>binary_range_total\<close> below shows that \<open>2 ^ bits\<close> rounds are enough.
\<close>

function binary_carry :: "nat \<Rightarrow> nat \<Rightarrow> string \<Rightarrow> nat list \<Rightarrow> string \<times> nat list" where
  "binary_carry bits i v toggle =
     (if i < bits \<and> toggle ! i = 1
      then if v ! i = CHR ''0''
           then binary_carry bits (Suc i) (v[i := CHR ''1'']) (toggle[Suc i := 0])
           else binary_carry bits (Suc i) (v[i := CHR ''0'']) (toggle[Suc i := 1])
      else (v, toggle))"
  by pat_completeness auto
termination
  by (relation "measure (\<lambda>(bits, i, v, toggle). bits - i)") auto

declare binary_carry.simps [simp del]

fun binary_rounds :: "nat \<Rightarrow> nat \<Rightarrow> string \<Rightarrow> nat list \<Rightarrow> string list \<Rightarrow> string list option" where
  "binary_rounds fuel bits v toggle l =
     (if toggle ! bits = 1 then Some l
      else (case fuel of
              0 \<Rightarrow> None
            | Suc fuel' \<Rightarrow>
                (case binary_carry bits 0 v (1 # replicate bits 0) of
                   (v', toggle') \<Rightarrow> binary_rounds fuel' bits v' toggle' (l @ [rev v]))))"

declare binary_rounds.simps [simp del]

definition binary_range :: "nat \<Rightarrow> string list option" where
  "binary_range bits = binary_rounds (2 ^ bits) bits (replicate bits CHR ''0'') (1 # replicate bits 0) []"

subsection \<open>Integers\<close>

text \<open>
  Euclid's loop on integers.  Python's \<open>%\<close> takes the sign of the divisor, as
  \<^theory_text>\<open>mod\<close> does; \<open>epsilon\<close> is a float, here a rational.
\<close>

function gcf_loop :: "rat \<Rightarrow> int \<Rightarrow> int \<Rightarrow> int" where
  "gcf_loop epsilon result remainder =
     (if remainder \<noteq> 0 \<and> epsilon < of_int \<bar>remainder\<bar>
      then gcf_loop epsilon remainder (result mod remainder)
      else \<bar>result\<bar>)"
  by pat_completeness auto
termination
  by (relation "measure (\<lambda>(epsilon, result, remainder). nat \<bar>remainder\<bar>)")
    (auto simp: abs_mod_less)

declare gcf_loop.simps [simp del]

definition gcf_epsilon :: "rat \<Rightarrow> int \<Rightarrow> int \<Rightarrow> int" where
  "gcf_epsilon epsilon a b = gcf_loop epsilon (max a b) (min a b)"

definition gcf :: "int \<Rightarrow> int \<Rightarrow> int" where
  "gcf a b = gcf_epsilon (1 / 10 ^ 16) a b"

definition lcm_py :: "int \<Rightarrow> int \<Rightarrow> int" where
  "lcm_py a b = (let denom = gcf a b in if denom = 0 then 0 else a * (b div denom))"

definition reduce_fraction :: "int \<times> int \<Rightarrow> (int \<times> int) res" where
  "reduce_fraction fraction =
     (case fraction of (numerator, denominator) \<Rightarrow>
        let common_factor = \<bar>gcf numerator denominator\<bar>
        in if common_factor = 0 then Inl ZeroDivisionError
           else Inr (numerator div common_factor, denominator div common_factor))"

text \<open>
  \<open>round_grid\<close> on integers: \<open>add_one\<close> is only assigned on three of the paths, so reading it
  may raise.
\<close>

definition round_grid :: "int \<Rightarrow> int \<Rightarrow> int \<Rightarrow> int res" where
  "round_grid value grid mode =
     (if grid = 0 then Inl ZeroDivisionError
      else let off_grid = value mod grid;
               add_one = (if mode = 0 then Some (if grid \<le> 2 * off_grid then 1 else 0)
                          else if mode = 1 \<and> off_grid \<noteq> 0 then Some 1
                          else if mode = -1 \<and> off_grid \<noteq> 0 then Some 0
                          else None)
           in case add_one of
                None \<Rightarrow> Inl UnboundLocalError
              | Some k \<Rightarrow> Inr ((value div grid + k) * grid))"

text \<open>
  The area of a polygon with integer corners.  The code scales and closes the caller's list
  in place, so the scaled list is part of the result; the quotient at the end is exact here.
\<close>

fun polygon_sum :: "(int \<times> int) list \<Rightarrow> int \<Rightarrow> int" where
  "polygon_sum ((x_i, y_i) # (x_i_plus_1, y_i_plus_1) # ps) area =
     polygon_sum ((x_i_plus_1, y_i_plus_1) # ps) (area + x_i_plus_1 * y_i - y_i_plus_1 * x_i)"
| "polygon_sum ps area = area"

definition polygon_area :: "(int \<times> int) list \<Rightarrow> int \<Rightarrow> ((int \<times> int) list \<times> rat) res" where
  "polygon_area points_list precision =
     (let scaled = map (\<lambda>(x, y). (x * precision, y * precision)) points_list
      in if scaled = [] then Inl IndexError
         else let closed = (if last scaled \<noteq> hd scaled then scaled @ [hd scaled] else scaled);
                  area = \<bar>polygon_sum closed 0 div 2\<bar>
              in if precision = 0 then Inl ZeroDivisionError
                 else Inr (closed, of_int area / of_int (precision ^ 2)))"

subsection \<open>Lists\<close>

definition transpose_py :: "'a list list \<Rightarrow> 'a list list" where
  "transpose_py matrix =
     (if matrix = [] then []
      else map (\<lambda>j. map (\<lambda>row. row ! j) matrix) [0..<Min (set (map length matrix))])"

function permutations :: "'a list \<Rightarrow> 'a list list" where
  "permutations input_list =
     (if 1 < length input_list
      then let item = hd input_list; sub_lists = permutations (tl input_list)
           in concat (map (\<lambda>sub_list. map (\<lambda>i. take i sub_list @ item # drop i sub_list)
                                          [0..<length input_list]) sub_lists)
      else [input_list])"
  by pat_completeness auto
termination
  by (relation "measure length") auto

declare permutations.simps [simp del]

text \<open>
  \<open>uniquify\<close>: the dictionary-based passes for hashable items, and the list-based pass that
  the \<open>TypeError\<close> of an unhashable item leads to.  \<open>ord\<close> is the iteration order of \<open>d.keys()\<close>.
\<close>

fun uniq_first :: "'a list \<Rightarrow> 'a list \<Rightarrow> 'a list" where
  "uniq_first d [] = []"
| "uniq_first d (x # seq) = (if x \<in> set d then uniq_first d seq else x # uniq_first (x # d) seq)"

fun uniq_slow :: "'a list \<Rightarrow> 'a list \<Rightarrow> 'a list" where
  "uniq_slow result [] = result"
| "uniq_slow result (x # seq) = uniq_slow (if x \<notin> set result then result @ [x] else result) seq"

definition uniquify :: "('a list \<Rightarrow> 'a list) \<Rightarrow> bool \<Rightarrow> 'a list \<Rightarrow> bool \<Rightarrow> 'a list" where
  "uniquify ord hashable seq preserve_order =
     (if hashable
      then if preserve_order then uniq_first [] seq
           else ord (dict_keys (foldl (\<lambda>d x. dict_put x (0::int) d) [] seq))
      else uniq_slow [] seq)"

definition reverse_dict :: "('k list \<Rightarrow> 'k list) \<Rightarrow> ('k, 'v) dict \<Rightarrow> ('v, 'k) dict" where
  "reverse_dict ord d =
     foldl (\<lambda>result key. dict_put (the (map_of d key)) key result) [] (ord (dict_keys d))"

function fixes_prefix :: "'a list \<Rightarrow> 'a list \<Rightarrow> nat \<Rightarrow> nat \<Rightarrow> 'a list \<Rightarrow> 'a list" where
  "fixes_prefix s1 s2 common_len i acc =
     (if i < common_len
      then if s1 ! i \<noteq> s2 ! i then acc else fixes_prefix s1 s2 common_len (Suc i) (acc @ [s1 ! i])
      else acc)"
  by pat_completeness auto
termination
  by (relation "measure (\<lambda>(s1, s2, common_len, i, acc). common_len - i)") auto

function fixes_suffix :: "'a list \<Rightarrow> 'a list \<Rightarrow> nat \<Rightarrow> nat \<Rightarrow> 'a list \<Rightarrow> 'a list" where
  "fixes_suffix s1 s2 common_len i acc =
     (if i < common_len + 1
      then if s1 ! (length s1 - i) \<noteq> s2 ! (length s2 - i) then acc
           else fixes_suffix s1 s2 common_len (Suc i) (acc @ [s1 ! (length s1 - i)])
      else acc)"
  by pat_completeness auto
termination
  by (relation "measure (\<lambda>(s1, s2, common_len, i, acc). common_len + 1 - i)") auto

declare fixes_prefix.simps [simp del] fixes_suffix.simps [simp del]

definition find_common_fixes :: "'a list \<Rightarrow> 'a list \<Rightarrow> 'a list \<times> 'a list" where
  "find_common_fixes s1 s2 =
     (let common_len = min (length s1) (length s2)
      in (fixes_prefix s1 s2 common_len 0 [], rev (fixes_suffix s1 s2 common_len 1 [])))"

definition is_rotated :: "'a list \<Rightarrow> 'a list \<Rightarrow> bool res" where
  "is_rotated seq1 seq2 =
     (if length seq1 \<noteq> length seq2 then Inr False
      else case seq2 of
             [] \<Rightarrow> Inl IndexError
           | head_item # _ \<Rightarrow>
               let start_indexes = filter (\<lambda>index1. seq1 ! index1 = head_item) [0..<length seq1];
                   double_seq1 = seq1 @ seq1
               in Inr (list_ex (\<lambda>index1. take (length seq1) (drop index1 double_seq1) = seq2)
                        start_indexes))"

subsection \<open>Command line arguments\<close>

datatype arg_value = OptValue string | OptNone | ArgList "string list"

fun get_args_loop :: "string list \<Rightarrow> (string, arg_value) dict \<Rightarrow> string list \<Rightarrow> (string, arg_value) dict" where
  "get_args_loop [] d args = dict_put ''args'' (ArgList args) d"
| "get_args_loop (arg # argv) d args =
     (if prefix ''-'' arg
      then (case split_on CHR ''='' (dropWhile (\<lambda>c. c = CHR ''-'') arg) of
              [k, v] \<Rightarrow> get_args_loop argv (dict_put k (OptValue v) d) args
            | parts \<Rightarrow> get_args_loop argv (dict_put (hd parts) OptNone d) args)
      else get_args_loop argv d (args @ [arg]))"

definition get_args :: "string list \<Rightarrow> (string, arg_value) dict" where
  "get_args argv = get_args_loop argv [] []"

subsection \<open>Correctness of the binary strings\<close>

abbreviation is_bits :: "string \<Rightarrow> bool" where
  "is_bits s \<equiv> set s \<subseteq> {CHR ''0'', CHR ''1''}"

lemma bits_val_append: "bits_val (xs @ ys) = bits_val xs * 2 ^ length ys + bits_val ys"
proof (induction ys rule: rev_induct)
  case (snoc y ys)
  then show ?case by (simp add: bits_val_def algebra_simps flip: append_assoc)
qed (simp add: bits_val_def)

lemma bits_val_bounds: "0 \<le> bits_val s \<and> bits_val s < 2 ^ length s"
  by (induction s rule: rev_induct) (auto simp: bits_val_def)

lemma bits_val_zeros: "CHR ''1'' \<notin> set s \<Longrightarrow> bits_val s = 0"
  by (induction s rule: rev_induct) (auto simp: bits_val_def)

lemma bits_val_one: "CHR ''1'' \<in> set s \<Longrightarrow> 1 \<le> bits_val s"
proof (induction s rule: rev_induct)
  case (snoc c s)
  have "bits_val (s @ [c]) = 2 * bits_val s + (if c = CHR ''1'' then 1 else 0)"
    by (simp add: bits_val_def)
  with snoc bits_val_bounds [of s] show ?case by (auto split: if_splits)
qed simp

lemma bits_val_Nil [simp]: "bits_val [] = 0"
  by (simp add: bits_val_def)

lemma nibbles: "\<forall>d < 16. \<exists>s. dict_get hex2bin (hex_chars ! d) = Inr s \<and> bits_val s = int d \<and> length s = 4 \<and> is_bits s"
proof -
  let ?P = "\<lambda>d. case dict_get hex2bin (hex_chars ! d) of Inl _ \<Rightarrow> False
    | Inr s \<Rightarrow> bits_val s = int d \<and> length s = 4 \<and> list_all (\<lambda>c. c = CHR ''0'' \<or> c = CHR ''1'') s"
  have "list_all ?P [0..<16]" by code_simp
  then have P: "?P d" if "d < 16" for d using that by (simp only: list_all_iff set_upt) simp
  show ?thesis
  proof (intro allI impI)
    fix d :: nat assume "d < 16"
    from P [OF this] show "\<exists>s. dict_get hex2bin (hex_chars ! d) = Inr s \<and> bits_val s = int d \<and> length s = 4 \<and> is_bits s"
      by (auto simp: list_all_iff split: sum.splits)
  qed
qed

lemma hex_to_bits:
  "\<exists>s. map_value concat (traverse_res (dict_get hex2bin) (show_hex n)) = Inr s \<and> bits_val s = int n \<and> is_bits s"
proof (induction n rule: show_hex.induct)
  case (1 n)
  show ?case
  proof (cases "n < 16")
    case True
    then show ?thesis
      using nibbles by (subst show_hex.simps) fastforce
  next
    case False
    from 1 False obtain u where u: "traverse_res (dict_get hex2bin) (show_hex (n div 16)) = Inr u"
      "bits_val (concat u) = int (n div 16)" "is_bits (concat u)"
      by (auto simp: map_value_eq_Inr)
    obtain s where s: "dict_get hex2bin (hex_chars ! (n mod 16)) = Inr s" "bits_val s = int (n mod 16)"
      "length s = 4" "is_bits s"
      using nibbles by (meson mod_less_divisor zero_less_numeral)
    have "bits_val (concat u @ s) = int n"
      using u s by (simp add: bits_val_append zdiv_int zmod_int)
    then show ?thesis
      using False u s by (subst show_hex.simps) (simp add: traverse_res_append)
  qed
qed

lemma bin2int_bits:
  assumes "s \<noteq> []" "is_bits s"
  shows "bin2int s = Inr (bits_val s)"
proof -
  have st: "strip s = s"
    using assms(2) by (intro strip_no_space) (auto simp: is_space_def)
  obtain c t where s: "s = c # t" using assms(1) by (cases s) auto
  have np: "\<not> prefix ''0b'' s" "\<not> prefix ''0B'' s"
    using assms(2) by (auto simp: prefix_def)
  have "c = CHR ''0'' \<or> c = CHR ''1''" using assms(2) s by auto
  then have "c \<noteq> CHR ''-''" "c \<noteq> CHR ''+''" by auto
  then have "bin2int s = unsigned_bin s" using st by (simp add: bin2int_def s)
  also have "\<dots> = Inr (bits_val s)" using np assms by (simp add: unsigned_bin_def)
  finally show ?thesis .
qed

lemma bits_val_replicate: "bits_val (replicate m CHR ''0'' @ s) = bits_val s"
  using bits_val_zeros [of "replicate m CHR ''0''"] by (simp add: bits_val_append)

lemma int2bin_eq:
  assumes "0 \<le> i" and "0 < n"
  obtains p q where "int2bin i (int n) = (if CHR ''1'' \<in> set p then Inl ValueError
      else Inr (replicate (n - length q) CHR ''0'' @ q))"
    and "i = bits_val p * 2 ^ length q + bits_val q" and "is_bits q"
    and "length q \<le> n" and "p \<noteq> [] \<Longrightarrow> length q = n"
proof -
  have h: "drop 2 (py_hex i) = show_hex (nat i)" using assms by (simp add: py_hex_def)
  obtain s where s: "map_value concat (traverse_res (dict_get hex2bin) (show_hex (nat i))) = Inr s"
    "bits_val s = i" "is_bits s"
    using hex_to_bits [of "nat i"] assms by auto
  define k where "k = length s - n"
  have sl: "slice_to s (- int n) = take k s" "slice_from s (- int n) = drop k s"
    using assms(2) by (simp_all add: slice_to_def slice_from_def k_def nat_diff_distrib')
  show thesis
  proof (rule that [of "take k s" "drop k s"])
    show "int2bin i (int n) = (if CHR ''1'' \<in> set (take k s) then Inl ValueError
        else Inr (replicate (n - length (drop k s)) CHR ''0'' @ drop k s))"
      using h s(1) sl by (simp add: int2bin_def Let_def nat_diff_distrib')
    show "i = bits_val (take k s) * 2 ^ length (drop k s) + bits_val (drop k s)"
      using s(2) bits_val_append [of "take k s" "drop k s"] by simp
    show "is_bits (drop k s)" using s(3) set_drop_subset [of k s] by blast
  qed (auto simp: k_def)
qed

lemma int2bin_bits:
  assumes "0 \<le> i" and "0 < n"
  shows "if i < 2 ^ n
         then \<exists>s. int2bin i (int n) = Inr s \<and> length s = n \<and> is_bits s \<and> bits_val s = i
         else int2bin i (int n) = Inl ValueError"
proof -
  obtain p q where eq: "int2bin i (int n) = (if CHR ''1'' \<in> set p then Inl ValueError
      else Inr (replicate (n - length q) CHR ''0'' @ q))"
    and i: "i = bits_val p * 2 ^ length q + bits_val q" and q: "is_bits q" "length q \<le> n"
    and p: "p \<noteq> [] \<Longrightarrow> length q = n"
    using int2bin_eq [OF assms] by metis
  have one: "CHR ''1'' \<in> set p \<longleftrightarrow> 2 ^ n \<le> i"
  proof
    assume in_p: "CHR ''1'' \<in> set p"
    then have "length q = n" using p by (cases p) auto
    moreover have "(1::int) * 2 ^ n \<le> bits_val p * 2 ^ n"
      using in_p bits_val_one by (intro mult_right_mono) auto
    ultimately have "2 ^ n \<le> bits_val p * 2 ^ length q" by simp
    then show "2 ^ n \<le> i" using i bits_val_bounds [of q] by linarith
  next
    assume le: "2 ^ n \<le> i"
    show "CHR ''1'' \<in> set p"
    proof (rule ccontr)
      assume "CHR ''1'' \<notin> set p"
      then have "i < 2 ^ length q" using i bits_val_zeros bits_val_bounds [of q] by simp
      also have "(2::int) ^ length q \<le> 2 ^ n" using q(2) by simp
      finally show False using le by simp
    qed
  qed
  show ?thesis
  proof (cases "i < 2 ^ n")
    case True
    let ?s = "replicate (n - length q) CHR ''0'' @ q"
    have "bits_val p = 0" using True one bits_val_zeros by auto
    then have "bits_val ?s = i" using i by (simp add: bits_val_replicate)
    moreover have "is_bits ?s" "length ?s = n" using q by auto
    ultimately show ?thesis using eq True one by auto
  next
    case False
    then show ?thesis using eq one by simp
  qed
qed

theorem int2bin_roundtrip:
  assumes "0 \<le> i" and "0 < n"
  shows "if i < 2 ^ n
         then \<exists>s. int2bin i (int n) = Inr s \<and> length s = n \<and> bin2int s = Inr i
         else int2bin i (int n) = Inl ValueError"
  using int2bin_bits [OF assms] assms(2) by (auto simp: bin2int_bits split: if_splits)

theorem int2bin_roundtrip_witness:
  "(0::int) \<le> 123 \<and> (\<exists>s. int2bin 123 8 = Inr s \<and> length s = 8 \<and> bin2int s = Inr 123)"
  using int2bin_roundtrip [of 123 8] by simp

lemma bits_val_inj:
  "length s = length t \<Longrightarrow> is_bits s \<Longrightarrow> is_bits t \<Longrightarrow> bits_val s = bits_val t \<Longrightarrow> s = t"
proof (induction s arbitrary: t rule: rev_induct)
  case (snoc c s)
  then obtain d t' where t: "t = t' @ [d]" by (metis length_append_singleton length_0_conv nat.simps(3) rev_exhaust)
  have e: "2 * bits_val s + (if c = CHR ''1'' then 1 else 0) = 2 * bits_val t' + (if d = CHR ''1'' then 1 else 0)"
    using snoc.prems(4) by (simp add: bits_val_def t)
  then have "bits_val s = bits_val t'" "(c = CHR ''1'') = (d = CHR ''1'')"
    by (auto split: if_splits; presburger)+
  with snoc t show ?case by auto
qed simp

lemma int2bin_of_bits:
  assumes "is_bits s" "s \<noteq> []"
  shows "int2bin (bits_val s) (int (length s)) = Inr s"
  using int2bin_bits [of "bits_val s" "length s"] bits_val_bounds [of s] assms bits_val_inj [of _ s]
  by auto

fun bit_incr :: "string \<Rightarrow> string \<times> bool" where
  "bit_incr [] = ([], True)"
| "bit_incr (c # cs) = (if c = CHR ''0'' then (CHR ''1'' # cs, False)
                        else (case bit_incr cs of (r, k) \<Rightarrow> (CHR ''0'' # r, k)))"

lemma bits_val_rev_Cons: "bits_val (rev (c # cs)) = 2 * bits_val (rev cs) + (if c = CHR ''1'' then 1 else 0)"
  by (simp add: bits_val_def)

lemma bit_incr_val:
  "is_bits v \<Longrightarrow> bit_incr v = (r, k) \<Longrightarrow> is_bits r \<and> length r = length v \<and>
     bits_val (rev r) + (if k then 2 ^ length v else 0) = bits_val (rev v) + 1"
proof (induction v arbitrary: r k)
  case (Cons c cs)
  then show ?case
    by (auto simp: bits_val_rev_Cons simp del: rev.simps split: if_splits prod.splits)
qed simp

lemma binary_carry_incr:
  "length v = bits \<Longrightarrow> length toggle = Suc bits \<Longrightarrow> i \<le> bits \<Longrightarrow> toggle ! i = 1 \<Longrightarrow> (i < bits \<longrightarrow> toggle ! bits = 0) \<Longrightarrow>
   \<exists>toggle'. binary_carry bits i v toggle = (take i v @ fst (bit_incr (drop i v)), toggle') \<and>
     (toggle' ! bits = 1 \<longleftrightarrow> snd (bit_incr (drop i v)))"
proof (induction bits i v toggle rule: binary_carry.induct)
  case (1 bits i v toggle)
  show ?case
  proof (cases "i < bits")
    case True
    then have d: "drop i v = v ! i # drop (Suc i) v" using "1.prems" by (simp add: Cons_nth_drop_Suc)
    show ?thesis
    proof (cases "v ! i = CHR ''0''")
      case zero: True
      have "binary_carry bits i v toggle = (v[i := CHR ''1''], toggle[Suc i := 0])"
        using True zero "1.prems"
        by (subst binary_carry.simps, subst binary_carry.simps) auto
      moreover have "v[i := CHR ''1''] = take i v @ CHR ''1'' # drop (Suc i) v"
        using True "1.prems" by (simp add: upd_conv_take_nth_drop)
      moreover have "toggle[Suc i := 0] ! bits \<noteq> 1"
        using True "1.prems" by (auto simp: nth_list_update)
      ultimately show ?thesis using zero d by simp
    next
      case False
      let ?v = "v[i := CHR ''0'']" and ?t = "toggle[Suc i := 1]"
      have "binary_carry bits i v toggle = binary_carry bits (Suc i) ?v ?t"
        using True False "1.prems" by (subst binary_carry.simps) simp
      moreover have "\<exists>toggle'. binary_carry bits (Suc i) ?v ?t = (take (Suc i) ?v @ fst (bit_incr (drop (Suc i) ?v)), toggle') \<and>
         (toggle' ! bits = 1 \<longleftrightarrow> snd (bit_incr (drop (Suc i) ?v)))"
        using True False "1.prems" by (intro "1.IH"(2)) (auto simp: nth_list_update)
      moreover have "take (Suc i) ?v = take i v @ [CHR ''0'']"
        using True "1.prems" by (simp add: take_Suc_conv_app_nth)
      ultimately show ?thesis
        using False d by (auto split: prod.splits)
    qed
  next
    case False
    then show ?thesis using "1.prems" by (subst binary_carry.simps) auto
  qed
qed

lemma binary_rounds_list:
  assumes "length v = bits" "is_bits v" "bits_val (rev v) = int m" "toggle ! bits \<noteq> 1" "2 ^ bits \<le> m + fuel"
  shows "\<exists>rs. binary_rounds fuel bits v toggle l = Some (l @ rs) \<and>
     list_all2 (\<lambda>s k. is_bits s \<and> length s = bits \<and> bits_val s = int k) rs [m..<2 ^ bits]"
  using assms
proof (induction fuel arbitrary: v m toggle l)
  case 0
  then show ?case using bits_val_bounds [of "rev v"] by simp
next
  case (Suc fuel)
  have m: "m < 2 ^ bits"
    using bits_val_bounds [of "rev v"] Suc.prems by simp
  obtain t' where c: "binary_carry bits 0 v (1 # replicate bits 0) = (fst (bit_incr v), t')"
    "t' ! bits = 1 \<longleftrightarrow> snd (bit_incr v)"
    using binary_carry_incr [of v bits "1 # replicate bits 0" 0] Suc.prems by (auto simp: nth_Cons')
  obtain r k where rk: "bit_incr v = (r, k)" by force
  have r: "is_bits r" "length r = bits" "bits_val (rev r) + (if k then 2 ^ bits else 0) = int m + 1"
    using bit_incr_val [OF Suc.prems(2) rk] Suc.prems by auto
  have step: "binary_rounds (Suc fuel) bits v toggle l = binary_rounds fuel bits r t' (l @ [rev v])"
    using Suc.prems(4) c rk by (subst binary_rounds.simps) simp
  have upt: "[m..<2 ^ bits] = m # [Suc m..<2 ^ bits]" using m by (simp add: upt_conv_Cons)
  show ?case
  proof (cases k)
    case True
    then have "bits_val (rev r) = int m + 1 - 2 ^ bits" using r(3) by simp
    then have "Suc m = 2 ^ bits" using bits_val_bounds [of "rev r"] r(2) m
      by (metis add.commute add_diff_cancel_right' diff_ge_0_iff_ge le_antisym of_nat_Suc of_nat_le_numeral_power_cancel_iff not_less_eq_eq numeral_power_le_of_nat_cancel_iff not_le Suc_leI)
    moreover have "binary_rounds fuel bits r t' (l @ [rev v]) = Some (l @ [rev v])"
      using True c rk by (subst binary_rounds.simps) simp
    ultimately show ?thesis using step upt Suc.prems by (intro exI [of _ "[rev v]"]) simp
  next
    case False
    then obtain rs where "binary_rounds fuel bits r t' (l @ [rev v]) = Some ((l @ [rev v]) @ rs)"
      "list_all2 (\<lambda>s k. is_bits s \<and> length s = bits \<and> bits_val s = int k) rs [Suc m..<2 ^ bits]"
      using Suc.IH [of r "Suc m" t' "l @ [rev v]"] r c rk Suc.prems by auto
    then show ?thesis using step upt Suc.prems by (intro exI [of _ "rev v # rs"]) simp
  qed
qed

theorem binary_range_all:
  assumes "0 < bits"
  shows "\<exists>l. binary_range bits = Some l \<and> list_all2 (\<lambda>s k. int2bin (int k) (int bits) = Inr s) l [0..<2 ^ bits]"
proof -
  obtain rs where rs: "binary_range bits = Some rs"
    "list_all2 (\<lambda>s k. is_bits s \<and> length s = bits \<and> bits_val s = int k) rs [0..<2 ^ bits]"
    using binary_rounds_list [of "replicate bits CHR ''0''" bits 0 "1 # replicate bits 0" "2 ^ bits" "[]"] assms
      bits_val_zeros [of "replicate bits CHR ''0''"]
    by (auto simp: binary_range_def)
  have "list_all2 (\<lambda>s k. int2bin (int k) (int bits) = Inr s) rs [0..<2 ^ bits]"
    using rs(2) by (rule list_all2_mono) (use int2bin_of_bits assms in fastforce)
  with rs(1) show ?thesis by blast
qed

theorem binary_range_all_witness:
  "\<exists>l. binary_range 2 = Some l \<and> list_all2 (\<lambda>s k. int2bin (int k) (int 2) = Inr s) l [0..<2 ^ 2]"
  by (rule binary_range_all) simp

lemma binary_range_zero: "binary_range 0 = Some []"
  by (simp add: binary_range_def binary_rounds.simps)

subsection \<open>Correctness of the integer functions\<close>

lemma gcf_loop_gcd: "0 \<le> epsilon \<Longrightarrow> epsilon < 1 \<Longrightarrow> gcf_loop epsilon r m = gcd r m"
proof (induction epsilon r m rule: gcf_loop.induct)
  case (1 epsilon r m)
  show ?case
  proof (cases "m = 0")
    case True
    then show ?thesis by (subst gcf_loop.simps) simp
  next
    case False
    then have "1 \<le> \<bar>m\<bar>" by arith
    then have "(of_int 1 :: rat) \<le> of_int \<bar>m\<bar>" by (subst of_int_le_iff)
    then have "epsilon < of_int \<bar>m\<bar>" using "1.prems" by linarith
    with False 1 have "gcf_loop epsilon r m = gcd m (r mod m)"
      by (subst gcf_loop.simps) simp
    then show ?thesis by (simp only: gcd_red_int [of r m])
  qed
qed

theorem gcf_is_gcd: "gcf a b = gcd a b"
  by (simp add: gcf_def gcf_epsilon_def gcf_loop_gcd max_def min_def gcd.commute)

theorem lcm_is_lcm: "\<bar>lcm_py a b\<bar> = lcm a b"
proof (cases "gcd a b = 0")
  case False
  then have "lcm_py a b = a * b div gcd a b"
    by (simp add: lcm_py_def gcf_is_gcd div_mult_swap)
  then show ?thesis by (simp add: lcm_gcd)
qed (simp add: lcm_py_def gcf_is_gcd)

theorem reduce_fraction_lowest:
  "(reduce_fraction (a, b) = Inl ZeroDivisionError \<longleftrightarrow> a = 0 \<and> b = 0) \<and>
   (\<forall>p q. reduce_fraction (a, b) = Inr (p, q) \<longrightarrow> coprime p q \<and> p * b = q * a)"
proof (cases "gcd a b = 0")
  case False
  then have "coprime (a div gcd a b) (b div gcd a b)"
    by (intro div_gcd_coprime) auto
  moreover have "(a div gcd a b) * b = (b div gcd a b) * a"
    by (simp add: div_mult_swap mult.commute)
  ultimately show ?thesis using False by (auto simp: reduce_fraction_def gcf_is_gcd Let_def)
qed (simp add: reduce_fraction_def gcf_is_gcd)

theorem reduce_fraction_lowest_witness:
  "reduce_fraction (4, 6) = Inr (2, 3) \<and> coprime (2::int) 3 \<and> (2::int) * 6 = 3 * 4"
proof -
  have r: "reduce_fraction (4, 6) = Inr (2, 3)" by code_simp
  with reduce_fraction_lowest[of 4 6] show ?thesis by blast
qed

theorem round_grid_unbound:
  "round_grid value grid mode = Inl UnboundLocalError \<longleftrightarrow>
     grid \<noteq> 0 \<and> mode \<noteq> 0 \<and> (grid dvd value \<or> mode \<notin> {1, -1})"
  by (auto simp: round_grid_def Let_def dvd_eq_mod_eq_0 split: option.splits)

theorem round_grid_unbound_witness: "round_grid 10 5 1 = Inl UnboundLocalError"
  using round_grid_unbound[of 10 5 1] by simp

lemma permutations_unfold:
  "permutations [] = [[]]" "permutations [x] = [[x]]"
  "xs \<noteq> [] \<Longrightarrow> permutations (x # xs) =
     concat (map (\<lambda>ys. map (\<lambda>i. take i ys @ x # drop i ys) [0..<Suc (length xs)]) (permutations xs))"
  by (subst permutations.simps, force simp: Let_def)+

lemma permutations_Cons:
  "permutations (x # xs) =
     concat (map (\<lambda>ys. map (\<lambda>i. take i ys @ x # drop i ys) [0..<Suc (length xs)]) (permutations xs))"
  by (cases "xs = []") (simp_all add: permutations_unfold)

lemma permutations_mset: "set (permutations xs) = {ys. mset ys = mset xs}"
proof (induction xs)
  case (Cons x xs)
  show ?case
  proof (intro set_eqI iffI)
    fix ys assume "ys \<in> set (permutations (x # xs))"
    then obtain zs i where "zs \<in> set (permutations xs)" "ys = take i zs @ x # drop i zs"
      by (auto simp: permutations_Cons simp del: upt_Suc)
    then show "ys \<in> {ys. mset ys = mset (x # xs)}"
      using Cons by simp (metis append_take_drop_id mset_append)
  next
    fix ys assume "ys \<in> {ys. mset ys = mset (x # xs)}"
    then have m: "mset ys = add_mset x (mset xs)" by simp
    then have "x \<in> set ys" by (metis mset_eq_setD list.set_intros(1) mset.simps(2))
    then obtain us vs where ys: "ys = us @ x # vs" by (meson split_list)
    define zs where "zs = us @ vs"
    have z: "mset zs = mset xs" using m ys by (simp add: zs_def)
    then have "zs \<in> set (permutations xs)" "length us < Suc (length xs)"
      using Cons mset_eq_length [OF z] by (simp_all add: zs_def)
    moreover have "ys = take (length us) zs @ x # drop (length us) zs"
      using ys by (simp add: zs_def)
    ultimately show "ys \<in> set (permutations (x # xs))"
      by (auto simp: permutations_Cons simp del: upt_Suc intro!: bexI [of _ zs] image_eqI [of _ _ "length us"])
  qed
qed (simp add: permutations_unfold)

lemma length_permutations: "length (permutations xs) = fact (length xs)"
  by (induction xs) (simp_all add: permutations_unfold permutations_Cons length_concat comp_def sum_list_triv)

lemma uniq_first_spec: "set (uniq_first d xs) = set xs - set d \<and> distinct (uniq_first d xs)"
  by (induction d xs rule: uniq_first.induct) auto

lemma uniq_first_subseq: "subseq (uniq_first d xs) xs"
  by (induction d xs rule: uniq_first.induct) auto

lemma uniq_first_cong: "set d = set d' \<Longrightarrow> uniq_first d xs = uniq_first d' xs"
proof (induction xs arbitrary: d d')
  case (Cons x xs)
  have "uniq_first (x # d) xs = uniq_first (x # d') xs"
    using Cons.prems by (intro Cons.IH) auto
  moreover have "uniq_first d xs = uniq_first d' xs" using Cons.prems by (rule Cons.IH)
  ultimately show ?case using Cons.prems by auto
qed simp

lemma uniq_slow_first: "uniq_slow r xs = r @ uniq_first r xs"
proof (induction r xs rule: uniq_slow.induct)
  case (2 r x xs)
  then show ?case using uniq_first_cong [of "r @ [x]" "x # r" xs] by simp
qed simp

lemma dict_keys_puts: "dict_keys (foldl (\<lambda>d x. dict_put x v d) d xs) = uniq_slow (dict_keys d) xs"
  by (induction xs arbitrary: d) (simp_all add: keys_dict_put dict_has_iff)

lemma uniquify_eq:
  "uniquify ord h xs p = (if h \<and> \<not> p then ord (uniq_first [] xs) else uniq_first [] xs)"
  by (simp add: uniquify_def dict_keys_puts uniq_slow_first) (simp add: dict_keys_def)

theorem uniquify_spec:
  assumes "permuting ord"
  shows "set (uniquify ord h xs p) = set xs \<and> distinct (uniquify ord h xs p) \<and>
         (h \<and> p \<longrightarrow> uniquify ord h xs p = uniquify ord False xs p) \<and>
         (h \<longrightarrow> p \<longrightarrow> subseq (uniquify ord h xs p) xs)"
  using uniq_first_spec [of "[]" xs] uniq_first_subseq [of "[]" xs] permutingD [OF assms]
  by (simp add: uniquify_eq)

theorem uniquify_spec_witness:
  "set (uniquify (\<lambda>xs. xs) True [3::nat, 1, 3] True) = set [3::nat, 1, 3] \<and>
   distinct (uniquify (\<lambda>xs. xs) True [3::nat, 1, 3] True) \<and>
   subseq (uniquify (\<lambda>xs. xs) True [3::nat, 1, 3] True) [3, 1, 3]"
  using uniquify_spec[OF permuting_id, of True "[3::nat, 1, 3]" True] by blast

lemma double_slice:
  "i < length s \<Longrightarrow> take (length s) (drop i (s @ s)) = rotate i s"
  by (simp add: rotate_drop_take)

lemma is_rotated_iff:
  assumes "seq2 \<noteq> []"
  shows "is_rotated seq1 seq2 = Inr (\<exists>k. rotate k seq1 = seq2)"
proof (cases "length seq1 = length seq2")
  case True
  obtain h t where h: "seq2 = h # t" using assms by (cases seq2) auto
  have n: "0 < length seq1" using True assms by simp
  have "(\<exists>i \<in> set (filter (\<lambda>i. seq1 ! i = h) [0..<length seq1]).
          take (length seq1) (drop i (seq1 @ seq1)) = seq2) \<longleftrightarrow> (\<exists>k. rotate k seq1 = seq2)"
  proof
    assume "\<exists>k. rotate k seq1 = seq2"
    then obtain k where k: "rotate k seq1 = seq2" by blast
    define i where "i = k mod length seq1"
    have i: "i < length seq1" "rotate i seq1 = seq2"
      using n k rotate_conv_mod [of k seq1] by (auto simp: i_def)
    then have "seq1 ! i = h"
      using h n by (metis hd_conv_nth hd_drop_conv_nth hd_append2 drop_eq_Nil
          rotate_drop_take mod_less list.sel(1) not_less)
    moreover have "take (length seq1) (drop i (seq1 @ seq1)) = seq2"
      using double_slice [OF i(1)] i(2) by (rule trans)
    ultimately show "\<exists>i \<in> set (filter (\<lambda>i. seq1 ! i = h) [0..<length seq1]).
          take (length seq1) (drop i (seq1 @ seq1)) = seq2"
      using i(1) by (intro bexI [of _ i]) simp_all
  next
    assume "\<exists>i \<in> set (filter (\<lambda>i. seq1 ! i = h) [0..<length seq1]).
          take (length seq1) (drop i (seq1 @ seq1)) = seq2"
    then obtain i where "i < length seq1" "take (length seq1) (drop i (seq1 @ seq1)) = seq2"
      by (auto simp del: drop_append take_append)
    then have "rotate i seq1 = seq2" using double_slice [of i seq1] by (simp only:)
    then show "\<exists>k. rotate k seq1 = seq2" by blast
  qed
  with True h show ?thesis by (simp add: is_rotated_def list_ex_iff)
qed (auto simp: is_rotated_def)

lemma transpose_py_involution:
  assumes "m \<noteq> []" "0 < w" "\<forall>row \<in> set m. length row = w"
  shows "transpose_py (transpose_py m) = m"
proof -
  have "set (map length m) = {w}" using assms by (cases m) auto
  then have t: "transpose_py m = map (\<lambda>j. map (\<lambda>row. row ! j) m) [0..<w]"
    using assms(1) by (simp add: transpose_py_def)
  then have l: "set (map length (transpose_py m)) = {length m}" "transpose_py m \<noteq> []"
    using assms(2) by auto
  then have "transpose_py (transpose_py m) = map (\<lambda>i. map (\<lambda>row. row ! i) (transpose_py m)) [0..<length m]"
    by (simp add: transpose_py_def)
  also have "\<dots> = map (\<lambda>i. m ! i) [0..<length m]"
  proof (rule map_cong)
    fix i assume "i \<in> set [0..<length m]"
    then have i: "i < length m" "length (m ! i) = w" using assms(3) by auto
    have "map (\<lambda>row. row ! i) (transpose_py m) = map (\<lambda>j. m ! i ! j) [0..<w]"
      using i t by simp
    also have "\<dots> = m ! i" using i(2) map_nth by metis
    finally show "map (\<lambda>row. row ! i) (transpose_py m) = m ! i" .
  qed simp
  finally show ?thesis by (simp add: map_nth)
qed

theorem transpose_py_involution_witness:
  "transpose_py (transpose_py [[1::nat, 2, 3], [4, 5, 6]]) = [[1, 2, 3], [4, 5, 6]]"
  by (rule transpose_py_involution[where w = 3]) simp_all

lemma gray_encode_rec:
  "gray_encode i = of_bool (odd i \<noteq> odd (i div 2)) + 2 * gray_encode (i div 2)"
  unfolding gray_encode_def by (subst xor_int_rec) (simp add: drop_bit_Suc)

lemma gray_encode_odd: "odd (gray_encode i) \<longleftrightarrow> odd i \<noteq> odd (i div 2)"
  by (subst gray_encode_rec) simp

lemma gray_encode_div2: "gray_encode i div 2 = gray_encode (i div 2)"
  by (subst gray_encode_rec) simp

lemma gray_xor_rec:
  "gray_encode i XOR gray_encode j =
     of_bool ((odd i \<noteq> odd (i div 2)) \<noteq> (odd j \<noteq> odd (j div 2))) + 2 * (gray_encode (i div 2) XOR gray_encode (j div 2))"
  by (subst xor_int_rec) (simp only: gray_encode_odd gray_encode_div2)

theorem gray_encode_adjacent: "\<exists>k. gray_encode (int n) XOR gray_encode (int n + 1) = 2 ^ k"
proof (induction n rule: less_induct)
  case (less n)
  show ?case
  proof (cases "even n")
    case True
    then have "(int n + 1) div 2 = int n div 2" by presburger
    then have "gray_encode (int n) XOR gray_encode (int n + 1) = 1"
      using True by (subst gray_xor_rec) simp
    then show ?thesis by (intro exI [of _ 0]) simp
  next
    case False
    define m where "m = n div 2"
    have m: "int n div 2 = int m" "(int n + 1) div 2 = int m + 1" "m < n"
      using False by (auto simp: m_def elim: oddE)
    obtain k where "gray_encode (int m) XOR gray_encode (int m + 1) = 2 ^ k"
      using less m(3) by blast
    then have "gray_encode (int n) XOR gray_encode (int n + 1) = 2 ^ Suc k"
      using False m by (subst gray_xor_rec) simp
    then show ?thesis by blast
  qed
qed

theorem gray_encode_inj: "gray_encode (int m) = gray_encode (int n) \<Longrightarrow> m = n"
proof (induction "m + n" arbitrary: m n rule: less_induct)
  case less
  show ?case
  proof (cases "m + n = 0")
    case False
    then have lt: "m div 2 + n div 2 < m + n" by auto
    have "gray_encode (int m) div 2 = gray_encode (int n) div 2" using less.prems by simp
    then have "gray_encode (int (m div 2)) = gray_encode (int (n div 2))"
      by (simp add: gray_encode_div2 zdiv_int)
    then have d: "m div 2 = n div 2" using less.hyps lt by blast
    have "odd (gray_encode (int m)) = odd (gray_encode (int n))" using less.prems by simp
    then have "odd (int m) = odd (int n)"
      using d by (simp add: gray_encode_odd flip: zdiv_int) (metis of_nat_numeral zdiv_int)
    then have "odd m = odd n" by simp
    with d show ?thesis by presburger
  qed simp
qed

theorem lsb_is_mod: "lsb x n = x mod 2 ^ n"
  by (simp add: lsb_def flip: mask_eq_exp_minus_1 take_bit_eq_mask take_bit_eq_mod)

lemma reverse_dict_lookup:
  assumes "permuting ord" "distinct (dict_keys d)" "inj_on (map_of d) (set (dict_keys d))"
  shows "map_of (reverse_dict ord d) v = Some k \<longleftrightarrow> map_of d k = Some v"
proof -
  have "map_of (foldl (\<lambda>result key. dict_put (the (map_of d key)) key result) r ks) v = Some k \<longleftrightarrow>
      (k \<in> set ks \<and> map_of d k = Some v) \<or> (map_of r v = Some k \<and> (\<forall>j \<in> set ks. map_of d j \<noteq> Some v))"
    if "set ks \<subseteq> set (dict_keys d)" for ks r
    using that
  proof (induction ks arbitrary: r)
    case (Cons j ks)
    then obtain w where w: "map_of d j = Some w" by (metis dict_has_iff insert_subset list.simps(15) not_Some_eq)
    have inj: "map_of d i = Some w \<Longrightarrow> i = j" for i
      using assms(3) w Cons.prems by (metis dict_has_iff inj_onD list.set_intros(1) option.distinct(1) subsetD)
    have IH: "map_of (foldl (\<lambda>result key. dict_put (the (map_of d key)) key result) (dict_put w j r) ks) v = Some k \<longleftrightarrow>
      (k \<in> set ks \<and> map_of d k = Some v) \<or> (((map_of r)(w \<mapsto> j)) v = Some k \<and> (\<forall>i \<in> set ks. map_of d i \<noteq> Some v))"
      using Cons.IH [of "dict_put w j r"] Cons.prems by simp
    show ?case
    proof (cases "v = w")
      case True
      have d: "map_of d i = Some w \<longleftrightarrow> i = j" for i using inj w by blast
      show ?thesis unfolding True foldl.simps w option.sel IH [unfolded True] d
        by (auto simp: d)
    next
      case False
      then show ?thesis using IH w by auto
    qed
  qed simp
  from this [of "ord (dict_keys d)" "[]"] permutingD(2) [OF assms(1)]
  show ?thesis by (auto simp: reverse_dict_def dict_has_iff(1) [symmetric] dict_has_iff(2))
qed

lemma fixes_prefix_lcp:
  "i \<le> n \<Longrightarrow> n = min (length s1) (length s2) \<Longrightarrow>
   fixes_prefix s1 s2 n i acc = acc @ longest_common_prefix (drop i s1) (drop i s2)"
proof (induction s1 s2 n i acc rule: fixes_prefix.induct)
  case (1 s1 s2 n i acc)
  show ?case
  proof (cases "i < n")
    case True
    then have "drop i s1 = s1 ! i # drop (Suc i) s1" "drop i s2 = s2 ! i # drop (Suc i) s2"
      using "1.prems" by (simp_all add: Cons_nth_drop_Suc)
    then show ?thesis
      using 1 True by (subst fixes_prefix.simps) simp
  next
    case False
    then have "drop i s1 = [] \<or> drop i s2 = []" using "1.prems" by auto
    then show ?thesis using False by (subst fixes_prefix.simps) auto
  qed
qed

lemma fixes_suffix_prefix:
  "fixes_suffix s1 s2 n (Suc i) acc = fixes_prefix (rev s1) (rev s2) n i acc" if "n \<le> min (length s1) (length s2)"
  using that
proof (induction s1 s2 n "Suc i" acc arbitrary: i rule: fixes_suffix.induct)
  case (1 s1 s2 n acc i)
  show ?case
  proof (cases "i < n")
    case True
    then have "rev s1 ! i = s1 ! (length s1 - Suc i)" "rev s2 ! i = s2 ! (length s2 - Suc i)"
      using "1.prems" by (simp_all add: rev_nth)
    then show ?thesis
      using 1 True by (subst fixes_suffix.simps, subst fixes_prefix.simps) simp
  next
    case False
    then show ?thesis by (subst fixes_suffix.simps, subst fixes_prefix.simps) simp
  qed
qed

theorem find_common_fixes_longest:
  "find_common_fixes s1 s2 =
     (longest_common_prefix s1 s2, rev (longest_common_prefix (rev s1) (rev s2)))"
proof -
  let ?n = "min (length s1) (length s2)"
  have "fixes_suffix s1 s2 ?n (Suc 0) [] = fixes_prefix (rev s1) (rev s2) ?n 0 []"
    by (rule fixes_suffix_prefix) simp
  also have "\<dots> = longest_common_prefix (rev s1) (rev s2)"
    by (simp add: fixes_prefix_lcp)
  finally show ?thesis by (simp add: find_common_fixes_def fixes_prefix_lcp Let_def)
qed

text \<open>
  With \<open>n = 0\<close> the slices \<open>[:-0]\<close> and \<open>[-0:]\<close> are the empty and the whole string, so no
  value is ever too large.
\<close>

lemma int2bin_zero_width: "int2bin 5 0 = Inr ''0101''"
  by code_simp

text \<open>
  The floor division happens before \<open>abs\<close>, so with a precision that leaves an odd sum the
  area depends on the orientation of the polygon.
\<close>

lemma polygon_area_orientation:
  "map_value snd (polygon_area [(0, 0), (1, 0), (0, 1)] 1) = Inr 1"
  "map_value snd (polygon_area [(0, 1), (1, 0), (0, 0)] 1) = Inr 0"
  by (simp_all add: polygon_area_def)

lemma get_args_loop_args:
  "map_of (get_args_loop argv d args) ''args'' = Some (ArgList (args @ filter (\<lambda>a. \<not> prefix ''-'' a) argv))"
  by (induction argv d args rule: get_args_loop.induct) (auto split: list.splits)

lemma get_args_positional:
  "map_of (get_args argv) ''args'' = Some (ArgList (filter (\<lambda>a. \<not> prefix ''-'' a) argv))"
  by (simp add: get_args_def get_args_loop_args)

end
