(* ===== verification/Topsort.thy ===== *)
theory Topsort
  imports Rad_Util
begin

section \<open>Dependency sorting and cycle finding (\<open>topsort.py\<close>)\<close>

text \<open>
  \<^verbatim>\<open>bindings/python/topsort.py\<close>: \<open>topsort\<close>, its variant \<open>topsort_levels\<close> and the cycle
  finder \<open>find_cycles\<close>.  \<open>num_parents\<close> and \<open>children\<close> are dictionaries; the order in which
  Python 2 iterates over one is the parameter \<open>ord\<close>.  A generator is modelled by the list of
  the values it yields together with how it ends.
\<close>

subsection \<open>Counting parents\<close>

datatype 'a sort_error =
    MissingKey
  | CycleError "'a list" "('a, int) dict" "('a, 'a list) dict"

definition add_pair ::
  "('a, int) dict \<times> ('a, 'a list) dict \<Rightarrow> 'a \<times> 'a \<Rightarrow> ('a, int) dict \<times> ('a, 'a list) dict" where
  "add_pair st pair =
     (case st of (num_parents, children) \<Rightarrow> case pair of (parent, child) \<Rightarrow>
        let np1 = (if dict_has num_parents parent then num_parents else dict_put parent 0 num_parents);
            np2 = (if dict_has np1 child then np1 else dict_put child 0 np1);
            np3 = dict_put child (the (map_of np2 child) + 1) np2;
            ch = dict_put parent ((case map_of children parent of None \<Rightarrow> [] | Some cs \<Rightarrow> cs) @ [child]) children
        in (np3, ch))"

definition build_counts :: "('a \<times> 'a) list \<Rightarrow> ('a, int) dict \<times> ('a, 'a list) dict" where
  "build_counts pairlist = foldl add_pair ([], []) pairlist"

definition orphans :: "('a list \<Rightarrow> 'a list) \<Rightarrow> ('a, int) dict \<Rightarrow> 'a list" where
  "orphans ord num_parents = filter (\<lambda>x. map_of num_parents x = Some 0) (ord (dict_keys num_parents))"

subsection \<open>\<open>topsort\<close>\<close>

text \<open>
  The loop over \<open>answer\<close>, which grows while it is iterated: \<open>done\<close> is the part already
  visited and \<open>todo\<close> the part still to come, \<open>answer = done @ todo\<close>.
\<close>

fun knock_children :: "'a list \<Rightarrow> ('a, int) dict \<Rightarrow> 'a list \<Rightarrow> 'a sort_error + ('a, int) dict \<times> 'a list" where
  "knock_children [] num_parents todo = Inr (num_parents, todo)"
| "knock_children (child # cs) num_parents todo =
     (case map_of num_parents child of
        None \<Rightarrow> Inl MissingKey
      | Some n \<Rightarrow> knock_children cs (dict_put child (n - 1) num_parents)
                   (if n - 1 = 0 then todo @ [child] else todo))"

lemma length_dict_put: "dict_has d k \<Longrightarrow> length (dict_put k v d) = length d"
  by (induction d) (auto simp: dict_has_def)

lemma length_dict_del: "dict_has d k \<Longrightarrow> length (dict_del k d) < length d"
  by (auto simp: dict_has_def dict_del_def intro: length_filter_less)

lemma knock_children_length:
  "knock_children cs np todo = Inr (np', todo') \<Longrightarrow> length np' = length np"
  by (induction cs np todo rule: knock_children.induct)
    (auto split: option.splits simp: length_dict_put dict_has_iff(2))

function topsort_loop ::
  "'a list \<Rightarrow> 'a list \<Rightarrow> ('a, int) dict \<Rightarrow> ('a, 'a list) dict \<Rightarrow>
   'a sort_error + 'a list \<times> ('a, int) dict \<times> ('a, 'a list) dict" where
  "topsort_loop [] visited num_parents children = Inr (visited, num_parents, children)"
| "topsort_loop (parent # todo) visited num_parents children =
     (if \<not> dict_has num_parents parent then Inl MissingKey
      else let np = dict_del parent num_parents
           in case map_of children parent of
                None \<Rightarrow> topsort_loop todo (visited @ [parent]) np children
              | Some cs \<Rightarrow>
                  (case knock_children cs np todo of
                     Inl e \<Rightarrow> Inl e
                   | Inr (np', todo') \<Rightarrow>
                       topsort_loop todo' (visited @ [parent]) np' (dict_del parent children)))"
  by pat_completeness auto
termination
  by (relation "measure (\<lambda>(todo, visited, np, ch). length np)")
    (auto dest: knock_children_length simp: length_dict_del)

definition topsort :: "('a list \<Rightarrow> 'a list) \<Rightarrow> ('a \<times> 'a) list \<Rightarrow> 'a sort_error + 'a list" where
  "topsort ord pairlist =
     (case build_counts pairlist of (num_parents, children) \<Rightarrow>
        case topsort_loop (orphans ord num_parents) [] num_parents children of
          Inl e \<Rightarrow> Inl e
        | Inr (answer, np, ch) \<Rightarrow> if np \<noteq> [] then Inl (CycleError answer np ch) else Inr answer)"

subsection \<open>\<open>topsort_levels\<close>\<close>

text \<open>The level loop yields the items without a parent and takes them out, until none is left.\<close>

fun decrement_children :: "'a list \<Rightarrow> ('a, int) dict \<Rightarrow> 'a sort_error + ('a, int) dict" where
  "decrement_children [] num_parents = Inr num_parents"
| "decrement_children (child # cs) num_parents =
     (case map_of num_parents child of
        None \<Rightarrow> Inl MissingKey
      | Some n \<Rightarrow> decrement_children cs (dict_put child (n - 1) num_parents))"

fun take_level ::
  "'a list \<Rightarrow> ('a, int) dict \<Rightarrow> ('a, 'a list) dict \<Rightarrow> 'a sort_error + ('a, int) dict \<times> ('a, 'a list) dict" where
  "take_level [] num_parents children = Inr (num_parents, children)"
| "take_level (level_parent # ps) num_parents children =
     (if \<not> dict_has num_parents level_parent then Inl MissingKey
      else let np = dict_del level_parent num_parents
           in case map_of children level_parent of
                None \<Rightarrow> take_level ps np children
              | Some cs \<Rightarrow>
                  (case decrement_children cs np of
                     Inl e \<Rightarrow> Inl e
                   | Inr np' \<Rightarrow> take_level ps np' (dict_del level_parent children)))"

lemma decrement_children_length: "decrement_children cs np = Inr np' \<Longrightarrow> length np' = length np"
  by (induction cs np rule: decrement_children.induct)
    (auto split: option.splits simp: length_dict_put dict_has_iff(2))

lemma take_level_length:
  "take_level ps np ch = Inr (np', ch') \<Longrightarrow> length np' + length ps \<le> length np"
proof (induction ps np ch rule: take_level.induct)
  case (2 p ps np ch)
  have has: "dict_has np p" using "2.prems" by (auto split: if_splits)
  note lt = length_dict_del [OF has]
  show ?case
  proof (cases "map_of ch p")
    case None
    then have "length np' + length ps \<le> length (dict_del p np)"
      using "2.IH"(1) "2.prems" has by (simp add: Let_def)
    with lt show ?thesis by simp
  next
    case (Some cs)
    then obtain np1 where np1: "decrement_children cs (dict_del p np) = Inr np1"
      using "2.prems" has by (auto split: sum.splits simp: Let_def)
    then have "length np' + length ps \<le> length np1"
      using "2.IH"(2) [OF _ refl Some] "2.prems" has Some by (simp add: Let_def)
    with lt decrement_children_length [OF np1] show ?thesis by simp
  qed
qed simp

text \<open>What the generator yields, and the exception it ends with, if any.\<close>

function topsort_levels_core ::
  "('a list \<Rightarrow> 'a list) \<Rightarrow> ('a, int) dict \<Rightarrow> ('a, 'a list) dict \<Rightarrow> 'a list list \<times> 'a sort_error option" where
  "topsort_levels_core ord num_parents children =
     (let level_parents = orphans ord num_parents
      in if level_parents = []
         then ([], if num_parents \<noteq> [] then Some (CycleError [] num_parents children) else None)
         else case take_level level_parents num_parents children of
                Inl e \<Rightarrow> ([level_parents], Some e)
              | Inr (np, ch) \<Rightarrow>
                  (case topsort_levels_core ord np ch of (levels, e) \<Rightarrow> (level_parents # levels, e)))"
  by pat_completeness auto
termination
proof (relation "measure (\<lambda>(ord, np, ch). length np)", goal_cases)
  case (2 ord np ch level_parents x a b)
  then have "length a + length level_parents \<le> length np" "0 < length level_parents"
    using take_level_length by fastforce+
  then show ?case by (cases level_parents) auto
qed simp

declare topsort_levels_core.simps [simp del]

definition topsort_levels :: "('a list \<Rightarrow> 'a list) \<Rightarrow> ('a \<times> 'a) list \<Rightarrow> 'a list list \<times> 'a sort_error option" where
  "topsort_levels ord pairlist =
     (case build_counts pairlist of (num_parents, children) \<Rightarrow> topsort_levels_core ord num_parents children)"

subsection \<open>The counts\<close>

text \<open>How many of the pairs lead from a parent outside \<open>D\<close> to \<open>x\<close>.\<close>

definition parents_left :: "('a \<times> 'a) list \<Rightarrow> 'a set \<Rightarrow> 'a \<Rightarrow> nat" where
  "parents_left E D x = length (filter (\<lambda>(p, c). c = x \<and> p \<notin> D) E)"

definition children_of :: "('a \<times> 'a) list \<Rightarrow> 'a \<Rightarrow> 'a list" where
  "children_of E p = map snd (filter (\<lambda>e. fst e = p) E)"

definition nodes_of :: "('a \<times> 'a) list \<Rightarrow> 'a set" where
  "nodes_of E = fst ` set E \<union> snd ` set E"

text \<open>The state of both loops when the items of \<open>D\<close> have been taken out.\<close>

definition counts_inv ::
  "('a \<times> 'a) list \<Rightarrow> 'a set \<Rightarrow> ('a, int) dict \<Rightarrow> ('a, 'a list) dict \<Rightarrow> bool" where
  "counts_inv E D np ch \<longleftrightarrow>
     distinct (dict_keys np) \<and>
     map_of np = (\<lambda>x. if x \<in> nodes_of E - D then Some (int (parents_left E D x)) else None) \<and>
     (\<forall>x \<in> D. parents_left E D x = 0) \<and>
     (\<forall>p. p \<notin> D \<longrightarrow> map_of ch p = (if children_of E p = [] then None else Some (children_of E p)))"

lemma counts_inv_build: "case build_counts E of (np, ch) \<Rightarrow> counts_inv E {} np ch"
proof (induction E rule: rev_induct)
  case Nil
  show ?case by (simp add: build_counts_def counts_inv_def nodes_of_def children_of_def dict_keys_def)
next
  case (snoc e E)
  obtain p c where e: "e = (p, c)" by force
  obtain np ch where b: "build_counts E = (np, ch)" by force
  define np1 where "np1 = (if dict_has np p then np else dict_put p 0 np)"
  define np2 where "np2 = (if dict_has np1 c then np1 else dict_put c 0 np1)"
  have b': "build_counts (E @ [e]) = (dict_put c (the (map_of np2 c) + 1) np2,
      dict_put p ((case map_of ch p of None \<Rightarrow> [] | Some cs \<Rightarrow> cs) @ [c]) ch)"
    using b by (simp add: build_counts_def add_pair_def e np1_def np2_def Let_def)
  from snoc b have inv: "distinct (dict_keys np)"
    "map_of np = (\<lambda>x. if x \<in> nodes_of E then Some (int (parents_left E {} x)) else None)"
    "\<And>q. map_of ch q = (if children_of E q = [] then None else Some (children_of E q))"
    by (auto simp: counts_inv_def)
  have pl0: "x \<notin> nodes_of E \<Longrightarrow> parents_left E {} x = 0" for x
    by (force simp: parents_left_def nodes_of_def filter_empty_conv)
  have n: "nodes_of (E @ [e]) = insert p (insert c (nodes_of E))" by (auto simp: nodes_of_def e)
  have m2: "map_of np2 = (\<lambda>x. if x \<in> nodes_of (E @ [e]) then Some (int (parents_left E {} x)) else None)"
    using inv(2) pl0 unfolding n by (auto simp: np2_def np1_def dict_has_iff(2) fun_eq_iff)
  have pl: "parents_left (E @ [e]) {} x = parents_left E {} x + (if x = c then 1 else 0)" for x
    by (simp add: parents_left_def e)
  have co: "children_of (E @ [e]) q = children_of E q @ (if q = p then [c] else [])" for q
    by (simp add: children_of_def e)
  have "distinct (dict_keys np2)"
    using inv(1) by (simp add: np2_def np1_def distinct_dict_put)
  then show ?case
    unfolding b' prod.case counts_inv_def
    using m2 n by (auto simp: distinct_dict_put pl co inv(3) fun_eq_iff)
qed

lemma parents_left_insert:
  "parents_left E D x = parents_left E (insert p D) x + (if p \<in> D then 0 else count_list (children_of E p) x)"
  by (induction E) (auto simp: parents_left_def children_of_def)

lemma set_children_of: "set (children_of E p) = {c. (p, c) \<in> set E}"
  by (force simp: children_of_def)

lemma children_nodes: "set (children_of E p) \<subseteq> nodes_of E"
  by (force simp: set_children_of nodes_of_def)

lemma parents_left_pos: "0 < parents_left E D x \<longleftrightarrow> (\<exists>p. (p, x) \<in> set E \<and> p \<notin> D)"
  by (auto simp: parents_left_def filter_empty_conv)

lemma knock_children_spec:
  assumes "\<And>c. c \<in> set cs \<Longrightarrow> \<exists>n. map_of np c = Some n \<and> int (count_list cs c) \<le> n"
  shows "\<exists>np' new. knock_children cs np todo = Inr (np', todo @ new) \<and>
    decrement_children cs np = Inr np' \<and>
    dict_keys np' = dict_keys np \<and>
    map_of np' = (\<lambda>x. map_option (\<lambda>n. n - int (count_list cs x)) (map_of np x)) \<and>
    distinct new \<and> set new = {c \<in> set cs. map_of np c = Some (int (count_list cs c))}"
  using assms
proof (induction cs arbitrary: np todo)
  case Nil
  show ?case by (simp add: option.map_ident)
next
  case (Cons c cs)
  from Cons.prems [of c] obtain n where n: "map_of np c = Some n" "int (count_list cs c) + 1 \<le> n"
    by auto
  let ?np = "dict_put c (n - 1) np" and ?todo = "if n - 1 = 0 then todo @ [c] else todo"
  have "\<exists>m. map_of ?np d = Some m \<and> int (count_list cs d) \<le> m" if "d \<in> set cs" for d
    using n Cons.prems [of d] that by (cases "d = c") auto
  from Cons.IH [OF this, of ?todo] obtain np' new where
    IH: "knock_children cs ?np ?todo = Inr (np', ?todo @ new)"
      "decrement_children cs ?np = Inr np'" "dict_keys np' = dict_keys ?np"
      "map_of np' = (\<lambda>x. map_option (\<lambda>n. n - int (count_list cs x)) (map_of ?np x))"
      "distinct new" "set new = {d \<in> set cs. map_of ?np d = Some (int (count_list cs d))}"
    by metis
  let ?new = "(if n - 1 = 0 then [c] else []) @ new"
  have k: "dict_keys ?np = dict_keys np" using n by (simp add: keys_dict_put dict_has_iff(2))
  have zero: "n - 1 = 0 \<Longrightarrow> c \<notin> set cs" using n(2) by (simp add: count_list_0_iff [symmetric])
  have c0: "count_list cs x = 0" if "x \<notin> set cs" for x using that by (rule count_notin)
  have "set ?new = {d \<in> set (c # cs). map_of np d = Some (int (count_list (c # cs) d))}"
    using n zero c0 by (auto simp: IH(6) split: if_splits intro: ccontr)
  moreover have "distinct ?new" using zero IH(5,6) by auto
  moreover have "knock_children (c # cs) np todo = Inr (np', todo @ ?new)"
    using IH(1) n(1) by simp
  moreover have "map_of np' = (\<lambda>x. map_option (\<lambda>n. n - int (count_list (c # cs) x)) (map_of np x))"
    using IH(4) n(1) by (auto simp: fun_eq_iff)
  ultimately show ?case using IH(2,3) k n(1) by (intro exI [of _ np'] exI [of _ ?new]) simp
qed

text \<open>Taking an item without parents out of the counts.\<close>

lemma counts_inv_take:
  assumes inv: "counts_inv E D np ch" and p: "map_of np p = Some 0"
  defines "np1 \<equiv> dict_del p np"
  shows "map_of ch p = None \<Longrightarrow> counts_inv E (insert p D) np1 ch"
    and "map_of ch p = Some cs \<Longrightarrow> \<exists>np' new. knock_children cs np1 todo = Inr (np', todo @ new) \<and>
       decrement_children cs np1 = Inr np' \<and> counts_inv E (insert p D) np' (dict_del p ch) \<and>
       distinct new \<and> set new = {c. map_of np' c = Some 0 \<and> map_of np c \<noteq> Some 0}"
proof -
  have m: "map_of np = (\<lambda>x. if x \<in> nodes_of E - D then Some (int (parents_left E D x)) else None)"
    and dist: "distinct (dict_keys np)"
    and closed: "\<And>x. x \<in> D \<Longrightarrow> parents_left E D x = 0"
    and c: "\<And>q. q \<notin> D \<Longrightarrow> map_of ch q = (if children_of E q = [] then None else Some (children_of E q))"
    using inv by (auto simp: counts_inv_def)
  from p m have pD: "p \<in> nodes_of E" "p \<notin> D" "parents_left E D p = 0" by (auto split: if_splits)
  have m1: "map_of np1 = (\<lambda>x. if x \<in> nodes_of E - insert p D then Some (int (parents_left E D x)) else None)"
    by (auto simp: np1_def m fun_eq_iff)
  have d1: "distinct (dict_keys np1)" using dist by (simp add: np1_def distinct_dict_del)
  have closed': "parents_left E (insert p D) x = 0" if "x \<in> insert p D" for x
    using that closed pD parents_left_insert [of E D x p] by auto
  show "map_of ch p = None \<Longrightarrow> counts_inv E (insert p D) np1 ch"
  proof -
    assume "map_of ch p = None"
    then have "children_of E p = []" using c [OF pD(2)] by (simp split: if_splits)
    then have "parents_left E D = parents_left E (insert p D)"
      using parents_left_insert [of E D _ p] pD(2) by (auto simp: fun_eq_iff)
    then show ?thesis using m1 d1 c closed' by (simp add: counts_inv_def fun_eq_iff)
  qed
  assume "map_of ch p = Some cs"
  then have cs: "cs = children_of E p" using c [OF pD(2)] by (simp split: if_splits)
  have pl: "parents_left E D x = parents_left E (insert p D) x + count_list cs x" for x
    using parents_left_insert [of E D x p] pD(2) cs by simp
  have notp: "p \<notin> set cs" using pl [of p] pD(3) by (simp add: count_list_0_iff)
  have in_np: "\<exists>n. map_of np1 x = Some n \<and> int (count_list cs x) \<le> n" if "x \<in> set cs" for x
  proof -
    have "x \<noteq> p" "x \<in> nodes_of E" using that notp cs children_nodes [of E p] by auto
    moreover have "x \<notin> D" using closed [of x] pl [of x] that by (auto simp: count_list_0_iff)
    ultimately show ?thesis using m1 pl by auto
  qed
  obtain np' new where
    k: "knock_children cs np1 todo = Inr (np', todo @ new)" "decrement_children cs np1 = Inr np'"
      "dict_keys np' = dict_keys np1"
      "map_of np' = (\<lambda>x. map_option (\<lambda>n. n - int (count_list cs x)) (map_of np1 x))"
      "distinct new" "set new = {c \<in> set cs. map_of np1 c = Some (int (count_list cs c))}"
    using knock_children_spec [of cs np1 todo, OF in_np] by blast
  have m': "map_of np' = (\<lambda>x. if x \<in> nodes_of E - insert p D then Some (int (parents_left E (insert p D) x)) else None)"
    by (auto simp: k(4) m1 pl fun_eq_iff)
  then have "counts_inv E (insert p D) np' (dict_del p ch)"
    using d1 k(3) c closed' by (auto simp: counts_inv_def)
  moreover have "set new = {c. map_of np' c = Some 0 \<and> map_of np c \<noteq> Some 0}"
    unfolding k(6) k(4) np1_def using notp pD(3) p in_np
    by (auto simp: np1_def count_list_0_iff split: if_splits)
  ultimately show "\<exists>np' new. knock_children cs np1 todo = Inr (np', todo @ new) \<and>
       decrement_children cs np1 = Inr np' \<and> counts_inv E (insert p D) np' (dict_del p ch) \<and>
       distinct new \<and> set new = {c. map_of np' c = Some 0 \<and> map_of np c \<noteq> Some 0}"
    using k by blast
qed

lemma counts_inv_zero: "counts_inv E D np ch \<Longrightarrow>
    map_of np x = Some 0 \<longleftrightarrow> x \<in> nodes_of E - D \<and> (\<forall>p. (p, x) \<in> set E \<longrightarrow> p \<in> D)"
  using parents_left_pos [of E D x] by (auto simp: counts_inv_def)

lemma counts_inv_keys: "counts_inv E D np ch \<Longrightarrow> set (dict_keys np) = nodes_of E - D"
  unfolding set_eq_iff dict_has_iff [symmetric] by (auto simp: counts_inv_def dict_has_iff(2))

lemma counts_inv_closed: "counts_inv E D np ch \<Longrightarrow> (p, x) \<in> set E \<Longrightarrow> x \<in> D \<Longrightarrow> p \<in> D"
  using parents_left_pos [of E D x] by (auto simp: counts_inv_def)

subsection \<open>Dependency order\<close>

text \<open>Every parent of an item stands somewhere before the item.\<close>

definition dependency_order :: "('a \<times> 'a) set \<Rightarrow> 'a list \<Rightarrow> bool" where
  "dependency_order E xs \<longleftrightarrow> (\<forall>us c vs p. xs = us @ c # vs \<longrightarrow> (p, c) \<in> E \<longrightarrow> p \<in> set us)"

lemma dependency_order_Nil [simp]: "dependency_order E []"
  by (simp add: dependency_order_def)

lemma dependency_order_snoc:
  "dependency_order E (xs @ [c]) \<longleftrightarrow> dependency_order E xs \<and> (\<forall>p. (p, c) \<in> E \<longrightarrow> p \<in> set xs)"
proof
  assume o: "dependency_order E (xs @ [c])"
  then have "dependency_order E xs"
    unfolding dependency_order_def by (metis append.assoc append_Cons)
  with o show "dependency_order E xs \<and> (\<forall>p. (p, c) \<in> E \<longrightarrow> p \<in> set xs)"
    by (auto simp: dependency_order_def)
next
  assume o: "dependency_order E xs \<and> (\<forall>p. (p, c) \<in> E \<longrightarrow> p \<in> set xs)"
  show "dependency_order E (xs @ [c])"
    unfolding dependency_order_def
  proof (intro allI impI)
    fix us d vs p assume e: "xs @ [c] = us @ d # vs" "(p, d) \<in> E"
    show "p \<in> set us"
    proof (cases vs rule: rev_cases)
      case Nil
      with e o show ?thesis by simp
    next
      case (snoc ws w)
      then have "xs = us @ d # ws" using e(1) by simp
      with e(2) o show ?thesis by (auto simp: dependency_order_def)
    qed
  qed
qed

lemma dependency_order_acyclic:
  assumes o: "dependency_order E xs" and nodes: "snd ` E \<subseteq> set xs"
  shows "acyclic E"
proof -
  let ?pos = "\<lambda>x. length (takeWhile (\<lambda>y. y \<noteq> x) xs)"
  have "E \<subseteq> measure ?pos"
  proof
    fix e assume e: "e \<in> E"
    obtain p c where pc: "e = (p, c)" by force
    then obtain us vs where xs: "xs = us @ c # vs" "c \<notin> set us"
      using nodes e split_list_first [of c xs] by force
    then have "p \<in> set us" using o e pc by (auto simp: dependency_order_def)
    then obtain as bs where us: "us = as @ p # bs" "p \<notin> set as"
      using split_list_first [of p us] by blast
    have "?pos c = length us" using xs by (simp add: take_drop_until)
    moreover have "?pos p = length as" using xs us by (simp add: take_drop_until)
    ultimately show "e \<in> measure ?pos" using us pc by simp
  qed
  then show ?thesis by (meson acyclic_subset wf_acyclic wf_measure)
qed

text \<open>If items are left and none of them is without a parent, the parents left form a cycle.\<close>

lemma counts_inv_stuck:
  assumes inv: "counts_inv E D np ch" and left: "np \<noteq> []"
    and none: "\<And>x. map_of np x \<noteq> Some 0"
  shows "\<not> acyclic (set E)"
proof
  assume "acyclic (set E)"
  then have "wf (set E)" by (simp add: finite_acyclic_wf)
  moreover obtain x where "x \<in> nodes_of E - D"
    using left counts_inv_keys [OF inv] by (cases np) (auto simp: dict_keys_def)
  ultimately obtain z where z: "z \<in> nodes_of E - D" "\<And>p. (p, z) \<in> set E \<Longrightarrow> p \<notin> nodes_of E - D"
    by (metis wfE_min)
  then have "map_of np z = Some 0"
    using counts_inv_zero [OF inv, of z] by (force simp: nodes_of_def)
  with none show False by blast
qed

lemma counts_inv_empty: "counts_inv E D [] ch \<Longrightarrow> nodes_of E \<subseteq> D"
  using counts_inv_keys [of E D "[]" ch] by (simp add: dict_keys_def)

lemma topsort_loop_spec:
  assumes "counts_inv E (set visited) np ch" "distinct (visited @ todo)"
    "set todo = {x. map_of np x = Some 0}" "dependency_order (set E) visited" "set visited \<subseteq> nodes_of E"
  shows "\<exists>answer np' ch'. topsort_loop todo visited np ch = Inr (answer, np', ch') \<and>
    counts_inv E (set answer) np' ch' \<and> distinct answer \<and> (\<forall>x. map_of np' x \<noteq> Some 0) \<and>
    dependency_order (set E) answer \<and> set answer \<subseteq> nodes_of E"
  using assms
proof (induction todo visited np ch rule: topsort_loop.induct)
  case (1 visited np ch)
  then show ?case by auto
next
  case (2 p todo visited np ch)
  have p: "map_of np p = Some 0" using "2.prems"(3) by auto
  have has: "dict_has np p" using p by (simp add: dict_has_iff(2))
  note zero = counts_inv_zero [OF "2.prems"(1)]
  have pn: "p \<in> nodes_of E" using p zero by blast
  have ord: "dependency_order (set E) (visited @ [p])"
    using "2.prems"(4) p zero by (auto simp: dependency_order_snoc)
  have sub: "set (visited @ [p]) \<subseteq> nodes_of E" using pn "2.prems"(5) by simp
  have ins: "insert p (set visited) = set (visited @ [p])" by simp
  have "insert p (set todo) = {x. map_of np x = Some 0}" "p \<notin> set todo"
    using "2.prems"(2,3) by simp_all
  then have todo: "set todo = {x. map_of np x = Some 0 \<and> x \<noteq> p}" by blast
  show ?case
  proof (cases "map_of ch p")
    case None
    have inv: "counts_inv E (set (visited @ [p])) (dict_del p np) ch"
      using counts_inv_take(1) [OF "2.prems"(1) p None] by (simp only: ins)
    have t: "set todo = {x. map_of (dict_del p np) x = Some 0}"
      unfolding todo by auto
    have d: "distinct ((visited @ [p]) @ todo)" using "2.prems"(2) by simp
    have "topsort_loop (p # todo) visited np ch = topsort_loop todo (visited @ [p]) (dict_del p np) ch"
      using has None by simp
    with "2.IH"(1) [OF _ refl None inv d t ord sub] has show ?thesis by (simp only: not_not)
  next
    case (Some cs)
    obtain np' new where k: "knock_children cs (dict_del p np) todo = Inr (np', todo @ new)"
      and inv: "counts_inv E (set (visited @ [p])) np' (dict_del p ch)"
      and new: "distinct new" "set new = {c. map_of np' c = Some 0 \<and> map_of np c \<noteq> Some 0}"
      using counts_inv_take(2) [OF "2.prems"(1) p Some, of todo, unfolded ins] by blast
    note zero' = counts_inv_zero [OF inv]
    have keep: "map_of np' x = Some 0" if "map_of np x = Some 0" "x \<noteq> p" for x
      using that unfolding zero zero' by auto
    have np_p: "map_of np' x = Some 0 \<Longrightarrow> x \<notin> set (visited @ [p])" for x
      unfolding zero' by blast
    have t: "set (todo @ new) = {x. map_of np' x = Some 0}"
    proof
      show "set (todo @ new) \<subseteq> {x. map_of np' x = Some 0}" using keep todo new(2) by auto
      show "{x. map_of np' x = Some 0} \<subseteq> set (todo @ new)" using np_p todo new(2) by auto
    qed
    have d: "distinct ((visited @ [p]) @ todo @ new)"
    proof -
      have "distinct (visited @ p # todo)" using "2.prems"(2) by simp
      moreover have "set new \<inter> set (visited @ [p]) = {}" using np_p new(2) by blast
      moreover have "set new \<inter> set todo = {}" using new(2) todo by auto
      ultimately show ?thesis using new(1) by auto
    qed
    have "topsort_loop (p # todo) visited np ch =
        topsort_loop (todo @ new) (visited @ [p]) np' (dict_del p ch)"
      using has Some k by simp
    with "2.IH"(2) [OF _ refl Some k refl inv d t ord sub] has show ?thesis by (simp only: not_not)
  qed
qed

lemma set_orphans:
  "permuting ord \<Longrightarrow> set (orphans ord np) = {x. map_of np x = Some 0}"
  by (auto simp: orphans_def permutingD dict_has_iff [symmetric] dict_has_iff(2))

lemma distinct_orphans:
  "permuting ord \<Longrightarrow> distinct (dict_keys np) \<Longrightarrow> distinct (orphans ord np)"
  by (simp add: orphans_def permutingD)

text \<open>
  C6: topsort returns an order of all the elements that respects every pair exactly for acyclic
  relations, raises CycleError for cyclic ones, and never fails otherwise, for every order in
  which Python goes through its dictionaries.
\<close>

theorem topsort_correct:
  assumes "permuting ord"
  shows "case topsort ord pairlist of
      Inr answer \<Rightarrow> acyclic (set pairlist) \<and> distinct answer \<and> set answer = nodes_of pairlist \<and>
                    dependency_order (set pairlist) answer
    | Inl (CycleError answer num_parents children) \<Rightarrow> \<not> acyclic (set pairlist)
    | Inl MissingKey \<Rightarrow> False"
proof -
  obtain np ch where b: "build_counts pairlist = (np, ch)" by force
  have inv: "counts_inv pairlist (set []) np ch"
    using counts_inv_build [of pairlist] b by simp
  then have dk: "distinct (dict_keys np)" by (simp add: counts_inv_def)
  obtain answer np' ch' where l: "topsort_loop (orphans ord np) [] np ch = Inr (answer, np', ch')"
    and i: "counts_inv pairlist (set answer) np' ch'" "distinct answer" "\<And>x. map_of np' x \<noteq> Some 0"
      "dependency_order (set pairlist) answer" "set answer \<subseteq> nodes_of pairlist"
    using topsort_loop_spec [OF inv, of "orphans ord np"] set_orphans [OF assms] distinct_orphans [OF assms dk]
    by auto
  show ?thesis
  proof (cases "np' = []")
    case True
    then have "nodes_of pairlist \<subseteq> set answer" using i(1) counts_inv_empty by auto
    moreover from this have "acyclic (set pairlist)"
      by (intro dependency_order_acyclic [OF i(4)]) (auto simp: nodes_of_def)
    ultimately show ?thesis using True l b i by (auto simp: topsort_def)
  next
    case False
    then show ?thesis using counts_inv_stuck [OF i(1) False i(3)] l b by (simp add: topsort_def)
  qed
qed

theorem topsort_correct_witness:
  "case topsort (\<lambda>xs. xs) [(1::nat, 2), (2, 3)] of
      Inr answer \<Rightarrow> acyclic (set [(1::nat, 2), (2, 3)]) \<and> distinct answer \<and>
                    set answer = nodes_of [(1, 2), (2, 3)] \<and> dependency_order (set [(1, 2), (2, 3)]) answer
    | Inl (CycleError answer num_parents children) \<Rightarrow> \<not> acyclic (set [(1::nat, 2), (2, 3)])
    | Inl MissingKey \<Rightarrow> False"
  by (rule topsort_correct[OF permuting_id])

subsection \<open>Levels\<close>

lemma counts_inv_monoZ:
  assumes "counts_inv E D np ch" "counts_inv E (insert p D) np' ch'" "map_of np x = Some 0" "x \<noteq> p"
  shows "map_of np' x = Some 0"
  using assms(3,4) counts_inv_zero [OF assms(1), of x] counts_inv_zero [OF assms(2), of x] by blast

lemma take_level_spec:
  assumes "counts_inv E D np ch" "distinct ps" "\<forall>p \<in> set ps. map_of np p = Some 0"
  shows "\<exists>np' ch'. take_level ps np ch = Inr (np', ch') \<and> counts_inv E (D \<union> set ps) np' ch'"
  using assms
proof (induction ps arbitrary: D np ch)
  case Nil
  then show ?case by simp
next
  case (Cons p ps)
  have p: "map_of np p = Some 0" using Cons.prems by simp
  then have has: "dict_has np p" by (simp add: dict_has_iff(2))
  show ?case
  proof (cases "map_of ch p")
    case None
    have inv: "counts_inv E (insert p D) (dict_del p np) ch"
      using counts_inv_take(1) [OF Cons.prems(1) p None] .
    have "\<forall>q \<in> set ps. map_of (dict_del p np) q = Some 0"
      using Cons.prems(2,3) counts_inv_monoZ [OF Cons.prems(1) inv] by auto
    with Cons.IH [OF inv] Cons.prems(2) has None show ?thesis by (simp add: Let_def)
  next
    case (Some cs)
    obtain np' where k: "decrement_children cs (dict_del p np) = Inr np'"
      and inv: "counts_inv E (insert p D) np' (dict_del p ch)"
      using counts_inv_take(2) [OF Cons.prems(1) p Some] by blast
    have "\<forall>q \<in> set ps. map_of np' q = Some 0"
      using Cons.prems(2,3) counts_inv_monoZ [OF Cons.prems(1) inv] by auto
    with Cons.IH [OF inv] Cons.prems(2) has Some k show ?thesis by (simp add: Let_def)
  qed
qed

text \<open>
  The levels in order: every parent of an item lies in a strictly earlier level.  \<open>D\<close> holds
  the items of the levels before.
\<close>

fun level_order :: "('a \<times> 'a) set \<Rightarrow> 'a set \<Rightarrow> 'a list list \<Rightarrow> bool" where
  "level_order E D [] = True"
| "level_order E D (level # levels) =
     (level \<noteq> [] \<and> distinct level \<and> set level \<inter> D = {} \<and>
      (\<forall>c \<in> set level. \<forall>p. (p, c) \<in> E \<longrightarrow> p \<in> D) \<and>
      (\<forall>c. (\<forall>p. (p, c) \<in> E \<longrightarrow> p \<in> D) \<longrightarrow> c \<in> Field E \<longrightarrow> c \<in> D \<union> set level) \<and>
      level_order E (D \<union> set level) levels)"

lemma topsort_levels_core_spec:
  assumes ord: "permuting ord" and inv: "counts_inv E D np ch"
  shows "\<exists>levels e. topsort_levels_core ord np ch = (levels, e) \<and> level_order (set E) D levels \<and>
    \<Union> (set ` set levels) \<subseteq> nodes_of E \<and>
    (case e of None \<Rightarrow> nodes_of E \<subseteq> D \<union> \<Union> (set ` set levels)
     | Some (CycleError answer np' ch') \<Rightarrow> \<not> acyclic (set E)
     | Some MissingKey \<Rightarrow> False)"
  using ord inv
proof (induction ord np ch arbitrary: D rule: topsort_levels_core.induct)
  case (1 ord np ch)
  let ?L = "orphans ord np"
  note zeros = set_orphans [OF "1.prems"(1), of np]
  show ?case
  proof (cases "?L = []")
    case True
    then have none: "map_of np x \<noteq> Some 0" for x using zeros by auto
    have eq: "topsort_levels_core ord np ch = ([], if np \<noteq> [] then Some (CycleError [] np ch) else None)"
      using True by (subst topsort_levels_core.simps) simp
    show ?thesis
    proof (cases "np = []")
      case True
      then show ?thesis using eq "1.prems"(2) counts_inv_empty by auto
    next
      case False
      then show ?thesis using eq counts_inv_stuck [OF "1.prems"(2) False none] by auto
    qed
  next
    case False
    have d: "distinct ?L" using "1.prems" by (intro distinct_orphans) (simp_all add: counts_inv_def)
    obtain np' ch' where t: "take_level ?L np ch = Inr (np', ch')"
      and inv: "counts_inv E (D \<union> set ?L) np' ch'"
      using take_level_spec [OF "1.prems"(2) d] zeros by auto
    obtain levels e where IH: "topsort_levels_core ord np' ch' = (levels, e)"
      "level_order (set E) (D \<union> set ?L) levels" "\<Union> (set ` set levels) \<subseteq> nodes_of E"
      "case e of None \<Rightarrow> nodes_of E \<subseteq> (D \<union> set ?L) \<union> \<Union> (set ` set levels)
       | Some (CycleError answer np' ch') \<Rightarrow> \<not> acyclic (set E) | Some MissingKey \<Rightarrow> False"
      using "1.IH" [OF refl False t refl "1.prems"(1) inv] by blast
    have eq: "topsort_levels_core ord np ch = (?L # levels, e)"
      using False t IH(1) by (subst topsort_levels_core.simps) (simp add: Let_def)
    have L: "set ?L = {x \<in> nodes_of E - D. \<forall>p. (p, x) \<in> set E \<longrightarrow> p \<in> D}"
      unfolding zeros using counts_inv_zero [OF "1.prems"(2)] by blast
    have "level_order (set E) D (?L # levels)"
      using False d L IH(2) by (auto simp: nodes_of_def Field_def Domain_fst Range_snd)
    moreover have "\<Union> (set ` set (?L # levels)) \<subseteq> nodes_of E" using L IH(3) by auto
    moreover have "case e of None \<Rightarrow> nodes_of E \<subseteq> D \<union> \<Union> (set ` set (?L # levels))
       | Some (CycleError answer np' ch') \<Rightarrow> \<not> acyclic (set E) | Some MissingKey \<Rightarrow> False"
      using IH(4) by (auto split: option.splits sort_error.splits)
    ultimately show ?thesis using eq by blast
  qed
qed

lemma dependency_order_append:
  "dependency_order E xs \<Longrightarrow> (\<forall>c \<in> set l. \<forall>p. (p, c) \<in> E \<longrightarrow> p \<in> set xs) \<Longrightarrow> dependency_order E (xs @ l)"
  by (induction l rule: rev_induct) (auto simp: dependency_order_snoc simp flip: append_assoc)

lemma level_order_dependency:
  "level_order E (set xs) levels \<Longrightarrow> dependency_order E xs \<Longrightarrow> dependency_order E (xs @ concat levels)"
proof (induction levels arbitrary: xs)
  case (Cons l ls)
  have "dependency_order E (xs @ l)"
    using Cons.prems by (intro dependency_order_append) auto
  then show ?case using Cons.IH [of "xs @ l"] Cons.prems by simp
qed simp

text \<open>
  C8: topsort_levels gives levels of which each is the set of elements whose predecessors are
  all in earlier levels; it covers all elements exactly for acyclic relations and otherwise
  raises CycleError.
\<close>

theorem topsort_levels_correct:
  assumes "permuting ord"
  shows "case topsort_levels ord pairlist of (levels, e) \<Rightarrow>
     level_order (set pairlist) {} levels \<and>
     (case e of
        None \<Rightarrow> acyclic (set pairlist) \<and> \<Union> (set ` set levels) = nodes_of pairlist
      | Some (CycleError answer np ch) \<Rightarrow> \<not> acyclic (set pairlist)
      | Some MissingKey \<Rightarrow> False)"
proof -
  obtain np ch where b: "build_counts pairlist = (np, ch)" by force
  have inv: "counts_inv pairlist {} np ch" using counts_inv_build [of pairlist] b by simp
  obtain levels e where l: "topsort_levels_core ord np ch = (levels, e)"
    "level_order (set pairlist) {} levels" "\<Union> (set ` set levels) \<subseteq> nodes_of pairlist"
    "case e of None \<Rightarrow> nodes_of pairlist \<subseteq> {} \<union> \<Union> (set ` set levels)
     | Some (CycleError answer np' ch') \<Rightarrow> \<not> acyclic (set pairlist) | Some MissingKey \<Rightarrow> False"
    using topsort_levels_core_spec [OF assms inv] by blast
  have o: "dependency_order (set pairlist) (concat levels)"
    using level_order_dependency [of "set pairlist" "[]" levels] l(2) by simp
  have "acyclic (set pairlist)" if "e = None"
  proof (rule dependency_order_acyclic [OF o])
    have "snd ` set pairlist \<subseteq> nodes_of pairlist" by (simp add: nodes_of_def)
    then show "snd ` set pairlist \<subseteq> set (concat levels)" using l(4) that by auto
  qed
  with l b show ?thesis
    by (auto simp: topsort_levels_def split: option.splits sort_error.splits)
qed

theorem topsort_levels_correct_witness:
  "case topsort_levels (\<lambda>xs. xs) [(1::nat, 2), (1, 3)] of (levels, e) \<Rightarrow>
     level_order (set [(1::nat, 2), (1, 3)]) {} levels \<and>
     (case e of
        None \<Rightarrow> acyclic (set [(1::nat, 2), (1, 3)]) \<and> \<Union> (set ` set levels) = nodes_of [(1, 2), (1, 3)]
      | Some (CycleError answer np ch) \<Rightarrow> \<not> acyclic (set [(1::nat, 2), (1, 3)])
      | Some MissingKey \<Rightarrow> False)"
  by (rule topsort_levels_correct[OF permuting_id])

subsection \<open>The rotation test\<close>

text \<open>
  What \<open>find_cycles\<close> relies on: a test that says, for a non-empty second list, whether it is a
  rotation of the first, and does not raise.
\<close>

locale rotation_check =
  fixes check :: "'a list \<Rightarrow> 'a list \<Rightarrow> bool res"
  assumes check_rotation: "ys \<noteq> [] \<Longrightarrow> check xs ys = Inr (\<exists>k. rotate k xs = ys)"
begin

lemma check_refl: "xs \<noteq> [] \<Longrightarrow> check xs xs = Inr True"
  by (simp add: check_rotation exI [of _ 0])

lemma check_returns: "ys \<noteq> [] \<Longrightarrow> \<exists>b. check xs ys = Inr b"
  by (simp add: check_rotation)

lemma check_true: "ys \<noteq> [] \<Longrightarrow> check xs ys = Inr True \<longleftrightarrow> (\<exists>k. rotate k xs = ys)"
  by (simp add: check_rotation)

end

interpretation rotated: rotation_check is_rotated
  by unfold_locales (rule is_rotated_iff)

subsection \<open>\<open>find_cycles\<close>\<close>

text \<open>
  The stack of paths has its top first.  A generator's consumer sees the cycles in the order in
  which they are appended to \<open>cycles\<close>.
\<close>

fun is_dup :: "'a list list \<Rightarrow> 'a list \<Rightarrow> bool res" where
  "is_dup [] cycle = Inr False"
| "is_dup (other_cycle # cycles) cycle =
     bind_res (is_rotated other_cycle cycle) (\<lambda>r. if r then Inr True else is_dup cycles cycle)"

definition cycle_of :: "'a list \<Rightarrow> 'a \<Rightarrow> 'a list" where
  "cycle_of path child = dropWhile (\<lambda>x. x \<noteq> child) path"

fun scan_children ::
  "'a list \<Rightarrow> 'a list \<Rightarrow> 'a list list \<Rightarrow> 'a list list \<Rightarrow> 'a set \<Rightarrow> ('a list list \<times> 'a list list \<times> 'a set) res" where
  "scan_children path [] paths cycles visited_nodes = Inr (paths, cycles, visited_nodes)"
| "scan_children path (child # cs) paths cycles visited_nodes =
     (if child \<in> set path
      then let cycle = cycle_of path child
           in bind_res (is_dup cycles cycle) (\<lambda>dup.
                scan_children path cs paths (if dup then cycles else cycles @ [cycle]) visited_nodes)
      else scan_children path cs ((path @ [child]) # paths) cycles (insert child visited_nodes))"

text \<open>
  The stack shrinks in this measure: a path that has run through all but \<open>k\<close> of the nodes weighs
  \<open>b ^ k\<close>, and is replaced by fewer than \<open>b\<close> paths of weight \<open>b ^ (k - 1)\<close>.
\<close>

definition graph_nodes :: "('a, 'a list) dict \<Rightarrow> 'a set" where
  "graph_nodes g = fst ` set g \<union> (\<Union>p \<in> set g. set (snd p))"

definition graph_width :: "('a, 'a list) dict \<Rightarrow> nat" where
  "graph_width g = Suc (sum_list (map (\<lambda>p. length (snd p)) g))"

definition stack_weight :: "('a, 'a list) dict \<Rightarrow> 'a list list \<Rightarrow> nat" where
  "stack_weight g paths = (\<Sum>path \<leftarrow> paths. graph_width g ^ card (graph_nodes g - set path))"

lemma scan_children_weight:
  assumes "scan_children path cs paths cycles vis = Inr (paths', cycles', vis')" "set cs \<subseteq> graph_nodes g"
  shows "stack_weight g paths' * graph_width g \<le>
     stack_weight g paths * graph_width g + length cs * graph_width g ^ card (graph_nodes g - set path)"
  using assms
proof (induction path cs paths cycles vis rule: scan_children.induct)
  case (2 path child cs paths cycles vis)
  show ?case
  proof (cases "child \<in> set path")
    case True
    then obtain dup where "is_dup cycles (cycle_of path child) = Inr dup"
      using "2.prems" by (auto simp: Let_def bind_res_eq_Inr)
    with "2.IH"(1) [OF True refl this] "2.prems" True show ?thesis by (auto simp: Let_def)
  next
    case False
    let ?N = "graph_nodes g" and ?b = "graph_width g"
    have fin: "finite ?N" by (auto simp: graph_nodes_def)
    have "card (?N - set path) = Suc (card (?N - set (path @ [child])))"
    proof -
      have "?N - set (path @ [child]) = (?N - set path) - {child}" by auto
      moreover have "child \<in> ?N - set path" using False "2.prems"(2) by simp
      ultimately show ?thesis using fin by (simp only: card_Suc_Diff1 finite_Diff)
    qed
    then have "stack_weight g ((path @ [child]) # paths) * ?b = stack_weight g paths * ?b + ?b ^ card (?N - set path)"
      by (simp add: stack_weight_def algebra_simps)
    with "2.IH"(2) [OF False] "2.prems" False show ?thesis by simp
  qed
qed simp

lemma map_of_width: "map_of g x = Some cs \<Longrightarrow> length cs < graph_width g \<and> set cs \<subseteq> graph_nodes g"
proof (induction g)
  case (Cons p g)
  then show ?case by (auto simp: graph_width_def graph_nodes_def split: if_splits)
qed simp

function path_loop ::
  "('a, 'a list) dict \<Rightarrow> 'a list list \<Rightarrow> 'a list list \<Rightarrow> 'a set \<Rightarrow> ('a list list \<times> 'a set) res" where
  "path_loop parent_children [] cycles visited_nodes = Inr (cycles, visited_nodes)"
| "path_loop parent_children (path # paths) cycles visited_nodes =
     (if path = [] then Inl IndexError
      else case map_of parent_children (last path) of
             None \<Rightarrow> path_loop parent_children paths cycles visited_nodes
           | Some children \<Rightarrow>
               (case scan_children path children paths cycles visited_nodes of
                  Inl e \<Rightarrow> Inl e
                | Inr (paths', cycles', visited') \<Rightarrow> path_loop parent_children paths' cycles' visited'))"
  by pat_completeness auto
termination
proof (relation "measure (\<lambda>(g, paths, cycles, vis). stack_weight g paths)", goal_cases)
  case (2 g path paths cycles vis)
  show ?case by (simp add: stack_weight_def graph_width_def)
next
  case (3 g path paths cycles vis children b paths' c cycles' vis')
  let ?b = "graph_width g" and ?w = "graph_width g ^ card (graph_nodes g - set path)"
  have s: "scan_children path children paths cycles vis = Inr (paths', cycles', vis')" using 3 by simp
  have "stack_weight g paths' * ?b \<le> stack_weight g paths * ?b + length children * ?w"
    using scan_children_weight [OF s] map_of_width [OF 3(2)] by simp
  also have "\<dots> < stack_weight g paths * ?b + ?b * ?w"
    using map_of_width [OF 3(2)] by (intro add_strict_left_mono mult_strict_right_mono) (simp_all add: graph_width_def)
  also have "\<dots> = stack_weight g (path # paths) * ?b"
    by (simp add: stack_weight_def algebra_simps)
  finally show ?case by simp
qed simp

fun start_loop ::
  "('a, 'a list) dict \<Rightarrow> 'a list \<Rightarrow> 'a list list \<Rightarrow> 'a set \<Rightarrow> 'a list list res" where
  "start_loop parent_children [] cycles visited_nodes = Inr cycles"
| "start_loop parent_children (parent # ps) cycles visited_nodes =
     (if parent \<in> visited_nodes then start_loop parent_children ps cycles visited_nodes
      else bind_res (path_loop parent_children [[parent]] cycles visited_nodes)
             (\<lambda>(cycles', visited'). start_loop parent_children ps cycles' visited'))"

definition find_cycles :: "('a list \<Rightarrow> 'a list) \<Rightarrow> ('a, 'a list) dict \<Rightarrow> 'a list list res" where
  "find_cycles ord parent_children = start_loop parent_children (ord (dict_keys parent_children)) [] {}"

subsection \<open>Correctness of \<open>find_cycles\<close>\<close>

definition graph_edges :: "('a, 'a list) dict \<Rightarrow> ('a \<times> 'a) set" where
  "graph_edges g = {(a, b). \<exists>cs. map_of g a = Some cs \<and> b \<in> set cs}"

definition is_cycle :: "('a \<times> 'a) set \<Rightarrow> 'a list \<Rightarrow> bool" where
  "is_cycle E c \<longleftrightarrow> c \<noteq> [] \<and> distinct c \<and> successively (\<lambda>a b. (a, b) \<in> E) c \<and> (last c, hd c) \<in> E"

definition simple_path :: "('a \<times> 'a) set \<Rightarrow> 'a list \<Rightarrow> bool" where
  "simple_path E p \<longleftrightarrow> p \<noteq> [] \<and> distinct p \<and> successively (\<lambda>a b. (a, b) \<in> E) p"

definition same_cycle :: "'a list \<Rightarrow> 'a list \<Rightarrow> bool" where
  "same_cycle c d \<longleftrightarrow> (\<exists>k. rotate k c = d)"

lemma same_cycle_refl [simp]: "same_cycle c c"
  unfolding same_cycle_def by (rule exI [of _ 0]) simp

lemma same_cycle_sym: "same_cycle c d \<Longrightarrow> same_cycle d c"
proof -
  assume "same_cycle c d"
  then obtain k where k: "d = rotate k c" by (auto simp: same_cycle_def)
  show ?thesis
  proof (cases "c = []")
    case False
    then have "k mod length c < length c" by simp
    then have "rotate (length c - k mod length c) d = rotate (length c - k mod length c + k mod length c) c"
      using rotate_conv_mod [of k c] k by (metis rotate_rotate)
    also have "\<dots> = c" using \<open>k mod length c < length c\<close> by simp
    finally show ?thesis by (auto simp: same_cycle_def)
  qed (use k in simp)
qed

lemma same_cycle_trans: "same_cycle a b \<Longrightarrow> same_cycle b c \<Longrightarrow> same_cycle a c"
  by (metis rotate_rotate same_cycle_def)

lemma same_cycle_append: "same_cycle (a @ b) (b @ a)"
  by (auto simp: same_cycle_def intro: rotate_append)

lemma is_cycle_append: "is_cycle E (a @ b) \<Longrightarrow> is_cycle E (b @ a)"
  by (cases "a = []"; cases "b = []") (auto simp: is_cycle_def successively_append_iff)

lemma is_dup_spec: "c \<noteq> [] \<Longrightarrow> is_dup cycles c = Inr (\<exists>d \<in> set cycles. same_cycle d c)"
  by (induction cycles) (auto simp: rotated.check_rotation same_cycle_def)

definition cycles_ok :: "('a \<times> 'a) set \<Rightarrow> 'a list list \<Rightarrow> bool" where
  "cycles_ok E cycles \<longleftrightarrow> (\<forall>c \<in> set cycles. is_cycle E c) \<and> sorted_wrt (\<lambda>c d. \<not> same_cycle c d) cycles"

lemma cycle_of_split: "x \<in> set p \<Longrightarrow> \<exists>us vs. p = us @ x # vs \<and> cycle_of p x = x # vs"
  by (metis split_list_first take_drop_until(2) cycle_of_def)

lemma cycle_of_is_cycle:
  assumes "simple_path E p" "x \<in> set p" "(last p, x) \<in> E"
  shows "is_cycle E (cycle_of p x)"
proof -
  obtain us vs where s: "p = us @ x # vs" "cycle_of p x = x # vs"
    using cycle_of_split [OF assms(2)] by blast
  show ?thesis
    using assms(1,3) unfolding s(2) unfolding s(1)
    by (auto simp: is_cycle_def simple_path_def successively_append_iff split: if_splits)
qed

lemma scan_children_spec:
  assumes "simple_path E path" "\<forall>c \<in> set cs. (last path, c) \<in> E" "cycles_ok E cycles"
  shows "\<exists>paths' cycles' vis'. scan_children path cs paths cycles vis = Inr (paths', cycles', vis') \<and>
    set paths' = set paths \<union> {path @ [c] | c. c \<in> set cs - set path} \<and>
    cycles_ok E cycles' \<and> set cycles \<subseteq> set cycles' \<and>
    (\<forall>c \<in> set cs \<inter> set path. \<exists>d \<in> set cycles'. same_cycle d (cycle_of path c)) \<and>
    vis' = vis \<union> (set cs - set path)"
  using assms
proof (induction path cs paths cycles vis rule: scan_children.induct)
  case (1 path paths cycles vis)
  then show ?case by simp
next
  case (2 path child cs paths cycles vis)
  show ?case
  proof (cases "child \<in> set path")
    case True
    let ?c = "cycle_of path child"
    have c: "is_cycle E ?c" using cycle_of_is_cycle "2.prems" True by auto
    then have ne: "?c \<noteq> []" by (simp add: is_cycle_def)
    define dup where "dup = (\<exists>d \<in> set cycles. same_cycle d ?c)"
    define cycles1 where "cycles1 = (if dup then cycles else cycles @ [?c])"
    have d: "is_dup cycles ?c = Inr dup" using is_dup_spec [OF ne] by (simp add: dup_def)
    have ok: "cycles_ok E cycles1"
      using "2.prems"(3) c by (auto simp: cycles1_def cycles_ok_def dup_def sorted_wrt_append)
    have found: "\<exists>d \<in> set cycles1. same_cycle d ?c" by (auto simp: cycles1_def dup_def)
    have sub: "set cycles \<subseteq> set cycles1" by (auto simp: cycles1_def)
    obtain paths' cycles' vis' where IH: "scan_children path cs paths cycles1 vis = Inr (paths', cycles', vis')"
      "set paths' = set paths \<union> {path @ [c] | c. c \<in> set cs - set path}"
      "cycles_ok E cycles'" "set cycles1 \<subseteq> set cycles'"
      "\<forall>c \<in> set cs \<inter> set path. \<exists>d \<in> set cycles'. same_cycle d (cycle_of path c)"
      "vis' = vis \<union> (set cs - set path)"
      using "2.IH"(1) [OF True refl d, folded cycles1_def] "2.prems" ok by auto
    have "scan_children path (child # cs) paths cycles vis = Inr (paths', cycles', vis')"
      using True d IH(1) by (simp add: Let_def cycles1_def)
    moreover have "\<forall>c \<in> set (child # cs) \<inter> set path. \<exists>d \<in> set cycles'. same_cycle d (cycle_of path c)"
      using IH(4,5) found by auto
    ultimately show ?thesis using True IH sub by (intro exI [of _ paths'] exI [of _ cycles'] exI [of _ vis']) auto
  next
    case False
    obtain paths' cycles' vis' where IH:
      "scan_children path cs ((path @ [child]) # paths) cycles (insert child vis) = Inr (paths', cycles', vis')"
      "set paths' = set ((path @ [child]) # paths) \<union> {path @ [c] | c. c \<in> set cs - set path}"
      "cycles_ok E cycles'" "set cycles \<subseteq> set cycles'"
      "\<forall>c \<in> set cs \<inter> set path. \<exists>d \<in> set cycles'. same_cycle d (cycle_of path c)"
      "vis' = insert child vis \<union> (set cs - set path)"
      using "2.IH"(2) [OF False] "2.prems" by auto
    show ?thesis using False IH by (intro exI [of _ paths'] exI [of _ cycles'] exI [of _ vis']) auto
  qed
qed

lemma simple_path_snoc:
  "simple_path E p \<Longrightarrow> (last p, c) \<in> E \<Longrightarrow> c \<notin> set p \<Longrightarrow> simple_path E (p @ [c])"
  by (auto simp: simple_path_def successively_append_iff)

lemma path_loop_spec:
  assumes "\<forall>p \<in> set paths. simple_path (graph_edges g) p" "cycles_ok (graph_edges g) cycles"
  shows "\<exists>cycles' vis'. path_loop g paths cycles vis = Inr (cycles', vis') \<and>
    cycles_ok (graph_edges g) cycles' \<and> set cycles \<subseteq> set cycles' \<and>
    (\<forall>p \<in> set paths. \<forall>q child. simple_path (graph_edges g) q \<longrightarrow> prefix p q \<longrightarrow>
       (last q, child) \<in> graph_edges g \<longrightarrow> child \<in> set q \<longrightarrow>
       (\<exists>d \<in> set cycles'. same_cycle d (cycle_of q child))) \<and>
    (\<forall>x \<in> vis'. x \<in> vis \<or> (\<exists>p \<in> set paths. (last p, x) \<in> (graph_edges g)\<^sup>+))"
  using assms
proof (induction g paths cycles vis rule: path_loop.induct)
  case (1 g cycles vis)
  then show ?case by simp
next
  case (2 g path paths cycles vis)
  let ?E = "graph_edges g"
  have path: "simple_path ?E path" using "2.prems" by simp
  then have ne: "path \<noteq> []" by (simp add: simple_path_def)
  show ?case
  proof (cases "map_of g (last path)")
    case None
    have no: "(last path, c) \<notin> ?E" for c using None by (simp add: graph_edges_def)
    have "q = path" if "simple_path ?E q" "prefix path q" for q
      using that no ne by (cases "drop (length path) q")
        (auto simp: prefix_def simple_path_def successively_append_iff)
    moreover obtain cycles' vis' where IH: "path_loop g paths cycles vis = Inr (cycles', vis')"
      "cycles_ok ?E cycles'" "set cycles \<subseteq> set cycles'"
      "\<And>p q child. p \<in> set paths \<Longrightarrow> simple_path ?E q \<Longrightarrow> prefix p q \<Longrightarrow>
       (last q, child) \<in> ?E \<Longrightarrow> child \<in> set q \<Longrightarrow> (\<exists>d \<in> set cycles'. same_cycle d (cycle_of q child))"
      "\<And>x. x \<in> vis' \<Longrightarrow> x \<in> vis \<or> (\<exists>p \<in> set paths. (last p, x) \<in> ?E\<^sup>+)"
      using "2.IH"(1) [OF ne None] "2.prems" by auto
    moreover have "path_loop g (path # paths) cycles vis = Inr (cycles', vis')"
      using ne None IH(1) by simp
    ultimately show ?thesis using no
      by (intro exI [of _ cycles'] exI [of _ vis']) (auto; blast)
  next
    case (Some children)
    have ch: "(last path, c) \<in> ?E \<longleftrightarrow> c \<in> set children" for c using Some by (simp add: graph_edges_def)
    obtain paths1 cycles1 vis1 where s: "scan_children path children paths cycles vis = Inr (paths1, cycles1, vis1)"
      "set paths1 = set paths \<union> {path @ [c] | c. c \<in> set children - set path}"
      "cycles_ok ?E cycles1" "set cycles \<subseteq> set cycles1"
      "\<forall>c \<in> set children \<inter> set path. \<exists>d \<in> set cycles1. same_cycle d (cycle_of path c)"
      "vis1 = vis \<union> (set children - set path)"
      using scan_children_spec [OF path _ "2.prems"(2), of children paths vis] ch by blast
    have good: "\<forall>p \<in> set paths1. simple_path ?E p"
      using s(2) "2.prems"(1) path simple_path_snoc [OF path] unfolding ch by auto
    obtain cycles' vis' where IH: "path_loop g paths1 cycles1 vis1 = Inr (cycles', vis')"
      "cycles_ok ?E cycles'" "set cycles1 \<subseteq> set cycles'"
      "\<And>p q child. p \<in> set paths1 \<Longrightarrow> simple_path ?E q \<Longrightarrow> prefix p q \<Longrightarrow>
       (last q, child) \<in> ?E \<Longrightarrow> child \<in> set q \<Longrightarrow> (\<exists>d \<in> set cycles'. same_cycle d (cycle_of q child))"
      "\<And>x. x \<in> vis' \<Longrightarrow> x \<in> vis1 \<or> (\<exists>p \<in> set paths1. (last p, x) \<in> ?E\<^sup>+)"
      using "2.IH"(2) [OF ne Some s(1) refl refl good s(3)] by blast
    have "\<exists>d \<in> set cycles'. same_cycle d (cycle_of q child)"
      if q: "p \<in> set (path # paths)" "simple_path ?E q" "prefix p q" "(last q, child) \<in> ?E" "child \<in> set q" for p q child
    proof (cases "p = path")
      case True
      then obtain r where r: "q = path @ r" using q(3) by (auto simp: prefix_def)
      show ?thesis
      proof (cases r)
        case Nil
        then have "child \<in> set children \<inter> set path" using q r ch by auto
        then have "\<exists>d \<in> set cycles1. same_cycle d (cycle_of path child)" using s(5) by blast
        then show ?thesis using Nil r IH(3) by auto
      next
        case (Cons c r')
        have "(last path, c) \<in> ?E" "c \<notin> set path"
          using q(2) ne unfolding r Cons by (auto simp: simple_path_def successively_append_iff)
        then have "path @ [c] \<in> set paths1" using s(2) ch by auto
        moreover have "prefix (path @ [c]) q" using r Cons by simp
        ultimately show ?thesis using IH(4) q by blast
      qed
    next
      case False
      then have "p \<in> set paths1" using q(1) s(2) by auto
      then show ?thesis using IH(4) q by blast
    qed
    moreover have "x \<in> vis \<or> (\<exists>p \<in> set (path # paths). (last p, x) \<in> ?E\<^sup>+)" if "x \<in> vis'" for x
      using IH(5) [OF that] s(2,6) ch by (auto intro: trancl_into_trancl2 r_into_trancl)
    moreover have "path_loop g (path # paths) cycles vis = Inr (cycles', vis')"
      using ne Some s(1) IH(1) by simp
    ultimately show ?thesis using IH(2,3) s(4) by blast
  qed
qed

text \<open>Every cycle that can be reached from a start node closes some simple path from there.\<close>

lemma simple_path_drop:
  "simple_path E (us @ vs) \<Longrightarrow> vs \<noteq> [] \<Longrightarrow> simple_path E vs"
  by (auto simp: simple_path_def successively_append_iff)

lemma path_to_cycle:
  assumes "(x, y) \<in> E\<^sup>*" "y \<in> C"
  shows "\<exists>u. simple_path E u \<and> hd u = x \<and> last u \<in> C \<and> set (butlast u) \<inter> C = {}"
  using assms
proof (induction rule: converse_rtrancl_induct)
  case base
  then show ?case by (intro exI [of _ "[y]"]) (simp add: simple_path_def)
next
  case (step x z)
  then obtain u where u: "simple_path E u" "hd u = z" "last u \<in> C" "set (butlast u) \<inter> C = {}" by blast
  show ?case
  proof (cases "x \<in> C")
    case True
    then show ?thesis by (intro exI [of _ "[x]"]) (simp add: simple_path_def)
  next
    case False
    show ?thesis
    proof (cases "x \<in> set u")
      case True
      then obtain as bs where s: "u = as @ x # bs" by (meson split_list)
      have "simple_path E (x # bs)" using u(1) unfolding s by (rule simple_path_drop) simp
      moreover have "set (butlast (x # bs)) \<subseteq> set (butlast u)" by (simp add: s butlast_append)
      ultimately show ?thesis using u(3,4) unfolding s by (intro exI [of _ "x # bs"]) auto
    next
      case notin: False
      have "simple_path E (x # u)" "u \<noteq> []"
        using u(1,2) step(1) notin by (auto simp: simple_path_def successively_Cons)
      then show ?thesis using u(3,4) False by (intro exI [of _ "x # u"]) auto
    qed
  qed
qed

lemma cycle_reached:
  assumes c: "is_cycle E c" and r: "(x, hd c) \<in> E\<^sup>*"
  shows "\<exists>q child. simple_path E q \<and> hd q = x \<and> (last q, child) \<in> E \<and> child \<in> set q \<and>
    same_cycle (cycle_of q child) c"
proof -
  have "hd c \<in> set c" using c by (simp add: is_cycle_def)
  then obtain u where u: "simple_path E u" "hd u = x" "last u \<in> set c" "set (butlast u) \<inter> set c = {}"
    using path_to_cycle [OF r] by blast
  obtain a b where ab: "c = a @ last u # b" using u(3) by (meson split_list)
  define d where "d = last u # b @ a"
  define us where "us = butlast u"
  have u_eq: "u = us @ [last u]" using u(1) by (simp add: us_def simple_path_def)
  have d: "is_cycle E d" using is_cycle_append [of E a "last u # b"] c by (simp add: d_def ab)
  have same: "same_cycle d c" using same_cycle_append [of "last u # b" a] by (simp add: d_def ab)
  have sd: "set d = set c" by (auto simp: d_def ab)
  have "simple_path E (us @ d)"
    using u(1,4) d unfolding us_def [symmetric]
    by (subst (asm) u_eq) (auto simp: simple_path_def is_cycle_def successively_append_iff sd [symmetric] d_def)
  moreover have "hd (us @ d) = hd (us @ [last u])" by (cases us) (simp_all add: d_def)
  then have "hd (us @ d) = hd u" using u_eq by metis
  moreover have "(last (us @ d), last u) \<in> E" using d by (auto simp: is_cycle_def d_def)
  moreover have "last u \<in> set (us @ d)" by (simp add: d_def)
  moreover have "last u \<notin> set us" using u(3,4) by (auto simp: us_def)
  then have "cycle_of (us @ d) (last u) = d"
    unfolding cycle_of_def d_def by (rule take_drop_until(2))
  ultimately show ?thesis using same u(2) by metis
qed

definition covered :: "('a \<times> 'a) set \<Rightarrow> 'a list list \<Rightarrow> 'a \<Rightarrow> bool" where
  "covered E cycles x \<longleftrightarrow> (\<forall>c. is_cycle E c \<longrightarrow> (x, hd c) \<in> E\<^sup>* \<longrightarrow> (\<exists>d \<in> set cycles. same_cycle d c))"

lemma start_loop_spec:
  assumes "cycles_ok (graph_edges g) cycles" "\<forall>x \<in> vis. covered (graph_edges g) cycles x"
  shows "\<exists>cycles'. start_loop g ps cycles vis = Inr cycles' \<and> cycles_ok (graph_edges g) cycles' \<and>
    set cycles \<subseteq> set cycles' \<and> (\<forall>x \<in> set ps. covered (graph_edges g) cycles' x)"
  using assms
proof (induction g ps cycles vis rule: start_loop.induct)
  case (1 g cycles vis)
  then show ?case by simp
next
  case (2 g parent ps cycles vis)
  let ?E = "graph_edges g"
  have mono: "covered ?E cs x \<Longrightarrow> set cs \<subseteq> set cs' \<Longrightarrow> covered ?E cs' x" for cs cs' x
    unfolding covered_def by blast
  show ?case
  proof (cases "parent \<in> vis")
    case True
    obtain cycles' where "start_loop g ps cycles vis = Inr cycles'" "cycles_ok ?E cycles'"
      "set cycles \<subseteq> set cycles'" "\<forall>x \<in> set ps. covered ?E cycles' x"
      using "2.IH"(1) [OF True] "2.prems" by blast
    then show ?thesis using True "2.prems"(2) mono by auto
  next
    case False
    have "\<forall>p \<in> set [[parent]]. simple_path ?E p" by (simp add: simple_path_def)
    from path_loop_spec [OF this "2.prems"(1), of vis] obtain cycles1 vis1 where
      l: "path_loop g [[parent]] cycles vis = Inr (cycles1, vis1)" "cycles_ok ?E cycles1"
        "set cycles \<subseteq> set cycles1"
        "\<And>q child. simple_path ?E q \<Longrightarrow> prefix [parent] q \<Longrightarrow> (last q, child) \<in> ?E \<Longrightarrow>
           child \<in> set q \<Longrightarrow> \<exists>d \<in> set cycles1. same_cycle d (cycle_of q child)"
        "\<And>x. x \<in> vis1 \<Longrightarrow> x \<in> vis \<or> (parent, x) \<in> ?E\<^sup>+"
      by auto
    have par: "covered ?E cycles1 x" if "(parent, x) \<in> ?E\<^sup>*" for x
      unfolding covered_def
    proof (intro allI impI)
      fix c assume c: "is_cycle ?E c" "(x, hd c) \<in> ?E\<^sup>*"
      have "(parent, hd c) \<in> ?E\<^sup>*" using that c(2) by (rule rtrancl_trans)
      then obtain q child where q: "simple_path ?E q" "hd q = parent" "(last q, child) \<in> ?E"
        "child \<in> set q" "same_cycle (cycle_of q child) c"
        using cycle_reached [OF c(1)] by blast
      moreover have "prefix [parent] q" using q(1,2) by (cases q) (auto simp: simple_path_def)
      ultimately show "\<exists>d \<in> set cycles1. same_cycle d c" using l(4) same_cycle_trans by blast
    qed
    have "\<forall>x \<in> vis1. covered ?E cycles1 x"
      using l(3,5) par "2.prems"(2) mono by (meson trancl_into_rtrancl)
    then obtain cycles' where "start_loop g ps cycles1 vis1 = Inr cycles'" "cycles_ok ?E cycles'"
      "set cycles1 \<subseteq> set cycles'" "\<forall>x \<in> set ps. covered ?E cycles' x"
      using "2.IH"(2) [OF False l(1) refl l(2)] by blast
    moreover have "covered ?E cycles1 parent" using par by blast
    ultimately show ?thesis using False l(1,3) mono by auto
  qed
qed

text \<open>
  C7: find_cycles returns every simple cycle of the graph once up to rotation, nothing else, and
  does not raise.
\<close>

theorem find_cycles_complete:
  assumes "permuting ord"
  shows "\<exists>cycles. find_cycles ord g = Inr cycles \<and>
    (\<forall>c \<in> set cycles. is_cycle (graph_edges g) c) \<and>
    (\<forall>c. is_cycle (graph_edges g) c \<longrightarrow> (\<exists>d \<in> set cycles. same_cycle d c)) \<and>
    sorted_wrt (\<lambda>c d. \<not> same_cycle c d) cycles"
proof -
  let ?E = "graph_edges g"
  obtain cycles where c: "find_cycles ord g = Inr cycles" "cycles_ok ?E cycles"
    "\<forall>x \<in> set (ord (dict_keys g)). covered ?E cycles x"
    using start_loop_spec [of g "[]" "{}" "ord (dict_keys g)"]
    by (auto simp: find_cycles_def cycles_ok_def)
  have "\<exists>d \<in> set cycles. same_cycle d c" if cyc: "is_cycle ?E c" for c
  proof -
    have "\<exists>y. (hd c, y) \<in> ?E"
    proof (cases c rule: list.exhaust [case_names Nil Cons])
      case (Cons x xs)
      then show ?thesis using cyc by (cases xs) (auto simp: is_cycle_def)
    qed (use cyc in \<open>simp add: is_cycle_def\<close>)
    then have "hd c \<in> set (ord (dict_keys g))"
      using permutingD(2) [OF assms] by (auto simp: graph_edges_def dict_has_iff [symmetric] dict_has_iff(2))
    with c(3) cyc show ?thesis by (auto simp: covered_def)
  qed
  with c show ?thesis by (auto simp: cycles_ok_def)
qed

theorem find_cycles_complete_witness:
  "\<exists>cycles. find_cycles (\<lambda>xs. xs) [(1::nat, [2]), (2, [1])] = Inr cycles \<and>
    (\<forall>c \<in> set cycles. is_cycle (graph_edges [(1, [2]), (2, [1])]) c) \<and>
    (\<forall>c. is_cycle (graph_edges [(1, [2]), (2, [1])]) c \<longrightarrow> (\<exists>d \<in> set cycles. same_cycle d c)) \<and>
    sorted_wrt (\<lambda>c d. \<not> same_cycle c d) cycles"
  by (rule find_cycles_complete[OF permuting_id])

end
