(* ===== verification/Shlex.thy ===== *)
theory Shlex
  imports Prelude
begin

section \<open>Splitting a command line (\<open>shlex.split\<close>)\<close>

text \<open>
  The standard library's \<open>shlex.split\<close> in the mode its callers use: POSIX rules, no comments,
  words split at white space.  The states are those of \<open>read_token\<close>: between words, in a word,
  in a quotation, and after a backslash (with the state to go back to).
\<close>

datatype shlex_state = Between | In_word | In_quote char | Escaped "char option"

definition shlex_space :: "char \<Rightarrow> bool" where
  "shlex_space c \<longleftrightarrow> c \<in> {CHR '' '', CHR 0x09, CHR 0x0D, CHR 0x0A}"

abbreviation single_quote :: char where "single_quote \<equiv> CHR 0x27"
abbreviation double_quote :: char where "double_quote \<equiv> CHR 0x22"
abbreviation backslash :: char where "backslash \<equiv> CHR 0x5C"

text \<open>\<open>token\<close> is the word read so far and \<open>quoted\<close> says whether some of it was in quotes.\<close>

definition emit :: "bool \<Rightarrow> string \<Rightarrow> string list" where
  "emit quoted token = (if token \<noteq> [] \<or> quoted then [token] else [])"

fun shlex_loop :: "shlex_state \<Rightarrow> bool \<Rightarrow> string \<Rightarrow> string \<Rightarrow> string list res" where
  "shlex_loop Between quoted token [] = Inr (emit quoted token)"
| "shlex_loop In_word quoted token [] = Inr (emit quoted token)"
| "shlex_loop (In_quote q) quoted token [] = Inl ValueError"
| "shlex_loop (Escaped r) quoted token [] = Inl ValueError"
| "shlex_loop Between quoted token (c # s) =
     (if shlex_space c then map_value ((@) (emit quoted token)) (shlex_loop Between False [] s)
      else if c = backslash then shlex_loop (Escaped None) quoted token s
      else if c = single_quote \<or> c = double_quote then shlex_loop (In_quote c) quoted token s
      else shlex_loop In_word quoted [c] s)"
| "shlex_loop In_word quoted token (c # s) =
     (if shlex_space c then map_value ((@) (emit quoted token)) (shlex_loop Between False [] s)
      else if c = single_quote \<or> c = double_quote then shlex_loop (In_quote c) quoted token s
      else if c = backslash then shlex_loop (Escaped None) quoted token s
      else shlex_loop In_word quoted (token @ [c]) s)"
| "shlex_loop (In_quote q) quoted token (c # s) =
     (if c = q then shlex_loop In_word True token s
      else if c = backslash \<and> q = double_quote then shlex_loop (Escaped (Some q)) True token s
      else shlex_loop (In_quote q) True (token @ [c]) s)"
| "shlex_loop (Escaped r) quoted token (c # s) =
     (case r of
        None \<Rightarrow> shlex_loop In_word quoted (token @ [c]) s
      | Some q \<Rightarrow>
          shlex_loop (In_quote q) quoted (token @ (if c \<noteq> backslash \<and> c \<noteq> q then [backslash, c] else [c])) s)"

definition shlex_split :: "string \<Rightarrow> string list res" where
  "shlex_split s = shlex_loop Between False [] s"

text \<open>Words without white space, quotes and backslashes, put between blanks, are read back.\<close>

definition bare_word :: "string \<Rightarrow> bool" where
  "bare_word w \<longleftrightarrow> w \<noteq> [] \<and> (\<forall>c \<in> set w. \<not> shlex_space c \<and> c \<notin> {single_quote, double_quote, backslash})"

lemma shlex_in_word:
  "\<forall>c \<in> set w. \<not> shlex_space c \<and> c \<notin> {single_quote, double_quote, backslash} \<Longrightarrow>
   shlex_loop In_word quoted token (w @ s) = shlex_loop In_word quoted (token @ w) s"
  by (induction w arbitrary: token) auto

lemma shlex_word:
  assumes "bare_word w"
  shows "shlex_loop Between False [] (w @ s) = shlex_loop In_word False w s"
proof -
  obtain c w' where w: "w = c # w'" using assms by (cases w) (auto simp: bare_word_def)
  then show ?thesis using assms shlex_in_word[of w' False "[c]" s] by (auto simp: bare_word_def)
qed

lemma shlex_in_quote:
  "q \<notin> set w \<Longrightarrow> q = single_quote \<Longrightarrow>
   shlex_loop (In_quote q) quoted token (w @ q # s) = shlex_loop In_word True (token @ w) s"
  by (induction w arbitrary: token quoted) auto

text \<open>
  A way to write words down is sound if the loop, started between words, has read the word when
  it is through with it.  Then a line of such words with blanks between them is split into the words.
\<close>

definition reads_back :: "string \<Rightarrow> string \<Rightarrow> bool" where
  "reads_back written w \<longleftrightarrow>
     (\<exists>q. (w \<noteq> [] \<or> q) \<and> (\<forall>s. shlex_loop Between False [] (written @ s) = shlex_loop In_word q w s))"

locale word_writer =
  fixes enc :: "string \<Rightarrow> string" and writable :: "string \<Rightarrow> bool"
  assumes read_back: "writable w \<Longrightarrow> reads_back (enc w) w"
begin

lemma split_words: "(\<And>w. w \<in> set ws \<Longrightarrow> writable w) \<Longrightarrow> shlex_split (join '' '' (map enc ws)) = Inr ws"
  unfolding shlex_split_def
proof (induction ws rule: induct_list012)
  case (2 w)
  then have "writable w" by simp
  then obtain q where "\<And>s. shlex_loop Between False [] (enc w @ s) = shlex_loop In_word q w s" "w \<noteq> [] \<or> q"
    using read_back unfolding reads_back_def by meson
  from this(1)[of "[]"] this(2) show ?case by (simp add: emit_def)
next
  case (3 w w' ws)
  have rest: "shlex_loop Between False [] (join '' '' (map enc (w' # ws))) = Inr (w' # ws)"
    using 3 by (meson list.set_intros(2))
  from 3 have "writable w" by simp
  then obtain q where "\<And>s. shlex_loop Between False [] (enc w @ s) = shlex_loop In_word q w s" "w \<noteq> [] \<or> q"
    using read_back unfolding reads_back_def by meson
  from this(1)[of "'' '' @ join '' '' (map enc (w' # ws))"] this(2) rest show ?case
    by (simp add: shlex_space_def emit_def)
qed (simp add: emit_def)

end

text \<open>Words can be written as they are if they are bare, otherwise in single quotes.\<close>

definition shell_word :: "string \<Rightarrow> string" where
  "shell_word w = (if bare_word w then w else single_quote # w @ [single_quote])"

interpretation quoting: word_writer shell_word "\<lambda>w. single_quote \<notin> set w"
proof
  fix w assume w: "single_quote \<notin> set w"
  show "reads_back (shell_word w) w"
  proof (cases "bare_word w")
    case True
    then show ?thesis using shlex_word[OF True] by (auto simp: reads_back_def shell_word_def bare_word_def)
  next
    case False
    then show ?thesis using w unfolding reads_back_def
      by (intro exI[of _ True]) (auto simp: shell_word_def shlex_space_def shlex_in_quote)
  qed
qed

text \<open>\<open>s.replace('\', '\\')\<close> protects the backslashes of words without blanks and quotes.\<close>

definition double_backslashes :: "string \<Rightarrow> string" where
  "double_backslashes s = concat (map (\<lambda>c. if c = backslash then [backslash, backslash] else [c]) s)"

lemma double_backslashes_simps [simp]:
  "double_backslashes [] = []"
  "double_backslashes (c # s) = (if c = backslash then [backslash, backslash] else [c]) @ double_backslashes s"
  "double_backslashes (s @ t) = double_backslashes s @ double_backslashes t"
  by (simp_all add: double_backslashes_def)

definition unquoted_word :: "string \<Rightarrow> bool" where
  "unquoted_word w \<longleftrightarrow> w \<noteq> [] \<and> (\<forall>c \<in> set w. \<not> shlex_space c \<and> c \<notin> {single_quote, double_quote})"

lemma shlex_doubled:
  "\<forall>c \<in> set w. \<not> shlex_space c \<and> c \<notin> {single_quote, double_quote} \<Longrightarrow>
   shlex_loop In_word quoted token (double_backslashes w @ s) = shlex_loop In_word quoted (token @ w) s"
  by (induction w arbitrary: token) (auto simp: shlex_space_def)

interpretation doubling: word_writer double_backslashes unquoted_word
proof
  fix w assume w: "unquoted_word w"
  then obtain c w' where c: "w = c # w'" by (cases w) (auto simp: unquoted_word_def)
  have "shlex_loop Between False [] (double_backslashes w @ s) = shlex_loop In_word False w s" for s
    using w shlex_doubled[of w' False "[c]" s]
    by (cases "c = backslash") (simp_all add: c unquoted_word_def shlex_space_def)
  then show "reads_back (double_backslashes w) w"
    using c unfolding reads_back_def by (intro exI[of _ False]) simp
qed

interpretation plain: word_writer "\<lambda>w. w" bare_word
proof
  show "reads_back w w" if "bare_word w" for w
    using shlex_word[OF that] that by (auto simp: reads_back_def bare_word_def)
qed

lemma double_backslashes_join: "double_backslashes (join '' '' ws) = join '' '' (map double_backslashes ws)"
  by (induction ws rule: induct_list012) simp_all

end
