(* ===== verification/Shellcmd.thy ===== *)
theory Shellcmd
  imports Shlex
begin

section \<open>Shell command lines (\<open>shellcmd.py\<close>)\<close>

text \<open>
  \<^verbatim>\<open>waf-tools/shellcmd.py\<close>: the parser that turns a list of tokens into a pipeline of
  commands and operators, and \<open>Pipeline.run\<close>, which starts the commands.  A string is first
  split by \<open>shlex.split\<close>, which is the theory \<open>Shlex\<close>.  The operating system is a
  parameter: \<open>wait\<close> gives the exit code of a process by what it was started with.  \<open>open\<close> and
  \<open>subprocess.Popen\<close> are taken to succeed; what they were called with is recorded in a trace.
  \<open>ord\<close> is the order in which Python goes through a dictionary.
\<close>

subsection \<open>Nodes\<close>

text \<open>
  What the attributes \<open>stdout\<close> and \<open>stderr\<close> of a command hold, beside \<open>None\<close>: the class
  constants \<open>PIPE\<close> and \<open>STDOUT\<close>, or a file name.
\<close>

datatype out_target = To_pipe | To_file string
datatype err_target = Err_pipe | Err_stdout | Err_file string

record command =
  c_name :: string
  c_argv :: "string list"
  c_stdin :: "string option"
  c_stdout :: "out_target option"
  c_stderr :: "err_target option"
  c_env :: "(string, string) dict option"

datatype node = Command command | Chdir "string option" | Pipe | And | Or

definition new_command :: "string \<Rightarrow> command" where
  "new_command name =
     \<lparr>c_name = name, c_argv = [name], c_stdin = None, c_stdout = None, c_stderr = None, c_env = None\<rparr>"

subsection \<open>The parser\<close>

text \<open>\<open>env_var_rx\<close>: the dollar of the pattern also matches before a final newline.\<close>

definition is_word_char :: "char \<Rightarrow> bool" where
  "is_word_char c \<longleftrightarrow> c \<in> set ''abcdefghijklmnopqrstuvwxyzABCDEFGHIJKLMNOPQRSTUVWXYZ0123456789_''"

definition env_var_match :: "string \<Rightarrow> (string \<times> string) option" where
  "env_var_match token =
     (let key = takeWhile is_word_char token
      in case dropWhile is_word_char token of
           [] \<Rightarrow> None
         | c # v \<Rightarrow>
             let val = (if v \<noteq> [] \<and> last v = newline then butlast v else v)
             in if c = CHR ''='' \<and> key \<noteq> [] \<and> val \<noteq> [] \<and> list_all (\<lambda>x. \<not> is_space x) val
                then Some (key, val) else None)"

datatype parse_state = BEGIN | COMMAND | CHDIR | STDERR | STDOUT | STDIN

record parser =
  state :: parse_state
  current_command :: "node option"
  pipeline :: "node list"
  env_vars :: "(string, string) dict"

definition start_parser :: parser where
  "start_parser = \<lparr>state = BEGIN, current_command = None, pipeline = [], env_vars = []\<rparr>"

definition commit_command :: "parser \<Rightarrow> parser res" where
  "commit_command p =
     (case current_command p of
        None \<Rightarrow> Inl AssertionError
      | Some n \<Rightarrow> Inr (p\<lparr>pipeline := pipeline p @ [n], current_command := None\<rparr>))"

text \<open>Reading or writing an attribute of the current command.\<close>

definition on_command :: "parser \<Rightarrow> (command \<Rightarrow> command res) \<Rightarrow> parser res" where
  "on_command p f =
     (case current_command p of
        Some (Command c) \<Rightarrow> map_value (\<lambda>c'. p\<lparr>current_command := Some (Command c')\<rparr>) (f c)
      | _ \<Rightarrow> Inl AttributeError)"

definition commit_and :: "node \<Rightarrow> parser \<Rightarrow> parser res" where
  "commit_and operator p =
     bind_res (commit_command p) (\<lambda>p'. Inr (p'\<lparr>pipeline := pipeline p' @ [operator], state := BEGIN\<rparr>))"

definition step_begin :: "parser \<Rightarrow> string \<Rightarrow> parser res" where
  "step_begin p token =
     (case env_var_match token of
        Some (k, v) \<Rightarrow> Inr (p\<lparr>env_vars := dict_put k v (env_vars p)\<rparr>)
      | None \<Rightarrow>
          if current_command p \<noteq> None then Inl AssertionError
          else if token = ''cd'' then
            (if env_vars p \<noteq> [] then Inl AssertionError
             else Inr (p\<lparr>current_command := Some (Chdir None), state := CHDIR\<rparr>))
          else if env_vars p \<noteq> [] then
            Inr (p\<lparr>current_command := Some (Command ((new_command token)\<lparr>c_env := Some (env_vars p)\<rparr>)),
                   env_vars := [], state := COMMAND\<rparr>)
          else Inr (p\<lparr>current_command := Some (Command (new_command token)), state := COMMAND\<rparr>))"

definition step_command :: "parser \<Rightarrow> string \<Rightarrow> parser res" where
  "step_command p token =
     (if token = ''>'' then Inr (p\<lparr>state := STDOUT\<rparr>)
      else if token = ''2>'' then Inr (p\<lparr>state := STDERR\<rparr>)
      else if token = ''2>&1'' then
        on_command p (\<lambda>c. if c_stderr c \<noteq> None then Inl AssertionError
                          else Inr (c\<lparr>c_stderr := Some Err_stdout\<rparr>))
      else if token = ''<'' then Inr (p\<lparr>state := STDIN\<rparr>)
      else if token = ''|'' then
        bind_res (on_command p (\<lambda>c. if c_stdout c \<noteq> None then Inl AssertionError
                                    else Inr (c\<lparr>c_stdout := Some To_pipe\<rparr>)))
          (commit_and Pipe)
      else if token = ''&&'' then commit_and And p
      else if token = ''||'' then commit_and Or p
      else on_command p (\<lambda>c. Inr (c\<lparr>c_argv := c_argv c @ [token]\<rparr>)))"

definition step_chdir :: "parser \<Rightarrow> string \<Rightarrow> parser res" where
  "step_chdir p token =
     (if token = ''&&'' then commit_and And p
      else case current_command p of
             Some (Chdir d) \<Rightarrow>
               if d \<noteq> None then Inl AssertionError
               else Inr (p\<lparr>current_command := Some (Chdir (Some token))\<rparr>)
           | _ \<Rightarrow> Inl AttributeError)"

definition step_redirect :: "(command \<Rightarrow> bool) \<Rightarrow> (command \<Rightarrow> command) \<Rightarrow> parser \<Rightarrow> parser res" where
  "step_redirect taken set_file p =
     map_value (\<lambda>p'. p'\<lparr>state := COMMAND\<rparr>)
       (on_command p (\<lambda>c. if taken c then Inl AssertionError else Inr (set_file c)))"

definition parse_step :: "parser \<Rightarrow> string \<Rightarrow> parser res" where
  "parse_step p token =
     (case state p of
        BEGIN \<Rightarrow> step_begin p token
      | COMMAND \<Rightarrow> step_command p token
      | CHDIR \<Rightarrow> step_chdir p token
      | STDOUT \<Rightarrow> step_redirect (\<lambda>c. c_stdout c \<noteq> None) (\<lambda>c. c\<lparr>c_stdout := Some (To_file token)\<rparr>) p
      | STDERR \<Rightarrow> step_redirect (\<lambda>c. c_stderr c \<noteq> None) (\<lambda>c. c\<lparr>c_stderr := Some (Err_file token)\<rparr>) p
      | STDIN \<Rightarrow> step_redirect (\<lambda>c. c_stdin c \<noteq> None) (\<lambda>c. c\<lparr>c_stdin := Some token\<rparr>) p)"

definition parse_tokens :: "string list \<Rightarrow> node list res" where
  "parse_tokens tokens =
     bind_res (fold_res parse_step start_parser tokens)
       (\<lambda>p. map_value pipeline (commit_command p))"

datatype command_line = Token_list "string list" | Command_text string

definition parse :: "command_line \<Rightarrow> node list res" where
  "parse cmd =
     (case cmd of
        Token_list ts \<Rightarrow> parse_tokens ts
      | Command_text s \<Rightarrow> bind_res (shlex_split s) parse_tokens)"

text \<open>
  The last test of the original repeats \<open>isinstance(node, And)\<close>, so an \<open>Or\<close> adds nothing.
\<close>

definition abbreviate :: "node \<Rightarrow> string list" where
  "abbreviate node =
     (case node of
        Command c \<Rightarrow> [c_name c]
      | Chdir d \<Rightarrow> [''cd '' @ str_of_option d]
      | Pipe \<Rightarrow> [''|'']
      | And \<Rightarrow> [''&&'']
      | Or \<Rightarrow> [])"

definition get_abbreviated_command :: "node list \<Rightarrow> string" where
  "get_abbreviated_command nodes = join '' '' (concat (map abbreviate nodes))"

subsection \<open>Running a pipeline\<close>

datatype proc_input = In_inherit | In_file string | In_pipe
datatype file_object = Dev_null | File string
datatype proc_output = Out_inherit | Out_pipe | Out_stdout | Out_file file_object

record popen =
  p_argv :: "string list"
  p_stdin :: proc_input
  p_stdout :: proc_output
  p_stderr :: proc_output
  p_env :: "(string, string) dict option"
  p_cwd :: "string option"

datatype event = Opened string | Started popen | Waited popen | Closed string | Printed string

record run_state =
  piping :: bool
  piped_commands :: "popen list"
  files_to_close :: "file_object list"
  display :: "string list"
  cwd :: string
  trace :: "event list"

definition open_out_file :: "string \<Rightarrow> file_object" where
  "open_out_file filename = (if filename \<in> {''NUL:'', ''/dev/null''} then Dev_null else File filename)"

definition opened :: "file_object \<Rightarrow> event list" where
  "opened f = (case f of Dev_null \<Rightarrow> [] | File n \<Rightarrow> [Opened n])"

definition closed :: "file_object \<Rightarrow> event list" where
  "closed f = (case f of Dev_null \<Rightarrow> [] | File n \<Rightarrow> [Closed n])"

text \<open>\<open>_exec_piped_commands\<close>: all are waited for; the last code counts if any is not zero.\<close>

definition exec_piped_commands :: "(popen \<Rightarrow> int) \<Rightarrow> popen list \<Rightarrow> int" where
  "exec_piped_commands wait commands =
     (let retvals = map wait commands
      in if list_ex (\<lambda>r. r \<noteq> 0) retvals then last retvals else 0)"

definition note_if :: "bool \<Rightarrow> string \<Rightarrow> run_state \<Rightarrow> run_state" where
  "note_if verbose s st = (if verbose then st\<lparr>display := display st @ [s]\<rparr> else st)"

definition hold_file :: "file_object \<Rightarrow> run_state \<Rightarrow> run_state" where
  "hold_file f st = st\<lparr>files_to_close := files_to_close st @ [f], trace := trace st @ opened f\<rparr>"

definition show_command :: "((string, string) dict \<Rightarrow> (string, string) dict) \<Rightarrow> command \<Rightarrow> string" where
  "show_command ord cmd =
     (case c_env cmd of
        None \<Rightarrow> join '' '' (c_argv cmd)
      | Some [] \<Rightarrow> join '' '' (c_argv cmd)
      | Some vars \<Rightarrow> join '' '' (map (\<lambda>(key, val). key @ ''='' @ val) (ord vars)) @ '' '' @ join '' '' (c_argv cmd))"

definition start_stdin :: "bool \<Rightarrow> command \<Rightarrow> run_state \<Rightarrow> run_state \<times> proc_input" where
  "start_stdin verbose cmd st =
     (if piping st then (st, In_pipe)
      else case c_stdin cmd of
             Some f \<Rightarrow> (hold_file (File f) (note_if verbose (''< '' @ f) st), In_file f)
           | None \<Rightarrow> (st, In_inherit))"

definition start_stdout :: "bool \<Rightarrow> command \<Rightarrow> run_state \<Rightarrow> run_state \<times> proc_output" where
  "start_stdout verbose cmd st =
     (case c_stdout cmd of
        None \<Rightarrow> (st, Out_inherit)
      | Some To_pipe \<Rightarrow> (st, Out_pipe)
      | Some (To_file f) \<Rightarrow>
          (note_if verbose (''> '' @ f) (hold_file (open_out_file f) st), Out_file (open_out_file f)))"

definition start_stderr :: "bool \<Rightarrow> command \<Rightarrow> run_state \<Rightarrow> run_state \<times> proc_output" where
  "start_stderr verbose cmd st =
     (case c_stderr cmd of
        None \<Rightarrow> (st, Out_inherit)
      | Some Err_pipe \<Rightarrow> (st, Out_pipe)
      | Some Err_stdout \<Rightarrow> (note_if verbose ''2>&1'' st, Out_stdout)
      | Some (Err_file f) \<Rightarrow>
          (note_if verbose (''2> '' @ f) (hold_file (open_out_file f) st), Out_file (open_out_file f)))"

text \<open>\<open>environ\<close> is \<open>os.environ\<close>; only a non-empty \<open>env_vars\<close> makes a changed copy of it.\<close>

definition process_env :: "(string, string) dict \<Rightarrow> command \<Rightarrow> (string, string) dict option" where
  "process_env environ cmd =
     (case c_env cmd of
        None \<Rightarrow> None
      | Some [] \<Rightarrow> None
      | Some vars \<Rightarrow> Some (foldl (\<lambda>env (k, v). dict_put k v env) environ vars))"

definition start_command ::
  "((string, string) dict \<Rightarrow> (string, string) dict) \<Rightarrow> (string, string) dict \<Rightarrow> bool \<Rightarrow> command \<Rightarrow> run_state \<Rightarrow> run_state" where
  "start_command ord environ verbose cmd st =
     (case start_stdin verbose cmd (note_if verbose (show_command ord cmd) st) of (st1, stdin) \<Rightarrow>
      case start_stdout verbose cmd st1 of (st2, stdout) \<Rightarrow>
      case start_stderr verbose cmd st2 of (st3, stderr) \<Rightarrow>
        let proc = \<lparr>p_argv = c_argv cmd, p_stdin = stdin, p_stdout = stdout, p_stderr = stderr,
                    p_env = process_env environ cmd,
                    p_cwd = (if cwd st3 = ''.'' then None else Some (cwd st3))\<rparr>
        in st3\<lparr>piped_commands := piped_commands st3 @ [proc], trace := trace st3 @ [Started proc]\<rparr>)"

text \<open>Waiting for the commands of a pipe and closing its files, in the \<open>finally\<close> clause.\<close>

definition finish_pipe :: "(popen \<Rightarrow> int) \<Rightarrow> run_state \<Rightarrow> run_state \<times> int" where
  "finish_pipe wait st =
     (st\<lparr>trace := trace st @ map Waited (piped_commands st) @ concat (map closed (files_to_close st)),
         files_to_close := []\<rparr>,
      exec_piped_commands wait (piped_commands st))"

definition next_pipe :: "run_state \<Rightarrow> run_state" where
  "next_pipe st = st\<lparr>piping := False, piped_commands := [], display := []\<rparr>"

text \<open>
  What happens at \<open>&&\<close> and \<open>||\<close>: \<open>go_on\<close> says whether the exit code lets the run go on.
  The verbose messages print \<open>retval\<close>, which is only assigned on the path that leaves the
  function right after, so reading it raises.
\<close>

definition at_operator ::
  "(popen \<Rightarrow> int) \<Rightarrow> bool \<Rightarrow> (int \<Rightarrow> bool) \<Rightarrow> run_state \<Rightarrow> (run_state \<Rightarrow> run_state \<times> int option res) \<Rightarrow>
   run_state \<times> int option res" where
  "at_operator wait verbose go_on st continue =
     (case finish_pipe wait st of (st', this_retval) \<Rightarrow>
        if \<not> go_on this_retval
        then if verbose then (st', Inl UnboundLocalError) else (st', Inr (Some this_retval))
        else if verbose then (st', Inl UnboundLocalError) else continue (next_pipe st'))"

definition at_end :: "(popen \<Rightarrow> int) \<Rightarrow> bool \<Rightarrow> run_state \<Rightarrow> run_state \<times> int option res" where
  "at_end wait verbose st =
     (case finish_pipe wait st of (st', retval) \<Rightarrow>
        (if verbose
         then st'\<lparr>trace := trace st @ map Waited (piped_commands st) @
                    [Printed (join '' '' (display st) @ '': exit code '' @ show_int retval)] @
                    concat (map closed (files_to_close st))\<rparr>
         else st', Inr (Some retval)))"

lemma at_operator_cong [fundef_cong]:
  assumes "wait = wait'" "verbose = verbose'" "go_on = go_on'" "st = st'"
    "continue (next_pipe (fst (finish_pipe wait' st'))) = continue' (next_pipe (fst (finish_pipe wait' st')))"
  shows "at_operator wait verbose go_on st continue = at_operator wait' verbose' go_on' st' continue'"
  using assms by (cases "finish_pipe wait' st'") (simp add: at_operator_def)

fun run_loop ::
  "(popen \<Rightarrow> int) \<Rightarrow> ((string, string) dict \<Rightarrow> (string, string) dict) \<Rightarrow> (string, string) dict \<Rightarrow> bool \<Rightarrow> node list \<Rightarrow> run_state \<Rightarrow> run_state \<times> int option res" where
  "run_loop wait ord environ verbose [] st = (st, Inr None)"
| "run_loop wait ord environ verbose (Chdir d # rest) st =
     (case rest of
        [] \<Rightarrow> (st, Inl IndexError)
      | And # rest' \<Rightarrow>
          (case d of
             None \<Rightarrow> (st, Inl AttributeError)
           | Some dir \<Rightarrow>
               run_loop wait ord environ verbose rest'
                 (note_if verbose (''cd '' @ dir @ '' &&'') (st\<lparr>cwd := path_join (cwd st) dir\<rparr>)))
      | _ \<Rightarrow> (st, Inl AssertionError))"
| "run_loop wait ord environ verbose (Command cmd # rest) st =
     (let st' = start_command ord environ verbose cmd st
      in case rest of
           [] \<Rightarrow> at_end wait verbose st'
         | Pipe # rest' \<Rightarrow>
             run_loop wait ord environ verbose rest' (st'\<lparr>piping := True, display := display st' @ [''|'']\<rparr>)
         | Or # rest' \<Rightarrow>
             at_operator wait verbose (\<lambda>r. r \<noteq> 0) st' (run_loop wait ord environ verbose rest')
         | And # rest' \<Rightarrow>
             at_operator wait verbose (\<lambda>r. r = 0) st' (run_loop wait ord environ verbose rest')
         | _ # rest' \<Rightarrow> run_loop wait ord environ verbose rest' st')"
| "run_loop wait ord environ verbose (_ # rest) st = (st, Inl AssertionError)"

definition start_state :: run_state where
  "start_state = \<lparr>piping = False, piped_commands = [], files_to_close = [], display = [], cwd = ''.'', trace = []\<rparr>"

definition run ::
  "(popen \<Rightarrow> int) \<Rightarrow> ((string, string) dict \<Rightarrow> (string, string) dict) \<Rightarrow> (string, string) dict \<Rightarrow> bool \<Rightarrow> node list \<Rightarrow> run_state \<times> int option res" where
  "run wait ord environ verbose nodes = run_loop wait ord environ verbose nodes start_state"

subsection \<open>What the parser accepts\<close>

definition operators :: "string set" where
  "operators = {''>'', ''2>'', ''2>&1'', ''<'', ''|'', ''&&'', ''||''}"

definition assignment :: "string \<times> string \<Rightarrow> string" where
  "assignment kv = fst kv @ ''='' @ snd kv"

definition env_ok :: "(string, string) dict \<Rightarrow> bool" where
  "env_ok vars \<longleftrightarrow> distinct (dict_keys vars) \<and> (\<forall>kv \<in> set vars. env_var_match (assignment kv) = Some kv)"

definition wf_command :: "command \<Rightarrow> bool" where
  "wf_command c \<longleftrightarrow>
     (\<exists>args. c_argv c = c_name c # args \<and> set args \<inter> operators = {}) \<and>
     env_var_match (c_name c) = None \<and> c_name c \<noteq> ''cd'' \<and> c_stderr c \<noteq> Some Err_pipe \<and>
     (case c_env c of None \<Rightarrow> True | Some vars \<Rightarrow> vars \<noteq> [] \<and> env_ok vars)"

text \<open>
  A pipeline is a sequence of commands and \<open>cd\<close>s with an operator after each but the last; a
  command's output is a pipe exactly when the operator after it is \<open>Pipe\<close>, and a \<open>cd\<close> is
  only ever followed by \<open>And\<close>.  The operator after a node \<open>n\<close> is \<open>follows n\<close>.
\<close>

definition wf_last :: "node \<Rightarrow> bool" where
  "wf_last n =
     (case n of Command c \<Rightarrow> wf_command c \<and> c_stdout c \<noteq> Some To_pipe
      | Chdir d \<Rightarrow> d \<noteq> Some ''&&'' | _ \<Rightarrow> False)"

definition wf_before :: "node \<Rightarrow> node \<Rightarrow> bool" where
  "wf_before n operator =
     (case n of
        Command c \<Rightarrow> wf_command c \<and>
          (case operator of Pipe \<Rightarrow> c_stdout c = Some To_pipe
           | And \<Rightarrow> c_stdout c \<noteq> Some To_pipe | Or \<Rightarrow> c_stdout c \<noteq> Some To_pipe | _ \<Rightarrow> False)
      | Chdir d \<Rightarrow> d \<noteq> Some ''&&'' \<and> operator = And
      | _ \<Rightarrow> False)"

fun wf_prefix :: "node list \<Rightarrow> bool" where
  "wf_prefix [] = True"
| "wf_prefix [n] = False"
| "wf_prefix (n # operator # rest) = (wf_before n operator \<and> wf_prefix rest)"

fun wf_pipeline :: "node list \<Rightarrow> bool" where
  "wf_pipeline [] = False"
| "wf_pipeline [n] = wf_last n"
| "wf_pipeline (n # operator # rest) = (wf_before n operator \<and> wf_pipeline rest)"

lemma wf_prefix_append [simp]: "wf_prefix xs \<Longrightarrow> wf_prefix (xs @ ys) = wf_prefix ys"
  by (induction xs rule: wf_prefix.induct) auto

lemma wf_pipeline_append [simp]: "wf_prefix xs \<Longrightarrow> wf_pipeline (xs @ ys) = wf_pipeline ys"
  by (induction xs rule: wf_prefix.induct) auto

definition plain_output :: "command \<Rightarrow> bool" where
  "plain_output c \<longleftrightarrow> wf_command c \<and> c_stdout c \<noteq> Some To_pipe"

text \<open>The parser's invariant: what each state says of the current command.\<close>

definition parser_inv :: "parser \<Rightarrow> bool" where
  "parser_inv p \<longleftrightarrow>
     wf_prefix (pipeline p) \<and> env_ok (env_vars p) \<and>
     (state p \<noteq> BEGIN \<longrightarrow> env_vars p = []) \<and>
     (case state p of
        BEGIN \<Rightarrow> current_command p = None
      | CHDIR \<Rightarrow> (\<exists>d. current_command p = Some (Chdir d) \<and> d \<noteq> Some ''&&'')
      | _ \<Rightarrow> (\<exists>c. current_command p = Some (Command c) \<and> plain_output c))"

definition step_fine :: "parser res \<Rightarrow> bool" where
  "step_fine r = (case r of Inl e \<Rightarrow> e = AssertionError | Inr p \<Rightarrow> parser_inv p)"

lemma step_fine_simps [simp]:
  "step_fine (Inl e) \<longleftrightarrow> e = AssertionError" "step_fine (Inr p) \<longleftrightarrow> parser_inv p"
  by (simp_all add: step_fine_def)


lemma env_ok_Nil [simp]: "env_ok []"
  by (simp add: env_ok_def dict_keys_def)

lemma env_ok_put:
  assumes "env_ok vars" "env_var_match (assignment (k, v)) = Some (k, v)"
  shows "env_ok (dict_put k v vars)"
proof -
  have "set (dict_put k v vars) \<subseteq> insert (k, v) (set vars)"
    by (induction vars) auto
  then show ?thesis using assms by (auto simp: env_ok_def distinct_dict_put)
qed

lemma env_var_match_assignment:
  assumes "env_var_match token = Some kv"
  shows "env_var_match (assignment kv) = Some kv"
proof -
  obtain k v where kv: "kv = (k, v)" by fastforce
  define tail where "tail = dropWhile is_word_char token"
  from assms obtain v' where t: "tail = CHR ''='' # v'" and k: "k = takeWhile is_word_char token" "k \<noteq> []"
    and v: "v = (if v' \<noteq> [] \<and> last v' = newline then butlast v' else v')" "v \<noteq> []"
      "list_all (\<lambda>x. \<not> is_space x) v"
    by (auto simp: env_var_match_def Let_def tail_def kv split: list.splits if_splits)
  have word: "\<forall>c \<in> set k. is_word_char c" using set_takeWhileD k(1) by metis
  have eq: "\<not> is_word_char (CHR ''='')" by (simp add: is_word_char_def)
  have "last v \<noteq> newline" using v(2,3) by (auto simp: list_all_iff is_space_def)
  then show ?thesis
    using word eq k(2) v(2,3)
    by (simp add: env_var_match_def assignment_def kv Let_def takeWhile_append2 dropWhile_append2)
qed

lemma plain_output_new [simp]:
  "env_var_match name = None \<Longrightarrow> name \<noteq> ''cd'' \<Longrightarrow> plain_output (new_command name)"
  by (simp add: plain_output_def wf_command_def new_command_def)

lemma plain_output_env [simp]:
  "env_var_match name = None \<Longrightarrow> name \<noteq> ''cd'' \<Longrightarrow> env_ok vars \<Longrightarrow> vars \<noteq> [] \<Longrightarrow>
   plain_output ((new_command name)\<lparr>c_env := Some vars\<rparr>)"
  by (simp add: plain_output_def wf_command_def new_command_def)

lemma step_begin_fine:
  assumes "parser_inv p" "state p = BEGIN"
  shows "step_fine (step_begin p token)"
proof (cases "env_var_match token")
  case None
  have "token \<noteq> ''cd'' \<or> token = ''cd''" by simp
  then show ?thesis using assms None by (elim disjE) (auto simp: step_begin_def parser_inv_def)
next
  case (Some kv)
  then show ?thesis using assms env_var_match_assignment[of token kv]
    by (cases kv) (auto simp: step_begin_def parser_inv_def intro!: env_ok_put)
qed

lemma wf_command_redirect [simp]:
  "wf_command (c\<lparr>c_stdout := t\<rparr>) = wf_command c" "wf_command (c\<lparr>c_stdin := i\<rparr>) = wf_command c"
  "wf_command c \<Longrightarrow> e \<noteq> Some Err_pipe \<Longrightarrow> wf_command (c\<lparr>c_stderr := e\<rparr>)"
  by (simp_all add: wf_command_def)

lemma wf_command_argv [simp]:
  "wf_command c \<Longrightarrow> token \<notin> operators \<Longrightarrow> wf_command (c\<lparr>c_argv := c_argv c @ [token]\<rparr>)"
  by (auto simp: wf_command_def)

lemma step_command_fine:
  assumes inv: "parser_inv p" and st: "state p = COMMAND"
  shows "step_fine (step_command p token)"
proof -
  from assms obtain c where c: "current_command p = Some (Command c)" "wf_command c" "c_stdout c \<noteq> Some To_pipe"
    and p: "wf_prefix (pipeline p)" "env_vars p = []"
    by (auto simp: parser_inv_def plain_output_def)
  note defs = step_command_def parser_inv_def on_command_def commit_and_def commit_command_def wf_before_def
    plain_output_def
  show ?thesis
  proof (cases "token \<in> operators")
    case False
    then have "token \<noteq> ''>''" "token \<noteq> ''2>''" "token \<noteq> ''2>&1''" "token \<noteq> ''<''" "token \<noteq> ''|''"
      "token \<noteq> ''&&''" "token \<noteq> ''||''" by (auto simp: operators_def)
    then show ?thesis using c p False st by (simp add: defs)
  next
    case True
    then consider "token = ''>''" | "token = ''2>''" | "token = ''2>&1''" | "token = ''<''" | "token = ''|''"
      | "token = ''&&''" | "token = ''||''" by (auto simp: operators_def)
    then show ?thesis using c p st by cases (simp_all add: defs)
  qed
qed

lemma step_chdir_fine: "parser_inv p \<Longrightarrow> state p = CHDIR \<Longrightarrow> step_fine (step_chdir p token)"
  by (auto simp: step_chdir_def parser_inv_def commit_and_def commit_command_def wf_before_def)

lemma step_redirect_fine:
  "parser_inv p \<Longrightarrow> state p \<in> {STDOUT, STDERR, STDIN} \<Longrightarrow> 
  (\<And>c. plain_output c \<Longrightarrow> \<not> taken c \<Longrightarrow> plain_output (set_file c)) \<Longrightarrow>
  step_fine (step_redirect taken set_file p)"
  by (auto simp: step_redirect_def parser_inv_def on_command_def)

lemma parse_step_fine: "parser_inv p \<Longrightarrow> step_fine (parse_step p token)"
  by (cases "state p")
    (auto simp: parse_step_def step_begin_fine step_command_fine step_chdir_fine plain_output_def
     intro!: step_redirect_fine)

interpretation parser: res_loop parse_step parser_inv "\<lambda>e. e = AssertionError"
  using parse_step_fine by unfold_locales (simp add: step_fine_def)

lemma start_parser_inv: "parser_inv start_parser"
  by (simp add: parser_inv_def start_parser_def)

lemma parsed_fine:
  "case parse_tokens tokens of Inl e \<Rightarrow> e = AssertionError | Inr p \<Rightarrow> wf_pipeline p"
proof (cases "fold_res parse_step start_parser tokens")
  case (Inl e)
  then show ?thesis using parser.run_raises[OF start_parser_inv Inl] by (simp add: parse_tokens_def)
next
  case (Inr p)
  then show ?thesis using parser.run_inv[OF start_parser_inv Inr]
    by (cases "state p")
      (auto simp: parse_tokens_def commit_command_def parser_inv_def wf_last_def plain_output_def)
qed

theorem parse_tokens_fine:
  "case parse_tokens tokens of Inl e \<Rightarrow> e = AssertionError | Inr p \<Rightarrow> wf_pipeline p"
  by (rule parsed_fine)

lemma parsed_wf: "parse cmd = Inr nodes \<Longrightarrow> wf_pipeline nodes"
  using parsed_fine by (auto simp: parse_def bind_res_eq_Inr split: command_line.splits) (metis sum.case(2))+

subsection \<open>Printing a pipeline back\<close>

text \<open>The tokens of a pipeline, in one fixed order of redirections.\<close>

definition render_command :: "command \<Rightarrow> string list" where
  "render_command c =
     (case c_env c of None \<Rightarrow> [] | Some vars \<Rightarrow> map assignment vars) @ c_argv c @
     (case c_stdin c of None \<Rightarrow> [] | Some f \<Rightarrow> [''<'', f]) @
     (case c_stdout c of Some (To_file f) \<Rightarrow> [''>'', f] | _ \<Rightarrow> []) @
     (case c_stderr c of None \<Rightarrow> [] | Some Err_pipe \<Rightarrow> [] | Some Err_stdout \<Rightarrow> [''2>&1''] | Some (Err_file f) \<Rightarrow> [''2>'', f])"

definition render_node :: "node \<Rightarrow> string list" where
  "render_node n =
     (case n of Command c \<Rightarrow> render_command c
      | Chdir d \<Rightarrow> ''cd'' # (case d of None \<Rightarrow> [] | Some dir \<Rightarrow> [dir])
      | Pipe \<Rightarrow> [''|''] | And \<Rightarrow> [''&&''] | Or \<Rightarrow> [''||''])"

definition render :: "node list \<Rightarrow> string list" where
  "render nodes = concat (map render_node nodes)"

definition at_begin :: "node list \<Rightarrow> parser" where
  "at_begin ns = \<lparr>state = BEGIN, current_command = None, pipeline = ns, env_vars = []\<rparr>"

definition at_node :: "node list \<Rightarrow> node \<Rightarrow> parser" where
  "at_node ns n = \<lparr>state = (case n of Command c \<Rightarrow> COMMAND | _ \<Rightarrow> CHDIR), current_command = Some n,
     pipeline = ns, env_vars = []\<rparr>"

lemma dict_put_new: "k \<notin> set (dict_keys d) \<Longrightarrow> dict_put k v d = d @ [(k, v)]"
  by (induction d) (auto simp: dict_keys_def)

lemma parse_assignments:
  assumes "env_ok (vars @ new)"
  shows "fold_res parse_step \<lparr>state = BEGIN, current_command = None, pipeline = ns, env_vars = vars\<rparr> (map assignment new) =
         Inr \<lparr>state = BEGIN, current_command = None, pipeline = ns, env_vars = vars @ new\<rparr>"
  using assms
proof (induction new arbitrary: vars)
  case (Cons kv new)
  obtain k v where kv: "kv = (k, v)" by fastforce
  from Cons.prems have m: "env_var_match (assignment kv) = Some (k, v)" and d: "k \<notin> set (dict_keys vars)"
    by (auto simp: env_ok_def kv dict_keys_def)
  have "parse_step \<lparr>state = BEGIN, current_command = None, pipeline = ns, env_vars = vars\<rparr> (assignment kv)
      = Inr \<lparr>state = BEGIN, current_command = None, pipeline = ns, env_vars = vars @ [kv]\<rparr>"
    using m dict_put_new[OF d, of v] by (simp add: parse_step_def step_begin_def kv)
  then show ?case using Cons.IH[of "vars @ [kv]"] Cons.prems by simp
qed simp

lemma operator_neq: 
  assumes "token \<notin> operators"
  shows "token \<noteq> ''>''" "token \<noteq> ''2>''" "token \<noteq> ''2>&1''" "token \<noteq> ''<''" "token \<noteq> ''|''"
      "token \<noteq> ''&&''" "token \<noteq> ''||''"
  using assms by (auto simp: operators_def)

lemma parse_arguments:
  assumes "set args \<inter> operators = {}"
  shows "fold_res parse_step (at_node ns (Command c)) args = Inr (at_node ns (Command (c\<lparr>c_argv := c_argv c @ args\<rparr>)))"
  using assms
proof (induction args arbitrary: c)
  case (Cons a args)
  have "parse_step (at_node ns (Command c)) a = Inr (at_node ns (Command (c\<lparr>c_argv := c_argv c @ [a]\<rparr>)))"
    using Cons.prems operator_neq[of a]
    by (simp add: parse_step_def step_command_def at_node_def on_command_def)
  then show ?case using Cons.IH[of "c\<lparr>c_argv := c_argv c @ [a]\<rparr>"] Cons.prems by simp
qed (simp add: at_node_def)

lemmas redirect_simps = parse_step_def step_command_def step_redirect_def at_node_def on_command_def

lemma parse_stdin:
  "c_stdin c = None \<Longrightarrow>
   fold_res parse_step (at_node ns (Command c)) (case i of None \<Rightarrow> [] | Some f \<Rightarrow> [''<'', f]) =
   Inr (at_node ns (Command (c\<lparr>c_stdin := i\<rparr>)))"
  by (cases i) (simp_all add: redirect_simps)

lemma parse_stdout:
  "c_stdout c = None \<Longrightarrow> t \<noteq> Some To_pipe \<Longrightarrow>
   fold_res parse_step (at_node ns (Command c)) (case t of Some (To_file f) \<Rightarrow> [''>'', f] | _ \<Rightarrow> []) =
   Inr (at_node ns (Command (c\<lparr>c_stdout := t\<rparr>)))"
  by (cases t) (auto simp: redirect_simps split: out_target.split)

lemma parse_stderr:
  "c_stderr c = None \<Longrightarrow> t \<noteq> Some Err_pipe \<Longrightarrow>
   fold_res parse_step (at_node ns (Command c)) 
     (case t of None \<Rightarrow> [] | Some Err_pipe \<Rightarrow> [] | Some Err_stdout \<Rightarrow> [''2>&1''] | Some (Err_file f) \<Rightarrow> [''2>'', f]) =
   Inr (at_node ns (Command (c\<lparr>c_stderr := t\<rparr>)))"
  by (cases t) (auto simp: redirect_simps split: err_target.split)

lemma parse_name:
  assumes "env_ok vars" "env_var_match name = None" "name \<noteq> ''cd''"
  shows "parse_step \<lparr>state = BEGIN, current_command = None, pipeline = ns, env_vars = vars\<rparr> name =
   Inr (at_node ns (Command ((new_command name)\<lparr>c_env := if vars = [] then None else Some vars\<rparr>)))"
  using assms by (simp add: parse_step_def step_begin_def at_node_def new_command_def)

lemma parse_command:
  assumes wf: "plain_output c"
  shows "fold_res parse_step (at_begin ns) (render_command c) = Inr (at_node ns (Command c))"
proof -
  obtain args where argv: "c_argv c = c_name c # args" "set args \<inter> operators = {}"
    using wf by (auto simp: plain_output_def wf_command_def)
  define vars where "vars = (case c_env c of None \<Rightarrow> [] | Some vars \<Rightarrow> vars)"
  have vars: "env_ok vars" "(if vars = [] then None else Some vars) = c_env c"
    "(case c_env c of None \<Rightarrow> [] | Some vars \<Rightarrow> map assignment vars) = map assignment vars"
    using wf by (auto simp: plain_output_def wf_command_def vars_def split: option.splits)
  have name: "env_var_match (c_name c) = None" "c_name c \<noteq> ''cd''" 
    and redirects: "c_stdout c \<noteq> Some To_pipe" "c_stderr c \<noteq> Some Err_pipe"
    using wf by (auto simp: plain_output_def wf_command_def)
  have 1: "fold_res parse_step (at_begin ns) (map assignment vars @ c_argv c) =
      Inr (at_node ns (Command \<lparr>c_name = c_name c, c_argv = c_argv c, c_stdin = None, c_stdout = None,
             c_stderr = None, c_env = c_env c\<rparr>))"
    using parse_assignments[of "[]" vars ns] vars(1,2) parse_name[OF vars(1) name, of ns] argv
      parse_arguments[OF argv(2)]
    by (simp add: at_begin_def fold_res_append new_command_def)
  have "render_command c = (map assignment vars @ c_argv c) @
     (case c_stdin c of None \<Rightarrow> [] | Some f \<Rightarrow> [''<'', f]) @
     (case c_stdout c of Some (To_file f) \<Rightarrow> [''>'', f] | _ \<Rightarrow> []) @
     (case c_stderr c of None \<Rightarrow> [] | Some Err_pipe \<Rightarrow> [] | Some Err_stdout \<Rightarrow> [''2>&1''] | Some (Err_file f) \<Rightarrow> [''2>'', f])"
    unfolding render_command_def vars(3) by simp
  then have "fold_res parse_step (at_begin ns) (render_command c) =
      Inr (at_node ns (Command \<lparr>c_name = c_name c, c_argv = c_argv c, c_stdin = c_stdin c, c_stdout = c_stdout c,
             c_stderr = c_stderr c, c_env = c_env c\<rparr>))"
    using fold_res_continue[OF 1] redirects
    by (simp add: fold_res_continue[OF parse_stdin] fold_res_continue[OF parse_stdout] parse_stderr)
  then show ?thesis by (cases c) simp
qed

lemma parse_node:
  assumes "wf_last n"
  shows "fold_res parse_step (at_begin ns) (render_node n) = Inr (at_node ns n)"
proof (cases n)
  case (Command c)
  then show ?thesis using assms parse_command[of c ns] by (simp add: wf_last_def plain_output_def render_node_def)
next
  case (Chdir d)
  have "env_var_match ''cd'' = None" by code_simp
  then show ?thesis using Chdir assms
    by (auto simp: wf_last_def render_node_def parse_step_def step_begin_def step_chdir_def at_begin_def at_node_def
        split: option.split)
qed (use assms in \<open>simp_all add: wf_last_def\<close>)

lemma render_command_pipe: "render_command c = render_command (c\<lparr>c_stdout := None\<rparr>)" if "c_stdout c = Some To_pipe"
  using that by (simp add: render_command_def)

lemma parse_node_operator:
  assumes "wf_before n operator"
  shows "fold_res parse_step (at_begin ns) (render_node n @ render_node operator) = Inr (at_begin (ns @ [n, operator]))"
proof (cases "operator = Pipe")
  case True
  with assms obtain c where c: "n = Command c" "c_stdout c = Some To_pipe" "wf_command c"
    by (cases n) (auto simp: wf_before_def)
  then have "plain_output (c\<lparr>c_stdout := None\<rparr>)" by (simp add: plain_output_def)
  from parse_command[OF this, of ns] c True show ?thesis
    by (simp add: fold_res_append render_node_def render_command_pipe[OF c(2)] redirect_simps commit_and_def commit_command_def at_begin_def)
next
  case False
  then have "wf_last n" using assms by (cases n; cases operator) (auto simp: wf_before_def wf_last_def)
  from fold_res_continue[OF parse_node[OF this, of ns]] show ?thesis using False assms
    by (cases n; cases operator)
      (auto simp: wf_before_def render_node_def[of operator] render_node_def[of And] render_node_def[of Or]
        redirect_simps commit_and_def commit_command_def at_begin_def step_chdir_def)
qed

lemma parse_render_from:
  assumes "wf_pipeline ns"
  shows "bind_res (fold_res parse_step (at_begin done) (render ns)) (\<lambda>p. map_value pipeline (commit_command p)) =
    Inr (done @ ns)"
  using assms
proof (induction ns arbitrary: "done" rule: wf_pipeline.induct)
  case (2 n)
  then have "wf_last n" by simp
  from parse_node[OF this, of "done"] show ?case by (simp add: render_def commit_command_def at_node_def)
next
  case (3 n operator rest)
  then have "wf_before n operator" "wf_pipeline rest" by auto
  with 3(1)[of "done @ [n, operator]"] fold_res_continue[OF parse_node_operator[of n operator "done"]] show ?case
    by (simp add: render_def)
qed simp

text \<open>
  C11: Parsing the tokens of a well-formed pipeline gives the pipeline back, and so does parsing
  the text in which they are separated by blanks and quoted where needed, as long as no token
  holds a single quote.
\<close>

theorem parse_render_roundtrip:
  assumes "wf_pipeline nodes"
  shows "parse (Token_list (render nodes)) = Inr nodes \<and>
    ((\<forall>w \<in> set (render nodes). single_quote \<notin> set w) \<longrightarrow>
      parse (Command_text (join '' '' (map shell_word (render nodes)))) = Inr nodes)"
  using parse_render_from[OF assms, of "[]"] quoting.split_words[of "render nodes"]
  by (simp add: parse_def parse_tokens_def at_begin_def start_parser_def)

definition example_pipeline :: "node list" where
  "example_pipeline =
     [Command ((new_command ''make'')\<lparr>c_stdout := Some To_pipe, c_stderr := Some Err_stdout,
       c_env := Some [(''CC'', ''gcc'')]\<rparr>), Pipe, Command ((new_command ''tee'')\<lparr>c_argv := [''tee'', ''a log'']\<rparr>)]"

theorem parse_render_roundtrip_witness:
  "parse (Token_list [''CC=gcc'', ''make'', ''2>&1'', ''|'', ''tee'', ''a log'']) = Inr example_pipeline \<and>
   parse (Command_text (map (\<lambda>c. if c = CHR ''`'' then single_quote else c)
      ''CC=gcc make 2>&1 | tee `a log`'')) = Inr example_pipeline"
proof -
  have 1: "env_var_match ''make'' = None" "env_var_match ''tee'' = None"
    "env_var_match (assignment (''CC'', ''gcc'')) = Some (''CC'', ''gcc'')" by code_simp+
  have "wf_pipeline example_pipeline" using 1 unfolding example_pipeline_def
      by (simp add: wf_before_def wf_last_def wf_command_def new_command_def operators_def env_ok_def dict_keys_def)
  moreover have "render example_pipeline = [''CC=gcc'', ''make'', ''2>&1'', ''|'', ''tee'', ''a log'']" by code_simp
  moreover have "join '' '' (map shell_word [''CC=gcc'', ''make'', ''2>&1'', ''|'', ''tee'', ''a log'']) =
     map (\<lambda>c. if c = CHR ''`'' then single_quote else c) ''CC=gcc make 2>&1 | tee `a log`''" by code_simp
  ultimately show ?thesis using parse_render_roundtrip[of example_pipeline] by simp
qed

subsection \<open>What a run does\<close>

text \<open>
  The reference: the processes a pipeline stands for, grouped by pipe, each group with the
  operator after it.  The start of a process depends only on the nodes before it, through the
  directory and whether it reads from a pipe.
\<close>

definition process_of :: "(string, string) dict \<Rightarrow> string \<Rightarrow> bool \<Rightarrow> command \<Rightarrow> popen" where
  "process_of environ dir reads_pipe c =
     \<lparr>p_argv = c_argv c,
      p_stdin = (if reads_pipe then In_pipe else case c_stdin c of Some f \<Rightarrow> In_file f | None \<Rightarrow> In_inherit),
      p_stdout = (case c_stdout c of None \<Rightarrow> Out_inherit | Some To_pipe \<Rightarrow> Out_pipe
                  | Some (To_file f) \<Rightarrow> Out_file (open_out_file f)),
      p_stderr = (case c_stderr c of None \<Rightarrow> Out_inherit | Some Err_pipe \<Rightarrow> Out_pipe
                  | Some Err_stdout \<Rightarrow> Out_stdout | Some (Err_file f) \<Rightarrow> Out_file (open_out_file f)),
      p_env = process_env environ c, p_cwd = (if dir = ''.'' then None else Some dir)\<rparr>"

text \<open>
  How a group ends: with the pipeline, with an operator after it, or because the \<open>cd\<close> that
  follows it raises.
\<close>

datatype ending = Ends | Goes_on node | Fails py_error

fun groups :: "(string, string) dict \<Rightarrow> string \<Rightarrow> popen list \<Rightarrow> node list \<Rightarrow> (popen list \<times> ending) list" where
  "groups environ dir sofar (Command c # rest) =
     (let ps = sofar @ [process_of environ dir (sofar \<noteq> []) c]
      in case rest of
           [] \<Rightarrow> [(ps, Ends)]
         | Pipe # rest' \<Rightarrow> groups environ dir ps rest'
         | operator # rest' \<Rightarrow> (ps, Goes_on operator) # groups environ dir [] rest')"
| "groups environ dir sofar (Chdir d # rest) =
     (case rest of
        [] \<Rightarrow> [(sofar, Fails IndexError)]
      | And # rest' \<Rightarrow>
          (case d of None \<Rightarrow> [(sofar, Fails AttributeError)] | Some p \<Rightarrow> groups environ (path_join dir p) sofar rest')
      | _ \<Rightarrow> [(sofar, Fails AssertionError)])"
| "groups environ dir sofar _ = []"

text \<open>A group succeeds when all its processes do; its code is then 0, else that of its last process.\<close>

definition group_code :: "(popen \<Rightarrow> int) \<Rightarrow> popen list \<Rightarrow> int" where
  "group_code wait ps = (if \<forall>p \<in> set ps. wait p = 0 then 0 else wait (last ps))"

text \<open>
  Going through the groups: a group followed by \<open>And\<close> that fails is the last one to run, and
  so is one followed by \<open>Or\<close> whose code is 0.  A verbose run ends at the first operator after
  a group, in the message it would print.  The result is what was started, what was waited for,
  and the last code or the exception.
\<close>

fun run_groups ::
  "bool \<Rightarrow> (popen \<Rightarrow> int) \<Rightarrow> (popen list \<times> ending) list \<Rightarrow> popen list \<times> popen list \<times> int option res" where
  "run_groups verbose wait [] = ([], [], Inr None)"
| "run_groups verbose wait ((ps, Ends) # rest) = (ps, ps, Inr (Some (group_code wait ps)))"
| "run_groups verbose wait ((ps, Fails e) # rest) = (ps, [], Inl e)"
| "run_groups verbose wait ((ps, Goes_on operator) # rest) =
     (let code = group_code wait ps
      in if verbose then (ps, ps, Inl UnboundLocalError)
         else if (operator = And \<and> code \<noteq> 0) \<or> (operator = Or \<and> code = 0) then (ps, ps, Inr (Some code))
         else map_prod (append ps) (map_prod (append ps) id) (run_groups verbose wait rest))"

text \<open>Pipelines whose \<open>cd\<close>s all have a directory and a command after them.\<close>

fun cd_complete :: "node list \<Rightarrow> bool" where
  "cd_complete [] = False"
| "cd_complete [n] = (case n of Chdir d \<Rightarrow> False | _ \<Rightarrow> True)"
| "cd_complete (n # operator # rest) = ((case n of Chdir d \<Rightarrow> d \<noteq> None | _ \<Rightarrow> True) \<and> cd_complete rest)"

definition started :: "event list \<Rightarrow> popen list" where
  "started es = concat (map (\<lambda>e. case e of Started p \<Rightarrow> [p] | _ \<Rightarrow> []) es)"

definition waited :: "event list \<Rightarrow> popen list" where
  "waited es = concat (map (\<lambda>e. case e of Waited p \<Rightarrow> [p] | _ \<Rightarrow> []) es)"

definition opened_files :: "event list \<Rightarrow> string list" where
  "opened_files es = concat (map (\<lambda>e. case e of Opened f \<Rightarrow> [f] | _ \<Rightarrow> []) es)"

definition closed_files :: "event list \<Rightarrow> string list" where
  "closed_files es = concat (map (\<lambda>e. case e of Closed f \<Rightarrow> [f] | _ \<Rightarrow> []) es)"

definition held :: "file_object list \<Rightarrow> string list" where
  "held fs = concat (map (\<lambda>f. case f of Dev_null \<Rightarrow> [] | File n \<Rightarrow> [n]) fs)"

lemma trace_simps [simp]:
  "started [] = []" "started (es @ es') = started es @ started es'" "started (Opened f # es) = started es"
  "started (Started p # es) = p # started es" "started (Waited p # es) = started es"
  "started (Closed f # es) = started es" "started (Printed s # es) = started es"
  "waited [] = []" "waited (es @ es') = waited es @ waited es'" "waited (Opened f # es) = waited es"
  "waited (Started p # es) = waited es" "waited (Waited p # es) = p # waited es"
  "waited (Closed f # es) = waited es" "waited (Printed s # es) = waited es"
  "opened_files [] = []" "opened_files (es @ es') = opened_files es @ opened_files es'"
  "opened_files (Opened f # es) = f # opened_files es"
  "opened_files (Started p # es) = opened_files es" "opened_files (Waited p # es) = opened_files es"
  "opened_files (Closed f # es) = opened_files es" "opened_files (Printed s # es) = opened_files es"
  "closed_files [] = []" "closed_files (es @ es') = closed_files es @ closed_files es'"
  "closed_files (Opened f # es) = closed_files es"
  "closed_files (Started p # es) = closed_files es" "closed_files (Waited p # es) = closed_files es"
  "closed_files (Closed f # es) = f # closed_files es" "closed_files (Printed s # es) = closed_files es"
  "held [] = []" "held (fs @ fs') = held fs @ held fs'" "held (Dev_null # fs) = held fs" "held (File n # fs) = n # held fs"
  by (simp_all add: started_def waited_def opened_files_def closed_files_def held_def)

lemma trace_maps [simp]:
  "started (map Waited ps) = []" "waited (map Waited ps) = ps" "opened_files (map Waited ps) = []"
  "closed_files (map Waited ps) = []"
  by (induction ps) simp_all

lemma trace_closed [simp]:
  "started (concat (map closed fs)) = []" "waited (concat (map closed fs)) = []"
  "opened_files (concat (map closed fs)) = []" "closed_files (concat (map closed fs)) = held fs"
proof -
  show "started (concat (map closed fs)) = []"
    by (induction fs) (auto simp: closed_def split: file_object.split)
  show "waited (concat (map closed fs)) = []"
    by (induction fs) (auto simp: closed_def split: file_object.split)
  show "opened_files (concat (map closed fs)) = []"
    by (induction fs) (auto simp: closed_def split: file_object.split)
  show "closed_files (concat (map closed fs)) = held fs"
    by (induction fs) (auto simp: closed_def held_def split: file_object.split)
qed

text \<open>One command starts one process; every file it opens is kept for closing.\<close>

lemma note_if_keeps [simp]:
  "piping (note_if v s st) = piping st" "piped_commands (note_if v s st) = piped_commands st"
  "files_to_close (note_if v s st) = files_to_close st" "cwd (note_if v s st) = cwd st" 
  "trace (note_if v s st) = trace st"
  by (simp_all add: note_if_def)

lemma hold_file_keeps [simp]:
  "piping (hold_file f st) = piping st" "piped_commands (hold_file f st) = piped_commands st"
  "cwd (hold_file f st) = cwd st" "started (trace (hold_file f st)) = started (trace st)"
  "waited (trace (hold_file f st)) = waited (trace st)"
  "closed_files (trace (hold_file f st)) = closed_files (trace st)"
  by (simp_all add: hold_file_def opened_def split: file_object.split)

definition books_balance :: "run_state \<Rightarrow> bool" where
  "books_balance st \<longleftrightarrow>
     opened_files (trace st) = closed_files (trace st) @ held (files_to_close st)"

lemma hold_file_balance [simp]: "books_balance (hold_file f st) = books_balance st"
  by (auto simp: books_balance_def hold_file_def opened_def split: file_object.split)

lemma note_if_balance [simp]: "books_balance (note_if v s st) = books_balance st"
  by (simp add: books_balance_def)

text \<open>Preparing a redirection leaves the processes alone.\<close>

definition same_processes :: "run_state \<Rightarrow> run_state \<Rightarrow> bool" where
  "same_processes st st' \<longleftrightarrow>
     piping st' = piping st \<and> piped_commands st' = piped_commands st \<and> cwd st' = cwd st \<and>
     started (trace st') = started (trace st) \<and> waited (trace st') = waited (trace st) \<and>
     books_balance st' = books_balance st"

lemma start_stdin_effect:
  "same_processes st (fst (start_stdin v c st))"
  "snd (start_stdin v c st) = (if piping st then In_pipe else case c_stdin c of Some f \<Rightarrow> In_file f | None \<Rightarrow> In_inherit)"
  by (simp_all add: start_stdin_def same_processes_def split: option.split)

lemma start_stdout_effect:
  "same_processes st (fst (start_stdout v c st))"
  "snd (start_stdout v c st) = (case c_stdout c of None \<Rightarrow> Out_inherit | Some To_pipe \<Rightarrow> Out_pipe
                  | Some (To_file f) \<Rightarrow> Out_file (open_out_file f))"
  by (simp_all add: start_stdout_def same_processes_def split: option.split out_target.split)

lemma start_stderr_effect:
  "same_processes st (fst (start_stderr v c st))"
  "snd (start_stderr v c st) = (case c_stderr c of None \<Rightarrow> Out_inherit | Some Err_pipe \<Rightarrow> Out_pipe
                  | Some Err_stdout \<Rightarrow> Out_stdout | Some (Err_file f) \<Rightarrow> Out_file (open_out_file f))"
  by (simp_all add: start_stderr_def same_processes_def split: option.split err_target.split)

lemma start_command_effect:
  fixes st :: run_state and c :: command and environ :: "(string, string) dict"
  defines "proc \<equiv> process_of environ (cwd st) (piping st) c"
  shows
  "piping (start_command ord environ v c st) = piping st"
  "piped_commands (start_command ord environ v c st) = piped_commands st @ [proc]"
  "cwd (start_command ord environ v c st) = cwd st"
  "started (trace (start_command ord environ v c st)) = started (trace st) @ [proc]"
  "waited (trace (start_command ord environ v c st)) = waited (trace st)"
  "books_balance (start_command ord environ v c st) = books_balance st"
proof -
  define s0 where "s0 = note_if v (show_command ord c) st"
  define s1 where "s1 = fst (start_stdin v c s0)"
  define s2 where "s2 = fst (start_stdout v c s1)"
  define s3 where "s3 = fst (start_stderr v c s2)"
  have 0: "same_processes st s0" by (simp add: s0_def same_processes_def)
  have 1: "same_processes s0 s1" unfolding s1_def by (rule start_stdin_effect)
  have 2: "same_processes s1 s2" unfolding s2_def by (rule start_stdout_effect)
  have 3: "same_processes s2 s3" unfolding s3_def by (rule start_stderr_effect)
  from 0 1 2 3 have s3: "same_processes st s3" and s0: "piping s0 = piping st" by (simp_all add: same_processes_def)
  have eq: "start_command ord environ v c st = s3\<lparr>piped_commands := piped_commands s3 @ [proc], trace := trace s3 @ [Started proc]\<rparr>"
    using s3 s0 start_stdin_effect(2)[of v c s0] start_stdout_effect(2)[of v c s1] start_stderr_effect(2)[of v c s2]
    unfolding start_command_def proc_def process_of_def s0_def[symmetric]
    by (simp add: case_prod_beta s1_def[symmetric] s2_def[symmetric] s3_def[symmetric] Let_def same_processes_def)
  show "piping (start_command ord environ v c st) = piping st"
    "piped_commands (start_command ord environ v c st) = piped_commands st @ [proc]"
    "cwd (start_command ord environ v c st) = cwd st"
    "started (trace (start_command ord environ v c st)) = started (trace st) @ [proc]"
    "waited (trace (start_command ord environ v c st)) = waited (trace st)"
    "books_balance (start_command ord environ v c st) = books_balance st"
    using s3 by (simp_all add: eq same_processes_def books_balance_def)
qed

text \<open>Waiting for a pipe.\<close>

lemma exec_piped_commands_code: "exec_piped_commands wait ps = group_code wait ps"
  by (cases "ps = []") (auto simp: exec_piped_commands_def group_code_def Let_def list_ex_iff last_map)

lemma finish_pipe_effect:
  "snd (finish_pipe wait st) = group_code wait (piped_commands st)"
  "files_to_close (fst (finish_pipe wait st)) = []"
  "cwd (fst (finish_pipe wait st)) = cwd st"
  "started (trace (fst (finish_pipe wait st))) = started (trace st)"
  "waited (trace (fst (finish_pipe wait st))) = waited (trace st) @ piped_commands st"
  "books_balance (fst (finish_pipe wait st)) = books_balance st"
  by (auto simp: finish_pipe_def exec_piped_commands_code books_balance_def)

lemma next_pipe_effect [simp]:
  "piping (next_pipe st) = False" "piped_commands (next_pipe st) = []" "cwd (next_pipe st) = cwd st"
  "trace (next_pipe st) = trace st" "files_to_close (next_pipe st) = files_to_close st"
  by (simp_all add: next_pipe_def)

text \<open>The state between two nodes: what is started but not yet waited for is the open pipe.\<close>

definition between :: "popen list \<Rightarrow> run_state \<Rightarrow> bool" where
  "between before st \<longleftrightarrow>
     piping st = (piped_commands st \<noteq> []) \<and> started (trace st) = before @ piped_commands st \<and>
     waited (trace st) = before"

definition outcome ::
  "popen list \<Rightarrow> popen list \<times> popen list \<times> int option res \<Rightarrow> run_state \<times> int option res \<Rightarrow> bool" where
  "outcome before reference result \<longleftrightarrow>
     (case reference of (ps, ws, r) \<Rightarrow>
        snd result = r \<and> started (trace (fst result)) = before @ ps \<and> waited (trace (fst result)) = before @ ws)"

lemma wf_before_cases:
  assumes "wf_before n operator"
  obtains (command) c where "n = Command c" "operator \<in> {Pipe, And, Or}" | (chdir) d where "n = Chdir d" "operator = And"
  using assms by (cases n; cases operator) (auto simp: wf_before_def)

text \<open>The shape that a run needs, whatever the words are.\<close>

fun runnable :: "node list \<Rightarrow> bool" where
  "runnable [] = False"
| "runnable [n] = (case n of Command c \<Rightarrow> True | Chdir d \<Rightarrow> True | _ \<Rightarrow> False)"
| "runnable (n # operator # rest) =
     ((case n of Command c \<Rightarrow> operator \<in> {Pipe, And, Or} | Chdir d \<Rightarrow> operator = And | _ \<Rightarrow> False) \<and>
      runnable rest)"

lemma wf_pipeline_runnable: "wf_pipeline nodes \<Longrightarrow> runnable nodes"
proof (induction nodes rule: wf_pipeline.induct)
  case (2 n)
  then show ?case by (cases n) (auto simp: wf_last_def)
next
  case (3 n operator rest)
  then have "wf_before n operator" "runnable rest" by auto
  then show ?case by (cases rule: wf_before_cases) auto
qed simp

lemma at_end_effect:
  "snd (at_end wait verbose st) = Inr (Some (group_code wait (piped_commands st)))"
  "started (trace (fst (at_end wait verbose st))) = started (trace st)"
  "waited (trace (fst (at_end wait verbose st))) = waited (trace st) @ piped_commands st"
  using finish_pipe_effect[where wait = wait and st = st]
  by (auto simp: at_end_def case_prod_beta finish_pipe_def)

lemma run_loop_outcome:
  assumes "runnable nodes" "between before st"
  shows "outcome before (run_groups verbose wait (groups environ (cwd st) (piped_commands st) nodes))
           (run_loop wait ord environ verbose nodes st)"
  using assms
proof (induction nodes arbitrary: st before rule: runnable.induct)
  case (2 n)
  then consider c where "n = Command c" | d where "n = Chdir d" by (cases n) auto
  then show ?case using 2(2)
    by cases (simp_all add: at_end_effect start_command_effect outcome_def between_def)
next
  case (3 n operator rest)
  have rest: "runnable rest" using 3(2) by simp
  from 3(2) consider (command) c where "n = Command c" "operator \<in> {Pipe, And, Or}"
    | (chdir) d where "n = Chdir d" "operator = And"
    by (cases n) auto
  then show ?case
  proof cases
    case (command c)
    define st' where "st' = start_command ord environ verbose c st"
    have proc: "piped_commands st' = piped_commands st @ [process_of environ (cwd st) (piped_commands st \<noteq> []) c]"
      and facts: "cwd st' = cwd st" "waited (trace st') = before" "started (trace st') = before @ piped_commands st'"
      using 3(3) by (simp_all add: st'_def start_command_effect between_def)
    show ?thesis
    proof (cases "operator = Pipe")
      case True
      have "between before (st'\<lparr>piping := True, display := display st' @ [''|'']\<rparr>)"
        using proc facts by (simp add: between_def)
      from 3(1)[OF rest this] show ?thesis
        by (simp add: command True st'_def[symmetric] proc facts Let_def)
    next
      case False
      have "between (before @ piped_commands st') (next_pipe (fst (finish_pipe wait st')))"
        using facts by (simp add: between_def finish_pipe_effect)
      from 3(1)[OF rest this] show ?thesis
        using False command(2) facts
        by (auto simp: command(1) st'_def[symmetric] proc Let_def at_operator_def case_prod_beta finish_pipe_effect outcome_def)
    qed
  next
    case (chdir d)
    show ?thesis
    proof (cases d)
      case None
      then show ?thesis using 3(3) by (simp add: chdir outcome_def between_def)
    next
      case (Some dir)
      have "between before (note_if verbose (''cd '' @ dir @ '' &&'') (st\<lparr>cwd := path_join (cwd st) dir\<rparr>))"
        using 3(3) by (simp add: between_def)
      from 3(1)[OF rest this] show ?thesis by (simp add: chdir Some)
    qed
  qed
qed simp

lemma run_outcome:
  assumes "runnable nodes"
  shows "case run wait ord environ verbose nodes of (st, r) \<Rightarrow>
    (started (trace st), waited (trace st), r) = run_groups verbose wait (groups environ ''.'' [] nodes)"
proof -
  have "between [] start_state" by (simp add: between_def start_state_def)
  from run_loop_outcome[OF assms this, of verbose wait environ ord] show ?thesis
    by (auto simp: outcome_def run_def start_state_def split: prod.splits)
qed

text \<open>
  C10: Running a parsed command line, verbose or not, starts and waits for exactly the processes
  of the groups between && and ||, group after group until one before && fails or one before ||
  succeeds, and returns the code of the last group run; it ends with an exception at a cd that
  is not followed by a directory and && and, when verbose, at the first && or || after a group.
\<close>

theorem run_refines_groups:
  assumes "parse command = Inr nodes"
  shows "case run wait ord environ verbose nodes of (st, r) \<Rightarrow>
    (started (trace st), waited (trace st), r) = run_groups verbose wait (groups environ ''.'' [] nodes)"
  by (rule run_outcome[OF wf_pipeline_runnable[OF parsed_wf[OF assms]]])

theorem run_refines_groups_witness:
  "case run (\<lambda>p. if p_argv p = [''false''] then 1 else 0) id [] False
       [Command (new_command ''false''), And, Command (new_command ''a''), Or, Command (new_command ''b'')] of
     (st, r) \<Rightarrow> r = Inr (Some 1) \<and> map p_argv (started (trace st)) = [[''false'']]"
proof -
  have "parse (Token_list [''false'', ''&&'', ''a'', ''||'', ''b'']) =
      Inr [Command (new_command ''false''), And, Command (new_command ''a''), Or, Command (new_command ''b'')]" by code_simp
  from run_refines_groups[OF this, where wait = "\<lambda>p. if p_argv p = [''false''] then 1 else 0" and ord = id and environ = "[]" and verbose = False] show ?thesis
    by (auto simp: Let_def process_of_def group_code_def new_command_def split: prod.splits)
qed

text \<open>Files: a run that returns a code has closed all that it opened, in the order it opened them.\<close>

lemma run_loop_balance:
  assumes "books_balance st" "run_loop wait ord environ v nodes st = (st', Inr (Some code))"
  shows "opened_files (trace st') = closed_files (trace st')"
  using assms
proof (induction wait ord environ v nodes st rule: run_loop.induct)
  case (2 wait ord environ v d rest st)
  then show ?case by (auto simp: books_balance_def split: list.splits node.splits option.splits)
next
  case (3 wait ord environ v c rest st)
  define s1 where "s1 = start_command ord environ v c st"
  have s1: "books_balance s1" using 3(6) by (simp add: s1_def start_command_effect)
  have fin: "books_balance (fst (finish_pipe wait s1))" using s1 by (simp add: finish_pipe_effect)
  then have closed: "opened_files (trace (fst (finish_pipe wait s1))) = closed_files (trace (fst (finish_pipe wait s1)))"
    by (simp add: books_balance_def finish_pipe_effect)
  have next_ok: "books_balance (next_pipe (fst (finish_pipe wait s1)))"
    using fin by (simp add: books_balance_def)
  have pipe_ok: "books_balance (s1\<lparr>piping := True, display := display s1 @ [''|'']\<rparr>)"
    using s1 by (simp add: books_balance_def)
  note IH = 3(1-5)[OF s1_def]
  show ?case
  proof (cases rest)
    case Nil
    then show ?thesis using 3(7) closed s1
      by (auto simp: s1_def[symmetric] Let_def at_end_def case_prod_beta books_balance_def finish_pipe_effect split: if_splits)
  next
    case (Cons operator rest')
    then show ?thesis using 3(7) closed IH next_ok pipe_ok s1
      by (cases operator) (auto simp: s1_def[symmetric] Let_def at_operator_def case_prod_beta split: if_splits)
  qed
qed simp_all

theorem run_closes_files:
  assumes "run wait ord environ verbose nodes = (st, Inr (Some code))"
  shows "opened_files (trace st) = closed_files (trace st)"
proof -
  have "books_balance start_state" by (simp add: books_balance_def start_state_def)
  from run_loop_balance[OF this] assms show ?thesis by (simp add: run_def)
qed

theorem run_closes_files_witness:
  "opened_files (trace (fst (run (\<lambda>p. 0) id [] False [Command ((new_command ''cat'')\<lparr>c_stdin := Some ''f''\<rparr>)]))) =
   closed_files (trace (fst (run (\<lambda>p. 0) id [] False [Command ((new_command ''cat'')\<lparr>c_stdin := Some ''f''\<rparr>)])))"
proof -
  have "snd (run (\<lambda>p. 0) id [] False [Command ((new_command ''cat'')\<lparr>c_stdin := Some ''f''\<rparr>)]) = Inr (Some 0)"
    by code_simp
  then have "run (\<lambda>p. 0) id [] False [Command ((new_command ''cat'')\<lparr>c_stdin := Some ''f''\<rparr>)] =
      (fst (run (\<lambda>p. 0) id [] False [Command ((new_command ''cat'')\<lparr>c_stdin := Some ''f''\<rparr>)]), Inr (Some 0))"
    by (simp only: prod_eq_iff fst_conv snd_conv)
  then show ?thesis by (rule run_closes_files)
qed

text \<open>A verbose run fails at the first \<open>&&\<close> or \<open>||\<close> after a command.\<close>

fun only_pipes :: "node list \<Rightarrow> bool" where
  "only_pipes (n # operator # rest) = ((case n of Command c \<Rightarrow> operator = Pipe | _ \<Rightarrow> True) \<and> only_pipes rest)"
| "only_pipes _ = True"

lemma run_loop_verbose:
  assumes "wf_pipeline nodes" "cd_complete nodes"
  shows "snd (run_loop wait ord environ True nodes st) = Inl UnboundLocalError \<longleftrightarrow> \<not> only_pipes nodes"
  using assms
proof (induction nodes arbitrary: st rule: wf_pipeline.induct)
  case (2 n)
  then show ?case by (cases n) (simp_all add: wf_last_def at_end_def case_prod_beta Let_def)
next
  case (3 n operator rest)
  have rest: "wf_pipeline rest" "cd_complete rest" using 3(2,3) by (cases n; simp)+
  from 3(2) have "wf_before n operator" by simp
  then show ?case
  proof (cases rule: wf_before_cases)
    case (command c)
    then show ?thesis using 3(1)[OF rest] by (auto simp: Let_def at_operator_def case_prod_beta)
  next
    case (chdir d)
    then obtain dir where d: "d = Some dir" using 3(3) by auto
    then show ?thesis using 3(1)[OF rest] by (simp add: chdir)
  qed
qed simp

theorem verbose_run_raises:
  assumes "wf_pipeline nodes" "cd_complete nodes"
  shows "snd (run wait ord environ True nodes) = Inl UnboundLocalError \<longleftrightarrow> \<not> only_pipes nodes"
  using run_loop_verbose[OF assms] by (simp add: run_def)

theorem verbose_run_raises_witness:
  "snd (run (\<lambda>p. 0) id [] True [Command (new_command ''a''), And, Command (new_command ''b'')]) = Inl UnboundLocalError \<longleftrightarrow>
   \<not> only_pipes [Command (new_command ''a''), And, Command (new_command ''b'')]"
proof -
  have "env_var_match ''a'' = None" "env_var_match ''b'' = None" by code_simp+
  then show ?thesis
    by (intro verbose_run_raises) (simp_all add: wf_before_def wf_last_def wf_command_def new_command_def)
qed

text \<open>The abbreviation leaves out every \<open>||\<close>.\<close>

lemma abbreviation_drops_or: "get_abbreviated_command (xs @ Or # ys) = get_abbreviated_command (xs @ ys)"
  by (simp add: get_abbreviated_command_def abbreviate_def)

end
