(* ===== verification/Cfg_Utils.thy ===== *)
theory Cfg_Utils
  imports Prelude
begin

section \<open>Reading configuration files (\<open>utils.py\<close>)\<close>

text \<open>
  \<^verbatim>\<open>utils.py\<close>: the functions that \<open>test.py\<close> and the build use to look for one Python
  assignment in a file of them.  The file system is a map from paths to contents; \<open>eval\<close>
  is a parameter, since the files hold Python expressions.  A file that is opened for reading
  gives its lines with the newline kept at the end of each.
\<close>

type_synonym file_system = "string \<Rightarrow> string option"

definition file_lines :: "string \<Rightarrow> string list" where
  "file_lines content =
     (let parts = split_on newline content
      in map ln (butlast parts) @ (if last parts = [] then [] else [last parts]))"

definition uncomment :: "string \<Rightarrow> string" where
  "uncomment line = (if CHR ''#'' \<in> set line then hd (split_once (CHR ''#'') line) else line)"

definition right_hand_side :: "string \<Rightarrow> string res" where
  "right_hand_side s = (case split_once (CHR ''='') s of [_, v] \<Rightarrow> Inr (strip v) | _ \<Rightarrow> Inl IndexError)"

fun list_loop :: "(string \<Rightarrow> 'a list res) \<Rightarrow> string \<Rightarrow> string \<Rightarrow> bool \<Rightarrow> string list \<Rightarrow> 'a list res" where
  "list_loop eval list_name list_string parsing_multiline_list [] = Inr []"
| "list_loop eval list_name list_string parsing_multiline_list (raw # lines) =
     (let line = uncomment raw
      in if contains list_name line \<or> parsing_multiline_list then
           (let list_string' = list_string @ line
            in if CHR '']'' \<notin> set list_string' then list_loop eval list_name list_string' True lines
               else bind_res (right_hand_side list_string') eval)
         else list_loop eval list_name list_string parsing_multiline_list lines)"

definition get_list_from_file ::
  "file_system \<Rightarrow> (string \<Rightarrow> 'a list res) \<Rightarrow> string \<Rightarrow> string \<Rightarrow> 'a list res" where
  "get_list_from_file fs eval file_path list_name =
     (case fs file_path of None \<Rightarrow> Inr [] | Some content \<Rightarrow> list_loop eval list_name [] False (file_lines content))"

text \<open>The value found, \<open>None\<close> when \<open>bool_found\<close> stays false.\<close>

fun bool_loop :: "(string \<Rightarrow> 'b res) \<Rightarrow> string \<Rightarrow> string list \<Rightarrow> 'b option res" where
  "bool_loop eval bool_name [] = Inr None"
| "bool_loop eval bool_name (raw # lines) =
     (let line = uncomment raw
      in if contains bool_name line then map_value Some (bind_res (right_hand_side line) eval)
         else bool_loop eval bool_name lines)"

text \<open>
  \<open>bool_found\<close> is only assigned when the file exists, so without the file the last test
  reads an unbound variable.
\<close>

definition get_bool_from_file ::
  "file_system \<Rightarrow> (string \<Rightarrow> 'b res) \<Rightarrow> string \<Rightarrow> string \<Rightarrow> 'b \<Rightarrow> 'b res" where
  "get_bool_from_file fs eval file_path bool_name value_if_missing =
     (case fs file_path of
        None \<Rightarrow> Inl UnboundLocalError
      | Some content \<Rightarrow>
          map_value (\<lambda>found. case found of None \<Rightarrow> value_if_missing | Some v \<Rightarrow> v)
            (bool_loop eval bool_name (file_lines content)))"

record ns3_config =
  config_file_exists :: bool
  modules_enabled :: "string list"
  examples_enabled :: bool
  tests_enabled :: bool

definition read_config_at ::
  "file_system \<Rightarrow> (string \<Rightarrow> string list res) \<Rightarrow> (string \<Rightarrow> bool res) \<Rightarrow> string \<Rightarrow> ns3_config res" where
  "read_config_at fs eval_list eval_bool dot_ns3rc_path =
     bind_res (get_list_from_file fs eval_list dot_ns3rc_path ''modules_enabled'') (\<lambda>modules.
     bind_res (get_bool_from_file fs eval_bool dot_ns3rc_path ''examples_enabled'' False) (\<lambda>examples.
     bind_res (get_bool_from_file fs eval_bool dot_ns3rc_path ''tests_enabled'' False) (\<lambda>tests.
       Inr \<lparr>config_file_exists = True,
            modules_enabled = (if modules = [] then [''all_modules''] else modules),
            examples_enabled = examples, tests_enabled = tests\<rparr>)))"

definition read_config_file ::
  "file_system \<Rightarrow> (string \<Rightarrow> string list res) \<Rightarrow> (string \<Rightarrow> bool res) \<Rightarrow> string \<Rightarrow> ns3_config res" where
  "read_config_file fs eval_list eval_bool home =
     (if fs ''.ns3rc'' \<noteq> None then read_config_at fs eval_list eval_bool ''.ns3rc''
      else if fs (home @ ''.ns3rc'') \<noteq> None then read_config_at fs eval_list eval_bool (home @ ''.ns3rc'')
      else Inr \<lparr>config_file_exists = False, modules_enabled = [''all_modules''],
                examples_enabled = False, tests_enabled = False\<rparr>)"

subsection \<open>What is found\<close>

lemma file_lines_ln:
  assumes "\<And>l. l \<in> set ls \<Longrightarrow> newline \<notin> set l"
  shows "file_lines (concat (map ln ls)) = map ln ls"
proof -
  have "split_on newline (concat (map ln ls)) = ls @ [[]]"
    using assms by (induction ls) (simp_all add: ln_def split_on_append)
  then show ?thesis by (simp add: file_lines_def)
qed

text \<open>
  The lines that belong to the definition of a list, comments removed: those from the first one
  that holds the name through the first one from there with a closing bracket, which may be the
  same line.  \<open>None\<close> when there is no such line.
\<close>

definition definition_text :: "string \<Rightarrow> string list \<Rightarrow> string option" where
  "definition_text name lines =
     (let from_name = dropWhile (\<lambda>l. \<not> contains name l) (map uncomment lines);
          unclosed = takeWhile (\<lambda>l. CHR '']'' \<notin> set l) from_name
      in case drop (length unclosed) from_name of
           [] \<Rightarrow> None
         | final # after \<Rightarrow> Some (concat (unclosed @ [final])))"

lemma list_loop_multiline:
  assumes "CHR '']'' \<notin> set s"
  shows "list_loop eval name s True lines =
    (let ls = map uncomment lines; unclosed = takeWhile (\<lambda>l. CHR '']'' \<notin> set l) ls
     in case drop (length unclosed) ls of [] \<Rightarrow> Inr [] | final # after \<Rightarrow> bind_res (right_hand_side (s @ concat (unclosed @ [final]))) eval)"
  using assms by (induction lines arbitrary: s) (simp_all add: Let_def split: list.split)

lemma list_loop_text:
  "list_loop eval name [] False lines =
    (case definition_text name lines of None \<Rightarrow> Inr [] | Some s \<Rightarrow> bind_res (right_hand_side s) eval)"
proof (induction lines)
  case (Cons l lines)
  show ?case
  proof (cases "contains name (uncomment l) \<and> CHR '']'' \<notin> set (uncomment l)")
    case True
    then show ?thesis
      using list_loop_multiline[of "uncomment l" eval name lines]
      by (simp add: definition_text_def Let_def split: list.split)
  next
    case False
    then show ?thesis using Cons by (simp add: definition_text_def Let_def)
  qed
qed (simp add: definition_text_def)

text \<open>
  C18: Looking up a list in a configuration file evaluates what follows the first equals sign in
  the lines, comments removed, from the first one that holds the name through the first one from
  there with a closing bracket, the whole of that line included, be it the same line or a later
  one; without such lines, or without the file, the list is empty.
\<close>

theorem get_list_from_file_value:
  "get_list_from_file fs eval path name =
     (case fs path of
        None \<Rightarrow> Inr []
      | Some content \<Rightarrow>
          (case definition_text name (file_lines content) of
             None \<Rightarrow> Inr []
           | Some s \<Rightarrow> bind_res (right_hand_side s) eval))"
  by (simp add: get_list_from_file_def list_loop_text split: option.split)

text \<open>A list on one line and one on several, among other lines\<close>

theorem get_list_from_file_value_witness:
  "get_list_from_file [''f'' \<mapsto> concat (map ln [''# mods = []'', ''mods = [a]  # first'', ''x = [b]''])] (\<lambda>s. Inr [s]) ''f'' ''mods'' = Inr [''[a]''] \<and>
   get_list_from_file [''f'' \<mapsto> concat (map ln [''mods = [a,  # first'', ''b]'', ''x'']) ] (\<lambda>s. Inr [s]) ''f'' ''mods'' = Inr [''[a,  b]'']"
  unfolding get_list_from_file_value by code_simp

text \<open>Looking a boolean up in a file that does not exist raises; the documentation promises the default.\<close>

lemma get_bool_missing_file: "fs path = None \<Longrightarrow> get_bool_from_file fs eval path name d = Inl UnboundLocalError"
  by (simp add: get_bool_from_file_def)

lemma get_bool_default:
  "fs path = Some content \<Longrightarrow> (\<And>l. l \<in> set (file_lines content) \<Longrightarrow> \<not> contains name (uncomment l)) \<Longrightarrow>
   get_bool_from_file fs eval path name d = Inr d"
proof -
  assume "fs path = Some content" and no: "\<And>l. l \<in> set (file_lines content) \<Longrightarrow> \<not> contains name (uncomment l)"
  moreover have "bool_loop eval name ls = Inr None" if "\<And>l. l \<in> set ls \<Longrightarrow> \<not> contains name (uncomment l)" for ls
    using that by (induction ls) (simp_all add: Let_def)
  ultimately show ?thesis by (simp add: get_bool_from_file_def)
qed

text \<open>
  Reading the configuration does not raise when every line that names a setting assigns it:
  \<open>read_config_file\<close> only looks settings up in a file that it has found.
\<close>

definition assigns :: "string \<Rightarrow> string \<Rightarrow> bool" where
  "assigns name content \<longleftrightarrow>
     (\<forall>l \<in> set (file_lines content). contains name (uncomment l) \<longrightarrow> CHR ''='' \<in> set (uncomment l))"

lemma right_hand_side_ok: "CHR ''='' \<in> set s \<Longrightarrow> \<exists>v. right_hand_side s = Inr v"
  by (simp add: right_hand_side_def split_once_def)

lemma list_loop_ok:
  assumes "\<forall>s. \<exists>v. eval s = Inr v" "parsing \<longrightarrow> CHR ''='' \<in> set s"
    "\<forall>l \<in> set lines. contains name (uncomment l) \<longrightarrow> CHR ''='' \<in> set (uncomment l)"
  shows "\<exists>v. list_loop eval name s parsing lines = Inr v"
  using assms(2,3)
proof (induction lines arbitrary: s parsing)
  case (Cons raw lines)
  show ?case
  proof (cases "contains name (uncomment raw) \<or> parsing")
    case True
    then have eq: "CHR ''='' \<in> set (s @ uncomment raw)" using Cons.prems by auto
    from right_hand_side_ok[OF this] assms(1) have "\<exists>v. bind_res (right_hand_side (s @ uncomment raw)) eval = Inr v"
      by auto
    then show ?thesis using True eq Cons.IH[of True "s @ uncomment raw"] Cons.prems(2) by (simp add: Let_def)
  next
    case False
    then show ?thesis using Cons.IH[of parsing s] Cons.prems by (simp add: Let_def)
  qed
qed simp

lemma get_bool_ok:
  assumes "\<forall>s. \<exists>v. eval s = Inr v" "fs path = Some content" "assigns name content"
  shows "\<exists>v. get_bool_from_file fs eval path name d = Inr v"
proof -
  have "\<exists>v. bool_loop eval name lines = Inr v"
    if "\<forall>l \<in> set lines. contains name (uncomment l) \<longrightarrow> CHR ''='' \<in> set (uncomment l)" for lines
    using that
  proof (induction lines)
    case (Cons raw lines)
    have "\<exists>v. bind_res (right_hand_side (uncomment raw)) eval = Inr v" if "contains name (uncomment raw)"
      using that Cons.prems right_hand_side_ok[of "uncomment raw"] assms(1) by auto
    moreover have "\<exists>v. bool_loop eval name lines = Inr v" using Cons by simp
    ultimately show ?case by (auto simp: Let_def)
  qed simp
  from this[of "file_lines content"] assms(3) obtain v where "bool_loop eval name (file_lines content) = Inr v"
    unfolding assigns_def by blast
  then show ?thesis using assms(2) by (simp add: get_bool_from_file_def)
qed

lemma read_config_at_ok:
  assumes "\<forall>s. \<exists>v. eval_list s = Inr v" "\<forall>s. \<exists>v. eval_bool s = Inr v" "fs path = Some content"
    "assigns ''modules_enabled'' content" "assigns ''examples_enabled'' content" "assigns ''tests_enabled'' content"
  shows "\<exists>c. read_config_at fs eval_list eval_bool path = Inr c \<and> config_file_exists c \<and> modules_enabled c \<noteq> []"
proof -
  obtain ms where "get_list_from_file fs eval_list path ''modules_enabled'' = Inr ms"
    using list_loop_ok[of eval_list False "[]" "file_lines content" "''modules_enabled''"] assms(1,3,4)
    by (auto simp: get_list_from_file_def assigns_def)
  then show ?thesis
    using get_bool_ok[where fs = fs and path = path, OF assms(2,3,5), of False]
      get_bool_ok[where fs = fs and path = path, OF assms(2,3,6), of False]
    by (auto simp: read_config_at_def)
qed

theorem read_config_file_total:
  assumes "\<forall>s. \<exists>v. eval_list s = Inr v" "\<forall>s. \<exists>v. eval_bool s = Inr v"
    and "\<And>path content name. path \<in> {''.ns3rc'', home @ ''.ns3rc''} \<Longrightarrow> fs path = Some content \<Longrightarrow>
           name \<in> {''modules_enabled'', ''examples_enabled'', ''tests_enabled''} \<Longrightarrow> assigns name content"
  shows "\<exists>c. read_config_file fs eval_list eval_bool home = Inr c \<and> modules_enabled c \<noteq> [] \<and>
           (config_file_exists c \<longleftrightarrow> fs ''.ns3rc'' \<noteq> None \<or> fs (home @ ''.ns3rc'') \<noteq> None)"
proof -
  have at: "\<exists>c. read_config_at fs eval_list eval_bool path = Inr c \<and> config_file_exists c \<and> modules_enabled c \<noteq> []"
    if "path \<in> {''.ns3rc'', home @ ''.ns3rc''}" "fs path \<noteq> None" for path
  proof -
    from that(2) obtain content where c: "fs path = Some content" by blast
    note a = assms(3)[OF that(1) c]
    show ?thesis by (rule read_config_at_ok[where fs = fs and path = path, OF assms(1,2) c]) (rule a; simp)+
  qed
  show ?thesis
  proof (cases "fs ''.ns3rc'' \<noteq> None")
    case True
    then show ?thesis using at[of "''.ns3rc''"] by (auto simp: read_config_file_def)
  next
    case cwd: False
    show ?thesis
    proof (cases "fs (home @ ''.ns3rc'') \<noteq> None")
      case True
      from at[OF _ this] obtain c where "read_config_at fs eval_list eval_bool (home @ ''.ns3rc'') = Inr c"
        "config_file_exists c" "modules_enabled c \<noteq> []" by blast
      then show ?thesis using True cwd by (simp add: read_config_file_def)
    next
      case False
      then show ?thesis using cwd by (simp add: read_config_file_def)
    qed
  qed
qed

theorem read_config_file_total_witness:
  "\<exists>c. read_config_file [''.ns3rc'' \<mapsto> ln ''tests_enabled = True''] (\<lambda>s. Inr [s]) (\<lambda>s. Inr True) ''/root/'' = Inr c \<and>
     modules_enabled c \<noteq> [] \<and>
     (config_file_exists c \<longleftrightarrow> [''.ns3rc'' \<mapsto> ln ''tests_enabled = True''] ''.ns3rc'' \<noteq> None \<or>
        [''.ns3rc'' \<mapsto> ln ''tests_enabled = True''] (''/root/'' @ ''.ns3rc'') \<noteq> None)"
  by (rule read_config_file_total)
    (auto simp: assigns_def file_lines_def Let_def uncomment_def ln_def split: if_splits)

end
