(* ===== verification/Test_Config.thy ===== *)
theory Test_Config
  imports Cfg_Utils
begin

section \<open>Options, configuration and paths of the test driver (\<open>test.py\<close>)\<close>

text \<open>
  What \<^verbatim>\<open>test.py\<close> knows before it runs anything: the command line options, the
  globals it takes from the build configuration, the environment variables of the programs it
  starts, the examples it may run, and how one program is run.  Executing a configuration line
  (\<open>exec\<close>), evaluating an expression (\<open>eval\<close>) and running a program are parameters.
\<close>

subsection \<open>Options and globals\<close>

record options =
  o_buildpath :: string
  o_constrain :: string
  o_duration :: bool
  o_example :: string
  o_update_data :: bool
  o_fullness :: string
  o_valgrind :: bool
  o_kinds :: bool
  o_list :: bool
  o_multiple :: bool
  o_nowaf :: bool
  o_pyexample :: string
  o_retain :: bool
  o_suite :: string
  o_text :: string
  o_verbose :: bool
  o_html :: string
  o_xml :: string

definition default_options :: options where
  "default_options =
     \<lparr>o_buildpath = [], o_constrain = [], o_duration = False, o_example = [], o_update_data = False,
      o_fullness = ''QUICK'', o_valgrind = False, o_kinds = False, o_list = False, o_multiple = False,
      o_nowaf = False, o_pyexample = [], o_retain = False, o_suite = [], o_text = [], o_verbose = False,
      o_html = [], o_xml = []\<rparr>"

text \<open>
  The module's globals, with the defaults of the module.  Three of them have none there: they are
  \<open>None\<close> until the configuration sets them, and reading them before is a \<open>NameError\<close>.
\<close>

record globals =
  NSC_ENABLED :: bool
  ENABLE_REAL_TIME :: bool
  ENABLE_THREADING :: bool
  ENABLE_EXAMPLES :: bool
  ENABLE_TESTS :: bool
  ENABLE_CLICK :: bool
  ENABLE_BRITE :: bool
  ENABLE_OPENFLOW :: bool
  ENABLE_PYTHON_BINDINGS :: "bool option"
  EXAMPLE_DIRECTORIES :: "string list"
  NS3_ENABLED_MODULES :: "string list option"
  NS3_MODULE_PATH :: "string list option"
  APPNAME :: string
  BUILD_PROFILE :: string
  VERSION :: string
  PYTHON :: "string list"
  VALGRIND_FOUND :: bool
  NS3_BASEDIR :: string
  NS3_BUILDDIR :: string

definition default_globals :: globals where
  "default_globals =
     \<lparr>NSC_ENABLED = False, ENABLE_REAL_TIME = False, ENABLE_THREADING = False, ENABLE_EXAMPLES = True,
      ENABLE_TESTS = True, ENABLE_CLICK = False, ENABLE_BRITE = False, ENABLE_OPENFLOW = False,
      ENABLE_PYTHON_BINDINGS = None,
      EXAMPLE_DIRECTORIES = [], NS3_ENABLED_MODULES = None, NS3_MODULE_PATH = None, APPNAME = [],
      BUILD_PROFILE = [], VERSION = [], PYTHON = [], VALGRIND_FOUND = True,
      NS3_BASEDIR = [], NS3_BUILDDIR = []\<rparr>"

definition read_global :: "'a option \<Rightarrow> 'a res" where
  "read_global x = (case x of None \<Rightarrow> Inl NameError | Some v \<Rightarrow> Inr v)"

lemma read_global_simps [simp]: "read_global None = Inl NameError" "read_global (Some v) = Inr v"
  by (simp_all add: read_global_def)

definition interesting_config_items :: "string list" where
  "interesting_config_items =
     [''NS3_ENABLED_MODULES'', ''NS3_MODULE_PATH'', ''NSC_ENABLED'', ''ENABLE_REAL_TIME'',
      ''ENABLE_THREADING'', ''ENABLE_EXAMPLES'', ''ENABLE_TESTS'', ''EXAMPLE_DIRECTORIES'',
      ''ENABLE_PYTHON_BINDINGS'', ''ENABLE_CLICK'', ''ENABLE_BRITE'', ''ENABLE_OPENFLOW'',
      ''APPNAME'', ''BUILD_PROFILE'', ''VERSION'', ''PYTHON'', ''VALGRIND_FOUND'']"

definition core_kinds :: "string list" where
  "core_kinds = [''bvt'', ''core'', ''performance'', ''system'', ''unit'']"

definition core_valgrind_skip_tests :: "string list" where
  "core_valgrind_skip_tests =
     [''ns3-tcp-cwnd'', ''nsc-tcp-loss'', ''ns3-tcp-interoperability'', ''routing-click'',
      ''lte-rr-ff-mac-scheduler'', ''lte-tdmt-ff-mac-scheduler'', ''lte-fdmt-ff-mac-scheduler'',
      ''lte-pf-ff-mac-scheduler'', ''lte-tta-ff-mac-scheduler'', ''lte-fdbet-ff-mac-scheduler'',
      ''lte-ttbet-ff-mac-scheduler'', ''lte-fdtbfq-ff-mac-scheduler'', ''lte-tdtbfq-ff-mac-scheduler'',
      ''lte-pss-ff-mac-scheduler'']"

definition core_nsc_missing_skip_tests :: "string list" where
  "core_nsc_missing_skip_tests = [''ns3-tcp-cwnd'', ''nsc-tcp-loss'', ''ns3-tcp-interoperability'']"

definition build_profile_suffix :: "globals \<Rightarrow> string" where
  "build_profile_suffix g = (if BUILD_PROFILE g = ''release'' then [] else ''-'' @ BUILD_PROFILE g)"

definition program_name :: "globals \<Rightarrow> string \<Rightarrow> string" where
  "program_name g name = APPNAME g @ VERSION g @ ''-'' @ name @ build_profile_suffix g"

subsection \<open>Reading the build configuration\<close>

text \<open>\<open>key, val = line.split('=')\<close>: the line must hold exactly one equals sign.\<close>

definition split_assignment :: "string \<Rightarrow> string res" where
  "split_assignment line = (case split_on (CHR ''='') line of [key, val] \<Rightarrow> Inr (strip val) | _ \<Rightarrow> Inl ValueError)"

definition lock_line ::
  "(string \<Rightarrow> string res) \<Rightarrow> string option \<times> string option \<Rightarrow> string \<Rightarrow> (string option \<times> string option) res" where
  "lock_line eval dirs line =
     bind_res
       (if prefix ''top_dir ='' line
        then map_value (\<lambda>d. (Some d, snd dirs)) (bind_res (split_assignment line) eval) else Inr dirs)
       (\<lambda>dirs'.
          if prefix ''out_dir ='' line
          then map_value (\<lambda>d. (fst dirs', Some d)) (bind_res (split_assignment line) eval) else Inr dirs')"

definition cache_line :: "(string \<Rightarrow> globals \<Rightarrow> globals res) \<Rightarrow> globals \<Rightarrow> string \<Rightarrow> globals res" where
  "cache_line exec g line =
     fold_res (\<lambda>g item. if prefix item line then exec line g else Inr g) g interesting_config_items"

definition open_lines :: "file_system \<Rightarrow> string \<Rightarrow> string list res" where
  "open_lines fs path = (case fs path of None \<Rightarrow> Inl IOError | Some content \<Rightarrow> Inr (file_lines content))"

definition read_waf_config ::
  "file_system \<Rightarrow> (string \<Rightarrow> string res) \<Rightarrow> (string \<Rightarrow> globals \<Rightarrow> globals res) \<Rightarrow> (string \<Rightarrow> globals \<Rightarrow> string res) \<Rightarrow>
   string \<Rightarrow> options \<Rightarrow> globals \<Rightarrow> (globals \<times> string list) res" where
  "read_waf_config fs eval exec eval_item platform opts g =
     bind_res (open_lines fs (''.lock-waf_'' @ platform @ ''_build'')) (\<lambda>lock.
     bind_res (fold_res (lock_line eval) (None, None) lock) (\<lambda>dirs.
     case dirs of
       (Some top_dir, Some out_dir) \<Rightarrow>
         bind_res (open_lines fs (out_dir @ ''/c4che/_cache.py'')) (\<lambda>cache.
         bind_res (fold_res (cache_line exec) (g\<lparr>NS3_BASEDIR := top_dir, NS3_BUILDDIR := out_dir\<rparr>) cache) (\<lambda>g'.
         map_value (\<lambda>shown. (g', shown))
           (if o_verbose opts
            then traverse_res (\<lambda>item. map_value (\<lambda>v. item @ '' == '' @ v) (eval_item item g')) interesting_config_items
            else Inr [])))
     | _ \<Rightarrow> Inl UnboundLocalError))"

subsection \<open>Environment variables\<close>

definition env_value :: "(string, string) dict \<Rightarrow> string \<Rightarrow> string" where
  "env_value environ key = (case map_of environ key of None \<Rightarrow> [] | Some v \<Rightarrow> v)"

text \<open>Starting from the old value, or from the empty string when there is none.\<close>

definition extend_path :: "string \<Rightarrow> string \<Rightarrow> string list \<Rightarrow> (string, string) dict \<Rightarrow> (string, string) dict" where
  "extend_path key sep paths environ =
     foldl (\<lambda>env path. dict_put key (env_value env key @ sep @ path) env)
       (if dict_has environ key then environ else dict_put key [] environ) paths"

definition report_path :: "options \<Rightarrow> string \<Rightarrow> (string, string) dict \<Rightarrow> string list" where
  "report_path opts key environ =
     (if o_verbose opts then [''os.environ[\"'' @ key @ ''\"] == '' @ env_value environ key] else [])"

text \<open>
  The chained assignment writes \<open>os.environ[\"PYTHONPATH\"]\<close> before the test whether there was
  one is acted on.
\<close>

definition make_paths :: "string \<Rightarrow> options \<Rightarrow> globals \<Rightarrow> (string, string) dict \<Rightarrow> ((string, string) dict \<times> string list) res" where
  "make_paths platform opts g environ =
     map_value (\<lambda>module_path. let have_PYTHONPATH = dict_has environ ''PYTHONPATH'';
          pypath = path_join3 (NS3_BUILDDIR g) ''bindings'' ''python'';
          env1 = dict_put ''PYTHONPATH'' pypath environ;
          env2 = (if \<not> have_PYTHONPATH then dict_put ''PYTHONPATH'' pypath env1
                  else dict_put ''PYTHONPATH'' (env_value env1 ''PYTHONPATH'' @ '':'' @ pypath) env1);
          (key, sep) =
            (if platform = ''darwin'' then (''DYLD_LIBRARY_PATH'', '':'')
             else if platform = ''win32'' then (''PATH'', '';'')
             else if platform = ''cygwin'' then (''PATH'', '':'')
             else (''LD_LIBRARY_PATH'', '':''));
          env3 = extend_path key sep module_path env2
      in (env3, report_path opts ''PYTHONPATH'' env2 @ report_path opts key env3))
       (read_global (NS3_MODULE_PATH g))"

subsection \<open>The examples of a directory\<close>

record examples =
  example_tests :: "(string \<times> string \<times> string) list"
  example_names_original :: "string list"
  python_tests :: "(string \<times> string) list"

definition no_examples :: examples where
  "no_examples = \<lparr>example_tests = [], example_names_original = [], python_tests = []\<rparr>"

definition with_arguments :: "string \<Rightarrow> string list \<Rightarrow> string" where
  "with_arguments path parts = (if length parts \<noteq> 1 then path @ '' '' @ parts ! 1 else path)"

definition add_cpp_example ::
  "file_system \<Rightarrow> globals \<Rightarrow> string \<Rightarrow> examples \<Rightarrow> string \<times> string \<times> string \<Rightarrow> examples" where
  "add_cpp_example fs g cpp_executable_dir ex entry =
     (case entry of (original, do_run, do_valgrind_run) \<Rightarrow>
        let parts = split_once (CHR '' '') original;
            example_path = path_join cpp_executable_dir (program_name g (parts ! 0))
        in if fs example_path \<noteq> None
           then ex\<lparr>example_tests := example_tests ex @ [(with_arguments example_path parts, do_run, do_valgrind_run)],
                   example_names_original := example_names_original ex @ [original]\<rparr>
           else ex)"

definition add_python_example :: "file_system \<Rightarrow> string \<Rightarrow> examples \<Rightarrow> string \<times> string \<Rightarrow> examples" where
  "add_python_example fs python_script_dir ex entry =
     (case entry of (original, do_run) \<Rightarrow>
        let parts = split_once (CHR '' '') original;
            example_path = path_join python_script_dir (parts ! 0)
        in if fs example_path \<noteq> None
           then ex\<lparr>python_tests := python_tests ex @ [(with_arguments example_path parts, do_run)]\<rparr>
           else ex)"

definition parse_examples_to_run_file ::
  "file_system \<Rightarrow> (string \<Rightarrow> (string \<times> string \<times> string) list res) \<Rightarrow> (string \<Rightarrow> (string \<times> string) list res) \<Rightarrow>
   globals \<Rightarrow> string \<Rightarrow> string \<Rightarrow> string \<Rightarrow> examples \<Rightarrow> examples res" where
  "parse_examples_to_run_file fs eval_cpp eval_py g examples_to_run_path cpp_executable_dir python_script_dir ex =
     (if fs examples_to_run_path = None then Inr ex
      else bind_res (get_list_from_file fs eval_cpp examples_to_run_path ''cpp_examples'') (\<lambda>cpp_examples.
           bind_res (get_list_from_file fs eval_py examples_to_run_path ''python_examples'') (\<lambda>python_examples.
             Inr (foldl (add_python_example fs python_script_dir)
                   (foldl (add_cpp_example fs g cpp_executable_dir) ex cpp_examples) python_examples))))"

subsection \<open>Running one program\<close>

text \<open>
  \<open>execute cmd directory\<close> is what the shell gives for a command: return code, standard output,
  standard error and the time it took.
\<close>

type_synonym outcome = "int \<times> string \<times> string \<times> rat"

definition job_command ::
  "globals \<Rightarrow> string \<Rightarrow> bool \<Rightarrow> bool \<Rightarrow> string \<Rightarrow> string res" where
  "job_command g shell_command valgrind is_python build_path =
     map_value
       (\<lambda>path_cmd.
          if valgrind
          then ''valgrind --suppressions='' @ path_join (NS3_BASEDIR g) ''testpy.supp'' @
               '' --leak-check=full --show-reachable=yes --error-exitcode=2 '' @ path_cmd
          else path_cmd)
       (if is_python
        then (case PYTHON g of [] \<Rightarrow> Inl IndexError
              | python # _ \<Rightarrow> Inr (python @ '' '' @ path_join (NS3_BASEDIR g) shell_command))
        else if build_path \<noteq> [] then Inr (path_join build_path shell_command)
        else Inr (path_join (NS3_BUILDDIR g) shell_command))"

definition leak_checked :: "bool \<Rightarrow> outcome \<Rightarrow> outcome" where
  "leak_checked valgrind result =
     (case result of (retval, stdout_results, stderr_results, elapsed_time) \<Rightarrow>
        (if valgrind \<and> retval = 0 \<and> contains ''== LEAK SUMMARY:'' stderr_results then 2 else retval,
         stdout_results, stderr_results, elapsed_time))"

definition job_messages :: "options \<Rightarrow> string \<Rightarrow> outcome \<Rightarrow> string list" where
  "job_messages opts cmd result =
     (case result of (retval, stdout_results, stderr_results, elapsed_time) \<Rightarrow>
        if o_verbose opts
        then [''Synchronously execute '' @ cmd, ''Return code =  '' @ show_int retval,
              ''stderr =  '' @ stderr_results]
        else [])"

text \<open>The result of the program and what is printed about it.\<close>

definition run_job_synchronously ::
  "options \<Rightarrow> (string \<Rightarrow> string \<Rightarrow> outcome) \<Rightarrow> globals \<Rightarrow> string \<Rightarrow> string \<Rightarrow> bool \<Rightarrow> bool \<Rightarrow> string \<Rightarrow>
   (outcome \<times> string list) res" where
  "run_job_synchronously opts execute g shell_command directory valgrind is_python build_path =
     map_value
       (\<lambda>cmd. let result = leak_checked valgrind (execute cmd directory) in (result, job_messages opts cmd result))
       (job_command g shell_command valgrind is_python build_path)"

subsection \<open>The commands given to waf and to the test runner\<close>

definition waf_target :: "options \<Rightarrow> string" where
  "waf_target opts =
     (if o_kinds opts \<or> o_list opts \<or> (o_constrain opts \<noteq> [] \<and> o_constrain opts \<in> set core_kinds)
      then '' --target=test-runner''
      else if o_example opts \<noteq> [] then '' --target='' @ basename (o_example opts)
      else [])"

definition waf_command :: "string \<Rightarrow> options \<Rightarrow> string" where
  "waf_command platform opts = (if platform = ''win32'' then ''waf'' else ''./waf'') @ waf_target opts"

definition runner_command :: "globals \<Rightarrow> string \<Rightarrow> string" where
  "runner_command g arguments = path_join ''utils'' (program_name g ''test-runner'' @ arguments)"

subsection \<open>Properties\<close>

text \<open>The environment after \<open>make_paths\<close>, variable by variable.\<close>

definition library_variable :: "string \<Rightarrow> string \<times> string" where
  "library_variable platform =
     (if platform = ''darwin'' then (''DYLD_LIBRARY_PATH'', '':'')
      else if platform = ''win32'' then (''PATH'', '';'')
      else if platform = ''cygwin'' then (''PATH'', '':'')
      else (''LD_LIBRARY_PATH'', '':''))"

lemma env_value_put: "env_value (dict_put k v env) k' = (if k' = k then v else env_value env k')"
  by (simp add: env_value_def)

lemma dict_has_put: "dict_has (dict_put k v env) k' \<longleftrightarrow> k' = k \<or> dict_has env k'"
  by (simp add: dict_has_iff(2))

lemma env_value_absent: "\<not> dict_has env k \<Longrightarrow> env_value env k = []"
  by (simp add: dict_has_iff(2) env_value_def)

lemma env_value_fold:
  "env_value (foldl (\<lambda>env path. dict_put key (env_value env key @ sep @ path) env) env paths) k =
   (if k = key then env_value env key @ concat (map (\<lambda>path. sep @ path) paths) else env_value env k)"
  by (induction paths arbitrary: env) (simp_all add: env_value_put)

lemma env_value_extend:
  "env_value (extend_path key sep paths env) k =
   (if k = key then env_value env key @ concat (map (\<lambda>path. sep @ path) paths) else env_value env k)"
  by (simp add: extend_path_def env_value_fold env_value_put env_value_absent)

theorem make_paths_environment:
  fixes environ :: "(string, string) dict" and g :: globals
  defines "pypath \<equiv> path_join3 (NS3_BUILDDIR g) ''bindings'' ''python''"
  assumes "make_paths platform opts g environ = Inr (env, lines)"
  shows "case library_variable platform of (key, sep) \<Rightarrow>
     env_value env k =
       (if k = key then env_value environ key @ concat (map (\<lambda>path. sep @ path) (the (NS3_MODULE_PATH g)))
        else if k = ''PYTHONPATH''
          then (if dict_has environ ''PYTHONPATH'' then pypath @ '':'' @ pypath else pypath)
        else env_value environ k)"
proof -
  obtain paths where p: "NS3_MODULE_PATH g = Some paths"
    using assms(2) by (cases "NS3_MODULE_PATH g") (auto simp: make_paths_def)
  have env: "env = fst (projr (make_paths platform opts g environ))" by (simp only: assms(2) sum.sel fst_conv)
  show ?thesis
    unfolding env make_paths_def p read_global_simps map_value_simps sum.sel option.sel Let_def library_variable_def pypath_def[symmetric]
    by (simp add: env_value_extend env_value_put)
qed

text \<open>Parsing a list of examples keeps those whose program exists, in their order, after the old ones.\<close>

definition cpp_path :: "globals \<Rightarrow> string \<Rightarrow> string \<Rightarrow> string" where
  "cpp_path g dir original = path_join dir (program_name g (hd (split_once (CHR '' '') original)))"

lemma split_once_hd: "split_once c s ! 0 = hd (split_once c s)" "split_once c s \<noteq> []"
  by (simp_all add: split_once_def)

lemma add_cpp_examples:
  "foldl (add_cpp_example fs g dir) ex entries =
   (let found = filter (\<lambda>(name, _). fs (cpp_path g dir name) \<noteq> None) entries
    in ex\<lparr>example_tests := example_tests ex @
            map (\<lambda>(name, c). (with_arguments (cpp_path g dir name) (split_once (CHR '' '') name), c)) found,
          example_names_original := example_names_original ex @ map fst found\<rparr>)"
  by (induction entries arbitrary: ex)
    (auto simp: add_cpp_example_def Let_def cpp_path_def split_once_hd)

lemma add_python_examples:
  "foldl (add_python_example fs dir) ex entries =
   (let found = filter (\<lambda>(name, _). fs (path_join dir (hd (split_once (CHR '' '') name))) \<noteq> None) entries
    in ex\<lparr>python_tests := python_tests ex @
            map (\<lambda>(name, c). (with_arguments (path_join dir (hd (split_once (CHR '' '') name)))
                                 (split_once (CHR '' '') name), c)) found\<rparr>)"
  by (induction entries arbitrary: ex)
    (auto simp: add_python_example_def Let_def split_once_hd)

theorem parse_examples_found:
  assumes "fs path = Some content"
    and "get_list_from_file fs eval_cpp path ''cpp_examples'' = Inr cpp"
    and "get_list_from_file fs eval_py path ''python_examples'' = Inr py"
  shows "parse_examples_to_run_file fs eval_cpp eval_py g path cpp_dir py_dir ex =
    Inr \<lparr>example_tests = example_tests ex @
           [(with_arguments (cpp_path g cpp_dir name) (split_once (CHR '' '') name), c).
              (name, c) \<leftarrow> cpp, fs (cpp_path g cpp_dir name) \<noteq> None],
         example_names_original = example_names_original ex @
           [name. (name, c) \<leftarrow> cpp, fs (cpp_path g cpp_dir name) \<noteq> None],
         python_tests = python_tests ex @
           [(with_arguments (path_join py_dir (hd (split_once (CHR '' '') name))) (split_once (CHR '' '') name), c).
              (name, c) \<leftarrow> py, fs (path_join py_dir (hd (split_once (CHR '' '') name))) \<noteq> None]\<rparr>"
proof -
  have comp: "map h (filter P xs) = concat (map (\<lambda>p. if P p then [h p] else []) xs)"
    for h :: "'x \<Rightarrow> 'z" and P xs
    by (induction xs) auto
  show ?thesis
    using assms
    by (cases ex)
      (simp add: parse_examples_to_run_file_def add_cpp_examples add_python_examples Let_def comp case_prod_unfold)
qed

theorem parse_examples_found_witness:
  "parse_examples_to_run_file [''f'' \<mapsto> ln ''cpp_examples = []'', ''d/n-a-debug'' \<mapsto> []]
     (\<lambda>e. Inr [(''a --x'', ''True'', ''False''), (''b'', ''True'', ''True'')]) (\<lambda>e. Inr [])
     (default_globals\<lparr>APPNAME := ''n'', BUILD_PROFILE := ''debug''\<rparr>) ''f'' ''d'' ''p'' no_examples =
   Inr (no_examples\<lparr>example_tests := [(''d/n-a-debug --x'', ''True'', ''False'')], example_names_original := [''a --x'']\<rparr>)"
proof -
  let ?fs = "[''f'' \<mapsto> ln ''cpp_examples = []'', ''d/n-a-debug'' \<mapsto> []] :: file_system"
  have cpp: "get_list_from_file ?fs (\<lambda>e. Inr [(''a --x'', ''True'', ''False''), (''b'', ''True'', ''True'')]) ''f'' ''cpp_examples''
      = Inr [(''a --x'', ''True'', ''False''), (''b'', ''True'', ''True'')]" by code_simp
  have py: "get_list_from_file ?fs (\<lambda>e. Inr []) ''f'' ''python_examples'' = (Inr [] :: (string \<times> string) list res)" by code_simp
  have content: "?fs ''f'' = Some (ln ''cpp_examples = []'')" by simp
  show ?thesis
    using parse_examples_found[OF content cpp py, of "default_globals\<lparr>APPNAME := ''n'', BUILD_PROFILE := ''debug''\<rparr>" "''d''" "''p''" no_examples]
    by (simp add: no_examples_def cpp_path_def program_name_def build_profile_suffix_def default_globals_def path_join_def
        split_once_def with_arguments_def)
qed

text \<open>The return code of a program: only a clean exit under valgrind is looked at twice.\<close>

lemma leak_checked_code:
  "fst (leak_checked valgrind (retval, out, err, t)) =
   (if valgrind \<and> retval = 0 \<and> sublist ''== LEAK SUMMARY:'' err then 2 else retval)"
  by (simp add: leak_checked_def contains_iff_sublist)

lemma run_job_raises_iff:
  "(\<exists>e. run_job_synchronously opts execute g cmd dir valgrind is_python build_path = Inl e) \<longleftrightarrow>
   is_python \<and> PYTHON g = []"
  by (auto simp: run_job_synchronously_def job_command_def Let_def split: list.splits)

end
