(* ===== verification/Test_Workers.thy ===== *)
theory Test_Workers
  imports Test_Config "HOL-Library.Multiset"
begin

section \<open>Jobs and worker threads (\<open>test.py\<close>)\<close>

text \<open>
  The concurrent part of \<^verbatim>\<open>test.py\<close>.  The main thread puts the jobs and then one break
  job per worker on \<open>input_queue\<close>, takes as many results from \<open>output_queue\<close> as it put
  jobs, and joins the workers.  Each worker takes jobs until it sees a break.  The interrupt
  handler may set \<open>thread_exit\<close> at any time.  One step of one thread is one transition of
  \<open>pool_step\<close>; a queue operation is atomic, and so is reading or writing \<open>thread_exit\<close>.
\<close>

subsection \<open>Jobs\<close>

record job =
  is_break :: bool
  is_skip :: bool
  is_example :: bool
  is_pyexample :: bool
  shell_command :: string
  display_name :: string
  basedir :: string
  tempdir :: string
  cwd :: string
  tmp_file_name :: string
  returncode :: int
  elapsed_time :: rat
  build_path :: string

text \<open>The constructor; \<open>returncode\<close> starts as \<open>False\<close>, which is 0.\<close>

definition new_job :: job where
  "new_job =
     \<lparr>is_break = False, is_skip = False, is_example = False, is_pyexample = False, shell_command = [],
      display_name = [], basedir = [], tempdir = [], cwd = [], tmp_file_name = [], returncode = 0,
      elapsed_time = 0, build_path = []\<rparr>"

definition break_job :: job where
  "break_job = new_job\<lparr>is_break := True\<rparr>"

text \<open>What a worker does with a job that is neither a break nor skipped, and what it prints.\<close>

definition job_arguments :: "options \<Rightarrow> job \<Rightarrow> string" where
  "job_arguments opts j =
     '' --xml --tempdir='' @ tempdir j @ '' --out='' @ tmp_file_name j @ '' '' @
     (if o_update_data opts then ''--update-data'' else [])"

definition job_report :: "options \<Rightarrow> outcome \<Rightarrow> string list" where
  "job_report opts result =
     (case result of (code, standard_out, standard_err, et) \<Rightarrow>
        if o_verbose opts
        then [''returncode = '' @ show_int code, ''---------- begin standard out ----------'', standard_out,
              ''---------- begin standard err ----------'', standard_err,
              ''---------- end standard err ----------'']
        else [])"

definition perform_job ::
  "options \<Rightarrow> (string \<Rightarrow> string \<Rightarrow> outcome) \<Rightarrow> globals \<Rightarrow> job \<Rightarrow> (job \<times> string list) res" where
  "perform_job opts execute g j =
     bind_res
       (if is_example j \<or> is_pyexample j
        then run_job_synchronously opts execute g (shell_command j) (cwd j) (o_valgrind opts) (is_pyexample j) (build_path j)
        else run_job_synchronously opts execute g (shell_command j @ job_arguments opts j) (cwd j)
               (o_valgrind opts) False [])
       (\<lambda>(result, messages). case result of (code, standard_out, standard_err, et) \<Rightarrow>
          Inr (j\<lparr>returncode := code, elapsed_time := et\<rparr>, messages @ job_report opts result))"

definition note_job :: "options \<Rightarrow> string \<Rightarrow> job \<Rightarrow> string list" where
  "note_job opts what j = (if o_verbose opts then [what @ '' '' @ shell_command j] else [])"

subsection \<open>The threads\<close>

text \<open>
  A worker is waiting for the queue, has taken a job, runs a program, or has left its loop:
  by a break, or by an exception that ended the thread.
\<close>

datatype worker = Waiting | Holding job | Running job | Exited

record pool =
  to_put :: "job list"
  input_queue :: "job list"
  output_queue :: "job list"
  workers :: "worker list"
  thread_exit :: bool
  to_get :: nat
  collected :: "job list"
  console :: "string list"

definition spin_up :: "nat \<Rightarrow> job list \<Rightarrow> pool" where
  "spin_up processors jobs =
     \<lparr>to_put = jobs @ replicate processors break_job, input_queue = [], output_queue = [],
      workers = replicate processors Waiting, thread_exit = False, to_get = length jobs,
      collected = [], console = []\<rparr>"

text \<open>
  The steps.  \<open>Put\<close> and \<open>Get\<close> are the main thread's; the other ones but \<open>Interrupt\<close> are
  those of worker \<open>i\<close>.
\<close>

inductive pool_step :: "options \<Rightarrow> (job \<Rightarrow> (job \<times> string list) res) \<Rightarrow> pool \<Rightarrow> pool \<Rightarrow> bool"
  for opts perform where
  Put: "to_put s = j # js \<Longrightarrow>
    pool_step opts perform s (s\<lparr>to_put := js, input_queue := input_queue s @ [j]\<rparr>)"
| Take: "i < length (workers s) \<Longrightarrow> workers s ! i = Waiting \<Longrightarrow> input_queue s = j # q \<Longrightarrow>
    pool_step opts perform s
      (s\<lparr>input_queue := q, workers := (workers s)[i := if is_break j then Exited else Holding j]\<rparr>)"
| Interrupted: "i < length (workers s) \<Longrightarrow> workers s ! i = Holding j \<Longrightarrow> thread_exit s \<Longrightarrow>
    pool_step opts perform s
      (s\<lparr>output_queue := output_queue s @ [j\<lparr>is_break := True\<rparr>], workers := (workers s)[i := Waiting]\<rparr>)"
| Skip: "i < length (workers s) \<Longrightarrow> workers s ! i = Holding j \<Longrightarrow> \<not> thread_exit s \<Longrightarrow> is_skip j \<Longrightarrow>
    pool_step opts perform s
      (s\<lparr>output_queue := output_queue s @ [j], workers := (workers s)[i := Waiting],
         console := console s @ note_job opts ''Skip'' j\<rparr>)"
| Launch: "i < length (workers s) \<Longrightarrow> workers s ! i = Holding j \<Longrightarrow> \<not> thread_exit s \<Longrightarrow> \<not> is_skip j \<Longrightarrow>
    pool_step opts perform s
      (s\<lparr>workers := (workers s)[i := Running j], console := console s @ note_job opts ''Launch'' j\<rparr>)"
| Finish: "i < length (workers s) \<Longrightarrow> workers s ! i = Running j \<Longrightarrow> perform j = Inr (j', lines) \<Longrightarrow>
    pool_step opts perform s
      (s\<lparr>output_queue := output_queue s @ [j'], workers := (workers s)[i := Waiting],
         console := console s @ lines\<rparr>)"
| Die: "i < length (workers s) \<Longrightarrow> workers s ! i = Running j \<Longrightarrow> perform j = Inl e \<Longrightarrow>
    pool_step opts perform s (s\<lparr>workers := (workers s)[i := Exited]\<rparr>)"
| Get: "to_put s = [] \<Longrightarrow> to_get s = Suc n \<Longrightarrow> output_queue s = j # q \<Longrightarrow>
    pool_step opts perform s (s\<lparr>output_queue := q, to_get := n, collected := collected s @ [j]\<rparr>)"
| Interrupt: "\<not> thread_exit s \<Longrightarrow> pool_step opts perform s (s\<lparr>thread_exit := True\<rparr>)"

inductive pool_reach :: "options \<Rightarrow> (job \<Rightarrow> (job \<times> string list) res) \<Rightarrow> pool \<Rightarrow> pool \<Rightarrow> bool"
  for opts perform s0 where
  Start: "pool_reach opts perform s0 s0"
| Step: "pool_reach opts perform s0 s \<Longrightarrow> pool_step opts perform s s' \<Longrightarrow> pool_reach opts perform s0 s'"

text \<open>The main thread is past the last \<open>join\<close>.\<close>

definition all_joined :: "pool \<Rightarrow> bool" where
  "all_joined s \<longleftrightarrow> to_put s = [] \<and> to_get s = 0 \<and> list_all (\<lambda>w. w = Exited) (workers s)"

subsection \<open>Accounting\<close>

text \<open>What a job becomes on its way must not lose which job it was.\<close>

definition ticket :: "job \<Rightarrow> job" where
  "ticket j = j\<lparr>is_break := False, returncode := 0, elapsed_time := 0\<rparr>"

definition held_by :: "worker \<Rightarrow> job list" where
  "held_by w = (case w of Waiting \<Rightarrow> [] | Holding j \<Rightarrow> [j] | Running j \<Rightarrow> [j] | Exited \<Rightarrow> [])"

definition in_hand :: "pool \<Rightarrow> job list" where
  "in_hand s = concat (map held_by (workers s))"

lemma mset_in_hand_update:
  assumes "i < length (workers s)"
  shows "mset (concat (map held_by ((workers s)[i := w]))) + mset (held_by (workers s ! i)) =
         mset (in_hand s) + mset (held_by w)"
proof -
  have eq: "workers s = take i (workers s) @ workers s ! i # drop (Suc i) (workers s)"
    using assms by (rule id_take_nth_drop)
  have "(workers s)[i := w] = take i (workers s) @ w # drop (Suc i) (workers s)"
    using assms by (rule upd_conv_take_nth_drop)
  then show ?thesis
    unfolding in_hand_def by (subst (3) eq) (simp add: ac_simps)
qed

lemma length_in_hand_update:
  assumes "i < length (workers s)"
  shows "length (concat (map held_by ((workers s)[i := w]))) + length (held_by (workers s ! i)) =
         length (in_hand s) + length (held_by w)"
  using arg_cong[OF mset_in_hand_update[OF assms], of size] by simp

definition active :: "worker list \<Rightarrow> nat" where
  "active ws = length (filter (\<lambda>w. w \<noteq> Exited) ws)"

lemma active_update:
  assumes "i < length ws"
  shows "active (ws[i := w]) + (if ws ! i = Exited then 0 else 1) = active ws + (if w = Exited then 0 else 1)"
proof -
  have eq: "ws = take i ws @ ws ! i # drop (Suc i) ws"
    using assms by (rule id_take_nth_drop)
  have "ws[i := w] = take i ws @ w # drop (Suc i) ws"
    using assms by (rule upd_conv_take_nth_drop)
  then show ?thesis unfolding active_def by (subst (3) eq) simp
qed

subsection \<open>The pool's contract\<close>

text \<open>
  What the pool needs from the code that performs a job: it returns, and it changes nothing of
  the job but the return code and the time.
\<close>

locale worker_pool =
  fixes perform :: "job \<Rightarrow> (job \<times> string list) res"
  assumes keeps: "perform j = Inr (j', lines) \<Longrightarrow> ticket j' = ticket j \<and> is_break j' = is_break j"
    and returns: "perform j \<noteq> Inl e"
begin

definition tickets :: "pool \<Rightarrow> job multiset" where
  "tickets s = image_mset ticket
     (mset (filter (\<lambda>j. \<not> is_break j) (to_put s)) + mset (filter (\<lambda>j. \<not> is_break j) (input_queue s)) +
      mset (in_hand s) + mset (output_queue s) + mset (collected s))"

definition hands_clean :: "pool \<Rightarrow> bool" where
  "hands_clean s \<longleftrightarrow> (\<forall>w \<in> set (workers s). \<forall>j \<in> set (held_by w). \<not> is_break j)"

lemma update_tickets:
  assumes "i < length (workers s)" "workers s ! i = w0"
  shows "image_mset ticket (mset (concat (map held_by ((workers s)[i := w])))) + image_mset ticket (mset (held_by w0)) =
         image_mset ticket (mset (in_hand s)) + image_mset ticket (mset (held_by w))"
  using arg_cong[OF mset_in_hand_update[OF assms(1), of w], of "image_mset ticket"] assms(2) by simp

lemma ticket_break [simp]: "ticket (j\<lparr>is_break := b\<rparr>) = ticket j"
  by (simp add: ticket_def)

lemma step_tickets:
  assumes "pool_step opts perform s s'"
  shows "tickets s' = tickets s"
  using assms
proof cases
  case (Take i j q)
  then show ?thesis using update_tickets[OF Take(2,3), of "if is_break j then Exited else Holding j"]
    by (auto simp: tickets_def in_hand_def held_by_def ac_simps)
next
  case (Interrupted i j)
  then show ?thesis using update_tickets[OF Interrupted(2,3), of Waiting]
    by (simp add: tickets_def in_hand_def held_by_def ac_simps)
next
  case (Skip i j)
  then show ?thesis using update_tickets[OF Skip(2,3), of Waiting]
    by (simp add: tickets_def in_hand_def held_by_def ac_simps)
next
  case (Launch i j)
  then show ?thesis using update_tickets[OF Launch(2,3), of "Running j"]
    by (simp add: tickets_def in_hand_def held_by_def ac_simps)
next
  case (Finish i j j' lines)
  then show ?thesis using update_tickets[OF Finish(2,3), of Waiting] keeps[OF Finish(4)]
    by (simp add: tickets_def in_hand_def held_by_def ac_simps)
qed (auto simp: tickets_def in_hand_def returns)

text \<open>
  The jobs not yet taken come before the breaks, one break for each worker still there; no
  worker leaves while a job is left; and the main thread waits for exactly the results to come.
\<close>

definition balanced :: "pool \<Rightarrow> bool" where
  "balanced s \<longleftrightarrow>
     (\<exists>js b. input_queue s @ to_put s = js @ replicate b break_job \<and> (\<forall>j \<in> set js. \<not> is_break j) \<and>
        b = active (workers s) \<and> (b < length (workers s) \<longrightarrow> js = []) \<and>
        to_get s = length js + length (in_hand s) + length (output_queue s))"

lemma step_balanced:
  assumes "pool_step opts perform s s'" "balanced s"
  shows "balanced s'"
proof -
  from assms(2) obtain js b where inv: "input_queue s @ to_put s = js @ replicate b break_job"
    "\<forall>j \<in> set js. \<not> is_break j" "b = active (workers s)" "b < length (workers s) \<longrightarrow> js = []"
    "to_get s = length js + length (in_hand s) + length (output_queue s)"
    unfolding balanced_def by blast
  show ?thesis
    using assms(1)
  proof cases
    case (Take i j q)
    show ?thesis
    proof (cases js)
      case Nil
      then obtain b' where b': "b = Suc b'" and j: "j = break_job" and q: "q @ to_put s = replicate b' break_job"
        using inv(1) Take(4) by (cases b) auto
      have "active ((workers s)[i := Exited]) = b'"
        using active_update[OF Take(2), of Exited] Take(3) inv(3) b' by simp
      moreover have "length (concat (map held_by ((workers s)[i := Exited]))) = length (in_hand s)"
        using length_in_hand_update[OF Take(2), of Exited] Take(3) by (simp add: held_by_def)
      ultimately show ?thesis
        using Take(1) j q inv Nil by (auto simp: balanced_def in_hand_def break_job_def)
    next
      case (Cons j0 js')
      have j: "j = j0" "\<not> is_break j" and q: "q @ to_put s = js' @ replicate b break_job"
        using inv(1,2) Take(4) Cons by auto
      have b: "b = length (workers s)" using inv(3,4) Cons by (auto simp: active_def) (meson le_neq_implies_less length_filter_le)
      have "active ((workers s)[i := Holding j]) = b"
        using active_update[OF Take(2), of "Holding j"] Take(3) inv(3) by simp
      moreover have "length (concat (map held_by ((workers s)[i := Holding j]))) = Suc (length (in_hand s))"
        using length_in_hand_update[OF Take(2), of "Holding j"] Take(3) by (simp add: held_by_def)
      moreover have "\<forall>j \<in> set js'. \<not> is_break j" using inv(2) Cons by simp
      ultimately show ?thesis
        using Take(1) j q inv(5) b Cons unfolding balanced_def in_hand_def
        by (intro exI[of _ js'] exI[of _ b]) simp
    qed
  next
    case (Interrupted i j)
    have "active ((workers s)[i := Waiting]) = active (workers s)"
      using active_update[OF Interrupted(2), of Waiting] Interrupted(3) by simp
    moreover have "Suc (length (concat (map held_by ((workers s)[i := Waiting])))) = length (in_hand s)"
      using length_in_hand_update[OF Interrupted(2), of Waiting] Interrupted(3) by (simp add: held_by_def)
    ultimately show ?thesis using Interrupted(1) inv unfolding balanced_def in_hand_def
      by (intro exI[of _ js] exI[of _ b]) simp
  next
    case (Skip i j)
    have "active ((workers s)[i := Waiting]) = active (workers s)"
      using active_update[OF Skip(2), of Waiting] Skip(3) by simp
    moreover have "Suc (length (concat (map held_by ((workers s)[i := Waiting])))) = length (in_hand s)"
      using length_in_hand_update[OF Skip(2), of Waiting] Skip(3) by (simp add: held_by_def)
    ultimately show ?thesis using Skip(1) inv unfolding balanced_def in_hand_def
      by (intro exI[of _ js] exI[of _ b]) simp
  next
    case (Launch i j)
    have "active ((workers s)[i := Running j]) = active (workers s)"
      using active_update[OF Launch(2), of "Running j"] Launch(3) by simp
    moreover have "length (concat (map held_by ((workers s)[i := Running j]))) = length (in_hand s)"
      using length_in_hand_update[OF Launch(2), of "Running j"] Launch(3) by (simp add: held_by_def)
    ultimately show ?thesis using Launch(1) inv unfolding balanced_def in_hand_def
      by (intro exI[of _ js] exI[of _ b]) simp
  next
    case (Finish i j j' lines)
    have "active ((workers s)[i := Waiting]) = active (workers s)"
      using active_update[OF Finish(2), of Waiting] Finish(3) by simp
    moreover have "Suc (length (concat (map held_by ((workers s)[i := Waiting])))) = length (in_hand s)"
      using length_in_hand_update[OF Finish(2), of Waiting] Finish(3) by (simp add: held_by_def)
    ultimately show ?thesis using Finish(1) inv unfolding balanced_def in_hand_def
      by (intro exI[of _ js] exI[of _ b]) simp
  next
    case (Put j js')
    then show ?thesis using inv unfolding balanced_def in_hand_def
      by (intro exI[of _ js] exI[of _ b]) simp
  next
    case (Get n j q)
    then show ?thesis using inv unfolding balanced_def in_hand_def
      by (intro exI[of _ js] exI[of _ b]) simp
  next
    case Interrupt
    then show ?thesis using inv unfolding balanced_def in_hand_def
      by (intro exI[of _ js] exI[of _ b]) simp
  qed (simp add: returns)
qed

lemma held_nothing: "set ws \<subseteq> {Waiting, Exited} \<Longrightarrow> concat (map held_by ws) = []"
  by (induction ws) (auto simp: held_by_def)

lemma none_active: "active ws = 0 \<longleftrightarrow> list_all (\<lambda>w. w = Exited) ws"
  by (induction ws) (auto simp: active_def)

text \<open>No deadlock: until the main thread is through, some thread can do a step other than an interrupt.\<close>

lemma progress:
  assumes "balanced s" "\<not> all_joined s" "workers s \<noteq> []"
  shows "\<exists>s'. pool_step opts perform s s' \<and> thread_exit s' = thread_exit s"
proof (cases "to_put s")
  case (Cons j js)
  from pool_step.Put[OF this] show ?thesis by fastforce
next
  case no_put: Nil
  show ?thesis
  proof (cases "set (workers s) \<subseteq> {Waiting, Exited}")
    case False
    then obtain i where i: "i < length (workers s)" "workers s ! i \<notin> {Waiting, Exited}"
      by (metis in_set_conv_nth subsetI)
    show ?thesis
    proof (cases "workers s ! i")
      case (Holding j)
      show ?thesis
        using pool_step.Interrupted[OF i(1) Holding] pool_step.Skip[OF i(1) Holding] pool_step.Launch[OF i(1) Holding]
        by (cases "thread_exit s"; cases "is_skip j") fastforce+
    next
      case (Running j)
      obtain j' lines where "perform j = Inr (j', lines)"
        using returns[of j] by (cases "perform j") auto
      from pool_step.Finish[where perform = perform, OF i(1) Running this] show ?thesis by fastforce
    qed (use i in auto)
  next
    case idle: True
    from assms(1) obtain js b where inv: "input_queue s = js @ replicate b break_job"
      "b = active (workers s)" "b < length (workers s) \<longrightarrow> js = []"
      "to_get s = length js + length (in_hand s) + length (output_queue s)"
      unfolding balanced_def no_put by auto
    have hand: "in_hand s = []" unfolding in_hand_def by (rule held_nothing[OF idle])
    show ?thesis
    proof (cases "active (workers s) = 0")
      case True
      then have js: "js = []" using inv(2,3) assms(3) by simp
      then obtain n j q where "to_get s = Suc n" "output_queue s = j # q"
        using assms(2) True no_put inv(4) hand none_active[of "workers s"]
        by (cases "output_queue s") (auto simp: all_joined_def)
      from pool_step.Get[OF no_put this] show ?thesis by fastforce
    next
      case False
      then obtain i where i: "i < length (workers s)" "workers s ! i = Waiting"
        using none_active[of "workers s"] idle unfolding list_all_iff
        by (metis in_set_conv_nth insertE neq0_conv singletonD subsetD)
      have "input_queue s \<noteq> []" using inv(1,2) False by simp
      then obtain j q where "input_queue s = j # q" by (meson neq_Nil_conv)
      from pool_step.Take[OF i this] show ?thesis by fastforce
    qed
  qed
qed

end

text \<open>Every step brings the work down, so no run goes on for ever.\<close>

definition worker_load :: "worker \<Rightarrow> nat" where
  "worker_load w = (case w of Waiting \<Rightarrow> 0 | Holding j \<Rightarrow> 3 | Running j \<Rightarrow> 2 | Exited \<Rightarrow> 0)"

definition pool_load :: "pool \<Rightarrow> nat" where
  "pool_load s = 5 * length (to_put s) + 4 * length (input_queue s) + sum_list (map worker_load (workers s)) +
     length (output_queue s) + (if thread_exit s then 0 else 1)"

lemma load_update:
  assumes "i < length ws"
  shows "sum_list (map worker_load (ws[i := w])) + worker_load (ws ! i) = sum_list (map worker_load ws) + worker_load w"
proof -
  have eq: "ws = take i ws @ ws ! i # drop (Suc i) ws"
    using assms by (rule id_take_nth_drop)
  have "ws[i := w] = take i ws @ w # drop (Suc i) ws"
    using assms by (rule upd_conv_take_nth_drop)
  then show ?thesis by (subst (3) eq) simp
qed

lemma pool_step_load:
  assumes "pool_step opts perform s s'"
  shows "pool_load s' < pool_load s"
  using assms
proof cases
  case (Take i j q)
  then show ?thesis using load_update[OF Take(2), of "if is_break j then Exited else Holding j"]
    by (simp add: pool_load_def worker_load_def split: if_splits)
next
  case (Interrupted i j)
  then show ?thesis using load_update[OF Interrupted(2), of Waiting] by (simp add: pool_load_def worker_load_def)
next
  case (Skip i j)
  then show ?thesis using load_update[OF Skip(2), of Waiting] by (simp add: pool_load_def worker_load_def)
next
  case (Launch i j)
  then show ?thesis using load_update[OF Launch(2), of "Running j"] by (simp add: pool_load_def worker_load_def)
next
  case (Finish i j j' lines)
  then show ?thesis using load_update[OF Finish(2), of Waiting] by (simp add: pool_load_def worker_load_def)
next
  case (Die i j e)
  then show ?thesis using load_update[OF Die(2), of Exited] by (simp add: pool_load_def worker_load_def)
qed (simp_all add: pool_load_def)

context worker_pool
begin

text \<open>The result of a job when nothing interrupts it.\<close>

definition settle :: "job \<Rightarrow> job" where
  "settle j = (if is_skip j then j else case perform j of Inr (j', lines) \<Rightarrow> j' | Inl e \<Rightarrow> j)"

definition settled :: "pool \<Rightarrow> job multiset" where
  "settled s = image_mset settle
     (mset (filter (\<lambda>j. \<not> is_break j) (to_put s)) + mset (filter (\<lambda>j. \<not> is_break j) (input_queue s)) +
      mset (in_hand s)) + mset (output_queue s) + mset (collected s)"

lemma update_settled:
  assumes "i < length (workers s)" "workers s ! i = w0"
  shows "image_mset settle (mset (concat (map held_by ((workers s)[i := w])))) + image_mset settle (mset (held_by w0)) =
         image_mset settle (mset (in_hand s)) + image_mset settle (mset (held_by w))"
  using arg_cong[OF mset_in_hand_update[OF assms(1), of w], of "image_mset settle"] assms(2) by simp

text \<open>A running job is not one to skip.\<close>

definition runs_proper :: "pool \<Rightarrow> bool" where
  "runs_proper s \<longleftrightarrow> (\<forall>j. Running j \<in> set (workers s) \<longrightarrow> \<not> is_skip j)"

lemma step_runs_proper:
  assumes "pool_step opts perform s s'" "runs_proper s"
  shows "runs_proper s'"
  using assms by cases (auto simp: runs_proper_def dest!: set_update_subset_insert[THEN subsetD] split: if_splits)

lemma step_settled:
  assumes "pool_step opts perform s s'" "runs_proper s" "\<not> thread_exit s'"
  shows "settled s' = settled s \<and> \<not> thread_exit s"
  using assms
proof cases
  case (Take i j q)
  then show ?thesis using update_settled[OF Take(2,3), of "if is_break j then Exited else Holding j"] assms(3)
    by (auto simp: settled_def in_hand_def held_by_def ac_simps)
next
  case (Skip i j)
  then show ?thesis using update_settled[OF Skip(2,3), of Waiting]
    by (simp add: settled_def in_hand_def held_by_def settle_def[of j] ac_simps)
next
  case (Launch i j)
  then show ?thesis using update_settled[OF Launch(2,3), of "Running j"]
    by (simp add: settled_def in_hand_def held_by_def ac_simps)
next
  case (Finish i j j' lines)
  have "\<not> is_skip j" using assms(2) Finish(2,3) by (metis runs_proper_def nth_mem)
  then have "settle j = j'" using Finish(4) by (simp add: settle_def)
  then show ?thesis using update_settled[OF Finish(2,3), of Waiting] Finish assms(3)
    by (simp add: settled_def in_hand_def held_by_def ac_simps)
qed (auto simp: settled_def in_hand_def returns)

text \<open>Where each job is from, interrupted or not.\<close>

definition from_jobs :: "job set \<Rightarrow> pool \<Rightarrow> bool" where
  "from_jobs J s \<longleftrightarrow>
     (\<forall>j \<in> set (to_put s) \<union> set (input_queue s). is_break j \<or> j \<in> J) \<and>
     (\<forall>j. Holding j \<in> set (workers s) \<or> Running j \<in> set (workers s) \<longrightarrow> j \<in> J) \<and>
     (\<forall>j \<in> set (output_queue s) \<union> set (collected s). is_break j \<or> j \<in> settle ` J)"

lemma step_from_jobs:
  assumes "pool_step opts perform s s'" "runs_proper s" "from_jobs J s"
  shows "from_jobs J s'"
  using assms(1)
proof cases
  case (Take i j q)
  then show ?thesis using assms(3)
    by (auto simp: from_jobs_def dest!: set_update_subset_insert[THEN subsetD] split: if_splits)
next
  case (Interrupted i j)
  then show ?thesis using assms(3)
    by (auto simp: from_jobs_def dest!: set_update_subset_insert[THEN subsetD])
next
  case (Skip i j)
  then have "j \<in> J" using assms(3) by (metis from_jobs_def nth_mem)
  then have "j \<in> settle ` J" using Skip(5) by (force simp: settle_def)
  then show ?thesis using Skip(1) assms(3)
    by (auto simp: from_jobs_def dest!: set_update_subset_insert[THEN subsetD])
next
  case (Launch i j)
  then have "j \<in> J" using assms(3) by (metis from_jobs_def nth_mem)
  then show ?thesis using Launch(1) assms(3)
    by (auto simp: from_jobs_def dest!: set_update_subset_insert[THEN subsetD])
next
  case (Finish i j j' lines)
  have "j \<in> J" using Finish(2,3) assms(3) by (metis from_jobs_def nth_mem)
  moreover have "\<not> is_skip j" using assms(2) Finish(2,3) by (metis runs_proper_def nth_mem)
  ultimately have "j' \<in> settle ` J" using Finish(4) by (force simp: settle_def)
  then show ?thesis using Finish(1) assms(3)
    by (auto simp: from_jobs_def dest!: set_update_subset_insert[THEN subsetD])
qed (use assms(3) in \<open>auto simp: from_jobs_def returns\<close>)

lemma step_workers: "pool_step opts perform s s' \<Longrightarrow> length (workers s') = length (workers s)"
  by (cases rule: pool_step.cases) auto

text \<open>The facts about every state of a run that starts with \<open>jobs\<close>.\<close>

lemma spin_up_facts:
  assumes "\<And>j. j \<in> set jobs \<Longrightarrow> \<not> is_break j"
  shows "tickets (spin_up n jobs) = image_mset ticket (mset jobs)" "balanced (spin_up n jobs)"
    "runs_proper (spin_up n jobs)" "from_jobs (set jobs) (spin_up n jobs)"
    "settled (spin_up n jobs) = image_mset settle (mset jobs)"
proof -
  have f: "filter (\<lambda>j. \<not> is_break j) (jobs @ replicate n break_job) = jobs"
    using assms by (auto simp: filter_empty_conv break_job_def)
  have h: "in_hand (spin_up n jobs) = []"
    by (simp add: in_hand_def spin_up_def held_by_def)
  have a: "active (replicate n Waiting) = n" by (simp add: active_def)
  show "tickets (spin_up n jobs) = image_mset ticket (mset jobs)"
    using f h by (simp add: tickets_def spin_up_def)
  show "settled (spin_up n jobs) = image_mset settle (mset jobs)"
    using f h by (simp add: settled_def spin_up_def)
  show "balanced (spin_up n jobs)"
    using h a assms unfolding balanced_def spin_up_def
    by (intro exI[of _ jobs] exI[of _ n]) simp
  show "runs_proper (spin_up n jobs)" by (simp add: runs_proper_def spin_up_def)
  show "from_jobs (set jobs) (spin_up n jobs)" by (auto simp: from_jobs_def spin_up_def break_job_def)
qed

lemma reach_facts:
  assumes "pool_reach opts perform (spin_up n jobs) s" "\<And>j. j \<in> set jobs \<Longrightarrow> \<not> is_break j"
  shows "tickets s = image_mset ticket (mset jobs) \<and> balanced s \<and> runs_proper s \<and> from_jobs (set jobs) s \<and>
    length (workers s) = n \<and> (\<not> thread_exit s \<longrightarrow> settled s = image_mset settle (mset jobs))"
  using assms(1)
proof induction
  case Start
  show ?case using spin_up_facts[OF assms(2), of jobs n] by (simp add: spin_up_def)
next
  case (Step s s')
  then show ?case
    using step_tickets step_balanced step_runs_proper step_from_jobs step_workers step_settled by metis
qed

lemma joined_empty:
  assumes "balanced s" "all_joined s" "workers s \<noteq> []"
  shows "input_queue s = []" "in_hand s = []" "output_queue s = []" "to_put s = []"
  using assms none_active[of "workers s"] by (auto simp: balanced_def all_joined_def)

lemma joined_results:
  assumes "pool_reach opts perform (spin_up n jobs) s" "\<And>j. j \<in> set jobs \<Longrightarrow> \<not> is_break j" "0 < n" "all_joined s"
  shows "image_mset ticket (mset (collected s)) = image_mset ticket (mset jobs)"
    "\<forall>j \<in> set (collected s). is_break j \<or> j \<in> settle ` set jobs"
    "\<not> thread_exit s \<longrightarrow> mset (collected s) = image_mset settle (mset jobs)"
proof -
  note facts = reach_facts[OF assms(1,2)]
  have "workers s \<noteq> []" using facts assms(3) by auto
  note empty = joined_empty[OF _ assms(4) this]
  show "image_mset ticket (mset (collected s)) = image_mset ticket (mset jobs)"
    using facts empty by (simp add: tickets_def)
  show "\<forall>j \<in> set (collected s). is_break j \<or> j \<in> settle ` set jobs"
    using facts by (auto simp: from_jobs_def)
  show "\<not> thread_exit s \<longrightarrow> mset (collected s) = image_mset settle (mset jobs)"
    using facts empty by (simp add: settled_def)
qed

lemma never_stuck:
  assumes "pool_reach opts perform (spin_up n jobs) s" "\<And>j. j \<in> set jobs \<Longrightarrow> \<not> is_break j" "0 < n" "\<not> all_joined s"
  shows "\<exists>s'. pool_step opts perform s s' \<and> thread_exit s' = thread_exit s \<and> pool_load s' < pool_load s"
proof -
  note facts = reach_facts[OF assms(1,2)]
  then have "workers s \<noteq> []" using assms(3) by auto
  with progress[of s] facts assms(4) pool_step_load show ?thesis by meson
qed

lemma completes:
  assumes "pool_reach opts perform (spin_up n jobs) s" "\<And>j. j \<in> set jobs \<Longrightarrow> \<not> is_break j" "0 < n"
  shows "\<exists>s'. pool_reach opts perform s s' \<and> all_joined s' \<and> thread_exit s' = thread_exit s"
  using assms(1)
proof (induction "pool_load s" arbitrary: s rule: less_induct)
  case less
  show ?case
  proof (cases "all_joined s")
    case True
    then show ?thesis using pool_reach.Start by blast
  next
    case False
    from never_stuck[OF less(2) assms(2,3) False] obtain s' where s': "pool_step opts perform s s'"
      "thread_exit s' = thread_exit s" "pool_load s' < pool_load s" by blast
    from less(1)[OF s'(3) pool_reach.Step[OF less(2) s'(1)]] obtain s'' where
      s'': "pool_reach opts perform s' s''" "all_joined s''" "thread_exit s'' = thread_exit s" using s'(2) by auto
    from s''(1) have "pool_reach opts perform s s''"
      by induction (auto intro: pool_reach.intros s'(1))
    then show ?thesis using s'' by blast
  qed
qed

end

subsection \<open>The pool on the driver's own jobs\<close>

text \<open>With a Python interpreter configured, performing a job returns.\<close>

lemma perform_job_keeps:
  "perform_job opts execute g j = Inr (j', lines) \<Longrightarrow> ticket j' = ticket j \<and> is_break j' = is_break j"
  by (auto simp: perform_job_def ticket_def bind_res_eq_Inr split: if_splits prod.splits)

lemma perform_job_returns: "PYTHON g \<noteq> [] \<Longrightarrow> perform_job opts execute g j \<noteq> Inl e"
  using run_job_raises_iff[of opts execute g]
  by (auto simp: perform_job_def bind_res_eq_Inl split: if_splits prod.splits)

interpretation driver: worker_pool "perform_job opts execute (g\<lparr>PYTHON := python # others\<rparr>)"
  for opts execute g python others
  by unfold_locales (auto dest: perform_job_keeps simp: perform_job_returns)

lemma python_given: "PYTHON g \<noteq> [] \<Longrightarrow> \<exists>python others. g = g\<lparr>PYTHON := python # others\<rparr>"
  by (cases g) (auto simp: neq_Nil_conv)

text \<open>
  C2: With an interpreter configured and at least one worker, every reachable state of the main
  thread and its workers that is not past the last join has a step other than an interrupt, and
  the step brings the remaining work down.
\<close>

theorem pool_never_deadlocks:
  assumes "PYTHON g \<noteq> []" "0 < processors" "\<forall>j \<in> set jobs. \<not> is_break j"
    and "pool_reach opts (perform_job opts execute g) (spin_up processors jobs) s" "\<not> all_joined s"
  shows "\<exists>s'. pool_step opts (perform_job opts execute g) s s' \<and> thread_exit s' = thread_exit s \<and>
           pool_load s' < pool_load s"
proof -
  from python_given[OF assms(1)] obtain python others where g: "g = g\<lparr>PYTHON := python # others\<rparr>" by blast
  then have reach: "pool_reach opts (perform_job opts execute (g\<lparr>PYTHON := python # others\<rparr>)) (spin_up processors jobs) s"
    and nb: "\<And>j. j \<in> set jobs \<Longrightarrow> \<not> is_break j"
    using assms(3,4) by simp_all
  from driver.never_stuck[OF reach nb assms(2,5)] g show ?thesis by simp
qed

theorem pool_never_deadlocks_witness:
  "\<exists>s'. pool_step default_options
          (perform_job default_options (\<lambda>cmd dir. (0, [], [], 1)) (default_globals\<lparr>PYTHON := [''python'']\<rparr>))
          (spin_up 2 [new_job]) s' \<and>
     thread_exit s' = thread_exit (spin_up 2 [new_job]) \<and> pool_load s' < pool_load (spin_up 2 [new_job])"
  by (rule pool_never_deadlocks[where processors = 2 and jobs = "[new_job]"])
    (simp_all add: new_job_def all_joined_def spin_up_def pool_reach.Start)

text \<open>The result a job has when it is not interrupted.\<close>

definition job_result :: "options \<Rightarrow> (string \<Rightarrow> string \<Rightarrow> outcome) \<Rightarrow> globals \<Rightarrow> job \<Rightarrow> job" where
  "job_result opts execute g j =
     (if is_skip j then j else case perform_job opts execute g j of Inr (j', lines) \<Rightarrow> j' | Inl e \<Rightarrow> j)"

lemma driver_settle:
  "worker_pool.settle (perform_job opts execute (g\<lparr>PYTHON := python # others\<rparr>)) =
   job_result opts execute (g\<lparr>PYTHON := python # others\<rparr>)"
  by (rule ext) (simp add: driver.settle_def job_result_def)

lemma pool_facts:
  assumes "PYTHON g \<noteq> []" "0 < processors" "\<forall>j \<in> set jobs. \<not> is_break j"
    and "pool_reach opts (perform_job opts execute g) (spin_up processors jobs) s" "all_joined s"
  shows "image_mset ticket (mset (collected s)) = image_mset ticket (mset jobs) \<and>
    (\<forall>j \<in> set (collected s). is_break j \<or> j \<in> job_result opts execute g ` set jobs) \<and>
    (\<not> thread_exit s \<longrightarrow> mset (collected s) = image_mset (job_result opts execute g) (mset jobs))"
proof -
  from python_given[OF assms(1)] obtain python others where g: "g = g\<lparr>PYTHON := python # others\<rparr>" by blast
  then have reach: "pool_reach opts (perform_job opts execute (g\<lparr>PYTHON := python # others\<rparr>)) (spin_up processors jobs) s"
    and nb: "\<And>j. j \<in> set jobs \<Longrightarrow> \<not> is_break j"
    using assms(3,4) by simp_all
  from driver.joined_results[OF reach nb assms(2,5)] show ?thesis
    unfolding driver_settle by (simp add: g[symmetric])
qed

text \<open>
  C5: When the workers are joined, the results collected are those of the dispatched jobs, each
  once: an interrupted job comes back marked as a break, any other one with the result of
  running it or, if skipped, unchanged.
\<close>

theorem pool_results:
  assumes "PYTHON g \<noteq> []" "0 < processors" "\<forall>j \<in> set jobs. \<not> is_break j"
    and "pool_reach opts (perform_job opts execute g) (spin_up processors jobs) s" "all_joined s"
  shows "image_mset ticket (mset (collected s)) = image_mset ticket (mset jobs) \<and>
    (\<forall>j \<in> set (collected s). is_break j \<or> j \<in> job_result opts execute g ` set jobs) \<and>
    (\<not> thread_exit s \<longrightarrow> mset (collected s) = image_mset (job_result opts execute g) (mset jobs))"
  by (rule pool_facts[OF assms])

theorem pool_completes:
  assumes "PYTHON g \<noteq> []" "0 < processors" "\<forall>j \<in> set jobs. \<not> is_break j"
    and "pool_reach opts (perform_job opts execute g) (spin_up processors jobs) s"
  shows "\<exists>s'. pool_reach opts (perform_job opts execute g) s s' \<and> all_joined s' \<and> thread_exit s' = thread_exit s"
proof -
  from python_given[OF assms(1)] obtain python others where g: "g = g\<lparr>PYTHON := python # others\<rparr>" by blast
  then have reach: "pool_reach opts (perform_job opts execute (g\<lparr>PYTHON := python # others\<rparr>)) (spin_up processors jobs) s"
    and nb: "\<And>j. j \<in> set jobs \<Longrightarrow> \<not> is_break j"
    using assms(3,4) by simp_all
  from driver.completes[OF reach nb assms(2)] g show ?thesis by simp
qed

theorem pool_completes_witness:
  "\<exists>s'. pool_reach default_options
          (perform_job default_options (\<lambda>cmd dir. (0, [], [], 1)) (default_globals\<lparr>PYTHON := [''python'']\<rparr>))
          (spin_up 2 [new_job]) s' \<and> all_joined s' \<and> thread_exit s' = thread_exit (spin_up 2 [new_job])"
  by (rule pool_completes[where processors = 2 and jobs = "[new_job]"])
    (simp_all add: new_job_def pool_reach.Start)

theorem pool_results_witness:
  "\<exists>s. all_joined s \<and>
     (image_mset ticket (mset (collected s)) = image_mset ticket (mset [new_job, new_job\<lparr>is_skip := True\<rparr>]) \<and>
      (\<forall>j \<in> set (collected s). is_break j \<or>
         j \<in> job_result default_options (\<lambda>cmd dir. (0, [], [], 1)) (default_globals\<lparr>PYTHON := [''python'']\<rparr>) `
              set [new_job, new_job\<lparr>is_skip := True\<rparr>]) \<and>
      (\<not> thread_exit s \<longrightarrow> mset (collected s) =
         image_mset (job_result default_options (\<lambda>cmd dir. (0, [], [], 1)) (default_globals\<lparr>PYTHON := [''python'']\<rparr>))
           (mset [new_job, new_job\<lparr>is_skip := True\<rparr>])))"
proof -
  let ?perform = "perform_job default_options (\<lambda>cmd dir. (0, [], [], 1)) (default_globals\<lparr>PYTHON := [''python'']\<rparr>)"
  let ?jobs = "[new_job, new_job\<lparr>is_skip := True\<rparr>]"
  have nb: "\<And>j. j \<in> set ?jobs \<Longrightarrow> \<not> is_break j" by (auto simp: new_job_def)
  have "pool_reach default_options ?perform (spin_up 1 ?jobs) (spin_up 1 ?jobs)" by (rule pool_reach.Start)
  from driver.completes[OF this nb] obtain s where
    s: "pool_reach default_options ?perform (spin_up 1 ?jobs) s" "all_joined s" by auto
  have "image_mset ticket (mset (collected s)) = image_mset ticket (mset ?jobs) \<and>
      (\<forall>j \<in> set (collected s). is_break j \<or>
         j \<in> job_result default_options (\<lambda>cmd dir. (0, [], [], 1)) (default_globals\<lparr>PYTHON := [''python'']\<rparr>) ` set ?jobs) \<and>
      (\<not> thread_exit s \<longrightarrow> mset (collected s) =
         image_mset (job_result default_options (\<lambda>cmd dir. (0, [], [], 1)) (default_globals\<lparr>PYTHON := [''python'']\<rparr>))
           (mset ?jobs))"
    by (rule pool_results[OF _ _ _ s]) (simp_all add: new_job_def)
  with s(2) show ?thesis by blast
qed

text \<open>
  Without an interpreter a Python example that is not skipped raises in its worker: the thread ends
  without a result, and the main thread waits for ever.
\<close>

definition doomed :: "job \<Rightarrow> bool" where
  "doomed j \<longleftrightarrow> is_pyexample j \<and> \<not> is_skip j"

lemma doomed_raises: "PYTHON g = [] \<Longrightarrow> is_pyexample j \<Longrightarrow> perform_job opts execute g j = Inl IndexError"
  by (simp add: perform_job_def run_job_synchronously_def job_command_def)

text \<open>How many results there are and may still come while nothing is interrupted.\<close>

definition hopeful :: "pool \<Rightarrow> nat" where
  "hopeful s = length (filter (\<lambda>j. \<not> is_break j \<and> \<not> doomed j) (to_put s)) +
     length (filter (\<lambda>j. \<not> is_break j \<and> \<not> doomed j) (input_queue s)) +
     size (filter_mset (\<lambda>j. \<not> doomed j) (mset (in_hand s))) + length (output_queue s) + length (collected s)"

lemma hopeful_update:
  assumes "i < length (workers s)" "workers s ! i = w0"
  shows "size (filter_mset (\<lambda>j. \<not> doomed j) (mset (concat (map held_by ((workers s)[i := w]))))) +
      size (filter_mset (\<lambda>j. \<not> doomed j) (mset (held_by w0))) =
    size (filter_mset (\<lambda>j. \<not> doomed j) (mset (in_hand s))) + size (filter_mset (\<lambda>j. \<not> doomed j) (mset (held_by w)))"
  using arg_cong[OF mset_in_hand_update[OF assms(1), of w], of "\<lambda>m. size (filter_mset (\<lambda>j. \<not> doomed j) m)"] assms(2) by simp

lemma step_hopeful:
  assumes "pool_step opts (perform_job opts execute g) s s'" "PYTHON g = []" "\<not> thread_exit s'"
  shows "hopeful s' \<le> hopeful s \<and> to_get s' + length (collected s') = to_get s + length (collected s) \<and> \<not> thread_exit s"
  using assms(1)
proof cases
  case (Take i j q)
  then show ?thesis using assms(3) hopeful_update[OF Take(2,3), of "if is_break j then Exited else Holding j"]
    by (auto simp: hopeful_def in_hand_def held_by_def simp del: filter_mset_eq_conv split: if_splits)
next
  case (Skip i j)
  then show ?thesis using hopeful_update[OF Skip(2,3), of Waiting] by (simp add: hopeful_def in_hand_def held_by_def doomed_def)
next
  case (Launch i j)
  then show ?thesis using hopeful_update[OF Launch(2,3), of "Running j"] by (simp add: hopeful_def in_hand_def held_by_def)
next
  case (Finish i j j' lines)
  have "\<not> doomed j" using Finish(4) doomed_raises[OF assms(2)] by (auto simp: doomed_def)
  then show ?thesis using Finish assms(3) hopeful_update[OF Finish(2,3), of Waiting] by (simp add: hopeful_def in_hand_def held_by_def)
next
  case (Die i j e)
  then show ?thesis using assms(3) hopeful_update[OF Die(2,3), of Exited] by (simp add: hopeful_def in_hand_def held_by_def split: if_splits)
qed (use assms(3) in \<open>auto simp: hopeful_def in_hand_def\<close>)

lemma reach_hopeful:
  assumes "pool_reach opts (perform_job opts execute g) s0 s" "PYTHON g = []" "\<not> thread_exit s"
  shows "hopeful s \<le> hopeful s0 \<and> to_get s + length (collected s) = to_get s0 + length (collected s0)"
  using assms(1,3)
proof induction
  case (Step s s')
  then show ?case using step_hopeful[OF Step(2) assms(2) Step(4)] by fastforce
qed simp

text \<open>Without an interrupt a run goes on until only an interrupt is left.\<close>

lemma run_until_quiet:
  assumes "\<not> thread_exit s"
  shows "\<exists>s'. pool_reach opts perform s s' \<and> \<not> thread_exit s' \<and> (\<forall>s''. pool_step opts perform s' s'' \<longrightarrow> s'' = s'\<lparr>thread_exit := True\<rparr>)"
  using assms
proof (induction "pool_load s" arbitrary: s rule: less_induct)
  case less
  show ?case
  proof (cases "\<exists>s'. pool_step opts perform s s' \<and> \<not> thread_exit s'")
    case True
    then obtain s' where s': "pool_step opts perform s s'" "\<not> thread_exit s'" by blast
    from less(1)[OF pool_step_load[OF s'(1)] s'(2)] obtain s'' where
      s'': "pool_reach opts perform s' s''" "\<not> thread_exit s''" "\<forall>s3. pool_step opts perform s'' s3 \<longrightarrow> s3 = s''\<lparr>thread_exit := True\<rparr>"
      by blast
    from s''(1) have "pool_reach opts perform s s''"
      by induction (auto intro: pool_reach.intros s'(1))
    then show ?thesis using s''(2,3) by blast
  next
    case False
    have "s' = s\<lparr>thread_exit := True\<rparr>" if "pool_step opts perform s s'" for s'
    proof -
      have "thread_exit s'" using False that by blast
      with that less(2) show ?thesis by cases auto
    qed
    then show ?thesis using less(2) pool_reach.Start by blast
  qed
qed

text \<open>
  C19: Without a Python interpreter configured, a run whose jobs include a Python example that
  is not skipped is never past the last join until it is interrupted, whatever the other jobs
  and the number of workers; and from every state it reaches a state is reachable in which only
  an interrupt is possible.
\<close>

theorem python_example_hangs:
  assumes "PYTHON g = []" "j \<in> set jobs" "is_pyexample j" "\<not> is_skip j"
    and "pool_reach opts (perform_job opts execute g) (spin_up processors jobs) s" "\<not> thread_exit s"
  shows "\<not> all_joined s \<and>
    (\<exists>s'. pool_reach opts (perform_job opts execute g) s s' \<and> \<not> all_joined s' \<and>
       (\<forall>s''. pool_step opts (perform_job opts execute g) s' s'' \<longrightarrow> s'' = s'\<lparr>thread_exit := True\<rparr>))"
proof -
  let ?reach = "pool_reach opts (perform_job opts execute g)"
  have "length (filter (\<lambda>j. \<not> is_break j \<and> \<not> doomed j) jobs) < length jobs"
    using assms(2-4) by (intro length_filter_less[of j]) (simp_all add: doomed_def)
  then have start: "hopeful (spin_up processors jobs) < to_get (spin_up processors jobs) + length (collected (spin_up processors jobs))"
    by (simp add: hopeful_def spin_up_def in_hand_def held_by_def break_job_def)
  have waits: "\<not> all_joined t" if "?reach (spin_up processors jobs) t" "\<not> thread_exit t" for t
    using reach_hopeful[OF that(1) assms(1) that(2)] start by (auto simp: all_joined_def hopeful_def)
  obtain s' where s': "?reach s s'" "\<not> thread_exit s'"
    "\<forall>s''. pool_step opts (perform_job opts execute g) s' s'' \<longrightarrow> s'' = s'\<lparr>thread_exit := True\<rparr>"
    using run_until_quiet[OF assms(6)] by blast
  from s'(1) have "?reach (spin_up processors jobs) s'"
    by induction (auto intro: pool_reach.intros assms(5))
  with waits s' assms(5,6) show ?thesis by blast
qed

theorem python_example_hangs_witness:
  "\<not> all_joined (spin_up 2 [new_job, new_job\<lparr>is_pyexample := True\<rparr>]) \<and>
   (\<exists>s'. pool_reach default_options (perform_job default_options (\<lambda>cmd dir. (0, [], [], 1)) default_globals)
          (spin_up 2 [new_job, new_job\<lparr>is_pyexample := True\<rparr>]) s' \<and> \<not> all_joined s' \<and>
      (\<forall>s''. pool_step default_options (perform_job default_options (\<lambda>cmd dir. (0, [], [], 1)) default_globals) s' s'' \<longrightarrow>
         s'' = s'\<lparr>thread_exit := True\<rparr>))"
  by (rule python_example_hangs[where j = "new_job\<lparr>is_pyexample := True\<rparr>" and processors = 2 and
        jobs = "[new_job, new_job\<lparr>is_pyexample := True\<rparr>]", OF _ _ _ _ pool_reach.Start])
    (simp_all add: default_globals_def new_job_def spin_up_def)

end
