(* ===== verification/Test_Results.thy ===== *)
theory Test_Results
  imports Test_Workers
begin

section \<open>Collecting results (\<open>test.py\<close>)\<close>

text \<open>
  What the main thread of \<^verbatim>\<open>test.py\<close> does with the jobs it takes from the output queue:
  the status of each, the counters, the line it prints and the text it appends to the results
  file.  A time is an exact rational, printed with three digits after the point.
\<close>

subsection \<open>Printing a time\<close>

definition round_half_even :: "rat \<Rightarrow> nat" where
  "round_half_even r =
     (let n = nat \<lfloor>r\<rfloor>; d = r - of_nat n
      in if d < 1 / 2 then n else if 1 / 2 < d then n + 1 else if even n then n else n + 1)"

definition pad3 :: "nat \<Rightarrow> string" where
  "pad3 n = (let s = show_nat n in replicate (3 - length s) (CHR ''0'') @ s)"

text \<open>\<open>'%.3f' % r\<close>\<close>

definition show_seconds :: "rat \<Rightarrow> string" where
  "show_seconds r =
     (let n = round_half_even (\<bar>r\<bar> * 1000)
      in (if r < 0 then ''-'' else []) @ show_nat (n div 1000) @ ''.'' @ pad3 (n mod 1000))"

subsection \<open>One job\<close>

datatype status = PASS | FAIL | VALGR | SKIP | CRASH

definition show_status :: "status \<Rightarrow> string" where
  "show_status st =
     (case st of PASS \<Rightarrow> ''PASS'' | FAIL \<Rightarrow> ''FAIL'' | VALGR \<Rightarrow> ''VALGR'' | SKIP \<Rightarrow> ''SKIP'' | CRASH \<Rightarrow> ''CRASH'')"

definition job_status :: "job \<Rightarrow> status" where
  "job_status j =
     (if is_skip j then SKIP
      else if returncode j = 0 then PASS
      else if returncode j = 1 then FAIL
      else if returncode j = 2 then VALGR
      else CRASH)"

definition is_any_example :: "job \<Rightarrow> bool" where
  "is_any_example j \<longleftrightarrow> is_example j \<or> is_pyexample j"

definition status_line :: "options \<Rightarrow> job \<Rightarrow> string" where
  "status_line opts j =
     (let kind = (if is_any_example j then ''Example'' else ''TestSuite'')
      in if o_duration opts \<or> o_constrain opts = ''performance''
         then show_status (job_status j) @ '' ('' @ show_seconds (elapsed_time j) @ ''): '' @ kind @ '' '' @ display_name j
         else show_status (job_status j) @ '': '' @ kind @ '' '' @ display_name j)"

definition example_entry :: "job \<Rightarrow> string" where
  "example_entry j =
     ln ''<Example>'' @
     ln (''  <Name>'' @ display_name j @ ''</Name>'') @
     ln (''  <Result>'' @ show_status (job_status j) @ ''</Result>'') @
     ln (''  <Time real=\"'' @ show_seconds (elapsed_time j) @ ''\"/>'') @
     ln ''</Example>''"

text \<open>An entry made up for a suite; \<open>close_tag\<close> is the tag that ends its result.\<close>

definition suite_entry :: "string \<Rightarrow> string \<Rightarrow> string \<Rightarrow> string" where
  "suite_entry name result close_tag =
     ln ''<Test>'' @
     ln (''  <Name>'' @ name @ ''</Name>'') @
     ln (''  <Result>'' @ result @ ''</'' @ close_tag @ ''>'') @
     ln ''</Test>''"

text \<open>
  The entry of a suite.  The crash entry closes its result with \<open></Suite>\<close>; the entry for a
  valgrind error stands under the test that the code is none of 0, 1 and 2.
\<close>

definition suite_result :: "file_system \<Rightarrow> job \<Rightarrow> string res" where
  "suite_result files j =
     (if is_skip j then Inr (suite_entry (display_name j) ''SKIP'' ''Result'')
      else if returncode j = 0 \<or> returncode j = 1 \<or> returncode j = 2
      then (case files (tmp_file_name j) of None \<Rightarrow> Inl IOError | Some xml \<Rightarrow> Inr xml)
      else Inr (suite_entry (display_name j) ''CRASH'' ''Suite'' @
                (if returncode j = 2 then suite_entry (display_name j) ''VALGR'' ''Result'' else [])))"

subsection \<open>All jobs\<close>

record tally =
  passed_tests :: nat
  failed_tests :: nat
  crashed_tests :: nat
  valgrind_errors :: nat
  skipped_tests :: nat
  printed :: "string list"
  results_file :: string

definition start_tally :: tally where
  "start_tally =
     \<lparr>passed_tests = 0, failed_tests = 0, crashed_tests = 0, valgrind_errors = 0, skipped_tests = 0,
      printed = [], results_file = ln ''<?xml version=\"1.0\"?>'' @ ln ''<Results>''\<rparr>"

definition count_job :: "job \<Rightarrow> tally \<Rightarrow> tally" where
  "count_job j t =
     (case job_status j of
        SKIP \<Rightarrow> t\<lparr>skipped_tests := skipped_tests t + 1\<rparr>
      | PASS \<Rightarrow> t\<lparr>passed_tests := passed_tests t + 1\<rparr>
      | FAIL \<Rightarrow> t\<lparr>failed_tests := failed_tests t + 1\<rparr>
      | VALGR \<Rightarrow> t\<lparr>valgrind_errors := valgrind_errors t + 1\<rparr>
      | CRASH \<Rightarrow> t\<lparr>crashed_tests := crashed_tests t + 1\<rparr>)"

definition collect_job :: "options \<Rightarrow> file_system \<Rightarrow> tally \<Rightarrow> job \<Rightarrow> tally res" where
  "collect_job opts files t j =
     (if is_break j then Inr t
      else let t' = count_job j t;
               t'' = t'\<lparr>printed := printed t' @ [status_line opts j]\<rparr>
           in map_value (\<lambda>xml. t''\<lparr>results_file := results_file t'' @ xml\<rparr>)
                (if is_any_example j then Inr (example_entry j) else suite_result files j))"

definition collect_jobs :: "options \<Rightarrow> file_system \<Rightarrow> job list \<Rightarrow> tally res" where
  "collect_jobs opts files js =
     map_value (\<lambda>t. t\<lparr>results_file := results_file t @ ln ''</Results>''\<rparr>)
       (fold_res (collect_job opts files) start_tally js)"

definition summary_line :: "tally \<Rightarrow> nat \<Rightarrow> string" where
  "summary_line t total_tests =
     show_nat (passed_tests t) @ '' of '' @ show_nat total_tests @ '' tests passed ('' @
     show_nat (passed_tests t) @ '' passed, '' @ show_nat (skipped_tests t) @ '' skipped, '' @
     show_nat (failed_tests t) @ '' failed, '' @ show_nat (crashed_tests t) @ '' crashed, '' @
     show_nat (valgrind_errors t) @ '' valgrind errors)''"

definition exit_status :: "tally \<Rightarrow> nat \<Rightarrow> int" where
  "exit_status t total_tests = (if passed_tests t + skipped_tests t = total_tests then 0 else 1)"

subsection \<open>Counters and the exit status\<close>

definition with_status :: "status \<Rightarrow> job list \<Rightarrow> nat" where
  "with_status st js = length (filter (\<lambda>j. \<not> is_break j \<and> job_status j = st) js)"

definition counters :: "tally \<Rightarrow> status \<Rightarrow> nat" where
  "counters t st =
     (case st of PASS \<Rightarrow> passed_tests t | FAIL \<Rightarrow> failed_tests t | VALGR \<Rightarrow> valgrind_errors t
      | SKIP \<Rightarrow> skipped_tests t | CRASH \<Rightarrow> crashed_tests t)"

lemma collect_job_counters:
  "collect_job opts files t j = Inr t' \<Longrightarrow>
   counters t' st = counters t st + (if \<not> is_break j \<and> job_status j = st then 1 else 0)"
  by (auto simp: collect_job_def Let_def map_value_eq_Inr count_job_def counters_def
      split: if_splits status.splits)

lemma collect_job_printed:
  "collect_job opts files t j = Inr t' \<Longrightarrow>
   printed t' = printed t @ (if is_break j then [] else [status_line opts j])"
  by (auto simp: collect_job_def Let_def map_value_eq_Inr count_job_def split: if_splits status.splits)

lemma fold_counters:
  "fold_res (collect_job opts files) t js = Inr t' \<Longrightarrow> counters t' st = counters t st + with_status st js"
proof (induction js arbitrary: t)
  case (Cons j js)
  then obtain t1 where "collect_job opts files t j = Inr t1" "fold_res (collect_job opts files) t1 js = Inr t'"
    by (auto simp: bind_res_eq_Inr)
  with collect_job_counters[OF this(1)] Cons.IH[OF this(2)] show ?case by (simp add: with_status_def)
qed (simp add: with_status_def)

lemma fold_printed:
  "fold_res (collect_job opts files) t js = Inr t' \<Longrightarrow>
   printed t' = printed t @ map (status_line opts) (filter (\<lambda>j. \<not> is_break j) js)"
proof (induction js arbitrary: t)
  case (Cons j js)
  then obtain t1 where "collect_job opts files t j = Inr t1" "fold_res (collect_job opts files) t1 js = Inr t'"
    by (auto simp: bind_res_eq_Inr)
  with collect_job_printed[OF this(1)] Cons.IH[OF this(2)] show ?case by simp
qed simp

lemma collect_counters:
  assumes "collect_jobs opts files js = Inr t"
  shows "counters t st = with_status st js" "printed t = map (status_line opts) (filter (\<lambda>j. \<not> is_break j) js)"
proof -
  obtain t' where t': "fold_res (collect_job opts files) start_tally js = Inr t'"
    "t = t'\<lparr>results_file := results_file t' @ ln ''</Results>''\<rparr>"
    using assms by (auto simp: collect_jobs_def map_value_eq_Inr)
  then have "counters t st = counters t' st" "printed t = printed t'" by (simp_all add: counters_def split: status.split)
  moreover have "counters start_tally st = 0" by (simp add: counters_def start_tally_def split: status.split)
  ultimately show "counters t st = with_status st js"
    "printed t = map (status_line opts) (filter (\<lambda>j. \<not> is_break j) js)"
    using fold_counters[OF t'(1), of st] fold_printed[OF t'(1)] by (simp_all add: start_tally_def)
qed

lemma with_status_sum:
  "(\<Sum>st \<in> {PASS, FAIL, VALGR, SKIP, CRASH}. with_status st js) + length (filter is_break js) = length js"
proof (induction js)
  case (Cons j js)
  then show ?case by (cases "is_break j"; cases "job_status j") (simp_all add: with_status_def)
qed (simp add: with_status_def)

lemma collect_facts:
  assumes "collect_jobs opts files js = Inr t"
  shows "passed_tests t + failed_tests t + crashed_tests t + valgrind_errors t + skipped_tests t +
           length (filter is_break js) = length js \<and>
         (exit_status t (length js) = 0 \<longleftrightarrow> (\<forall>j \<in> set js. \<not> is_break j \<and> job_status j \<in> {PASS, SKIP})) \<and>
         printed t = map (status_line opts) (filter (\<lambda>j. \<not> is_break j) js)"
proof -
  note c = collect_counters[OF assms]
  have sum: "with_status PASS js + with_status FAIL js + with_status CRASH js + with_status VALGR js +
      with_status SKIP js + length (filter is_break js) = length js"
    using with_status_sum[of js] by simp
  have five: "passed_tests t = with_status PASS js" "failed_tests t = with_status FAIL js"
    "crashed_tests t = with_status CRASH js" "valgrind_errors t = with_status VALGR js"
    "skipped_tests t = with_status SKIP js"
    using c(1)[of PASS] c(1)[of FAIL] c(1)[of CRASH] c(1)[of VALGR] c(1)[of SKIP] by (simp_all add: counters_def)
  have "exit_status t (length js) = 0 \<longleftrightarrow> with_status PASS js + with_status SKIP js = length js"
    by (simp add: exit_status_def five)
  also have "\<dots> \<longleftrightarrow>
      with_status FAIL js = 0 \<and> with_status CRASH js = 0 \<and> with_status VALGR js = 0 \<and> length (filter is_break js) = 0"
    using sum by linarith
  also have "\<dots> \<longleftrightarrow> (\<forall>j \<in> set js. \<not> is_break j \<and> job_status j \<in> {PASS, SKIP})"
    by (auto simp: with_status_def filter_empty_conv intro: status.exhaust)
  finally show ?thesis using sum five c(2) by simp
qed

text \<open>
  C16: The counters of the summary and the interrupted jobs add up to the jobs collected; the
  exit status is 0 exactly when every job passed or was skipped; one status line is printed for
  each job that was not interrupted.
\<close>

theorem collected_counters:
  assumes "collect_jobs opts files js = Inr t"
  shows "passed_tests t + failed_tests t + crashed_tests t + valgrind_errors t + skipped_tests t +
           length (filter is_break js) = length js \<and>
         (exit_status t (length js) = 0 \<longleftrightarrow> (\<forall>j \<in> set js. \<not> is_break j \<and> job_status j \<in> {PASS, SKIP})) \<and>
         printed t = map (status_line opts) (filter (\<lambda>j. \<not> is_break j) js)"
  by (rule collect_facts[OF assms])

theorem collected_counters_witness:
  "\<exists>t. collect_jobs default_options (\<lambda>path. None) [new_job\<lparr>is_example := True, returncode := 1\<rparr>, new_job\<lparr>is_skip := True\<rparr>] = Inr t \<and>
     passed_tests t + failed_tests t + crashed_tests t + valgrind_errors t + skipped_tests t +
       length (filter is_break [new_job\<lparr>is_example := True, returncode := 1\<rparr>, new_job\<lparr>is_skip := True\<rparr>]) = 2 \<and>
     exit_status t 2 = 1"
proof -
  obtain t where t: "collect_jobs default_options (\<lambda>path. None)
      [new_job\<lparr>is_example := True, returncode := 1\<rparr>, new_job\<lparr>is_skip := True\<rparr>] = Inr t"
    by (simp add: collect_jobs_def collect_job_def Let_def is_any_example_def suite_result_def new_job_def)
  have "exit_status t (length [new_job\<lparr>is_example := True, returncode := 1\<rparr>, new_job\<lparr>is_skip := True\<rparr>]) \<noteq> 0"
    using collected_counters[OF t] by (simp add: job_status_def new_job_def)
  with collected_counters[OF t] t show ?thesis by (auto simp: exit_status_def split: if_splits)
qed

text \<open>Results can only fail to be collected when a suite did not write its file.\<close>

lemma collect_job_raises:
  "collect_job opts files t j = Inl e \<longleftrightarrow>
   e = IOError \<and> \<not> is_break j \<and> \<not> is_any_example j \<and> \<not> is_skip j \<and> returncode j \<in> {0, 1, 2} \<and>
   files (tmp_file_name j) = None"
  by (auto simp: collect_job_def Let_def suite_result_def map_value_def bind_res_eq_Inl split: option.splits)

text \<open>No suite ever gets the entry for a valgrind error.\<close>

lemma valgrind_entry_unreachable:
  "suite_result files j =
   (if is_skip j then Inr (suite_entry (display_name j) ''SKIP'' ''Result'')
    else if returncode j \<in> {0, 1, 2}
    then (case files (tmp_file_name j) of None \<Rightarrow> Inl IOError | Some xml \<Rightarrow> Inr xml)
    else Inr (suite_entry (display_name j) ''CRASH'' ''Suite''))"
  by (simp add: suite_result_def)

end
