(* ===== verification/Test_Report.thy ===== *)
theory Test_Report
  imports Test_Results
begin

section \<open>The reports (\<open>test.py\<close>)\<close>

text \<open>
  The translation of the results file into a text and an HTML report.  The results file is
  read with \<open>xml.etree.ElementTree\<close>; \<open>parse_xml\<close> models what is used of it: elements,
  attributes, character data and the five predefined entities, without comments, CDATA
  sections or a document type.  Characters that XML does not allow (control characters, bytes that
  are not UTF-8) are not rejected.  Each report is the text that is written to the file.
\<close>

subsection \<open>XML documents\<close>

datatype xml = Element (xml_tag: string) (xml_attrs: "(string \<times> string) list") (xml_text: "string option")
  (xml_children: "xml list")

datatype xml_token =
    Open_tag string "(string \<times> string) list"
  | Empty_tag string "(string \<times> string) list"
  | Close_tag string
  | Chars string
  | Xml_decl
  | Bad_token

definition parse_error :: py_error where
  "parse_error = GenericException ''ParseError''"

function decode_entities :: "string \<Rightarrow> string option" where
  "decode_entities [] = Some []"
| "decode_entities (c # s) =
     (if c \<noteq> CHR ''&'' then map_option ((#) c) (decode_entities s)
      else if prefix ''lt;'' s then map_option ((#) (CHR ''<'')) (decode_entities (drop 3 s))
      else if prefix ''gt;'' s then map_option ((#) (CHR ''>'')) (decode_entities (drop 3 s))
      else if prefix ''amp;'' s then map_option ((#) (CHR ''&'')) (decode_entities (drop 4 s))
      else if prefix ''quot;'' s then map_option ((#) (CHR 0x22)) (decode_entities (drop 5 s))
      else if prefix ''apos;'' s then map_option ((#) (CHR 0x27)) (decode_entities (drop 5 s))
      else None)"
  by pat_completeness auto
termination by (relation "measure length") auto

function parse_attrs :: "string \<Rightarrow> (string \<times> string) list option" where
  "parse_attrs s =
     (case dropWhile is_space s of
        [] \<Rightarrow> Some []
      | c # r \<Rightarrow>
          (let name = takeWhile (\<lambda>x. x \<noteq> CHR ''='') (c # r) in
           case dropWhile (\<lambda>x. x \<noteq> CHR ''='') (c # r) of
             _ # q # r' \<Rightarrow>
               if name = [] \<or> list_ex is_space name \<or> q \<notin> {CHR 0x22, CHR 0x27} \<or> q \<notin> set r' then None
               else (case (decode_entities (takeWhile (\<lambda>x. x \<noteq> q) r'), parse_attrs (tl (dropWhile (\<lambda>x. x \<noteq> q) r'))) of
                       (Some v, Some rest) \<Rightarrow> if name \<in> fst ` set rest then None else Some ((name, v) # rest)
                     | _ \<Rightarrow> None)
           | _ \<Rightarrow> None))"
  by pat_completeness auto
termination
proof (relation "measure length")
  fix s c r name x xs q r'
  assume eqs: "dropWhile is_space s = c # r" "dropWhile (\<lambda>x. x \<noteq> CHR ''='') (c # r) = x # xs" "xs = q # r'"
  have "length (dropWhile (\<lambda>x. x \<noteq> q) r') \<le> length r'" by (rule length_dropWhile_le)
  moreover have "length (x # xs) \<le> length (c # r)" unfolding eqs(2)[symmetric] by (rule length_dropWhile_le)
  moreover have "length (c # r) \<le> length s" unfolding eqs(1)[symmetric] by (rule length_dropWhile_le)
  ultimately show "(tl (dropWhile (\<lambda>x. x \<noteq> q) r'), s) \<in> measure length" using eqs(3) by simp
qed simp

declare parse_attrs.simps [simp del]

definition tag_token :: "string \<Rightarrow> xml_token" where
  "tag_token t =
     (case t of
        [] \<Rightarrow> Bad_token
      | c # r \<Rightarrow>
          if c = CHR ''?'' then (if prefix ''xml '' r \<and> last r = CHR ''?'' then Xml_decl else Bad_token)
          else if c = CHR ''!'' then Bad_token
          else if c = CHR ''/'' then
            (let name = takeWhile (\<lambda>x. \<not> is_space x) r
             in if name \<noteq> [] \<and> list_all is_space (dropWhile (\<lambda>x. \<not> is_space x) r) then Close_tag name else Bad_token)
          else (let empty = (last t = CHR ''/'');
                    body = (if empty then butlast t else t);
                    name = takeWhile (\<lambda>x. \<not> is_space x) body
                in if name = [] then Bad_token
                   else case parse_attrs (dropWhile (\<lambda>x. \<not> is_space x) body) of
                          None \<Rightarrow> Bad_token
                        | Some attrs \<Rightarrow> if empty then Empty_tag name attrs else Open_tag name attrs))"

definition char_tokens :: "string \<Rightarrow> xml_token list" where
  "char_tokens s =
     (if s = [] then [] else case decode_entities s of None \<Rightarrow> [Bad_token] | Some d \<Rightarrow> [Chars d])"

definition markup_tokens :: "string \<Rightarrow> xml_token list" where
  "markup_tokens p =
     (case split_once (CHR ''>'') p of [tag, rest] \<Rightarrow> tag_token tag # char_tokens rest | _ \<Rightarrow> [Bad_token])"

definition lex_xml :: "string \<Rightarrow> xml_token list" where
  "lex_xml s =
     (case split_on (CHR ''<'') s of [] \<Rightarrow> [] | t # ps \<Rightarrow> char_tokens t @ concat (map markup_tokens ps))"

record frame =
  f_tag :: string
  f_attrs :: "(string \<times> string) list"
  f_text :: "string option"
  f_children :: "xml list"

definition add_element :: "xml \<Rightarrow> frame list \<times> xml option \<Rightarrow> (frame list \<times> xml option) res" where
  "add_element e st =
     (case st of
        ([], None) \<Rightarrow> Inr ([], Some e)
      | ([], Some doc) \<Rightarrow> Inl parse_error
      | (f # fs, doc) \<Rightarrow> Inr (f\<lparr>f_children := f_children f @ [e]\<rparr> # fs, doc))"

definition xml_step :: "frame list \<times> xml option \<Rightarrow> xml_token \<Rightarrow> (frame list \<times> xml option) res" where
  "xml_step st token =
     (case token of
        Bad_token \<Rightarrow> Inl parse_error
      | Xml_decl \<Rightarrow> Inl parse_error
      | Chars c \<Rightarrow>
          (case st of
             ([], doc) \<Rightarrow> if list_all is_space c then Inr st else Inl parse_error
           | (f # fs, doc) \<Rightarrow>
               if f_children f = []
               then Inr (f\<lparr>f_text := Some ((case f_text f of None \<Rightarrow> [] | Some t \<Rightarrow> t) @ c)\<rparr> # fs, doc) else Inr st)
      | Open_tag name attrs \<Rightarrow>
          if fst st = [] \<and> snd st \<noteq> None then Inl parse_error
          else Inr (\<lparr>f_tag = name, f_attrs = attrs, f_text = None, f_children = []\<rparr> # fst st, snd st)
      | Empty_tag name attrs \<Rightarrow> add_element (Element name attrs None []) st
      | Close_tag name \<Rightarrow>
          (case st of
             ([], doc) \<Rightarrow> Inl parse_error
           | (f # fs, doc) \<Rightarrow>
               if f_tag f \<noteq> name then Inl parse_error
               else add_element (Element name (f_attrs f) (f_text f) (f_children f)) (fs, doc)))"

definition parse_xml :: "string \<Rightarrow> xml res" where
  "parse_xml s =
     bind_res (fold_res xml_step ([], None) (case lex_xml s of Xml_decl # ts \<Rightarrow> ts | ts \<Rightarrow> ts))
       (\<lambda>st. case st of ([], Some doc) \<Rightarrow> Inr doc | _ \<Rightarrow> Inl parse_error)"

subsection \<open>Looking into a document\<close>

definition findall :: "xml \<Rightarrow> string \<Rightarrow> xml list" where
  "findall e tag = filter (\<lambda>c. xml_tag c = tag) (xml_children e)"

definition find_element :: "xml \<Rightarrow> string \<Rightarrow> xml option" where
  "find_element e tag = List.find (\<lambda>c. xml_tag c = tag) (xml_children e)"

text \<open>\<open>e.find(tag).text\<close>, as text: an attribute of \<open>None\<close> when the element is missing.\<close>

definition find_text :: "xml \<Rightarrow> string \<Rightarrow> string option res" where
  "find_text e tag = (case find_element e tag of None \<Rightarrow> Inl AttributeError | Some c \<Rightarrow> Inr (xml_text c))"

definition shown_text :: "xml \<Rightarrow> string \<Rightarrow> string res" where
  "shown_text e tag = map_value str_of_option (find_text e tag)"

definition read_test :: "xml \<Rightarrow> (string option \<times> string option \<times> string option) res" where
  "read_test test =
     bind_res (find_text test ''Result'') (\<lambda>result.
     bind_res (find_text test ''Name'') (\<lambda>name.
       Inr (result, name,
            case find_element test ''Time'' of None \<Rightarrow> Some [] | Some t \<Rightarrow> map_of (xml_attrs t) ''real'')))"

subsection \<open>The text report\<close>

definition quoted :: "string \<Rightarrow> string" where
  "quoted s = [CHR 0x22] @ s @ [CHR 0x22]"

definition report_line :: "string \<Rightarrow> string option \<times> string option \<times> string option \<Rightarrow> string" where
  "report_line kind r =
     (case r of (result, name, time_real) \<Rightarrow>
        ln (str_of_option result @ '': '' @ kind @ '' '' @ quoted (str_of_option name) @ '' ('' @
            str_of_option time_real @ '')''))"

definition detail_line :: "xml \<Rightarrow> string \<times> string \<Rightarrow> string res" where
  "detail_line details field =
     (case field of (label, tag) \<Rightarrow> map_value (\<lambda>t. ln (''      '' @ label @ t)) (shown_text details tag))"

definition failure_details :: "xml \<Rightarrow> string res" where
  "failure_details details =
     map_value (\<lambda>ls. ln ''    Details:'' @ concat ls)
       (traverse_res (detail_line details)
          [(''Message:   '', ''Message''), (''Condition: '', ''Condition''), (''Actual:    '', ''Actual''),
           (''Limit:     '', ''Limit''), (''File:      '', ''File''), (''Line:      '', ''Line'')])"

lemma findall_smaller [termination_simp]: "c \<in> set (findall e tag) \<Longrightarrow> size c < size e"
  by (cases e) (auto simp: findall_def dest!: size_list_estimation'[where f = size, OF _ order_refl])

fun node_to_text :: "xml \<Rightarrow> string res" where
  "node_to_text test =
     bind_res (read_test test) (\<lambda>r.
     bind_res (traverse_res failure_details (findall test ''FailureDetails'')) (\<lambda>details.
     map_value (\<lambda>children. report_line ''Test Suite'' r @ concat details @ concat children)
       (traverse_res (\<lambda>child. node_to_text child) (findall test ''Test''))))"

declare node_to_text.simps [simp del]

definition translate_to_text :: "xml \<Rightarrow> string res" where
  "translate_to_text et =
     bind_res (traverse_res node_to_text (findall et ''Test'')) (\<lambda>tests.
     map_value (\<lambda>examples. concat tests @ concat (map (report_line ''Example'') examples))
       (traverse_res read_test (findall et ''Example'')))"

subsection \<open>The HTML report\<close>

definition styled :: "string \<Rightarrow> string \<Rightarrow> string" where
  "styled tag color = ''<'' @ tag @ '' style='' @ quoted (''color:'' @ color) @ ''>''"

definition cell :: "string \<Rightarrow> string" where
  "cell s = ln (''<td>'' @ s @ ''</td>'')"

definition table_start :: string where
  "table_start = ln (''<table border='' @ quoted ''1'' @ ''>'')"

definition result_color :: "string option \<Rightarrow> string" where
  "result_color result =
     (if result = Some ''PASS'' then ''green'' else if result = Some ''SKIP'' then ''#ff6600'' else ''red'')"

definition suite_header :: "string option \<times> string option \<times> string option \<Rightarrow> string" where
  "suite_header r =
     (case r of (result, name, time) \<Rightarrow>
        ln (styled ''h3'' (result_color result) @ str_of_option result @ '': '' @ str_of_option name @
            '' ('' @ str_of_option time @ '')</h3>''))"

definition html_details_cell :: "xml \<Rightarrow> string res" where
  "html_details_cell details =
     map_value (\<lambda>fs. ''<td>'' @ concat fs @ ln ''</td>'')
       (traverse_res (\<lambda>(label, tag, sep). map_value (\<lambda>t. ''<b>'' @ label @ '': </b>'' @ t @ sep) (shown_text details tag))
          [(''Message'', ''Message'', '', ''), (''Condition'', ''Condition'', '', ''), (''Actual'', ''Actual'', '', ''),
           (''Limit'', ''Limit'', '', ''), (''File'', ''File'', '', ''), (''Line'', ''Line'', [])])"

text \<open>The rows of a failed case; each is ended with a second \<open></td>\<close>.\<close>

definition failed_row :: "string option \<times> string option \<times> string option \<Rightarrow> bool \<Rightarrow> xml \<Rightarrow> string res" where
  "failed_row r first_row details =
     (case r of (result, name, time) \<Rightarrow>
        map_value
          (\<lambda>cell_text.
             ln ''<tr>'' @
             (if first_row
              then ln (styled ''td'' ''red'' @ str_of_option result @ ''</td>'') @ cell (str_of_option name) @
                   cell (str_of_option time)
              else cell [] @ cell [] @ cell []) @
             cell_text @ ln ''</td>'')
          (html_details_cell details))"

definition failed_rows :: "string option \<times> string option \<times> string option \<Rightarrow> xml list \<Rightarrow> string res" where
  "failed_rows r details =
     (case details of
        [] \<Rightarrow> Inr []
      | d # ds \<Rightarrow> map_value concat
          (bind_res (failed_row r True d) (\<lambda>row. map_value ((#) row) (traverse_res (failed_row r False) ds))))"

definition passed_row :: "string option \<times> string option \<times> string option \<Rightarrow> string" where
  "passed_row r =
     (case r of (result, name, time) \<Rightarrow>
        ln ''<tr>'' @ ln (styled ''td'' ''green'' @ str_of_option result @ ''</td>'') @
        cell (str_of_option name) @ cell (str_of_option time) @ cell [] @ ln ''</tr>'')"

definition case_rows :: "xml \<Rightarrow> string res" where
  "case_rows test_case =
     bind_res (read_test test_case) (\<lambda>r.
       if fst r = Some ''FAIL'' then failed_rows r (findall test_case ''FailureDetails'') else Inr (passed_row r))"

definition html_suite :: "xml \<Rightarrow> string res" where
  "html_suite suite =
     bind_res (read_test suite) (\<lambda>r.
       let start = suite_header r @ table_start @ ln ''<th> Result </th>'' in
       if fst r \<in> {Some ''CRASH'', Some ''SKIP'', Some ''VALGR''}
       then Inr (start @ ln ''<tr>'' @
              ln (styled ''td'' (if fst r = Some ''SKIP'' then ''#ff6600'' else ''red'') @ str_of_option (fst r) @ ''</td>'') @
              ln ''</tr>'' @ ln ''</table>'')
       else map_value
              (\<lambda>cases. start @ ln ''<th>Test Case Name</th>'' @ ln ''<th> Time </th>'' @
                 (if fst r = Some ''FAIL'' then ln ''<th>Failure Details</th>'' else []) @
                 concat cases @ ln ''</table>'')
              (traverse_res case_rows (findall suite ''Test'')))"

text \<open>The result cell of a skipped example is ended with \<open></fd>\<close>.\<close>

definition html_example :: "xml \<Rightarrow> string res" where
  "html_example example =
     map_value
       (\<lambda>(result, name, time).
          ln ''<tr>'' @
          ln (styled ''td'' (result_color result) @ str_of_option result @
              (if result = Some ''SKIP'' then ''</fd>'' else ''</td>'')) @
          cell (str_of_option name) @ cell (str_of_option time) @ ln ''</tr>'')
       (read_test example)"

definition translate_to_html :: "xml \<Rightarrow> string res" where
  "translate_to_html et =
     bind_res (traverse_res html_suite (findall et ''Test'')) (\<lambda>suites.
     map_value
       (\<lambda>examples.
          ln ''<html>'' @ ln ''<body>'' @ ln ''<center><h1>ns-3 Test Results</h1></center>'' @
          ln ''<h2>Test Suites</h2>'' @ concat suites @
          ln ''<h2>Examples</h2>'' @ table_start @
          ln ''<th> Result </th>'' @ ln ''<th>Example Name</th>'' @ ln ''<th>Elapsed Time</th>'' @
          concat examples @ ln ''</table>'' @ ln ''</body>'' @ ln ''</html>'')
       (traverse_res html_example (findall et ''Example'')))"

subsection \<open>Reading back what was written\<close>

lemma lex_markup_start: "lex_xml (CHR ''<'' # b) = concat (map markup_tokens (split_on (CHR ''<'') b))"
  by (simp add: lex_xml_def char_tokens_def)

lemma lex_app: "lex_xml (a @ CHR ''<'' # b) = lex_xml a @ lex_xml (CHR ''<'' # b)"
proof -
  obtain w ws where "split_on (CHR ''<'') a = w # ws" by (meson split_on_ne neq_Nil_conv)
  then show ?thesis by (simp add: lex_markup_start) (simp add: lex_xml_def split_on_app)
qed

lemma lex_one:
  assumes "CHR ''<'' \<notin> set tag" "CHR ''>'' \<notin> set tag" "CHR ''<'' \<notin> set chars"
  shows "lex_xml (CHR ''<'' # tag @ CHR ''>'' # chars) = tag_token tag # char_tokens chars"
proof -
  have "split_on (CHR ''<'') (tag @ CHR ''>'' # chars) = [tag @ CHR ''>'' # chars]"
    using assms by (intro split_on_word) auto
  moreover have "markup_tokens (tag @ CHR ''>'' # chars) = tag_token tag # char_tokens chars"
    using assms(2) by (simp add: markup_tokens_def split_once_word)
  ultimately show ?thesis by (simp add: lex_markup_start)
qed

lemma lex_more:
  assumes "CHR ''<'' \<notin> set tag" "CHR ''>'' \<notin> set tag" "CHR ''<'' \<notin> set chars"
  shows "lex_xml (CHR ''<'' # tag @ CHR ''>'' # chars @ CHR ''<'' # rest) =
    tag_token tag # char_tokens chars @ lex_xml (CHR ''<'' # rest)"
  using lex_app[of "CHR ''<'' # tag @ CHR ''>'' # chars" rest] lex_one[OF assms] by simp

text \<open>Text without markup characters stands for itself.\<close>

definition plain :: "string \<Rightarrow> bool" where
  "plain s \<longleftrightarrow> CHR ''<'' \<notin> set s \<and> CHR ''&'' \<notin> set s"

lemma decode_plain: "CHR ''&'' \<notin> set s \<Longrightarrow> decode_entities s = Some s"
  by (induction s) auto

lemma char_tokens_plain: "CHR ''&'' \<notin> set s \<Longrightarrow> char_tokens s = (if s = [] then [] else [Chars s])"
  by (simp add: char_tokens_def decode_plain)

text \<open>A piece of markup that adds the elements \<open>es\<close> to whatever element is open.\<close>

definition fragment :: "string \<Rightarrow> xml list \<Rightarrow> bool" where
  "fragment s es \<longleftrightarrow>
     (s = [] \<or> hd s = CHR ''<'') \<and>
     (\<forall>f fs doc. fold_res xml_step (f # fs, doc) (lex_xml s) = Inr (f\<lparr>f_children := f_children f @ es\<rparr> # fs, doc))"

lemma lex_append: "b = [] \<or> hd b = CHR ''<'' \<Longrightarrow> lex_xml (a @ b) = lex_xml a @ lex_xml b"
  by (cases b) (auto simp: lex_app lex_xml_def[of "[]"] char_tokens_def)

lemma fragment_Nil: "fragment [] []"
  by (simp add: fragment_def lex_xml_def char_tokens_def)

lemma fragment_append:
  assumes "fragment a es" "fragment b es'"
  shows "fragment (a @ b) (es @ es')"
proof -
  have l: "lex_xml (a @ b) = lex_xml a @ lex_xml b" using assms(2) by (intro lex_append) (simp add: fragment_def)
  show ?thesis using assms unfolding fragment_def l by (cases a) (auto simp: fold_res_append)
qed

lemma fragment_concat:
  "(\<And>x. x \<in> set xs \<Longrightarrow> fragment (f x) (g x)) \<Longrightarrow> fragment (concat (map f xs)) (concat (map g xs))"
  by (induction xs) (simp_all add: fragment_Nil fragment_append)

text \<open>The characters of a printed time.\<close>

lemma show_seconds_chars:
  "c \<in> set (show_seconds r) \<Longrightarrow> is_digit c \<or> c = CHR ''.'' \<or> c = CHR ''-''"
proof -
  have "c \<in> set (pad3 n) \<Longrightarrow> is_digit c" for n
    by (auto simp: pad3_def Let_def is_digit_def dest!: show_nat_digits)
  then show "c \<in> set (show_seconds r) \<Longrightarrow> is_digit c \<or> c = CHR ''.'' \<or> c = CHR ''-''"
    by (auto simp: show_seconds_def Let_def dest: show_nat_digits split: if_splits)
qed

lemma show_seconds_plain:
  "c \<in> {CHR ''<'', CHR ''>'', CHR ''&'', CHR 0x22} \<Longrightarrow> c \<notin> set (show_seconds r)"
  using show_seconds_chars[of c r] by (auto simp: is_digit_def)

lemma parse_attrs_Nil: "parse_attrs [] = Some []"
  by (simp add: parse_attrs.simps)

lemma parse_real_attr:
  assumes "CHR 0x22 \<notin> set s" "CHR ''&'' \<notin> set s"
  shows "parse_attrs ('' real=\"'' @ s @ ''\"'') = Some [(''real'', s)]"
  using assms take_drop_until[of "CHR 0x22" s "[]"]
  by (subst parse_attrs.simps)
    (simp add: parse_attrs_Nil is_space_def decode_plain Let_def)

definition markup :: "(string \<times> string) list \<Rightarrow> string" where
  "markup ps = concat (map (\<lambda>(tag, chars). CHR ''<'' # tag @ CHR ''>'' # chars) ps)"

definition markup_ok :: "string \<times> string \<Rightarrow> bool" where
  "markup_ok p \<longleftrightarrow> CHR ''<'' \<notin> set (fst p) \<and> CHR ''>'' \<notin> set (fst p) \<and> CHR ''<'' \<notin> set (snd p)"

lemma lex_markup:
  "list_all markup_ok ps \<Longrightarrow>
   lex_xml (markup ps) = concat (map (\<lambda>(tag, chars). tag_token tag # char_tokens chars) ps)"
proof (induction ps)
  case (Cons p ps)
  obtain tag chars where p: "p = (tag, chars)" by fastforce
  have hd: "markup ps = [] \<or> hd (markup ps) = CHR ''<''"
    by (cases ps) (auto simp: markup_def)
  have "markup (p # ps) = (CHR ''<'' # tag @ CHR ''>'' # chars) @ markup ps"
    by (simp add: markup_def p)
  then have "lex_xml (markup (p # ps)) = lex_xml (CHR ''<'' # tag @ CHR ''>'' # chars) @ lex_xml (markup ps)"
    using lex_append[OF hd] by metis
  then show ?case using Cons lex_one[of tag chars] by (simp add: p markup_ok_def)
qed (simp add: markup_def lex_xml_def char_tokens_def)

lemma tag_tokens:
  "tag_token ''Example'' = Open_tag ''Example'' []" "tag_token ''/Example'' = Close_tag ''Example''"
  "tag_token ''Test'' = Open_tag ''Test'' []" "tag_token ''/Test'' = Close_tag ''Test''"
  "tag_token ''Name'' = Open_tag ''Name'' []" "tag_token ''/Name'' = Close_tag ''Name''"
  "tag_token ''Result'' = Open_tag ''Result'' []" "tag_token ''/Result'' = Close_tag ''Result''"
  "tag_token ''/Suite'' = Close_tag ''Suite''"
  "tag_token ''Results'' = Open_tag ''Results'' []" "tag_token ''/Results'' = Close_tag ''Results''"
  "tag_token ''?xml version=\"1.0\"?'' = Xml_decl"
  by (simp_all add: tag_token_def is_space_def parse_attrs_Nil Let_def)

lemma tag_token_time:
  assumes "CHR 0x22 \<notin> set s" "CHR ''&'' \<notin> set s"
  shows "tag_token (''Time real=\"'' @ s @ ''\"/'') = Empty_tag ''Time'' [(''real'', s)]"
  using parse_real_attr[OF assms] by (simp add: tag_token_def is_space_def Let_def butlast_append)

definition text_of :: "string \<Rightarrow> string option" where
  "text_of s = (if s = [] then None else Some s)"

definition example_tree :: "job \<Rightarrow> xml" where
  "example_tree j =
     Element ''Example'' [] (Some (newline # ''  ''))
       [Element ''Name'' [] (text_of (display_name j)) [],
        Element ''Result'' [] (Some (show_status (job_status j))) [],
        Element ''Time'' [(''real'', show_seconds (elapsed_time j))] None []]"

definition suite_tree :: "string \<Rightarrow> string \<Rightarrow> xml" where
  "suite_tree name result =
     Element ''Test'' [] (Some (newline # ''  ''))
       [Element ''Name'' [] (text_of name) [], Element ''Result'' [] (Some result) []]"

lemma show_status_plain: "plain (show_status st)" "show_status st \<noteq> []"
  by (cases st; simp add: show_status_def plain_def)+

lemma example_markup:
  "example_entry j = markup
     [(''Example'', newline # ''  ''), (''Name'', display_name j), (''/Name'', newline # ''  ''),
      (''Result'', show_status (job_status j)), (''/Result'', newline # ''  ''),
      (''Time real=\"'' @ show_seconds (elapsed_time j) @ ''\"/'', [newline]), (''/Example'', [newline])]"
  by (simp add: example_entry_def markup_def ln_def)

lemma fragment_example:
  assumes "plain (display_name j)"
  shows "fragment (example_entry j) [example_tree j]"
proof -
  have ok: "list_all markup_ok
     [(''Example'', newline # ''  ''), (''Name'', display_name j), (''/Name'', newline # ''  ''),
      (''Result'', show_status (job_status j)), (''/Result'', newline # ''  ''),
      (''Time real=\"'' @ show_seconds (elapsed_time j) @ ''\"/'', [newline]), (''/Example'', [newline])]"
    using assms show_status_plain(1)[of "job_status j"] show_seconds_plain by (simp add: markup_ok_def plain_def)
  have "lex_xml (example_entry j) =
     [Open_tag ''Example'' [], Chars (newline # ''  ''), Open_tag ''Name'' []] @
     (if display_name j = [] then [] else [Chars (display_name j)]) @
     [Close_tag ''Name'', Chars (newline # ''  ''), Open_tag ''Result'' [], Chars (show_status (job_status j)),
      Close_tag ''Result'', Chars (newline # ''  ''), Empty_tag ''Time'' [(''real'', show_seconds (elapsed_time j))],
      Chars [newline], Close_tag ''Example'', Chars [newline]]"
    unfolding example_markup lex_markup[OF ok]
    using assms show_status_plain[of "job_status j"] tag_token_time[of "show_seconds (elapsed_time j)"] show_seconds_plain
    by (simp add: char_tokens_plain plain_def tag_tokens)
  moreover have "hd (example_entry j) = CHR ''<''" by (simp add: example_entry_def ln_def)
  ultimately show ?thesis
    by (simp add: fragment_def xml_step_def add_element_def example_tree_def text_of_def)
qed

lemma suite_markup:
  "suite_entry name result close_tag = markup
     [(''Test'', newline # ''  ''), (''Name'', name), (''/Name'', newline # ''  ''), (''Result'', result),
      (''/'' @ close_tag, [newline]), (''/Test'', [newline])]"
  by (simp add: suite_entry_def markup_def ln_def)

lemma lex_suite:
  assumes "plain name" "plain result" "result \<noteq> []" "close_tag \<in> {''Result'', ''Suite''}"
  shows "lex_xml (suite_entry name result close_tag) =
     [Open_tag ''Test'' [], Chars (newline # ''  ''), Open_tag ''Name'' []] @ (if name = [] then [] else [Chars name]) @
     [Close_tag ''Name'', Chars (newline # ''  ''), Open_tag ''Result'' [], Chars result,
      Close_tag close_tag, Chars [newline], Close_tag ''Test'', Chars [newline]]"
proof -
  have ok: "list_all markup_ok
     [(''Test'', newline # ''  ''), (''Name'', name), (''/Name'', newline # ''  ''), (''Result'', result),
      (''/'' @ close_tag, [newline]), (''/Test'', [newline])]"
    using assms by (auto simp: markup_ok_def plain_def)
  show ?thesis
    unfolding suite_markup lex_markup[OF ok]
    using assms by (auto simp: char_tokens_plain plain_def tag_tokens)
qed

lemma fragment_suite:
  assumes "plain name" "plain result" "result \<noteq> []"
  shows "fragment (suite_entry name result ''Result'') [suite_tree name result]"
proof -
  have "hd (suite_entry name result ''Result'') = CHR ''<''" by (simp add: suite_entry_def ln_def)
  then show ?thesis
    by (simp add: fragment_def lex_suite assms xml_step_def add_element_def suite_tree_def text_of_def)
qed

text \<open>What the driver appends for a job, and the file as a whole.\<close>

definition job_entry :: "file_system \<Rightarrow> job \<Rightarrow> string res" where
  "job_entry files j = (if is_any_example j then Inr (example_entry j) else suite_result files j)"

lemma collect_file:
  "fold_res (collect_job opts files) t js = Inr t' \<Longrightarrow>
   \<exists>entries. traverse_res (job_entry files) (filter (\<lambda>j. \<not> is_break j) js) = Inr entries \<and>
     results_file t' = results_file t @ concat entries"
proof (induction js arbitrary: t)
  case (Cons j js)
  then obtain t1 where t1: "collect_job opts files t j = Inr t1" and t': "fold_res (collect_job opts files) t1 js = Inr t'"
    by (auto simp: bind_res_eq_Inr)
  from Cons.IH[OF t'] obtain entries where e: "traverse_res (job_entry files) (filter (\<lambda>j. \<not> is_break j) js) = Inr entries"
    "results_file t' = results_file t1 @ concat entries" by blast
  show ?case
  proof (cases "is_break j")
    case True
    then show ?thesis using t1 e by (simp add: collect_job_def)
  next
    case False
    then obtain xml where x: "job_entry files j = Inr xml" "results_file t1 = results_file t @ xml"
      using t1 by (auto simp: collect_job_def job_entry_def Let_def map_value_eq_Inr count_job_def split: status.splits)
    then show ?thesis using False e by simp
  qed
qed simp

lemma lex_file_start:
  "lex_xml (ln ''<?xml version=\"1.0\"?>'' @ ln ''<Results>'') =
   [Xml_decl, Chars [newline], Open_tag ''Results'' [], Chars [newline]]"
proof -
  have "ln ''<?xml version=\"1.0\"?>'' @ ln ''<Results>'' = markup [(''?xml version=\"1.0\"?'', [newline]), (''Results'', [newline])]"
    by (simp add: markup_def ln_def)
  moreover have "list_all markup_ok [(''?xml version=\"1.0\"?'', [newline]), (''Results'', [newline])]"
    by (simp add: markup_ok_def)
  ultimately show ?thesis by (simp add: lex_markup tag_tokens char_tokens_plain)
qed

lemma lex_file_end: "lex_xml (ln ''</Results>'') = [Close_tag ''Results'', Chars [newline]]"
proof -
  have "ln ''</Results>'' = markup [(''/Results'', [newline])]" by (simp add: markup_def ln_def)
  moreover have "list_all markup_ok [(''/Results'', [newline])]" by (simp add: markup_ok_def)
  ultimately show ?thesis by (simp add: lex_markup tag_tokens char_tokens_plain)
qed

lemma parse_results_file:
  assumes "fragment body es"
  shows "parse_xml ((ln ''<?xml version=\"1.0\"?>'' @ ln ''<Results>'') @ body @ ln ''</Results>'') =
    Inr (Element ''Results'' [] (Some [newline]) es)"
proof -
  have b: "body @ ln ''</Results>'' = [] \<or> hd (body @ ln ''</Results>'') = CHR ''<''"
    using assms by (cases body) (auto simp: fragment_def ln_def)
  have e: "ln ''</Results>'' = [] \<or> hd (ln ''</Results>'') = CHR ''<''" by (simp add: ln_def)
  have "lex_xml ((ln ''<?xml version=\"1.0\"?>'' @ ln ''<Results>'') @ body @ ln ''</Results>'') =
      [Xml_decl, Chars [newline], Open_tag ''Results'' [], Chars [newline]] @ lex_xml body @
      [Close_tag ''Results'', Chars [newline]]"
    unfolding lex_append[OF b] lex_append[OF e] lex_file_start lex_file_end by simp
  then show ?thesis
    using assms
    by (simp add: parse_xml_def xml_step_def[of _ "Open_tag _ _"] xml_step_def[of _ "Chars _"]
        xml_step_def[of _ "Close_tag _"] fragment_def fold_res_append add_element_def is_space_def)
qed

text \<open>The elements that the jobs of a run stand for, when no suite wrote a file of its own.\<close>

definition job_tree :: "job \<Rightarrow> xml" where
  "job_tree j = (if is_any_example j then example_tree j else suite_tree (display_name j) ''SKIP'')"

text \<open>
  C15: The results file of a run of examples and skipped suites whose names have no < and no &
  parses as XML and holds one entry, in order, for each job that was not interrupted: the status
  SKIP and the name of a suite, the status, name and time of an example.
\<close>

theorem results_file_roundtrip:
  assumes "collect_jobs opts files js = Inr t"
    and "\<forall>j \<in> set js. plain (display_name j) \<and> (is_any_example j \<or> is_skip j)"
  shows "parse_xml (results_file t) =
    Inr (Element ''Results'' [] (Some [newline]) (map job_tree (filter (\<lambda>j. \<not> is_break j) js)))"
proof -
  let ?js = "filter (\<lambda>j. \<not> is_break j) js"
  obtain t' where t': "fold_res (collect_job opts files) start_tally js = Inr t'"
    "results_file t = results_file t' @ ln ''</Results>''"
    using assms(1) by (auto simp: collect_jobs_def map_value_eq_Inr)
  obtain entries where e: "traverse_res (job_entry files) ?js = Inr entries"
    "results_file t' = results_file start_tally @ concat entries"
    using collect_file[OF t'(1)] by blast
  define entry where "entry j = (if is_any_example j then example_entry j else suite_entry (display_name j) ''SKIP'' ''Result'')" for j
  have "traverse_res (job_entry files) ?js = Inr (map entry ?js)"
    using assms(2) by (intro traverse_res_Inr) (auto simp: job_entry_def entry_def suite_result_def)
  then have entries: "entries = map entry ?js" using e(1) by simp
  have "fragment (entry j) [job_tree j]" if "j \<in> set ?js" for j
    using assms(2) that by (auto simp: entry_def job_tree_def plain_def intro!: fragment_example fragment_suite)
  then have "fragment (concat (map entry ?js)) (concat (map (\<lambda>j. [job_tree j]) ?js))"
    by (rule fragment_concat)
  then have "fragment (concat entries) (map job_tree ?js)" by (simp add: entries)
  from parse_results_file[OF this] show ?thesis
    using t'(2) e(2) by (simp add: start_tally_def)
qed

theorem results_file_roundtrip_witness:
  "\<exists>t. collect_jobs default_options (\<lambda>path. None) [new_job\<lparr>is_example := True, display_name := ''udp-echo''\<rparr>] = Inr t \<and>
     parse_xml (results_file t) =
       Inr (Element ''Results'' [] (Some [newline])
              (map job_tree (filter (\<lambda>j. \<not> is_break j) [new_job\<lparr>is_example := True, display_name := ''udp-echo''\<rparr>])))"
proof -
  obtain t where t: "collect_jobs default_options (\<lambda>path. None)
      [new_job\<lparr>is_example := True, display_name := ''udp-echo''\<rparr>] = Inr t"
    by (simp add: collect_jobs_def collect_job_def Let_def is_any_example_def new_job_def)
  from results_file_roundtrip[OF t] t show ?thesis by (simp add: plain_def is_any_example_def)
qed

text \<open>The text report of such a run: the skipped suites, then the examples, a line each.\<close>

definition job_line :: "job \<Rightarrow> string" where
  "job_line j =
     ln (show_status (job_status j) @ '': '' @ (if is_any_example j then ''Example'' else ''Test Suite'') @ '' '' @
         quoted (str_of_option (text_of (display_name j))) @ '' ('' @
         (if is_any_example j then show_seconds (elapsed_time j) else []) @ '')'')"

lemma read_example_tree:
  "read_test (example_tree j) =
   Inr (Some (show_status (job_status j)), text_of (display_name j), Some (show_seconds (elapsed_time j)))"
  by (simp add: read_test_def find_text_def find_element_def example_tree_def)

lemma read_suite_tree: "read_test (suite_tree name result) = Inr (Some result, text_of name, Some [])"
  by (simp add: read_test_def find_text_def find_element_def suite_tree_def)

lemma node_suite_tree:
  "node_to_text (suite_tree name result) = Inr (report_line ''Test Suite'' (Some result, text_of name, Some []))"
  by (subst node_to_text.simps) (simp add: read_suite_tree, simp add: suite_tree_def findall_def)

theorem text_report_lines:
  assumes "\<forall>j \<in> set js. is_any_example j \<or> is_skip j"
  shows "translate_to_text (Element ''Results'' [] txt (map job_tree js)) =
    Inr (concat (map job_line (filter (\<lambda>j. \<not> is_any_example j) js)) @
         concat (map job_line (filter is_any_example js)))"
proof -
  let ?et = "Element ''Results'' [] txt (map job_tree js)"
  have tests: "findall ?et ''Test'' = map job_tree (filter (\<lambda>j. \<not> is_any_example j) js)"
    by (induction js) (auto simp: findall_def job_tree_def example_tree_def suite_tree_def)
  have examples: "findall ?et ''Example'' = map job_tree (filter is_any_example js)"
    by (induction js) (auto simp: findall_def job_tree_def example_tree_def suite_tree_def)
  have "traverse_res node_to_text (map job_tree (filter (\<lambda>j. \<not> is_any_example j) js)) =
      Inr (map job_line (filter (\<lambda>j. \<not> is_any_example j) js))"
    using assms
    by (induction js)
      (auto simp: job_tree_def node_suite_tree job_line_def report_line_def job_status_def show_status_def)
  moreover have "traverse_res read_test (map job_tree (filter is_any_example js)) =
      Inr (map (\<lambda>j. (Some (show_status (job_status j)), text_of (display_name j), Some (show_seconds (elapsed_time j))))
            (filter is_any_example js))"
    by (induction js) (auto simp: job_tree_def read_example_tree)
  moreover have "concat (map (\<lambda>j. report_line ''Example''
      (Some (show_status (job_status j)), text_of (display_name j), Some (show_seconds (elapsed_time j))))
        (filter is_any_example js)) = concat (map job_line (filter is_any_example js))"
    by (induction js) (auto simp: report_line_def job_line_def)
  ultimately show ?thesis
    unfolding translate_to_text_def tests examples by (simp add: comp_def)
qed

theorem text_report_lines_witness:
  "translate_to_text (Element ''Results'' [] None
      (map job_tree [new_job\<lparr>is_example := True\<rparr>, new_job\<lparr>is_skip := True\<rparr>])) =
    Inr (concat (map job_line (filter (\<lambda>j. \<not> is_any_example j) [new_job\<lparr>is_example := True\<rparr>, new_job\<lparr>is_skip := True\<rparr>])) @
         concat (map job_line (filter is_any_example [new_job\<lparr>is_example := True\<rparr>, new_job\<lparr>is_skip := True\<rparr>])))"
  by (rule text_report_lines) (simp add: is_any_example_def)

text \<open>A crashed suite makes the whole results file unreadable.\<close>

theorem crash_spoils_results:
  assumes "collect_jobs opts files (before @ j # after) = Inr t"
    and "\<forall>i \<in> set before. plain (display_name i) \<and> (is_any_example i \<or> is_skip i)"
    and "\<not> is_break j" "\<not> is_any_example j" "job_status j = CRASH" "plain (display_name j)"
  shows "parse_xml (results_file t) = Inl parse_error"
proof -
  let ?name = "display_name j"
  define start where "start = markup [(''Test'', newline # ''  ''), (''Name'', ?name), (''/Name'', newline # ''  ''),
      (''Result'', ''CRASH''), (''/Suite'', [newline])]"
  have ok: "list_all markup_ok [(''Test'', newline # ''  ''), (''Name'', ?name), (''/Name'', newline # ''  ''),
      (''Result'', ''CRASH''), (''/Suite'', [newline])]"
    using assms(6) by (simp add: markup_ok_def plain_def)
  have lex_start: "lex_xml start = [Open_tag ''Test'' [], Chars (newline # ''  ''), Open_tag ''Name'' []] @
     (if ?name = [] then [] else [Chars ?name]) @
     [Close_tag ''Name'', Chars (newline # ''  ''), Open_tag ''Result'' [], Chars ''CRASH'',
      Close_tag ''Suite'', Chars [newline]]"
    unfolding start_def lex_markup[OF ok] using assms(6) by (simp add: char_tokens_plain plain_def tag_tokens)
  have crash: "job_entry files j = Inr (start @ ln ''</Test>'')"
    using assms(4,5) by (simp add: job_entry_def suite_result_def job_status_def start_def markup_def suite_entry_def ln_def
        split: if_splits)
  obtain t' where t': "fold_res (collect_job opts files) start_tally (before @ j # after) = Inr t'"
    "results_file t = results_file t' @ ln ''</Results>''"
    using assms(1) by (auto simp: collect_jobs_def map_value_eq_Inr)
  obtain entries where e: "traverse_res (job_entry files) (filter (\<lambda>j. \<not> is_break j) (before @ j # after)) = Inr entries"
    "results_file t' = results_file start_tally @ concat entries"
    using collect_file[OF t'(1)] by blast
  define entry where "entry i = (if is_any_example i then example_entry i else suite_entry (display_name i) ''SKIP'' ''Result'')" for i
  have "traverse_res (job_entry files) (filter (\<lambda>i. \<not> is_break i) before) = Inr (map entry (filter (\<lambda>i. \<not> is_break i) before))"
    using assms(2) by (intro traverse_res_Inr) (auto simp: job_entry_def entry_def suite_result_def)
  then obtain later where entries: "entries = map entry (filter (\<lambda>i. \<not> is_break i) before) @ (start @ ln ''</Test>'') # later"
    using e(1) assms(3) crash by (auto simp: traverse_res_append bind_res_eq_Inr map_value_eq_Inr)
  have "fragment (entry i) [job_tree i]" if "i \<in> set (filter (\<lambda>i. \<not> is_break i) before)" for i
    using assms(2) that by (auto simp: entry_def job_tree_def plain_def intro!: fragment_example fragment_suite)
  then have frag: "fragment (concat (map entry (filter (\<lambda>i. \<not> is_break i) before)))
      (concat (map (\<lambda>i. [job_tree i]) (filter (\<lambda>i. \<not> is_break i) before)))"
    by (rule fragment_concat)
  define body where "body = concat (map entry (filter (\<lambda>i. \<not> is_break i) before))"
  obtain rest where whole: "results_file t = ((ln ''<?xml version=\"1.0\"?>'' @ ln ''<Results>'') @ body @ start) @ CHR ''<'' # rest"
    using t'(2) e(2) entries by (simp add: start_tally_def body_def ln_def)
  have s: "start = [] \<or> hd start = CHR ''<''" by (simp add: start_def markup_def)
  have fb: "body = [] \<or> hd body = CHR ''<''" using frag unfolding fragment_def body_def by blast
  have b: "body @ start = [] \<or> hd (body @ start) = CHR ''<''"
    using fb s by (cases body) auto
  have "lex_xml (results_file t) = [Xml_decl, Chars [newline], Open_tag ''Results'' [], Chars [newline]] @ lex_xml body @
      lex_xml start @ lex_xml (CHR ''<'' # rest)"
    unfolding whole lex_app lex_append[OF b] lex_append[OF s] lex_file_start by simp
  then show ?thesis
    using frag unfolding lex_start
    by (simp add: parse_xml_def fragment_def body_def[symmetric] fold_res_append add_element_def is_space_def
        xml_step_def[of _ "Open_tag _ _"] xml_step_def[of _ "Chars _"] xml_step_def[of _ "Close_tag _"])
qed

theorem crash_spoils_results_witness:
  "\<exists>t. collect_jobs default_options (\<lambda>path. None)
         ([new_job\<lparr>is_example := True\<rparr>] @ new_job\<lparr>returncode := 139\<rparr> # []) = Inr t \<and>
     parse_xml (results_file t) = Inl parse_error"
proof -
  obtain t where t: "collect_jobs default_options (\<lambda>path. None)
      ([new_job\<lparr>is_example := True\<rparr>] @ new_job\<lparr>returncode := 139\<rparr> # []) = Inr t"
    by (simp add: collect_jobs_def collect_job_def Let_def is_any_example_def suite_result_def new_job_def)
  have "parse_xml (results_file t) = Inl parse_error"
    by (rule crash_spoils_results[OF t])
      (simp_all add: plain_def is_any_example_def job_status_def new_job_def)
  with t show ?thesis by blast
qed

end
