(* ===== verification/Test_Main.thy ===== *)
theory Test_Main
  imports Test_Report "HOL-Library.List_Lexorder" "HOL-Library.Char_ord"
begin

section \<open>The test driver (\<open>test.py\<close>)\<close>

text \<open>
  \<open>run_tests\<close>, phase by phase: reading the configuration, building, finding the examples,
  answering \<open>--kinds\<close> and \<open>--list\<close>, choosing the suites, making the jobs, and, once the worker
  pool has run them, the summary, the reports and the exit code.  What the driver asks of its
  surroundings is gathered in \<open>machine\<close>.
\<close>

subsection \<open>The surroundings\<close>

record machine =
  m_fs :: file_system
  m_platform :: string
  m_cwd :: string
  m_environ :: "(string, string) dict"
  m_date :: string
  m_sysconf :: "nat option"
  m_execute :: "(string, string) dict \<Rightarrow> string \<Rightarrow> string \<Rightarrow> outcome"
  m_eval_string :: "string \<Rightarrow> string res"
  m_eval_strings :: "string \<Rightarrow> string list res"
  m_eval_cpp :: "string \<Rightarrow> (string \<times> string \<times> string) list res"
  m_eval_py :: "string \<Rightarrow> (string \<times> string) list res"
  m_exec :: "string \<Rightarrow> globals \<Rightarrow> globals res"
  m_eval_item :: "string \<Rightarrow> globals \<Rightarrow> string res"
  m_eval_cond :: "globals \<Rightarrow> string \<Rightarrow> bool res"

subsection \<open>Before the jobs\<close>

definition runnable_dictionary :: "string list \<Rightarrow> (string, string) dict" where
  "runnable_dictionary programs = foldl (\<lambda>d program. dict_put (basename program) program d) [] programs"

definition directory_examples :: "machine \<Rightarrow> globals \<Rightarrow> examples \<Rightarrow> string \<Rightarrow> examples res" where
  "directory_examples m g ex directory =
     (let example_directory = path_join ''examples'' directory
      in parse_examples_to_run_file (m_fs m) (m_eval_cpp m) (m_eval_py m) g
           (path_join example_directory ''examples-to-run.py'')
           (path_join (NS3_BUILDDIR g) example_directory) example_directory ex)"

definition module_examples :: "machine \<Rightarrow> globals \<Rightarrow> examples \<Rightarrow> string \<Rightarrow> examples res" where
  "module_examples m g ex ns3_module =
     (let module_directory = path_join ''src'' (drop 4 ns3_module);
          example_directory = path_join module_directory ''examples''
      in parse_examples_to_run_file (m_fs m) (m_eval_cpp m) (m_eval_py m) g
           (path_join3 module_directory ''test'' ''examples-to-run.py'')
           (path_join (NS3_BUILDDIR g) example_directory) example_directory ex)"

definition find_examples :: "machine \<Rightarrow> globals \<Rightarrow> examples res" where
  "find_examples m g =
     bind_res (fold_res (directory_examples m g) no_examples (EXAMPLE_DIRECTORIES g))
       (\<lambda>ex. bind_res (read_global (NS3_ENABLED_MODULES g)) (fold_res (module_examples m g) ex))"

text \<open>What the test runner prints for some arguments.\<close>

definition ask_runner :: "machine \<Rightarrow> options \<Rightarrow> globals \<Rightarrow> (string, string) dict \<Rightarrow> string \<Rightarrow> (string \<times> string list) res" where
  "ask_runner m opts g environ arguments =
     map_value (\<lambda>(result, messages). (fst (snd result), messages))
       (run_job_synchronously opts (m_execute m environ) g (runner_command g arguments) (m_cwd m) False False [])"

definition type_argument :: "options \<Rightarrow> string" where
  "type_argument opts = (if o_constrain opts \<noteq> [] then '' --test-type='' @ o_constrain opts else [])"

definition list_output :: "string \<Rightarrow> string list \<Rightarrow> string list" where
  "list_output standard_out names =
     [''Test Type    Test Name'', ''---------    ---------''] @
     filter (\<lambda>item. strip item \<noteq> []) (sort (split_on newline standard_out)) @
     map (\<lambda>item. ''example      '' @ item) (sort names) @ [[]]"

definition answer_queries :: "machine \<Rightarrow> options \<Rightarrow> globals \<Rightarrow> (string, string) dict \<Rightarrow> examples \<Rightarrow> string list res" where
  "answer_queries m opts g environ ex =
     bind_res
       (if o_kinds opts
        then map_value (\<lambda>(out, messages). messages @ [out]) (ask_runner m opts g environ '' --print-test-type-list'')
        else Inr [])
       (\<lambda>kinds.
          if o_list opts
          then map_value (\<lambda>(out, messages). kinds @ messages @ list_output out (example_names_original ex))
                 (ask_runner m opts g environ ('' --print-test-name-list --print-test-types'' @ type_argument opts))
          else Inr kinds)"

text \<open>The suites to run: the one asked for, those of the runner, or none.\<close>

definition choose_suites :: "machine \<Rightarrow> options \<Rightarrow> globals \<Rightarrow> (string, string) dict \<Rightarrow> (string list \<times> string list) res" where
  "choose_suites m opts g environ =
     (if o_suite opts \<noteq> [] then
        bind_res (ask_runner m opts g environ '' --print-test-name-list'') (\<lambda>(suites, messages).
          if o_suite opts \<in> set (split_on newline suites)
          then Inr (split_on newline (ln (o_suite opts)), messages) else Inl (SystemExit 2))
      else if o_example opts = [] \<and> o_pyexample opts = [] then
        map_value (\<lambda>(suites, messages). (split_on newline suites, messages))
          (ask_runner m opts g environ ('' --print-test-name-list'' @ type_argument opts))
      else Inr (split_on newline [], []))"

definition without_performance :: "string list \<Rightarrow> string list \<Rightarrow> string list" where
  "without_performance suite_list performance_test_list =
     foldl (\<lambda>suites test. if test \<in> set suites then remove1 test suites else suites) suite_list performance_test_list"

definition drop_performance ::
  "machine \<Rightarrow> options \<Rightarrow> globals \<Rightarrow> (string, string) dict \<Rightarrow> string list \<Rightarrow> (string list \<times> string list) res" where
  "drop_performance m opts g environ suite_list =
     (if o_constrain opts \<noteq> ''performance'' then
        map_value (\<lambda>(tests, messages). (without_performance suite_list (split_on newline tests), messages))
          (ask_runner m opts g environ '' --print-test-name-list --test-type=performance'')
      else Inr (suite_list, []))"

definition count_processors :: "machine \<Rightarrow> (string, string) dict \<Rightarrow> nat res" where
  "count_processors m environ =
     (if m_platform m = ''win32'' then Inr 1
      else case m_sysconf m of
             Some n \<Rightarrow> Inr n
           | None \<Rightarrow>
               (case m_execute m environ ''sysctl -n hw.ncpu'' (m_cwd m) of (rc, out, err, et) \<Rightarrow>
                  if err \<noteq> [] then Inr 1
                  else if strip out \<noteq> [] \<and> list_all is_digit (strip out) then Inr (parse_nat (strip out))
                  else Inl ValueError))"

subsection \<open>Making the jobs\<close>

definition suite_arguments :: "options \<Rightarrow> string \<Rightarrow> string" where
  "suite_arguments opts test =
     '' --test-name='' @ test @ (if o_multiple opts then [] else '' --stop-on-failure'') @
     (if o_fullness opts \<noteq> [] then '' --fullness='' @ upper (o_fullness opts) else '' --fullness=QUICK'')"

definition suite_skipped :: "options \<Rightarrow> globals \<Rightarrow> string \<Rightarrow> bool" where
  "suite_skipped opts g test \<longleftrightarrow>
     (o_valgrind opts \<and> test \<in> set core_valgrind_skip_tests) \<or>
     (\<not> NSC_ENABLED g \<and> test \<in> set core_nsc_missing_skip_tests)"

definition suite_job :: "machine \<Rightarrow> options \<Rightarrow> globals \<Rightarrow> string \<Rightarrow> string \<Rightarrow> job" where
  "suite_job m opts g output_dir test =
     new_job\<lparr>is_example := False, is_pyexample := False, display_name := test,
       tmp_file_name := path_join output_dir (test @ ''.xml''), cwd := m_cwd m, basedir := m_cwd m,
       tempdir := output_dir, shell_command := runner_command g (suite_arguments opts test),
       is_skip := suite_skipped opts g test\<rparr>"

definition suite_jobs :: "machine \<Rightarrow> options \<Rightarrow> globals \<Rightarrow> string \<Rightarrow> string list \<Rightarrow> job list" where
  "suite_jobs m opts g output_dir suite_list =
     map (suite_job m opts g output_dir) (filter (\<lambda>test. test \<noteq> []) (map strip suite_list))"

definition example_job :: "machine \<Rightarrow> string \<Rightarrow> string \<Rightarrow> string \<Rightarrow> bool \<Rightarrow> job" where
  "example_job m output_dir build test skip =
     new_job\<lparr>is_example := True, is_pyexample := False, display_name := test, tmp_file_name := [],
       cwd := output_dir, basedir := m_cwd m, tempdir := output_dir, shell_command := test,
       build_path := build, is_skip := skip\<rparr>"

definition pyexample_job :: "machine \<Rightarrow> string \<Rightarrow> string \<Rightarrow> bool \<Rightarrow> job" where
  "pyexample_job m output_dir test skip =
     new_job\<lparr>is_example := False, is_pyexample := True, display_name := test, tmp_file_name := [],
       cwd := output_dir, basedir := m_cwd m, tempdir := output_dir, shell_command := test,
       build_path := [], is_skip := skip\<rparr>"

definition bare_name :: "string \<Rightarrow> string" where
  "bare_name test = basename (hd (split_once (CHR '' '') test))"

definition try_example ::
  "machine \<Rightarrow> options \<Rightarrow> globals \<Rightarrow> string \<Rightarrow> (string, string) dict \<Rightarrow> string \<times> string \<times> string \<Rightarrow> job list res" where
  "try_example m opts g output_dir programs entry =
     (case entry of (test, do_run, do_valgrind_run) \<Rightarrow>
        if dict_has programs (bare_name test) then
          bind_res (m_eval_cond m g do_run) (\<lambda>run.
            if \<not> run then Inr []
            else bind_res (if o_valgrind opts then map_value Not (m_eval_cond m g do_valgrind_run) else Inr False)
                   (\<lambda>skip. Inr [example_job m output_dir (o_buildpath opts) test skip]))
        else Inr [])"

definition try_pyexample ::
  "machine \<Rightarrow> options \<Rightarrow> globals \<Rightarrow> string \<Rightarrow> string list \<Rightarrow> string \<times> string \<Rightarrow> job list res" where
  "try_pyexample m opts g output_dir scripts entry =
     (case entry of (test, do_run) \<Rightarrow>
        if bare_name test \<in> set scripts then
          bind_res (m_eval_cond m g do_run) (\<lambda>run.
            if \<not> run then Inr []
            else map_value (\<lambda>bindings. [pyexample_job m output_dir test (o_valgrind opts \<or> \<not> bindings)])
                   (read_global (ENABLE_PYTHON_BINDINGS g)))
        else Inr [])"

definition nothing_named :: "options \<Rightarrow> bool" where
  "nothing_named opts \<longleftrightarrow> o_suite opts = [] \<and> o_example opts = [] \<and> o_pyexample opts = []"

definition queue_messages :: "options \<Rightarrow> string list \<Rightarrow> string list" where
  "queue_messages opts names = (if o_verbose opts then map (\<lambda>name. ''Queue '' @ name) names else [])"

definition queued_examples :: "options \<Rightarrow> job list list \<Rightarrow> job list \<times> string list" where
  "queued_examples opts js = (concat js, queue_messages opts (map display_name (concat js)))"

text \<open>
  The jobs for examples and the messages about them: a named C++ example is queued under the name
  of its program, while its job has the path for a name.
\<close>

definition example_jobs ::
  "machine \<Rightarrow> options \<Rightarrow> globals \<Rightarrow> string \<Rightarrow> (string, string) dict \<Rightarrow> examples \<Rightarrow> (job list \<times> string list) res" where
  "example_jobs m opts g output_dir programs ex =
     (if nothing_named opts then
        (if (o_constrain opts = [] \<or> o_constrain opts = ''example'') \<and> ENABLE_EXAMPLES g
         then map_value (queued_examples opts)
                (traverse_res (try_example m opts g output_dir programs) (example_tests ex))
         else Inr ([], []))
      else if o_example opts \<noteq> [] then
        (let example_name = program_name g (o_example opts)
         in case map_of programs example_name of
              None \<Rightarrow> Inr ([], [''Example '' @ example_name @ '' is not runnable.''])
            | Some path \<Rightarrow> 
                Inr ([example_job m output_dir (o_buildpath opts) (abspath (m_cwd m) path) False], queue_messages opts [example_name]))
      else Inr ([], []))"

definition pyexample_jobs ::
  "machine \<Rightarrow> options \<Rightarrow> globals \<Rightarrow> string \<Rightarrow> string list \<Rightarrow> examples \<Rightarrow> (job list \<times> string list) res" where
  "pyexample_jobs m opts g output_dir scripts ex =
     (if nothing_named opts then
        (if (o_constrain opts = [] \<or> o_constrain opts = ''pyexample'') \<and> ENABLE_EXAMPLES g
         then map_value (queued_examples opts)
                (traverse_res (try_pyexample m opts g output_dir scripts) (python_tests ex))
         else Inr ([], []))
      else if o_pyexample opts \<noteq> [] then
        (if basename (o_pyexample opts) \<notin> set scripts
         then Inr ([], [''Example '' @ basename (o_pyexample opts) @ '' is not runnable.''])
         else Inr ([pyexample_job m output_dir (o_pyexample opts) False], queue_messages opts [o_pyexample opts]))
      else Inr ([], []))"

subsection \<open>The whole run\<close>

text \<open>
  Up to the start of the workers a run either ends, with an exit code (\<open>None\<close> where the
  function returns no value), or has jobs for the pool.  An exception ends the run, also one that is
  raised while the jobs are made, when \<^verbatim>\<open>test.py\<close> has started its workers, which would go on
  waiting for jobs.
\<close>

record dispatch =
  d_globals :: globals
  d_environ :: "(string, string) dict"
  d_output_dir :: string
  d_processors :: nat
  d_jobs :: "job list"
  d_queued :: "string list"

datatype prepared = Stop "int option" "string list" | Go dispatch "string list"

definition make_jobs ::
  "machine \<Rightarrow> options \<Rightarrow> globals \<Rightarrow> string \<Rightarrow> string list \<Rightarrow> (string, string) dict \<Rightarrow> string list \<Rightarrow> examples \<Rightarrow>
   (job list \<times> string list) res" where
  "make_jobs m opts g output_dir suite_list programs scripts ex =
     (let suites = suite_jobs m opts g output_dir suite_list
      in bind_res (example_jobs m opts g output_dir programs ex) (\<lambda>(cpp, cpp_messages).
         bind_res (pyexample_jobs m opts g output_dir scripts ex) (\<lambda>(py, py_messages).
           Inr (suites @ cpp @ py, queue_messages opts (map display_name suites) @ cpp_messages @ py_messages))))"

definition plan_run ::
  "machine \<Rightarrow> options \<Rightarrow> globals \<Rightarrow> (string, string) dict \<Rightarrow> string list \<Rightarrow> string list \<Rightarrow> examples \<Rightarrow>
   string list \<Rightarrow> prepared res" where
  "plan_run m opts g environ programs scripts ex shown =
     (let output_dir = path_join ''testpy-output'' (m_date m) in
      bind_res (choose_suites m opts g environ) (\<lambda>(suites, asked).
      bind_res (drop_performance m opts g environ suites) (\<lambda>(suite_list, asked').
      bind_res (count_processors m environ) (\<lambda>processors.
      bind_res (make_jobs m opts g output_dir suite_list (runnable_dictionary programs) scripts ex) (\<lambda>(jobs, queued).
        Inr (Go \<lparr>d_globals = g, d_environ = environ, d_output_dir = output_dir, d_processors = processors,
                 d_jobs = jobs, d_queued = queued\<rparr> (shown @ asked @ asked')))))))"

definition prepare_run :: "machine \<Rightarrow> options \<Rightarrow> prepared res" where
  "prepare_run m opts =
     bind_res (read_waf_config (m_fs m) (m_eval_string m) (m_exec m) (m_eval_item m) (m_platform m) opts default_globals)
     (\<lambda>(g, shown).
        let build = waf_command (m_platform m) opts;
            waf_code = (if o_nowaf opts then 0 else fst (m_execute m (m_environ m) build (m_cwd m)));
            shown1 = shown @ (if \<not> o_nowaf opts \<and> o_verbose opts then [''Building: '' @ build] else [])
        in if waf_code \<noteq> 0 then Inr (Stop (Some waf_code) (shown1 @ [''Waf died. Not running tests'']))
           else
             bind_res (make_paths (m_platform m) opts g (m_environ m)) (\<lambda>(environ, path_lines).
             let status_file = path_join (NS3_BUILDDIR g) ''build-status.py''
             in if m_fs m status_file = None then Inl (SystemExit 2)
                else
                  bind_res (get_list_from_file (m_fs m) (m_eval_strings m) status_file ''ns3_runnable_programs'') (\<lambda>programs.
                  bind_res (get_list_from_file (m_fs m) (m_eval_strings m) status_file ''ns3_runnable_scripts'') (\<lambda>scripts.
                  bind_res (find_examples m g) (\<lambda>ex.
                    let environ' = dict_put ''NS_LOG'' [] environ
                    in bind_res (answer_queries m opts g environ' ex) (\<lambda>answers.
                         if o_kinds opts \<or> o_list opts then Inr (Stop None (shown1 @ path_lines @ answers))
                         else plan_run m opts g environ' programs scripts ex (shown1 @ path_lines)))))))"

text \<open>After the workers: reports, notes, and the exit code.\<close>

definition disabled_notes :: "globals \<Rightarrow> string list" where
  "disabled_notes g =
     (if \<not> ENABLE_TESTS g \<or> \<not> ENABLE_EXAMPLES g then
        [[]] @
        (if \<not> ENABLE_TESTS g then
           [''***  Note: ns-3 tests are currently disabled. Enable them by adding'',
            ''***  \"--enable-tests\" to ./waf configure or modifying your .ns3rc file.'', []] else []) @
        (if \<not> ENABLE_EXAMPLES g then
           [''***  Note: ns-3 examples are currently disabled. Enable them by adding'',
            ''***  \"--enable-examples\" to ./waf configure or modifying your .ns3rc file.'', []] else [])
      else [])"

definition valgrind_notes :: "options \<Rightarrow> globals \<Rightarrow> string list" where
  "valgrind_notes opts g =
     (if o_valgrind opts \<and> \<not> VALGRIND_FOUND g then
        [[], ''***  Note: you are trying to use valgrind, but valgrind could not be found'',
         ''***  on your machine.  All tests and examples will crash or be skipped.'', []]
      else [])"

record ended =
  e_code :: int
  e_statuses :: "string list"
  e_summary :: "string list"
  e_written :: "(string \<times> string) list"
  e_removed :: "string option"

definition write_report :: "string \<Rightarrow> (xml \<Rightarrow> string res) \<Rightarrow> string \<Rightarrow> (string \<times> string) list res" where
  "write_report path translate results =
     (if path = [] then Inr [] else map_value (\<lambda>text. [(path, text)]) (bind_res (parse_xml results) translate))"

definition finish_run :: "options \<Rightarrow> dispatch \<Rightarrow> file_system \<Rightarrow> job list \<Rightarrow> ended res" where
  "finish_run opts d files js =
     bind_res (collect_jobs opts files js) (\<lambda>t.
     bind_res (write_report (o_html opts) translate_to_html (results_file t)) (\<lambda>html.
     bind_res (write_report (o_text opts) translate_to_text (results_file t)) (\<lambda>text_report.
       Inr \<lparr>e_code = exit_status t (length (d_jobs d)),
            e_statuses = printed t,
            e_summary = [summary_line t (length (d_jobs d))] @ disabled_notes (d_globals d) @
              valgrind_notes opts (d_globals d),
            e_written = html @ text_report @ (if o_xml opts \<noteq> [] then [(o_xml opts, results_file t)] else []),
            e_removed = (if o_retain opts then None else Some (d_output_dir d))\<rparr>)))"

text \<open>
  A run of the driver: which order the workers give the results back in is open, and so are
  the files the test programs leave behind (\<open>files\<close>).  The lines that the workers print mix
  with those of the main thread.
\<close>

inductive run_tests :: "machine \<Rightarrow> options \<Rightarrow> file_system \<Rightarrow> int option \<Rightarrow> string list \<Rightarrow> bool"
  for m opts files where
  Early: "prepare_run m opts = Inr (Stop code lines) \<Longrightarrow> run_tests m opts files code lines"
| Late: "prepare_run m opts = Inr (Go d lines) \<Longrightarrow>
    pool_reach opts (perform_job opts (m_execute m (d_environ d)) (d_globals d)) (spin_up (d_processors d) (d_jobs d)) s \<Longrightarrow>
    all_joined s \<Longrightarrow> finish_run opts d files (collected s) = Inr e \<Longrightarrow>
    mixed \<in> shuffles (d_queued d @ e_statuses e) (console s) \<Longrightarrow>
    run_tests m opts files (Some (e_code e)) (lines @ mixed @ e_summary e)"

text \<open>The process exit code: \<open>sys.exit(None)\<close> is 0.\<close>

definition process_exit :: "int option \<Rightarrow> int" where
  "process_exit code = (case code of None \<Rightarrow> 0 | Some c \<Rightarrow> c)"

subsection \<open>Which jobs there are\<close>

lemma suite_jobs_facts:
  "j \<in> set (suite_jobs m opts g dir suites) \<Longrightarrow>
   \<not> is_break j \<and> \<not> is_any_example j \<and> is_skip j = suite_skipped opts g (display_name j) \<and>
   display_name j \<noteq> [] \<and> display_name j \<in> strip ` set suites"
  by (auto simp: suite_jobs_def suite_job_def new_job_def is_any_example_def)

lemma try_example_facts:
  "try_example m opts g dir programs entry = Inr js \<Longrightarrow> j \<in> set js \<Longrightarrow>
   \<not> is_break j \<and> is_example j \<and> \<not> is_pyexample j \<and> (is_skip j \<longrightarrow> o_valgrind opts) \<and>
   dict_has programs (bare_name (display_name j))"
  by (auto simp: try_example_def example_job_def new_job_def bind_res_eq_Inr map_value_eq_Inr split: prod.splits if_splits)

lemma try_pyexample_facts:
  "try_pyexample m opts g dir scripts entry = Inr js \<Longrightarrow> j \<in> set js \<Longrightarrow>
   \<not> is_break j \<and> is_pyexample j \<and> \<not> is_example j \<and> is_skip j = (o_valgrind opts \<or> ENABLE_PYTHON_BINDINGS g = Some False) \<and>
   bare_name (display_name j) \<in> set scripts"
  by (cases "ENABLE_PYTHON_BINDINGS g")
    (auto simp: try_pyexample_def pyexample_job_def new_job_def bind_res_eq_Inr split: prod.splits if_splits)

lemma traverse_res_mem:
  "traverse_res f xs = Inr ys \<Longrightarrow> y \<in> set ys \<Longrightarrow> \<exists>x \<in> set xs. f x = Inr y"
  by (induction xs arbitrary: ys) (auto simp: bind_res_eq_Inr map_value_eq_Inr)

lemma example_jobs_facts:
  assumes "example_jobs m opts g dir programs ex = Inr (js, msgs)" "j \<in> set js"
  shows "\<not> is_break j \<and> is_example j \<and> \<not> is_pyexample j \<and>
    (is_skip j \<longrightarrow> nothing_named opts \<and> o_valgrind opts) \<and>
    (nothing_named opts \<and> o_constrain opts \<in> {[], ''example''} \<and> ENABLE_EXAMPLES g \<or> o_example opts \<noteq> [])"
proof (cases "nothing_named opts")
  case True
  with assms obtain jss where jss: "traverse_res (try_example m opts g dir programs) (example_tests ex) = Inr jss"
    "js = concat jss" "o_constrain opts \<in> {[], ''example''}" "ENABLE_EXAMPLES g"
    by (auto simp: example_jobs_def queued_examples_def map_value_eq_Inr split: if_splits)
  from assms(2) jss(2) obtain js' where js': "js' \<in> set jss" "j \<in> set js'" by auto
  from traverse_res_mem[OF jss(1) js'(1)] obtain entry where "try_example m opts g dir programs entry = Inr js'" by blast
  from try_example_facts[OF this js'(2)] True jss(3,4) show ?thesis by simp
next
  case False
  with assms show ?thesis
    by (auto simp: example_jobs_def example_job_def new_job_def Let_def split: if_splits option.splits)
qed

lemma pyexample_jobs_facts:
  assumes "pyexample_jobs m opts g dir scripts ex = Inr (js, msgs)" "j \<in> set js"
  shows "\<not> is_break j \<and> is_pyexample j \<and> \<not> is_example j \<and>
    (is_skip j \<longleftrightarrow> nothing_named opts \<and> (o_valgrind opts \<or> ENABLE_PYTHON_BINDINGS g = Some False)) \<and>
    (nothing_named opts \<and> o_constrain opts \<in> {[], ''pyexample''} \<and> ENABLE_EXAMPLES g \<or> o_pyexample opts \<noteq> [])"
proof (cases "nothing_named opts")
  case True
  with assms obtain jss where jss: "traverse_res (try_pyexample m opts g dir scripts) (python_tests ex) = Inr jss"
    "js = concat jss" "o_constrain opts \<in> {[], ''pyexample''}" "ENABLE_EXAMPLES g"
    by (auto simp: pyexample_jobs_def queued_examples_def map_value_eq_Inr split: if_splits)
  from assms(2) jss(2) obtain js' where js': "js' \<in> set jss" "j \<in> set js'" by auto
  from traverse_res_mem[OF jss(1) js'(1)] obtain entry where "try_pyexample m opts g dir scripts entry = Inr js'" by blast
  from try_pyexample_facts[OF this js'(2)] True jss(3,4) show ?thesis by simp
next
  case False
  with assms show ?thesis
    by (auto simp: pyexample_jobs_def pyexample_job_def new_job_def split: if_splits)
qed

lemma make_jobs_facts:
  assumes "make_jobs m opts g dir suite_list programs scripts ex = Inr (jobs, queued)" "j \<in> set jobs"
  shows "\<not> is_break j \<and>
    (\<not> is_any_example j \<longrightarrow> display_name j \<in> strip ` set suite_list \<and> is_skip j = suite_skipped opts g (display_name j)) \<and>
    (is_example j \<longrightarrow> o_example opts \<noteq> [] \<or>
       nothing_named opts \<and> o_constrain opts \<in> {[], ''example''} \<and> ENABLE_EXAMPLES g) \<and>
    (is_pyexample j \<longrightarrow> o_pyexample opts \<noteq> [] \<or>
       nothing_named opts \<and> o_constrain opts \<in> {[], ''pyexample''} \<and> ENABLE_EXAMPLES g) \<and>
    (is_pyexample j \<and> nothing_named opts \<and> (o_valgrind opts \<or> ENABLE_PYTHON_BINDINGS g = Some False) \<longrightarrow> is_skip j)"
proof -
  from assms(1) obtain cpp cm py pm where
    cpp: "example_jobs m opts g dir programs ex = Inr (cpp, cm)" and
    py: "pyexample_jobs m opts g dir scripts ex = Inr (py, pm)" and
    jobs: "jobs = suite_jobs m opts g dir suite_list @ cpp @ py"
    by (auto simp: make_jobs_def Let_def bind_res_eq_Inr)
  from assms(2) jobs consider "j \<in> set (suite_jobs m opts g dir suite_list)" | "j \<in> set cpp" | "j \<in> set py" by auto
  then show ?thesis
  proof cases
    case 1
    from suite_jobs_facts[OF this] show ?thesis by (simp add: is_any_example_def)
  next
    case 2
    from example_jobs_facts[OF cpp this] show ?thesis by (auto simp: is_any_example_def)
  next
    case 3
    from pyexample_jobs_facts[OF py this] show ?thesis by (auto simp: is_any_example_def)
  qed
qed

text \<open>
  The examples to run, and whether their jobs are to be skipped: those of the lists that are
  runnable and have a true condition when nothing is named, else the one that is named.
\<close>

definition planned_examples ::
  "machine \<Rightarrow> options \<Rightarrow> globals \<Rightarrow> (string, string) dict \<Rightarrow> examples \<Rightarrow> (string \<times> bool) list" where
  "planned_examples m opts g programs ex =
     (if nothing_named opts then
        if o_constrain opts \<in> {[], ''example''} \<and> ENABLE_EXAMPLES g then
          map (\<lambda>(test, do_run, do_valgrind_run). (test, o_valgrind opts \<and> m_eval_cond m g do_valgrind_run = Inr False))
            (filter (\<lambda>(test, do_run, do_valgrind_run). dict_has programs (bare_name test) \<and> m_eval_cond m g do_run = Inr True)
              (example_tests ex))
        else []
      else if o_example opts = [] then []
      else case map_of programs (program_name g (o_example opts)) of
             None \<Rightarrow> [] | Some path \<Rightarrow> [(abspath (m_cwd m) path, False)])"

definition planned_pyexamples ::
  "machine \<Rightarrow> options \<Rightarrow> globals \<Rightarrow> string list \<Rightarrow> examples \<Rightarrow> (string \<times> bool) list" where
  "planned_pyexamples m opts g scripts ex =
     (if nothing_named opts then
        if o_constrain opts \<in> {[], ''pyexample''} \<and> ENABLE_EXAMPLES g then
          map (\<lambda>(test, do_run). (test, o_valgrind opts \<or> ENABLE_PYTHON_BINDINGS g = Some False))
            (filter (\<lambda>(test, do_run). bare_name test \<in> set scripts \<and> m_eval_cond m g do_run = Inr True) (python_tests ex))
        else []
      else if o_pyexample opts \<noteq> [] \<and> basename (o_pyexample opts) \<in> set scripts then [(o_pyexample opts, False)]
      else [])"

abbreviation job_outline :: "job \<Rightarrow> bool \<times> bool \<times> string \<times> string \<times> string \<times> bool" where
  "job_outline j \<equiv> (is_example j, is_pyexample j, display_name j, shell_command j, cwd j, is_skip j)"

lemma traverse_listed:
  assumes "\<And>x. case f x of Inl e \<Rightarrow> P e | Inr js \<Rightarrow> map h js = (if Q x then [k x] else [])"
  shows "case traverse_res f xs of Inl e \<Rightarrow> P e | Inr jss \<Rightarrow> map h (concat jss) = map k (filter Q xs)"
proof (induction xs)
  case (Cons x xs)
  show ?case using Cons assms[of x] by (cases "f x"; cases "traverse_res f xs") auto
qed simp

lemma listed_examples:
  "case traverse_res (try_example m opts g dir programs) entries of
     Inl e \<Rightarrow> \<exists>cond. m_eval_cond m g cond = Inl e
   | Inr jss \<Rightarrow> map job_outline (concat jss) =
       map (\<lambda>(test, do_run, do_valgrind_run).
           (True, False, test, test, dir, o_valgrind opts \<and> m_eval_cond m g do_valgrind_run = Inr False))
         (filter (\<lambda>(test, do_run, do_valgrind_run). dict_has programs (bare_name test) \<and> m_eval_cond m g do_run = Inr True) entries)"
proof (rule traverse_listed)
  fix entry :: "string \<times> string \<times> string"
  obtain test do_run do_valgrind_run where e: "entry = (test, do_run, do_valgrind_run)" by (cases entry)
  show "case try_example m opts g dir programs entry of
      Inl e \<Rightarrow> \<exists>cond. m_eval_cond m g cond = Inl e
    | Inr js \<Rightarrow> map job_outline js =
        (if case entry of (test, do_run, do_valgrind_run) \<Rightarrow> dict_has programs (bare_name test) \<and> m_eval_cond m g do_run = Inr True
         then [case entry of (test, do_run, do_valgrind_run) \<Rightarrow>
                 (True, False, test, test, dir, o_valgrind opts \<and> m_eval_cond m g do_valgrind_run = Inr False)]
         else [])"
    by (cases "m_eval_cond m g do_run"; cases "m_eval_cond m g do_valgrind_run")
      (auto simp: e try_example_def example_job_def new_job_def)
qed

text \<open>A condition raises, or the configuration does not say whether there are Python bindings.\<close>

definition may_raise_listed :: "machine \<Rightarrow> globals \<Rightarrow> py_error \<Rightarrow> bool" where
  "may_raise_listed m g e \<longleftrightarrow>
     (\<exists>cond. m_eval_cond m g cond = Inl e) \<or> e = NameError \<and> ENABLE_PYTHON_BINDINGS g = None"

lemma listed_pyexamples:
  "case traverse_res (try_pyexample m opts g dir scripts) entries of
     Inl e \<Rightarrow> may_raise_listed m g e
   | Inr jss \<Rightarrow> map job_outline (concat jss) =
       map (\<lambda>(test, do_run). (False, True, test, test, dir, o_valgrind opts \<or> ENABLE_PYTHON_BINDINGS g = Some False))
         (filter (\<lambda>(test, do_run). bare_name test \<in> set scripts \<and> m_eval_cond m g do_run = Inr True) entries)"
proof (rule traverse_listed)
  fix entry :: "string \<times> string"
  obtain test do_run where e: "entry = (test, do_run)" by (cases entry)
  show "case try_pyexample m opts g dir scripts entry of
      Inl e \<Rightarrow> may_raise_listed m g e
    | Inr js \<Rightarrow> map job_outline js =
        (if case entry of (test, do_run) \<Rightarrow> bare_name test \<in> set scripts \<and> m_eval_cond m g do_run = Inr True
         then [case entry of (test, do_run) \<Rightarrow> (False, True, test, test, dir, o_valgrind opts \<or> ENABLE_PYTHON_BINDINGS g = Some False)]
         else [])"
    by (cases "m_eval_cond m g do_run"; cases "ENABLE_PYTHON_BINDINGS g") (auto simp: may_raise_listed_def e try_pyexample_def pyexample_job_def new_job_def)
qed

lemma example_jobs_planned:
  "case example_jobs m opts g dir programs ex of
     Inl e \<Rightarrow> nothing_named opts \<and> ENABLE_EXAMPLES g \<and> may_raise_listed m g e
   | Inr (jobs, messages) \<Rightarrow>
       map job_outline jobs = map (\<lambda>(test, skip). (True, False, test, test, dir, skip)) (planned_examples m opts g programs ex)"
  using listed_examples[where m = m and opts = opts and g = g and dir = dir and programs = programs and entries = "example_tests ex"]
  by (cases "traverse_res (try_example m opts g dir programs) (example_tests ex)") (auto simp: may_raise_listed_def example_jobs_def planned_examples_def queued_examples_def example_job_def new_job_def Let_def comp_def
      case_prod_unfold split: sum.splits option.splits)

lemma pyexample_jobs_planned:
  "case pyexample_jobs m opts g dir scripts ex of
     Inl e \<Rightarrow> nothing_named opts \<and> ENABLE_EXAMPLES g \<and> may_raise_listed m g e
   | Inr (jobs, messages) \<Rightarrow>
       map job_outline jobs = map (\<lambda>(test, skip). (False, True, test, test, dir, skip)) (planned_pyexamples m opts g scripts ex)"
  using listed_pyexamples[where m = m and opts = opts and g = g and dir = dir and scripts = scripts and entries = "python_tests ex"]
  by (cases "traverse_res (try_pyexample m opts g dir scripts) (python_tests ex)") (auto simp: pyexample_jobs_def planned_pyexamples_def queued_examples_def pyexample_job_def new_job_def comp_def
      case_prod_unfold split: sum.splits)

text \<open>
  C17: Exactly which jobs a run dispatches, in which order, with which command and directory,
  and which of them it skips: every chosen suite with a name, skipped by the valgrind and NSC
  lists; when nothing is named and the constraint and the configuration allow them, every listed
  example that is runnable and whose condition holds, a C++ one skipped if its valgrind
  condition fails under valgrind, a Python one under valgrind or without bindings; when
  something is named, only the named example or Python example, if it is runnable, never
  skipped. Making the jobs raises only when nothing is named: what a condition raises, or
  NameError if the configuration does not tell whether there are bindings.
\<close>

theorem dispatched_jobs:
  "case make_jobs m opts g dir suite_list programs scripts ex of
     Inl e \<Rightarrow> nothing_named opts \<and> ENABLE_EXAMPLES g \<and> may_raise_listed m g e
   | Inr (jobs, queued) \<Rightarrow>
       map job_outline jobs =
         map (\<lambda>test. (False, False, test, runner_command g (suite_arguments opts test), m_cwd m, suite_skipped opts g test))
           (filter (\<lambda>test. test \<noteq> []) (map strip suite_list)) @
         map (\<lambda>(test, skip). (True, False, test, test, dir, skip)) (planned_examples m opts g programs ex) @
         map (\<lambda>(test, skip). (False, True, test, test, dir, skip)) (planned_pyexamples m opts g scripts ex) \<and>
       list_all (\<lambda>j. \<not> is_break j) jobs"
proof (cases "make_jobs m opts g dir suite_list programs scripts ex")
  case (Inl e)
  then show ?thesis
    using example_jobs_planned[where m = m and opts = opts and g = g and dir = dir and programs = programs and ex = ex] pyexample_jobs_planned[where m = m and opts = opts and g = g and dir = dir and scripts = scripts and ex = ex]
    by (auto simp: make_jobs_def Let_def bind_res_eq_Inl)
next
  case (Inr r)
  then obtain jobs queued cpp cm py pm where
    r: "r = (jobs, queued)" "jobs = suite_jobs m opts g dir suite_list @ cpp @ py" and
    "example_jobs m opts g dir programs ex = Inr (cpp, cm)" "pyexample_jobs m opts g dir scripts ex = Inr (py, pm)"
    by (auto simp: make_jobs_def Let_def bind_res_eq_Inr)
  moreover have "list_all (\<lambda>j. \<not> is_break j) jobs"
    using make_jobs_facts Inr r(1) by (simp add: list_all_iff)
  ultimately show ?thesis
    using Inr example_jobs_planned[where m = m and opts = opts and g = g and dir = dir and programs = programs and ex = ex] pyexample_jobs_planned[where m = m and opts = opts and g = g and dir = dir and scripts = scripts and ex = ex]
    by (simp add: suite_jobs_def suite_job_def new_job_def comp_def)
qed

text \<open>Performance suites.\<close>

lemma without_performance_set:
  "distinct suites \<Longrightarrow> set (without_performance suites perf) = set suites - set perf \<and>
   distinct (without_performance suites perf)"
  unfolding without_performance_def
proof (induction perf arbitrary: suites)
  case (Cons p perf)
  then have "distinct (if p \<in> set suites then remove1 p suites else suites)" by simp
  from Cons.IH[OF this] Cons.prems show ?case by auto
qed simp

theorem performance_suites_excluded:
  assumes "o_constrain opts \<noteq> ''performance''"
    and "ask_runner m opts g environ '' --print-test-name-list --test-type=performance'' = Inr (tests, msgs)"
    and "drop_performance m opts g environ suites = Inr (suite_list, msgs')" "distinct suites"
  shows "set suite_list = set suites - set (split_on newline tests)"
  using assms without_performance_set[OF assms(4)] by (auto simp: drop_performance_def map_value_eq_Inr)

text \<open>
  A performance suite asked for by name, without \<open>--constrain=performance\<close>, is dropped as
  well: there is no job, and a run without jobs counts as a success.
\<close>

theorem named_performance_suite_dropped:
  assumes "o_constrain opts \<noteq> ''performance''" "o_suite opts \<noteq> []" "o_example opts = []" "o_pyexample opts = []"
    and "newline \<notin> set (o_suite opts)"
    and "ask_runner m opts g environ '' --print-test-name-list'' = Inr (names, msgs)"
    and "ask_runner m opts g environ '' --print-test-name-list --test-type=performance'' = Inr (tests, msgs')"
    and "o_suite opts \<in> set (split_on newline names)" "o_suite opts \<in> set (split_on newline tests)"
  shows "\<exists>suites suite_list queued. choose_suites m opts g environ = Inr (suites, msgs) \<and>
    drop_performance m opts g environ suites = Inr (suite_list, msgs') \<and>
    make_jobs m opts g dir suite_list programs scripts ex = Inr ([], queued) \<and> exit_status start_tally 0 = 0"
proof -
  have split: "split_on newline (ln (o_suite opts)) = [o_suite opts, []]"
    using split_on_append[OF assms(5), of "[]"] by (simp add: ln_def)
  have choose: "choose_suites m opts g environ = Inr ([o_suite opts, []], msgs)"
    using assms(2,6,8) split by (simp add: choose_suites_def)
  have "set (without_performance [o_suite opts, []] (split_on newline tests)) \<subseteq> {[]}"
    using without_performance_set[of "[o_suite opts, []]" "split_on newline tests"] assms(2,9) by auto
  then have empty: "suite_jobs m opts g dir (without_performance [o_suite opts, []] (split_on newline tests)) = []"
    by (auto simp: suite_jobs_def filter_empty_conv strip_def)
  have "drop_performance m opts g environ [o_suite opts, []] =
      Inr (without_performance [o_suite opts, []] (split_on newline tests), msgs')"
    using assms(1,7) by (simp add: drop_performance_def)
  moreover have "make_jobs m opts g dir (without_performance [o_suite opts, []] (split_on newline tests)) programs scripts ex =
      Inr ([], [])"
    using assms(2-4) by (simp add: make_jobs_def empty example_jobs_def pyexample_jobs_def nothing_named_def queue_messages_def)
  ultimately show ?thesis using choose by (auto simp: exit_status_def start_tally_def)
qed

subsection \<open>The exit code\<close>

lemma plan_run_jobs:
  assumes "plan_run m opts g environ programs scripts ex shown = Inr (Go d lines)" "j \<in> set (d_jobs d)"
  shows "\<not> is_break j"
  using assms make_jobs_facts by (fastforce simp: plan_run_def Let_def bind_res_eq_Inr)

lemma prepare_run_jobs:
  assumes "prepare_run m opts = Inr (Go d lines)" "j \<in> set (d_jobs d)"
  shows "\<not> is_break j"
  using assms plan_run_jobs
  by (auto simp: prepare_run_def Let_def bind_res_eq_Inr case_prod_unfold split: if_splits)

text \<open>
  C1: A run of the test driver that gets as far as its workers ends with code 0 exactly when
  every job it collected passed or was skipped and none was interrupted; without an interrupt
  this is so exactly when every dispatched job, run on its own, passes or is skipped, and the
  printed status lines are those of the dispatched jobs, whatever the interleaving of the
  workers.
\<close>

theorem exit_code_meaning:
  assumes "prepare_run m opts = Inr (Go d lines)"
    and "PYTHON (d_globals d) \<noteq> []" "0 < d_processors d"
    and "pool_reach opts (perform_job opts (m_execute m (d_environ d)) (d_globals d))
           (spin_up (d_processors d) (d_jobs d)) s" "all_joined s"
    and "finish_run opts d files (collected s) = Inr e"
  shows "(e_code e = 0 \<longleftrightarrow> (\<forall>j \<in> set (collected s). \<not> is_break j \<and> job_status j \<in> {PASS, SKIP})) \<and>
    (\<not> thread_exit s \<longrightarrow>
       (e_code e = 0 \<longleftrightarrow> (\<forall>j \<in> set (d_jobs d).
          job_status (job_result opts (m_execute m (d_environ d)) (d_globals d) j) \<in> {PASS, SKIP})) \<and>
       mset (e_statuses e) = image_mset (\<lambda>j. status_line opts
         (job_result opts (m_execute m (d_environ d)) (d_globals d) j)) (mset (d_jobs d)))"
proof -
  let ?result = "job_result opts (m_execute m (d_environ d)) (d_globals d)"
  have nb: "\<forall>j \<in> set (d_jobs d). \<not> is_break j" using prepare_run_jobs[OF assms(1)] by blast
  note pool = pool_facts[OF assms(2,3) nb assms(4,5)]
  have len: "length (collected s) = length (d_jobs d)"
    using arg_cong[OF conjunct1[OF pool], of size] by simp
  obtain t where t: "collect_jobs opts files (collected s) = Inr t" "e_code e = exit_status t (length (d_jobs d))"
    "e_statuses e = printed t"
    using assms(6) by (auto simp: finish_run_def bind_res_eq_Inr)
  note counted = collect_facts[OF t(1)]
  have first: "e_code e = 0 \<longleftrightarrow> (\<forall>j \<in> set (collected s). \<not> is_break j \<and> job_status j \<in> {PASS, SKIP})"
    using counted t(2) len by simp
  have nbr: "\<not> is_break (?result j)" if "j \<in> set (d_jobs d)" for j
    using that nb by (auto simp: job_result_def dest: perform_job_keeps split: sum.splits)
  have "(e_code e = 0 \<longleftrightarrow> (\<forall>j \<in> set (d_jobs d). job_status (?result j) \<in> {PASS, SKIP})) \<and>
      mset (e_statuses e) = image_mset (\<lambda>j. status_line opts (?result j)) (mset (d_jobs d))"
    if "\<not> thread_exit s"
  proof -
    have eq: "mset (collected s) = image_mset ?result (mset (d_jobs d))" using pool that by blast
    then have set_eq: "set (collected s) = ?result ` set (d_jobs d)" by (metis set_image_mset set_mset_mset)
    have all: "filter (\<lambda>j. \<not> is_break j) (collected s) = collected s"
      using set_eq nbr by (intro filter_True) auto
    have "mset (e_statuses e) = image_mset (status_line opts) (mset (collected s))"
      using counted t(3) all by simp
    then show ?thesis using first set_eq nbr eq by (auto simp: image_mset.compositionality comp_def)
  qed
  with first show ?thesis by blast
qed

subsection \<open>A small installation\<close>

text \<open>A configured build with one suite in its test runner, for the examples below.\<close>

definition demo_machine :: machine where
  "demo_machine =
     \<lparr>m_fs = [''.lock-waf_linux2_build'' \<mapsto> ln ''top_dir = t'' @ ln ''out_dir = b'',
              ''b/c4che/_cache.py'' \<mapsto> ln ''PYTHON = p'',
              ''b/build-status.py'' \<mapsto> ln ''ns3_runnable_programs = []'' @ ln ''ns3_runnable_scripts = []''],
      m_platform = ''linux2'', m_cwd = ''/r'', m_environ = [], m_date = ''now'', m_sysconf = Some 2,
      m_execute = (\<lambda>env cmd dir. (0, (if contains ''performance'' cmd then ''x'' else ''s''), [], 1)),
      m_eval_string = Inr, m_eval_strings = (\<lambda>e. Inr []), m_eval_cpp = (\<lambda>e. Inr []), m_eval_py = (\<lambda>e. Inr []),
      m_exec = (\<lambda>line g. Inr (g\<lparr>PYTHON := [''python''], NS3_ENABLED_MODULES := Some [], NS3_MODULE_PATH := Some []\<rparr>)), m_eval_item = (\<lambda>item g. Inr []),
      m_eval_cond = (\<lambda>g cond. Inr True)\<rparr>"

lemma collect_total:
  assumes "\<And>path. files path \<noteq> None"
  shows "\<exists>t. collect_jobs opts files js = Inr t"
proof -
  have "\<exists>t'. fold_res (collect_job opts files) t js = Inr t'" for t
  proof (induction js arbitrary: t)
    case (Cons j js)
    obtain t1 where "collect_job opts files t j = Inr t1"
      using collect_job_raises[of opts files t j] assms by (cases "collect_job opts files t j") auto
    with Cons.IH[of t1] show ?case by simp
  qed simp
  from this[of start_tally] obtain t where "fold_res (collect_job opts files) start_tally js = Inr t" by blast
  then show ?thesis by (simp add: collect_jobs_def)
qed

theorem exit_code_meaning_witness:
  "\<exists>d lines s e. prepare_run demo_machine default_options = Inr (Go d lines) \<and> length (d_jobs d) = 1 \<and>
     all_joined s \<and> finish_run default_options d (\<lambda>path. Some []) (collected s) = Inr e \<and>
     (e_code e = 0 \<longleftrightarrow> (\<forall>j \<in> set (collected s). \<not> is_break j \<and> job_status j \<in> {PASS, SKIP})) \<and>
     (\<not> thread_exit s \<longrightarrow>
       (e_code e = 0 \<longleftrightarrow> (\<forall>j \<in> set (d_jobs d).
          job_status (job_result default_options (m_execute demo_machine (d_environ d)) (d_globals d) j) \<in> {PASS, SKIP})) \<and>
       mset (e_statuses e) = image_mset (\<lambda>j. status_line default_options
         (job_result default_options (m_execute demo_machine (d_environ d)) (d_globals d) j)) (mset (d_jobs d)))"
proof -
  have "case prepare_run demo_machine default_options of
          Inr (Go d lines) \<Rightarrow> length (d_jobs d) = 1 \<and> PYTHON (d_globals d) = [''python''] \<and> d_processors d = 2
        | _ \<Rightarrow> False"
    by code_simp
  then obtain d lines where d: "prepare_run demo_machine default_options = Inr (Go d lines)" "length (d_jobs d) = 1"
    "PYTHON (d_globals d) = [''python'']" "d_processors d = 2"
    by (auto split: sum.splits prepared.splits)
  let ?perform = "perform_job default_options (m_execute demo_machine (d_environ d)) (d_globals d)"
  have g: "d_globals d = (d_globals d)\<lparr>PYTHON := ''python'' # []\<rparr>" using d(3) by simp
  have nb: "\<And>j. j \<in> set (d_jobs d) \<Longrightarrow> \<not> is_break j" using prepare_run_jobs[OF d(1)] by blast
  have "pool_reach default_options
      (perform_job default_options (m_execute demo_machine (d_environ d)) ((d_globals d)\<lparr>PYTHON := ''python'' # []\<rparr>))
      (spin_up (d_processors d) (d_jobs d)) (spin_up (d_processors d) (d_jobs d))"
    by (rule pool_reach.Start)
  from driver.completes[OF this nb] d(4) g obtain s where
    s: "pool_reach default_options ?perform (spin_up (d_processors d) (d_jobs d)) s" "all_joined s" by auto
  obtain t where "collect_jobs default_options (\<lambda>path. Some []) (collected s) = Inr t"
    using collect_total[of "\<lambda>path. Some []"] by blast
  then obtain e where e: "finish_run default_options d (\<lambda>path. Some []) (collected s) = Inr e"
    by (simp add: finish_run_def write_report_def default_options_def)
  have "PYTHON (d_globals d) \<noteq> []" "0 < d_processors d" using d(3,4) by simp_all
  from exit_code_meaning[OF d(1) this s e] d(1,2) s(2) e show ?thesis by blast
qed

text \<open>One suite that can run and one that cannot, one example that is runnable and one that is not\<close>

theorem dispatched_jobs_witness:
  "map_value (map display_name \<circ> fst) (make_jobs demo_machine default_options (default_globals\<lparr>ENABLE_PYTHON_BINDINGS := Some True\<rparr>) ''o''
       [''routing-click'', ''nsc-tcp-loss''] [(''first'', ''b/first'')] []
       (no_examples\<lparr>example_tests := [(''first --x'', ''True'', ''True''), (''second'', ''True'', ''True'')]\<rparr>)) =
     Inr [''routing-click'', ''nsc-tcp-loss'', ''first --x'']"
proof -
  let ?g = "default_globals\<lparr>ENABLE_PYTHON_BINDINGS := Some True\<rparr>"
  let ?ex = "no_examples\<lparr>example_tests := [(''first --x'', ''True'', ''True''), (''second'', ''True'', ''True'')]\<rparr>"
  let ?r = "make_jobs demo_machine default_options ?g ''o'' [''routing-click'', ''nsc-tcp-loss''] [(''first'', ''b/first'')] [] ?ex"
  have "planned_examples demo_machine default_options ?g [(''first'', ''b/first'')] ?ex = [(''first --x'', False)]"
    "planned_pyexamples demo_machine default_options ?g [] ?ex = []"
    "filter (\<lambda>test. test \<noteq> []) (map strip [''routing-click'', ''nsc-tcp-loss'']) = [''routing-click'', ''nsc-tcp-loss'']"
    by code_simp+
  moreover have "\<not> may_raise_listed demo_machine ?g e" for e by (simp add: may_raise_listed_def demo_machine_def)
  ultimately obtain jobs queued where "?r = Inr (jobs, queued)"
    "map job_outline jobs = [
       (False, False, ''routing-click'', runner_command ?g (suite_arguments default_options ''routing-click''), m_cwd demo_machine,
         suite_skipped default_options ?g ''routing-click''),
       (False, False, ''nsc-tcp-loss'', runner_command ?g (suite_arguments default_options ''nsc-tcp-loss''), m_cwd demo_machine,
         suite_skipped default_options ?g ''nsc-tcp-loss''),
       (True, False, ''first --x'', ''first --x'', ''o'', False)]"
    using dispatched_jobs[where m = demo_machine and opts = default_options and g = ?g and dir = "''o''" and
        suite_list = "[''routing-click'', ''nsc-tcp-loss'']" and programs = "[(''first'', ''b/first'')]" and scripts = "[]" and ex = ?ex]
    by (auto split: sum.splits)
  then show ?thesis by (auto simp: map_eq_Cons_conv)
qed

theorem performance_suites_excluded_witness:
  "set [''s''] = set [''x'', ''s''] - set (split_on newline ''x'')"
proof -
  have ask: "ask_runner demo_machine default_options default_globals [] '' --print-test-name-list --test-type=performance'' = Inr (''x'', [])"
    by code_simp
  have drop: "drop_performance demo_machine default_options default_globals [] [''x'', ''s''] = Inr ([''s''], [])"
    by code_simp
  show ?thesis by (rule performance_suites_excluded[OF _ ask drop]) (simp_all add: default_options_def)
qed

theorem named_performance_suite_dropped_witness:
  "\<exists>suites suite_list queued.
    choose_suites (demo_machine\<lparr>m_execute := \<lambda>env cmd dir. (0, ''x'', [], 1)\<rparr>) (default_options\<lparr>o_suite := ''x''\<rparr>)
      default_globals [] = Inr (suites, []) \<and>
    drop_performance (demo_machine\<lparr>m_execute := \<lambda>env cmd dir. (0, ''x'', [], 1)\<rparr>) (default_options\<lparr>o_suite := ''x''\<rparr>)
      default_globals [] suites = Inr (suite_list, []) \<and>
    make_jobs (demo_machine\<lparr>m_execute := \<lambda>env cmd dir. (0, ''x'', [], 1)\<rparr>) (default_options\<lparr>o_suite := ''x''\<rparr>)
      default_globals ''o'' suite_list [] [] no_examples = Inr ([], queued) \<and> exit_status start_tally 0 = 0"
  by (rule named_performance_suite_dropped[where names = "''x''" and tests = "''x''"])
    (simp_all add: ask_runner_def run_job_synchronously_def job_command_def leak_checked_def job_messages_def
      default_options_def Let_def)

end
