(* ===== verification/Check_Style.thy ===== *)
theory Check_Style
  imports Cfg_Utils
begin

section \<open>The style checker (\<open>check-style.py\<close>)\<close>

text \<open>
  \<^verbatim>\<open>utils/check-style.py\<close>: it runs \<open>uncrustify\<close> on a file, takes the difference to the
  original, undoes changes of trailing whitespace in it, and applies what is left with
  \<open>patch\<close>.  The two programs and \<open>difflib.unified_diff\<close> are parameters; the parser and writer
  of patches, the whitespace pass and the handling of files are the code's.
\<close>

subsection \<open>The configuration of uncrustify\<close>

text \<open>Each of the three texts starts with an empty line.\<close>

definition config_level0 :: "string list" where
  "config_level0 = [] #
     [''sp_func_proto_paren=Add'', ''sp_func_def_paren=Add'', ''sp_func_call_paren=Add'',
      ''sp_after_semi_for=Ignore'', ''sp_before_sparen=Ignore'', ''sp_type_func=Ignore'',
      ''sp_after_type=Ignore'', ''nl_class_leave_one_liners=True'', ''nl_enum_leave_one_liners=True'',
      ''nl_func_leave_one_liners=True'', ''nl_assign_leave_one_liners=True'',
      ''#nl_collapse_empty_body=False'', ''nl_getset_leave_one_liners=True'',
      ''nl_if_leave_one_liners=True'', ''nl_fdef_brace=Ignore'',
      ''# finally, indentation configuration'', ''indent_with_tabs=0'', ''indent_namespace=false'',
      ''indent_columns=2'', ''indent_brace=2'', ''indent_case_brace=2'', ''indent_class=true'',
      ''indent_class_colon=True'', ''# alignment'', ''indent_align_assign=False'',
      ''align_left_shift=True'', ''# comment reformating disabled'',
      ''cmt_reflow_mode=1 # do not touch comments at all'',
      ''cmt_indent_multi=False # really, do not touch them'']"

definition config_level1 :: "string list" where
  "config_level1 = [] #
     [''# extra spaces here and there'', ''sp_brace_typedef=Add'', ''sp_enum_assign=Add'',
      ''sp_before_sparen=Add'', ''sp_after_semi_for=Add'', ''sp_arith=Add'', ''sp_assign=Add'',
      ''sp_compare=Add'', ''sp_func_class_paren=Add'', ''sp_after_type=Add'', ''sp_type_func=Add'',
      ''sp_angle_paren=Add'']"

definition config_level2 :: "string list" where
  "config_level2 = [] #
     [''nl_collapse_empty_body=False'', ''nl_if_brace=Add'', ''nl_brace_else=Add'',
      ''nl_elseif_brace=Add'', ''nl_else_brace=Add'', ''nl_while_brace=Add'', ''nl_do_brace=Add'',
      ''nl_for_brace=Add'', ''nl_brace_while=Add'', ''nl_switch_brace=Add'', ''nl_after_case=True'',
      ''nl_namespace_brace=Remove'', ''nl_after_brace_open=True'', ''nl_class_leave_one_liners=False'',
      ''nl_enum_leave_one_liners=False'', ''nl_func_leave_one_liners=False'',
      ''nl_if_leave_one_liners=False'', ''nl_class_colon=Ignore'', ''nl_after_access_spec=1'',
      ''nl_after_semicolon=True'', ''pos_class_colon=Lead'', ''pos_class_comma=Trail'',
      ''pos_bool=Lead'', ''nl_class_init_args=Add'', ''nl_template_class=Add'', ''nl_class_brace=Add'',
      ''# does not work very well'', ''nl_func_type_name=Ignore'', ''nl_func_scope_name=Ignore'',
      ''nl_func_type_name_class=Ignore'', ''nl_func_proto_type_name=Ignore'',
      ''# function'' @ [CHR 0x5C] @ ''n('', ''nl_func_paren=Remove'', ''nl_fdef_brace=Add'',
      ''nl_struct_brace=Add'', ''nl_enum_brace=Add'', ''nl_union_brace=Add'', ''mod_full_brace_do=Add'',
      ''mod_full_brace_for=Add'', ''mod_full_brace_if=Add'', ''mod_full_brace_while=Add'',
      ''mod_full_brace_for=Add'', ''mod_remove_extra_semicolon=True'', ''# max code width'',
      ''#code_width=128'', ''#ls_for_split_full=True'', ''#ls_func_split_full=True'']"

definition uncrustify_config_file :: "int \<Rightarrow> string" where
  "uncrustify_config_file level =
     concat (map ln (config_level0 @ (if 1 \<le> level then config_level1 else []) @ (if 2 \<le> level then config_level2 else [])))"

subsection \<open>Patches\<close>

datatype line_kind = Src | Dst | Both

record chunk_line =
  l_kind :: line_kind
  l_text :: string

record chunk =
  src_pos :: nat
  dst_pos :: nat
  c_lines :: "chunk_line list"

record patch =
  p_src :: string
  p_dst :: string
  p_chunks :: "chunk list"

definition is_src :: "chunk_line \<Rightarrow> bool" where "is_src l \<longleftrightarrow> l_kind l = Src \<or> l_kind l = Both"
definition is_dst :: "chunk_line \<Rightarrow> bool" where "is_dst l \<longleftrightarrow> l_kind l = Dst \<or> l_kind l = Both"

definition write_line :: "chunk_line \<Rightarrow> string" where
  "write_line l =
     (case l_kind l of Src \<Rightarrow> ln (CHR ''-'' # l_text l) | Dst \<Rightarrow> ln (CHR ''+'' # l_text l) | Both \<Rightarrow> ln (CHR '' '' # l_text l))"

definition src_len :: "chunk \<Rightarrow> nat" where "src_len c = length (filter is_src (c_lines c))"
definition dst_len :: "chunk \<Rightarrow> nat" where "dst_len c = length (filter is_dst (c_lines c))"

definition chunk_header :: "chunk \<Rightarrow> string" where
  "chunk_header c =
     ''@@ -'' @ show_nat (src_pos c) @ '','' @ show_nat (src_len c) @ '' +'' @ show_nat (dst_pos c) @ '','' @
     show_nat (dst_len c) @ '' @@''"

text \<open>What is written, one string for each \<open>write\<close>.\<close>

definition write_chunk :: "chunk \<Rightarrow> string list" where
  "write_chunk c = ln (chunk_header c) # map write_line (c_lines c)"

definition write_patch :: "patch \<Rightarrow> string list" where
  "write_patch p = ln (''--- '' @ p_src p) # ln (''+++ '' @ p_dst p) # concat (map write_chunk (p_chunks p))"

subsection \<open>Parsing patches\<close>

text \<open>\<open>(.*)$\<close>: the rest of the line, where a newline may only be its last character.\<close>

definition rest_of_line :: "string \<Rightarrow> string option" where
  "rest_of_line s =
     (let t = (if s \<noteq> [] \<and> last s = newline then butlast s else s)
      in if newline \<in> set t then None else Some t)"

definition match_prefix :: "string \<Rightarrow> string \<Rightarrow> string option" where
  "match_prefix p line = (if prefix p line then rest_of_line (drop (length p) line) else None)"

text \<open>\<open>([0-9]+)\<close> followed by a fixed text: the digits and what comes after the text.\<close>

definition match_number :: "string \<Rightarrow> string \<Rightarrow> (string \<times> string) option" where
  "match_number after s =
     (let ds = takeWhile is_digit s; r = dropWhile is_digit s
      in if ds \<noteq> [] \<and> prefix after r then Some (ds, drop (length after) r) else None)"

definition match_chunk_start :: "string \<Rightarrow> (string \<times> string) option" where
  "match_chunk_start line =
     (if \<not> prefix ''@@ -'' line then None
      else case match_number '','' (drop 4 line) of
             None \<Rightarrow> None
           | Some (g1, r1) \<Rightarrow>
               (case match_number '' +'' r1 of
                  None \<Rightarrow> None
                | Some (g2, r2) \<Rightarrow>
                    (case match_number '','' r2 of
                       None \<Rightarrow> None
                     | Some (g3, r3) \<Rightarrow>
                         (case match_number '' @@'' r3 of None \<Rightarrow> None | Some (g4, r4) \<Rightarrow> Some (g1, g3)))))"

definition change_last :: "('a \<Rightarrow> 'a) \<Rightarrow> 'a list \<Rightarrow> 'a list" where
  "change_last f xs = (if xs = [] then [] else butlast xs @ [f (last xs)])"

text \<open>
  \<open>current_patch\<close> is the last patch.  \<open>current_chunk\<close> is the last chunk that was made, which
  is in an earlier patch while the last one has no chunk yet.
\<close>

fun add_to_current_chunk :: "chunk_line \<Rightarrow> patch list \<Rightarrow> patch list res" where
  "add_to_current_chunk l [] = Inl UnboundLocalError"
| "add_to_current_chunk l (p # ps) =
     (if list_ex (\<lambda>q. p_chunks q \<noteq> []) ps then map_value ((#) p) (add_to_current_chunk l ps)
      else if p_chunks p = [] then Inl UnboundLocalError
      else Inr (p\<lparr>p_chunks := change_last (\<lambda>c. c\<lparr>c_lines := c_lines c @ [l]\<rparr>) (p_chunks p)\<rparr> # ps))"

definition parse_patch_line :: "patch list \<Rightarrow> string \<Rightarrow> patch list res" where
  "parse_patch_line patchset line =
     (case match_prefix ''--- '' line of
        Some t \<Rightarrow> Inr (patchset @ [\<lparr>p_src = t, p_dst = [], p_chunks = []\<rparr>])
      | None \<Rightarrow>
     (case match_prefix ''+++ '' line of
        Some t \<Rightarrow>
          if patchset = [] then Inl AttributeError else Inr (change_last (\<lambda>p. p\<lparr>p_dst := t\<rparr>) patchset)
      | None \<Rightarrow>
     (case match_chunk_start line of
        Some (g1, g3) \<Rightarrow>
          if patchset = [] then Inl AttributeError
          else Inr (change_last (\<lambda>p. p\<lparr>p_chunks := p_chunks p @
                 [\<lparr>src_pos = parse_nat g1, dst_pos = parse_nat g3, c_lines = []\<rparr>]\<rparr>) patchset)
      | None \<Rightarrow>
     (case match_prefix ''-'' line of
        Some t \<Rightarrow> add_to_current_chunk \<lparr>l_kind = Src, l_text = t\<rparr> patchset
      | None \<Rightarrow>
     (case match_prefix ''+'' line of
        Some t \<Rightarrow> add_to_current_chunk \<lparr>l_kind = Dst, l_text = t\<rparr> patchset
      | None \<Rightarrow>
     (case match_prefix '' '' line of
        Some t \<Rightarrow> add_to_current_chunk \<lparr>l_kind = Both, l_text = t\<rparr> patchset
      | None \<Rightarrow> Inl (GenericException [])))))))"

definition parse_patchset :: "string list \<Rightarrow> patch list res" where
  "parse_patchset generator = fold_res parse_patch_line [] generator"

subsection \<open>Undoing whitespace changes\<close>

text \<open>
  \<open>^(.*)([ \t]+)$\<close>: the first group is greedy, so the second one is the last character only.
\<close>

definition whitespace_match :: "string \<Rightarrow> (string \<times> string) option" where
  "whitespace_match s =
     (if s \<noteq> [] \<and> last s \<in> {CHR '' '', tab} then Some (butlast s, [last s]) else None)"

text \<open>
  The lines of a chunk are shared objects: \<open>src\<close> and \<open>dst\<close> are positions in the chunk's own
  list, and a line that is in both is changed for both.  \<open>False\<close> says that \<open>dst\<close> was too short,
  which ends the whole pass.
\<close>

definition positions :: "(chunk_line \<Rightarrow> bool) \<Rightarrow> chunk_line list \<Rightarrow> nat list" where
  "positions P lines = filter (\<lambda>i. P (lines ! i)) [0..<length lines]"

definition restore_line :: "nat \<Rightarrow> nat \<Rightarrow> chunk_line list \<Rightarrow> chunk_line list" where
  "restore_line s d lines =
     (case whitespace_match (l_text (lines ! s)) of
        None \<Rightarrow> lines
      | Some (g1, g2) \<Rightarrow>
          if g1 = l_text (lines ! d) then lines[d := (lines ! d)\<lparr>l_text := l_text (lines ! d) @ g2\<rparr>] else lines)"

fun restore_lines :: "nat list \<Rightarrow> nat list \<Rightarrow> chunk_line list \<Rightarrow> chunk_line list \<times> bool" where
  "restore_lines [] dst lines = (lines, True)"
| "restore_lines (s # src) [] lines = (lines, False)"
| "restore_lines (s # src) (d # dst) lines = restore_lines src dst (restore_line s d lines)"

definition restore_chunk :: "chunk \<Rightarrow> chunk \<times> bool" where
  "restore_chunk c =
     (case restore_lines (positions is_src (c_lines c)) (positions is_dst (c_lines c)) (c_lines c) of
        (lines, go_on) \<Rightarrow> (c\<lparr>c_lines := lines\<rparr>, go_on))"

fun restore_all :: "('a \<Rightarrow> 'a \<times> bool) \<Rightarrow> 'a list \<Rightarrow> 'a list \<times> bool" where
  "restore_all f [] = ([], True)"
| "restore_all f (x # xs) =
     (case f x of (y, go_on) \<Rightarrow> if go_on then apfst ((#) y) (restore_all f xs) else (y # xs, False))"

definition restore_patch :: "patch \<Rightarrow> patch \<times> bool" where
  "restore_patch p =
     (case restore_all restore_chunk (p_chunks p) of (cs, go_on) \<Rightarrow> (p\<lparr>p_chunks := cs\<rparr>, go_on))"

definition remove_trailing_whitespace_changes :: "string list \<Rightarrow> patch list res" where
  "remove_trailing_whitespace_changes patch_generator =
     map_value (\<lambda>patchset. fst (restore_all restore_patch patchset)) (parse_patchset patch_generator)"

subsection \<open>Indenting files\<close>

text \<open>
  The programs: \<open>uncrustify config source\<close> gives the new text, when it is installed;
  \<open>apply_patch text diff\<close> is what \<open>patch\<close> makes of a file.
\<close>

record style_tools =
  installed :: bool
  uncrustify :: "string \<Rightarrow> string \<Rightarrow> string"
  unified_diff :: "string list \<Rightarrow> string list \<Rightarrow> string \<Rightarrow> string list"
  apply_patch :: "string \<Rightarrow> string list \<Rightarrow> string"

text \<open>
  \<open>unified_diff\<close> returns a generator: in debug mode writing it to a file uses it up, and
  nothing is left for what follows.
\<close>

definition final_diff :: "bool \<Rightarrow> int \<Rightarrow> string list \<Rightarrow> string list res" where
  "final_diff debug level generated =
     (let diff = (if debug then [] else generated)
      in if level < 3
         then map_value (\<lambda>patchset. case patchset of [] \<Rightarrow> [] | p # ps \<Rightarrow> write_patch p)
                (remove_trailing_whitespace_changes diff)
         else Inr diff)"

definition indent :: "style_tools \<Rightarrow> file_system \<Rightarrow> bool \<Rightarrow> int \<Rightarrow> string \<Rightarrow> string res" where
  "indent tools fs debug level source =
     (if \<not> installed tools then Inl (GenericException ''uncrustify not installed'')
      else case fs source of
             None \<Rightarrow> Inl IOError
           | Some text \<Rightarrow>
               let output = uncrustify tools (uncrustify_config_file level) text
               in map_value (apply_patch tools text)
                    (final_diff debug level (unified_diff tools (file_lines text) (file_lines output) source)))"

text \<open>The verdict, the printed lines and the files afterwards.\<close>

definition compare_files ::
  "style_tools \<Rightarrow> file_system \<Rightarrow> bool \<Rightarrow> (string \<times> string) list \<Rightarrow> bool \<times> string list" where
  "compare_files tools fs diff output =
     (let failed = filter (\<lambda>(src, dst). fs src \<noteq> Some dst) output
      in if failed = [] then (True, [])
         else (False,
               if \<not> diff
               then (''Found '' @ show_nat (length failed) @ '' badly indented files:'') # map (\<lambda>(src, dst). ''  '' @ src) failed
               else concat (map (\<lambda>(src, dst). unified_diff tools
                      (file_lines (case fs src of None \<Rightarrow> [] | Some t \<Rightarrow> t)) (file_lines dst) src) failed)))"

definition indent_files ::
  "style_tools \<Rightarrow> file_system \<Rightarrow> string list \<Rightarrow> bool \<Rightarrow> bool \<Rightarrow> int \<Rightarrow> bool \<Rightarrow>
   (bool \<times> string list \<times> file_system) res" where
  "indent_files tools fs files diff debug level inplace =
     bind_res (traverse_res (\<lambda>f. map_value (\<lambda>dst. (f, dst)) (indent tools fs debug level f)) files) (\<lambda>output.
       if inplace then Inr (True, [], foldl (\<lambda>fs (src, dst). fs(src \<mapsto> dst)) fs output)
       else case compare_files tools fs diff output of (ok, printed) \<Rightarrow> Inr (ok, printed, fs))"

record style_options =
  s_debug :: bool
  s_level :: int
  s_hg_hook :: bool
  s_hg :: bool
  s_file :: string
  s_diff :: bool
  s_in_place :: bool

definition hg_modified_files :: "string list \<Rightarrow> string list" where
  "hg_modified_files files = map strip files"

definition run_as_hg_hook :: "style_tools \<Rightarrow> file_system \<Rightarrow> string list \<Rightarrow> bool res" where
  "run_as_hg_hook tools fs hg =
     map_value (\<lambda>(ok, printed, fs'). \<not> ok) (indent_files tools fs (hg_modified_files hg) False False 0 False)"

text \<open>The exit code, the printed lines and the files afterwards.\<close>

definition run_as_main ::
  "style_tools \<Rightarrow> file_system \<Rightarrow> string list \<Rightarrow> style_options \<Rightarrow> (int \<times> string list \<times> file_system) res" where
  "run_as_main tools fs hg opts =
     (if s_hg_hook opts then
        map_value (\<lambda>(ok, printed, fs'). (if ok then 0 else 1, printed, fs'))
          (indent_files tools fs (hg_modified_files hg) False (s_debug opts) (s_level opts) False)
      else if s_hg opts then
        map_value (\<lambda>(ok, printed, fs'). (0, printed, fs'))
          (indent_files tools fs (hg_modified_files hg) (s_diff opts) (s_debug opts) (s_level opts) (s_in_place opts))
      else if s_file opts \<noteq> [] then
        (if fs (s_file opts) = None then Inr (1, [''file '' @ s_file opts @ '' does not exist''], fs)
         else map_value (\<lambda>(ok, printed, fs'). (0, printed, fs'))
                (indent_files tools fs [s_file opts] (s_diff opts) (s_debug opts) (s_level opts) (s_in_place opts)))
      else Inr (0, [], fs))"

subsection \<open>Patches are read back\<close>

definition wf_line :: "chunk_line \<Rightarrow> bool" where
  "wf_line l \<longleftrightarrow> newline \<notin> set (l_text l) \<and> (l_kind l = Src \<longrightarrow> \<not> prefix ''-- '' (l_text l)) \<and>
     (l_kind l = Dst \<longrightarrow> \<not> prefix ''++ '' (l_text l))"

definition wf_patch :: "patch \<Rightarrow> bool" where
  "wf_patch p \<longleftrightarrow> newline \<notin> set (p_src p) \<and> newline \<notin> set (p_dst p) \<and>
     (\<forall>c \<in> set (p_chunks p). \<forall>l \<in> set (c_lines c). wf_line l)"

lemma rest_of_line_ln: "newline \<notin> set s \<Longrightarrow> rest_of_line (ln s) = Some s"
  by (simp add: rest_of_line_def ln_def Let_def)

lemma change_last_append [simp]: "change_last f (xs @ [x]) = xs @ [f x]"
  by (simp add: change_last_def)

lemma add_to_current_chunk_last:
  "p_chunks p \<noteq> [] \<Longrightarrow>
   add_to_current_chunk l (ps @ [p]) =
   Inr (ps @ [p\<lparr>p_chunks := change_last (\<lambda>c. c\<lparr>c_lines := c_lines c @ [l]\<rparr>) (p_chunks p)\<rparr>])"
  by (induction ps) auto

lemma parse_line:
  assumes "wf_line l" "p_chunks p \<noteq> []"
  shows "parse_patch_line (ps @ [p]) (write_line l) =
    Inr (ps @ [p\<lparr>p_chunks := change_last (\<lambda>c. c\<lparr>c_lines := c_lines c @ [l]\<rparr>) (p_chunks p)\<rparr>])"
proof -
  obtain k t where l: "l = \<lparr>l_kind = k, l_text = t\<rparr>" by (cases l)
  have t: "newline \<notin> set t" "rest_of_line (t @ [newline]) = Some t"
    using assms(1) rest_of_line_ln[of t] by (simp_all add: wf_line_def l ln_def)
  have p: "\<not> prefix ''-- '' t \<Longrightarrow> \<not> prefix ''-- '' (t @ [newline])" "\<not> prefix ''++ '' t \<Longrightarrow> \<not> prefix ''++ '' (t @ [newline])"
    by (simp_all)
  note add = add_to_current_chunk_last[OF assms(2)]
  show ?thesis
    using assms(1) t p add[of l ps]
    by (cases k) (simp_all add: parse_patch_line_def write_line_def l match_prefix_def match_chunk_start_def ln_def wf_line_def)
qed

lemma parse_lines:
  assumes "\<forall>l \<in> set ls. wf_line l" "p_chunks p = cs @ [c]"
  shows "fold_res parse_patch_line (ps @ [p]) (map write_line ls) =
    Inr (ps @ [p\<lparr>p_chunks := cs @ [c\<lparr>c_lines := c_lines c @ ls\<rparr>]\<rparr>])"
  using assms
proof (induction ls arbitrary: p c)
  case (Cons l ls)
  let ?c = "c\<lparr>c_lines := c_lines c @ [l]\<rparr>"
  have "fold_res parse_patch_line (ps @ [p\<lparr>p_chunks := cs @ [?c]\<rparr>]) (map write_line ls) =
      Inr (ps @ [p\<lparr>p_chunks := cs @ [?c]\<rparr>\<lparr>p_chunks := cs @ [?c\<lparr>c_lines := c_lines ?c @ ls\<rparr>]\<rparr>])"
    using Cons.prems(1) by (intro Cons.IH) simp_all
  then show ?case using Cons.prems parse_line[of l p ps] by simp
next
  case Nil
  then show ?case by (cases p; cases c) simp
qed

lemma digits_of_number:
  assumes "r = [] \<or> \<not> is_digit (hd r)"
  shows "takeWhile is_digit (show_nat n @ r) = show_nat n" "dropWhile is_digit (show_nat n @ r) = r"
proof -
  have d: "\<forall>x \<in> set (show_nat n). is_digit x" using show_nat_digits by blast
  show "takeWhile is_digit (show_nat n @ r) = show_nat n"
    using d assms by (cases r) (simp_all add: takeWhile_append2)
  show "dropWhile is_digit (show_nat n @ r) = r"
    using d assms by (cases r) (simp_all add: dropWhile_append2)
qed

lemma match_number_show:
  assumes "after \<noteq> []" "\<not> is_digit (hd after)"
  shows "match_number after (show_nat n @ after @ r) = Some (show_nat n, r)"
proof -
  have "after @ r = [] \<or> \<not> is_digit (hd (after @ r))" using assms by simp
  from digits_of_number[OF this, of n] show ?thesis by (simp add: match_number_def Let_def)
qed

lemma match_chunk_header: "match_chunk_start (ln (chunk_header c)) = Some (show_nat (src_pos c), show_nat (dst_pos c))"
proof -
  have nd: "\<not> is_digit (CHR '','')" "\<not> is_digit (CHR '' '')" by (simp_all add: is_digit_def)
  have "ln (chunk_header c) = ''@@ -'' @ show_nat (src_pos c) @ '','' @ (show_nat (src_len c) @ '' +'' @
      (show_nat (dst_pos c) @ '','' @ (show_nat (dst_len c) @ '' @@'' @ [newline])))"
    by (simp add: chunk_header_def ln_def)
  moreover have "drop 4 (''@@ -'' @ u) = u" "prefix ''@@ -'' (''@@ -'' @ u)" for u by simp_all
  ultimately show ?thesis
    using match_number_show[of "'',''"] match_number_show[of "'' +''"] match_number_show[of "'' @@''"] nd
    by (simp add: match_chunk_start_def del: append_Cons)
qed

lemma parse_chunk:
  assumes "\<forall>l \<in> set (c_lines c). wf_line l"
  shows "fold_res parse_patch_line (ps @ [p]) (write_chunk c) = Inr (ps @ [p\<lparr>p_chunks := p_chunks p @ [c]\<rparr>])"
proof -
  have "match_prefix ''--- '' (ln (chunk_header c)) = None" "match_prefix ''+++ '' (ln (chunk_header c)) = None"
    by (simp_all add: match_prefix_def chunk_header_def ln_def)
  then have "parse_patch_line (ps @ [p]) (ln (chunk_header c)) =
      Inr (ps @ [p\<lparr>p_chunks := p_chunks p @ [\<lparr>src_pos = src_pos c, dst_pos = dst_pos c, c_lines = []\<rparr>]\<rparr>])"
    by (simp add: parse_patch_line_def match_chunk_header)
  then show ?thesis
    using parse_lines[OF assms, of "p\<lparr>p_chunks := p_chunks p @ [\<lparr>src_pos = src_pos c, dst_pos = dst_pos c, c_lines = []\<rparr>]\<rparr>"
        "p_chunks p" "\<lparr>src_pos = src_pos c, dst_pos = dst_pos c, c_lines = []\<rparr>" ps]
    by (cases c) (simp add: write_chunk_def)
qed

lemma parse_chunks:
  assumes "\<forall>c \<in> set cs. \<forall>l \<in> set (c_lines c). wf_line l"
  shows "fold_res parse_patch_line (ps @ [p]) (concat (map write_chunk cs)) =
    Inr (ps @ [p\<lparr>p_chunks := p_chunks p @ cs\<rparr>])"
  using assms
proof (induction cs arbitrary: p)
  case (Cons c cs)
  then show ?case using Cons.IH[of "p\<lparr>p_chunks := p_chunks p @ [c]\<rparr>"] parse_chunk[of c ps p]
    by (simp add: fold_res_append)
qed (cases p, simp)

lemma parse_patch:
  assumes "wf_patch p"
  shows "fold_res parse_patch_line ps (write_patch p) = Inr (ps @ [p])"
proof -
  have 1: "parse_patch_line ps (ln (''--- '' @ p_src p)) = Inr (ps @ [\<lparr>p_src = p_src p, p_dst = [], p_chunks = []\<rparr>])"
    using assms rest_of_line_ln[of "p_src p"] by (simp add: wf_patch_def parse_patch_line_def match_prefix_def ln_def)
  have 2: "parse_patch_line (ps @ [\<lparr>p_src = p_src p, p_dst = [], p_chunks = []\<rparr>]) (ln (''+++ '' @ p_dst p)) =
      Inr (ps @ [\<lparr>p_src = p_src p, p_dst = p_dst p, p_chunks = []\<rparr>])"
    using assms rest_of_line_ln[of "p_dst p"] by (simp add: wf_patch_def parse_patch_line_def match_prefix_def ln_def)
  show ?thesis
    unfolding write_patch_def fold_res.simps 1 2 bind_res_simps
    using parse_chunks[of "p_chunks p" ps "\<lparr>p_src = p_src p, p_dst = p_dst p, p_chunks = []\<rparr>"] assms
    by (cases p) (simp add: wf_patch_def)
qed

text \<open>
  C20: Parsing what is written for a list of patches gives the patches back, when no removed
  line begins with two dashes and a blank and no added one with two plus signs and a blank.
\<close>

theorem patchset_roundtrip:
  assumes "\<forall>p \<in> set ps. wf_patch p"
  shows "parse_patchset (concat (map write_patch ps)) = Inr ps"
proof -
  have "fold_res parse_patch_line done (concat (map write_patch ps)) = Inr (done @ ps)" for "done"
    using assms
  proof (induction ps arbitrary: "done")
    case (Cons p ps)
    then show ?case using parse_patch[of p "done"] by (simp add: fold_res_append)
  qed simp
  from this[of "[]"] show ?thesis by (simp add: parse_patchset_def)
qed

theorem patchset_roundtrip_witness:
  "parse_patchset (concat (map write_patch
     [\<lparr>p_src = ''a'', p_dst = ''b'', p_chunks = [\<lparr>src_pos = 3, dst_pos = 4,
        c_lines = [\<lparr>l_kind = Both, l_text = ''x''\<rparr>, \<lparr>l_kind = Src, l_text = ''- ''\<rparr>]\<rparr>]\<rparr>])) =
   Inr [\<lparr>p_src = ''a'', p_dst = ''b'', p_chunks = [\<lparr>src_pos = 3, dst_pos = 4,
        c_lines = [\<lparr>l_kind = Both, l_text = ''x''\<rparr>, \<lparr>l_kind = Src, l_text = ''- ''\<rparr>]\<rparr>]\<rparr>]"
  by (rule patchset_roundtrip) (simp add: wf_patch_def wf_line_def)

text \<open>
  A removed line that starts with \<open>-- \<close> is taken for the header of a new patch, and a range
  that is a single line (written without a comma) is not recognised at all.
\<close>

lemma removed_comment_is_header:
  "newline \<notin> set t \<Longrightarrow>
   parse_patch_line ps (write_line \<lparr>l_kind = Src, l_text = ''-- '' @ t\<rparr>) = Inr (ps @ [\<lparr>p_src = t, p_dst = [], p_chunks = []\<rparr>])"
  using rest_of_line_ln[of t] by (simp add: parse_patch_line_def match_prefix_def write_line_def ln_def)

lemma single_line_range_rejected: "parse_patch_line ps (ln ''@@ -1 +1,2 @@'') = Inl (GenericException [])"
proof -
  have "match_chunk_start (ln ''@@ -1 +1,2 @@'') = None" by code_simp
  then show ?thesis by (simp add: parse_patch_line_def match_prefix_def ln_def)
qed

subsection \<open>The whitespace pass\<close>

text \<open>What may happen to a line: nothing, or one blank that some source line ends with is added.\<close>

definition same_or_blank :: "chunk_line \<Rightarrow> chunk_line \<Rightarrow> bool" where
  "same_or_blank l l' \<longleftrightarrow> l' = l \<or> is_dst l \<and> (\<exists>b \<in> {CHR '' '', tab}. l' = l\<lparr>l_text := l_text l @ [b]\<rparr>)"

lemma whitespace_match_Some:
  "whitespace_match s = Some (g1, g2) \<longleftrightarrow> (\<exists>b \<in> {CHR '' '', tab}. s = g1 @ [b] \<and> g2 = [b])"
  by (cases s rule: rev_cases) (auto simp: whitespace_match_def)

lemma restore_lines_keeps:
  assumes "distinct dst" "\<forall>d \<in> set dst. d < length orig \<and> is_dst (orig ! d)" "length lines = length orig"
    and "\<forall>i < length orig. same_or_blank (orig ! i) (lines ! i)" "\<forall>d \<in> set dst. lines ! d = orig ! d"
  shows "length (fst (restore_lines src dst lines)) = length orig \<and>
    (\<forall>i < length orig. same_or_blank (orig ! i) (fst (restore_lines src dst lines) ! i))"
  using assms
proof (induction src dst lines rule: restore_lines.induct)
  case (3 s src d dst lines)
  define lines' where "lines' = restore_line s d lines"
  have d: "d < length orig" "is_dst (orig ! d)" "lines ! d = orig ! d" using 3(3,6) by simp_all
  have cases: "lines' = lines \<or> (\<exists>b \<in> {CHR '' '', tab}. lines' = lines[d := (orig ! d)\<lparr>l_text := l_text (orig ! d) @ [b]\<rparr>])"
    by (auto simp: lines'_def restore_line_def whitespace_match_Some d(3) split: option.split)
  have all: "same_or_blank (orig ! i) (lines' ! i)" if "i < length orig" for i
  proof (cases "i = d")
    case True
    then show ?thesis using cases d 3(4) by (auto simp: same_or_blank_def)
  next
    case False
    then have "lines' ! i = lines ! i" using cases by auto
    then show ?thesis using 3(5) that by simp
  qed
  have len: "length lines' = length orig" using cases 3(4) by auto
  have rest: "lines' ! x = orig ! x" if "x \<in> set dst" for x
  proof -
    have "x \<noteq> d" using 3(2) that by auto
    then have "lines' ! x = lines ! x" using cases by auto
    then show ?thesis using 3(6) that by simp
  qed
  have step: "restore_lines (s # src) (d # dst) lines = restore_lines src dst lines'" by (simp add: lines'_def)
  have a: "distinct dst" "\<forall>d \<in> set dst. d < length orig \<and> is_dst (orig ! d)" using 3(2,3) by simp_all
  have b: "\<forall>i < length orig. same_or_blank (orig ! i) (lines' ! i)" using all by blast
  have c: "\<forall>x \<in> set dst. lines' ! x = orig ! x" using rest by blast
  note IH = 3(1)[folded lines'_def]
  show ?case unfolding step by (rule IH[OF a len b c])
qed simp_all

lemma restore_chunk_keeps:
  "src_pos (fst (restore_chunk c)) = src_pos c \<and> dst_pos (fst (restore_chunk c)) = dst_pos c \<and>
   list_all2 same_or_blank (c_lines c) (c_lines (fst (restore_chunk c)))"
proof -
  let ?ls = "c_lines c"
  have refl: "\<forall>i < length ?ls. same_or_blank (?ls ! i) (?ls ! i)" by (simp add: same_or_blank_def)
  have "distinct (positions is_dst ?ls)" "\<forall>d \<in> set (positions is_dst ?ls). d < length ?ls \<and> is_dst (?ls ! d)"
    by (auto simp: positions_def)
  from restore_lines_keeps[OF this HOL.refl refl] have
    "length (fst (restore_lines (positions is_src ?ls) (positions is_dst ?ls) ?ls)) = length ?ls"
    "\<forall>i < length ?ls. same_or_blank (?ls ! i) (fst (restore_lines (positions is_src ?ls) (positions is_dst ?ls) ?ls) ! i)"
    by blast+
  then show ?thesis by (simp add: restore_chunk_def case_prod_unfold list_all2_conv_all_nth)
qed

text \<open>A pass over a list keeps a relation that each element keeps.\<close>

lemma restore_all_keeps:
  assumes "\<And>x. R x (fst (f x))" "\<And>x. R x x"
  shows "list_all2 R xs (fst (restore_all f xs))"
proof (induction xs)
  case (Cons x xs)
  obtain y go_on where y: "f x = (y, go_on)" by fastforce
  then have "R x y" using assms(1)[of x] by simp
  moreover have "list_all2 R xs xs" using assms(2) by (simp add: list_all2_same)
  ultimately show ?case using Cons y by (cases "restore_all f xs") simp
qed simp

definition chunk_kept :: "chunk \<Rightarrow> chunk \<Rightarrow> bool" where
  "chunk_kept c c' \<longleftrightarrow> src_pos c' = src_pos c \<and> dst_pos c' = dst_pos c \<and> list_all2 same_or_blank (c_lines c) (c_lines c')"

definition patch_kept :: "patch \<Rightarrow> patch \<Rightarrow> bool" where
  "patch_kept p p' \<longleftrightarrow> p_src p' = p_src p \<and> p_dst p' = p_dst p \<and> list_all2 chunk_kept (p_chunks p) (p_chunks p')"

lemma chunk_kept_refl: "chunk_kept c c"
  by (simp add: chunk_kept_def list_all2_same same_or_blank_def)

lemma restore_patch_keeps: "patch_kept p (fst (restore_patch p))"
proof -
  have "list_all2 chunk_kept (p_chunks p) (fst (restore_all restore_chunk (p_chunks p)))"
    by (rule restore_all_keeps) (simp_all add: chunk_kept_def[of _ "fst _"] restore_chunk_keeps chunk_kept_refl)
  then show ?thesis by (simp add: patch_kept_def restore_patch_def case_prod_unfold)
qed

theorem whitespace_pass_keeps:
  assumes "parse_patchset generator = Inr ps"
  shows "\<exists>ps'. remove_trailing_whitespace_changes generator = Inr ps' \<and> list_all2 patch_kept ps ps'"
proof -
  have "list_all2 patch_kept ps (fst (restore_all restore_patch ps))"
    by (rule restore_all_keeps, rule restore_patch_keeps)
      (simp add: patch_kept_def list_all2_same chunk_kept_refl)
  then show ?thesis using assms by (simp add: remove_trailing_whitespace_changes_def)
qed

theorem whitespace_pass_keeps_witness:
  "\<exists>ps'. remove_trailing_whitespace_changes [ln ''--- a'', ln ''+++ b'', ln ''@@ -1,1 +1,1 @@'', ln ''-x '', ln ''+x''] = Inr ps' \<and>
     list_all2 patch_kept [\<lparr>p_src = ''a'', p_dst = ''b'', p_chunks = [\<lparr>src_pos = 1, dst_pos = 1,
       c_lines = [\<lparr>l_kind = Src, l_text = ''x ''\<rparr>, \<lparr>l_kind = Dst, l_text = ''x''\<rparr>]\<rparr>]\<rparr>] ps'"
  by (rule whitespace_pass_keeps) code_simp

text \<open>
  A block of removed lines followed by as many added lines: a line that only lost one blank at
  its end gets it old; every other one, a line that lost two blanks too, stays as it is.
\<close>

definition src_line :: "string \<Rightarrow> chunk_line" where "src_line t = \<lparr>l_kind = Src, l_text = t\<rparr>"
definition dst_line :: "string \<Rightarrow> chunk_line" where "dst_line t = \<lparr>l_kind = Dst, l_text = t\<rparr>"

definition blank_back :: "string \<Rightarrow> string \<Rightarrow> string" where
  "blank_back s d = (if s = d @ '' '' \<or> s = d @ [tab] then s else d)"

lemma restore_line_pair:
  assumes "s < length lines" "d < length lines" "s \<noteq> d"
  shows "restore_line s d lines = lines[d := (lines ! d)\<lparr>l_text := blank_back (l_text (lines ! s)) (l_text (lines ! d))\<rparr>]"
proof (cases "\<exists>b \<in> {CHR '' '', tab}. l_text (lines ! s) = l_text (lines ! d) @ [b]")
  case True
  then show ?thesis by (auto simp: restore_line_def whitespace_match_def blank_back_def)
next
  case False
  then have "restore_line s d lines = lines"
    by (auto simp: restore_line_def whitespace_match_Some split: option.split)
  moreover have "blank_back (l_text (lines ! s)) (l_text (lines ! d)) = l_text (lines ! d)"
    using False by (auto simp: blank_back_def)
  ultimately show ?thesis using assms(2) by simp
qed

lemma restore_block:
  assumes "length ss = n" "length ds = n" "length before = length old"
  shows "restore_lines [length before..<length before + n] [length before + n + length old..<length before + n + length old + n]
       (map src_line (before @ ss) @ map dst_line (old @ ds)) =
     (map src_line (before @ ss) @ map dst_line (old @ map2 blank_back ss ds), True)"
  using assms
proof (induction n arbitrary: ss ds before old)
  case (Suc n)
  then obtain s ss' d ds' where eq: "ss = s # ss'" "ds = d # ds'" "length ss' = n" "length ds' = n"
    by (metis length_Suc_conv)
  let ?lines = "map src_line (before @ ss) @ map dst_line (old @ ds)"
  let ?d = "length before + Suc n + length old"
  have at: "?lines ! length before = src_line s" "?lines ! ?d = dst_line d" "length ?lines = 2 * Suc n + length before + length old"
    using eq by (simp_all add: nth_append)
  have step: "restore_line (length before) ?d ?lines =
      map src_line ((before @ [s]) @ ss') @ map dst_line ((old @ [blank_back s d]) @ ds')"
    using at eq by (subst restore_line_pair) (simp_all add: list_update_append src_line_def dst_line_def)
  have u: "[k..<k + Suc n] = k # [Suc k..<Suc k + n]" for k by (simp add: upt_conv_Cons)
  have idx: "Suc (length before) = length (before @ [s])"
    "Suc ?d = length (before @ [s]) + n + length (old @ [blank_back s d])" by simp_all
  have "restore_lines [length before..<length before + Suc n] [?d..<?d + Suc n] ?lines =
      restore_lines [length (before @ [s])..<length (before @ [s]) + n]
        [length (before @ [s]) + n + length (old @ [blank_back s d])..<length (before @ [s]) + n + length (old @ [blank_back s d]) + n]
        (map src_line ((before @ [s]) @ ss') @ map dst_line ((old @ [blank_back s d]) @ ds'))"
    unfolding u restore_lines.simps step idx ..
  also have "\<dots> = (map src_line ((before @ [s]) @ ss') @ map dst_line ((old @ [blank_back s d]) @ map2 blank_back ss' ds'), True)"
    using Suc.prems(3) eq(3,4) by (intro Suc.IH) simp_all
  finally show ?case using eq by simp
qed simp

lemma positions_block:
  assumes "length ss = n" "length ds = n"
  shows "positions is_src (map src_line ss @ map dst_line ds) = [0..<n]"
    "positions is_dst (map src_line ss @ map dst_line ds) = [n..<n + n]"
proof -
  have all: "[0..<length (map src_line ss @ map dst_line ds)] = [0..<n] @ [n..<n + n]"
    using assms by (simp flip: upt_add_eq_append)
  have s: "is_src ((map src_line ss @ map dst_line ds) ! i) \<longleftrightarrow> i < n"
    "is_dst ((map src_line ss @ map dst_line ds) ! i) \<longleftrightarrow> n \<le> i" if "i < n + n" for i
    using that assms by (auto simp: nth_append is_src_def is_dst_def src_line_def dst_line_def)
  show "positions is_src (map src_line ss @ map dst_line ds) = [0..<n]"
    unfolding positions_def all filter_append using s by (auto simp: filter_empty_conv intro!: filter_True)
  show "positions is_dst (map src_line ss @ map dst_line ds) = [n..<n + n]"
    unfolding positions_def all filter_append using s by (auto simp: filter_empty_conv intro!: filter_True)
qed

theorem single_blanks_restored:
  assumes "length ss = length ds"
  shows "restore_chunk \<lparr>src_pos = a, dst_pos = b, c_lines = map src_line ss @ map dst_line ds\<rparr> =
    (\<lparr>src_pos = a, dst_pos = b, c_lines = map src_line ss @ map dst_line (map2 blank_back ss ds)\<rparr>, True)"
  using restore_block[of ss "length ds" ds "[]" "[]"] positions_block[of ss "length ds" ds] assms
  by (simp add: restore_chunk_def)

theorem single_blanks_restored_witness:
  "restore_chunk \<lparr>src_pos = 1, dst_pos = 1, c_lines = map src_line [''a '', ''b  ''] @ map dst_line [''a'', ''b'']\<rparr> =
    (\<lparr>src_pos = 1, dst_pos = 1, c_lines = map src_line [''a '', ''b  ''] @ map dst_line [''a '', ''b'']\<rparr>, True)"
  using single_blanks_restored[of "[''a '', ''b  '']" "[''a'', ''b'']" 1 1] by (simp add: blank_back_def)

subsection \<open>Files\<close>

theorem uncrustify_levels_nested: "l \<le> l' \<Longrightarrow> prefix (uncrustify_config_file l) (uncrustify_config_file l')"
  by (auto simp: uncrustify_config_file_def)

theorem uncrustify_levels_nested_witness: "prefix (uncrustify_config_file 0) (uncrustify_config_file 2)"
  by (rule uncrustify_levels_nested) simp

text \<open>With debugging on, the difference is used up by the debug file, and the file stays as it is.\<close>

theorem debug_loses_changes:
  assumes "installed tools" "fs source = Some text" "apply_patch tools text [] = text"
  shows "indent tools fs True level source = Inr text"
  using assms
  by (simp add: indent_def final_diff_def remove_trailing_whitespace_changes_def parse_patchset_def)

theorem debug_loses_changes_witness:
  "indent \<lparr>installed = True, uncrustify = (\<lambda>cfg t. ''y''), unified_diff = (\<lambda>s d f. [''d'']), apply_patch = (\<lambda>t d. if d = [] then t else ''z'')\<rparr>
     [''f'' \<mapsto> ''x''] True 0 ''f'' = Inr ''x''"
  by (rule debug_loses_changes) simp_all

text \<open>The commit hook rejects exactly when some modified file would be changed.\<close>

theorem hook_rejects_iff:
  assumes "traverse_res (indent tools fs False 0) (map strip hg) = Inr texts"
  shows "run_as_hg_hook tools fs hg = Inr (\<exists>(f, t) \<in> set (zip (map strip hg) texts). fs f \<noteq> Some t)"
proof -
  have trav: "traverse_res (\<lambda>f. map_value (\<lambda>dst. (f, dst)) (g f)) fl = map_value (zip fl) (traverse_res g fl)" for g :: "string \<Rightarrow> string res" and fl
  proof (induction fl)
    case (Cons f fl)
    then show ?case by (cases "g f"; cases "traverse_res g fl") simp_all
  qed simp
  have ind: "indent tools fs False 0 = (\<lambda>f. indent tools fs False 0 f)" by simp
  show ?thesis
    using assms unfolding run_as_hg_hook_def indent_files_def hg_modified_files_def trav
    by (auto simp: compare_files_def Let_def filter_empty_conv case_prod_unfold)
qed

theorem hook_rejects_iff_witness:
  "run_as_hg_hook \<lparr>installed = True, uncrustify = (\<lambda>cfg t. ''y''), unified_diff = (\<lambda>s d f. []), apply_patch = (\<lambda>t d. t)\<rparr>
     [''f'' \<mapsto> ''x''] [ln ''f''] =
   Inr (\<exists>(f, t) \<in> set (zip (map strip [ln ''f'']) [''x'']). [''f'' \<mapsto> ''x''] f \<noteq> Some t)"
  by (rule hook_rejects_iff)
    (simp add: indent_def strip_def ln_def is_space_def final_diff_def remove_trailing_whitespace_changes_def parse_patchset_def Let_def)

end
