(* ===== verification/Cflags.thy ===== *)
theory Cflags
  imports Prelude
begin

section \<open>Compiler flag profiles (\<open>cflags.py\<close>)\<close>

text \<open>
  \<^verbatim>\<open>waf-tools/cflags.py\<close>: the flags a compiler understands for a level of warnings,
  optimisation and debugging, the build profiles, and \<open>configure\<close>, which adds the flags of the
  chosen profile to the environment of the build.  The locale \<open>compiler_traits\<close> is the interface
  \<open>CompilerTraits\<close>, with what \<open>configure\<close> needs of its three implementations.
\<close>

subsection \<open>The compilers\<close>

datatype compiler = Gcc | Icc | Msvc

fun warnings_flags :: "compiler \<Rightarrow> string list list" where
  "warnings_flags Gcc = [[''-Wall''], [''-Werror''], [''-Wextra'']]"
| "warnings_flags Icc = [[], [], [''-Wall'']]"
| "warnings_flags Msvc = [[''/W2''], [''/WX''], [''/Wall'']]"

text \<open>The loop over \<open>range(level)\<close>, left by \<open>break\<close> at the end of the table.\<close>

fun warnings_loop :: "string list list \<Rightarrow> nat list \<Rightarrow> string list \<Rightarrow> string list" where
  "warnings_loop table [] warnings = warnings"
| "warnings_loop table (l # ls) warnings =
     (if l < length table then warnings_loop table ls (warnings @ table ! l) else warnings)"

definition get_warnings_flags :: "compiler \<Rightarrow> int \<Rightarrow> string list" where
  "get_warnings_flags c level = warnings_loop (warnings_flags c) [0..<nat level] []"

text \<open>A level that no branch of the original handles returns \<open>None\<close>.\<close>

definition get_optimization_flags :: "compiler \<Rightarrow> int \<Rightarrow> string list option" where
  "get_optimization_flags c level =
     (case c of
        Msvc \<Rightarrow>
          if level = 0 then Some [''/Od'']
          else if level = 1 then Some []
          else if level = 2 then Some [''/O2'']
          else if level = 3 then Some [''/Ox'']
          else None
      | _ \<Rightarrow>
          if level = 0 then Some [''-O0'']
          else if level = 1 then Some [''-O'']
          else if level = 2 then Some [''-O2'']
          else if level = 3 then Some [''-O3'']
          else None)"

definition get_debug_flags :: "compiler \<Rightarrow> int \<Rightarrow> (string list \<times> string list) option" where
  "get_debug_flags c level =
     (case c of
        Msvc \<Rightarrow>
          if level = 0 then Some ([], [''NDEBUG''])
          else if level = 1 then Some ([''/ZI'', ''/RTC1''], [])
          else if 2 \<le> level then Some ([''/ZI'', ''/RTC1''], [''_DEBUG''])
          else None
      | _ \<Rightarrow>
          if level = 0 then Some ([''-g0''], [''NDEBUG''])
          else if level = 1 then Some ([''-g''], [])
          else if 2 \<le> level then Some ([''-ggdb'', ''-g3''], [''_DEBUG''])
          else None)"

definition compiler_mapping :: "(string, compiler) dict" where
  "compiler_mapping =
     [(''gcc'', Gcc), (''g++'', Gcc), (''msvc'', Msvc), (''icc'', Icc), (''icpc'', Icc)]"

subsection \<open>Profiles\<close>

text \<open>Optimisation, warnings and debug level.\<close>

definition profiles :: "(string, int \<times> int \<times> int) dict" where
  "profiles = [(''default'', (2, 1, 1)), (''debug'', (0, 2, 3)), (''release'', (3, 1, 0))]"

definition default_profile :: string where "default_profile = ''default''"

text \<open>What \<open>options\<close> declares: the default and the choices of \<open>--build-profile\<close>.\<close>

definition build_profile_option :: "(string \<times> string list) res" where
  "build_profile_option =
     (if dict_has profiles default_profile then Inr (default_profile, dict_keys profiles)
      else Inl AssertionError)"

subsection \<open>Configuring\<close>

text \<open>The variables of \<open>conf.env\<close> in use; an unset one is empty.\<close>

record build_env =
  compiler_cc :: string
  compiler_cxx :: string
  ccflags :: "string list"
  cxxflags :: "string list"
  ccdefines :: "string list"
  cxxdefines :: "string list"

definition or_none :: "string \<Rightarrow> string option" where
  "or_none s = (if s = [] then None else Some s)"

definition find_compiler :: "string option \<Rightarrow> compiler option" where
  "find_compiler name = Option.bind name (map_of compiler_mapping)"

text \<open>The compiler that decides: the C compiler's when it is known.\<close>

definition chosen_compiler :: "build_env \<Rightarrow> compiler option" where
  "chosen_compiler env =
     (case find_compiler (or_none (compiler_cc env)) of
        None \<Rightarrow> find_compiler (or_none (compiler_cxx env))
      | Some c \<Rightarrow> Some c)"

definition append_value :: "string list \<Rightarrow> string list option \<Rightarrow> string list res" where
  "append_value current val = (case val of None \<Rightarrow> Inl TypeError | Some vs \<Rightarrow> Inr (current @ vs))"

definition add_cc :: "string list option \<Rightarrow> string list \<times> string list \<Rightarrow> string list \<Rightarrow> build_env \<Rightarrow> build_env res" where
  "add_cc optimizations dbg warnings env =
     map_value
       (\<lambda>flags. env\<lparr>ccflags := flags @ fst dbg @ warnings, ccdefines := ccdefines env @ snd dbg\<rparr>)
       (append_value (ccflags env) optimizations)"

definition add_cxx :: "string list option \<Rightarrow> string list \<times> string list \<Rightarrow> string list \<Rightarrow> build_env \<Rightarrow> build_env res" where
  "add_cxx optimizations dbg warnings env =
     map_value
       (\<lambda>flags. env\<lparr>cxxflags := flags @ fst dbg @ warnings, cxxdefines := cxxdefines env @ snd dbg\<rparr>)
       (append_value (cxxflags env) optimizations)"

text \<open>With an unknown compiler there is a warning and the environment stays as it is.\<close>

definition configure :: "string \<Rightarrow> build_env \<Rightarrow> build_env res" where
  "configure build_profile env =
     (let cc = or_none (compiler_cc env); cxx = or_none (compiler_cxx env)
      in if cc = None \<and> cxx = None then Inl (WafError ''neither COMPILER_CC nor COMPILER_CXX are defined'')
         else case chosen_compiler env of
                None \<Rightarrow> Inr env
              | Some c \<Rightarrow>
                  bind_res (dict_get profiles build_profile) (\<lambda>(opt_level, warn_level, dbg_level).
                    case get_debug_flags c dbg_level of
                      None \<Rightarrow> Inl TypeError
                    | Some dbg \<Rightarrow>
                        let optimizations = get_optimization_flags c opt_level;
                            warnings = get_warnings_flags c warn_level
                        in bind_res
                             (if cc \<noteq> None \<and> ccflags env = [] then add_cc optimizations dbg warnings env else Inr env)
                             (\<lambda>env'. if cxx \<noteq> None \<and> cxxflags env = [] then add_cxx optimizations dbg warnings env'
                                     else Inr env')))"

subsection \<open>What configuring needs of a compiler\<close>

lemma warnings_loop_take:
  "l \<le> n \<Longrightarrow> warnings_loop table [l..<n] ws = ws @ concat (take (n - l) (drop l table))"
proof (induction "n - l" arbitrary: l ws)
  case (Suc m)
  then have upt: "[l..<n] = l # [Suc l..<n]" by (simp add: upt_conv_Cons)
  show ?case
  proof (cases "l < length table")
    case True
    then have "take (n - l) (drop l table) = table ! l # take (n - Suc l) (drop (Suc l) table)"
      using Suc(2) by (metis Cons_nth_drop_Suc diff_Suc_1 diff_Suc_eq_diff_pred diff_commute take_Suc_Cons)
    then show ?thesis using Suc(1)[of "Suc l"] Suc(2) True by (simp add: upt)
  qed (simp add: upt)
qed simp

lemma get_warnings_flags_take: "get_warnings_flags c level = concat (take (nat level) (warnings_flags c))"
  using warnings_loop_take[of 0 "nat level" "warnings_flags c" "[]"] by (simp add: get_warnings_flags_def)

locale compiler_traits =
  fixes warnings :: "int \<Rightarrow> string list"
    and optimization :: "int \<Rightarrow> string list option"
    and debugging :: "int \<Rightarrow> (string list \<times> string list) option"
  assumes cumulative: "l \<le> l' \<Longrightarrow> prefix (warnings l) (warnings l')"
    and optimization_levels: "0 \<le> l \<Longrightarrow> l \<le> 3 \<Longrightarrow> \<exists>fs. optimization l = Some fs \<and> (l \<noteq> 1 \<longrightarrow> fs \<noteq> [])"
    and debug_levels: "0 \<le> l \<Longrightarrow> \<exists>fs defs. debugging l = Some (fs, defs) \<and> (''NDEBUG'' \<in> set defs \<longleftrightarrow> l = 0)"
begin

lemma profile_flags:
  assumes "map_of profiles name = Some (opt_level, warn_level, dbg_level)"
  obtains fs dfs defs where "optimization opt_level = Some fs" "fs \<noteq> []" "debugging dbg_level = Some (dfs, defs)"
    "''NDEBUG'' \<in> set defs \<longleftrightarrow> name = ''release''"
proof -
  have "0 \<le> opt_level \<and> opt_level \<le> 3 \<and> opt_level \<noteq> 1 \<and> 0 \<le> dbg_level \<and> (dbg_level = 0 \<longleftrightarrow> name = ''release'')"
    using assms by (auto simp: profiles_def split: if_splits)
  then show thesis using that optimization_levels[of opt_level] debug_levels[of dbg_level] by auto
qed

lemma warnings_raise: "set (warnings l) \<subseteq> set (warnings l')" if "l \<le> l'"
  using cumulative[OF that] by (rule set_mono_prefix)

end

lemma take_concat_prefix: "m \<le> n \<Longrightarrow> prefix (concat (take m xs)) (concat (take n xs))"
proof -
  assume "m \<le> n"
  then obtain k where "n = m + k" by (rule le_Suc_ex[elim_format]) blast
  then show ?thesis by (simp add: take_add)
qed

interpretation traits: compiler_traits "get_warnings_flags c" "get_optimization_flags c" "get_debug_flags c" for c
proof
  show "prefix (get_warnings_flags c l) (get_warnings_flags c l')" if "l \<le> l'" for l l'
    unfolding get_warnings_flags_take by (rule take_concat_prefix) (use that in simp)
  show "\<exists>fs. get_optimization_flags c l = Some fs \<and> (l \<noteq> 1 \<longrightarrow> fs \<noteq> [])" if "0 \<le> l" "l \<le> 3" for l
  proof -
    have "l = 0 \<or> l = 1 \<or> l = 2 \<or> l = 3" using that by arith
    then show ?thesis by (cases c) (auto simp: get_optimization_flags_def)
  qed
  show "\<exists>fs defs. get_debug_flags c l = Some (fs, defs) \<and> (''NDEBUG'' \<in> set defs \<longleftrightarrow> l = 0)" if "0 \<le> l" for l
    using that by (cases c) (auto simp: get_debug_flags_def)
qed

subsection \<open>What configuring does\<close>

lemma no_compiler [simp]: "find_compiler None = None" "compiler_cc env = [] \<Longrightarrow> compiler_cxx env = [] \<Longrightarrow> chosen_compiler env = None"
  by (simp_all add: find_compiler_def chosen_compiler_def or_none_def)

lemma configure_known:
  assumes "chosen_compiler env = Some c" "map_of profiles name = Some (opt_level, warn_level, dbg_level)"
    "get_optimization_flags c opt_level = Some fs" "get_debug_flags c dbg_level = Some (dfs, defs)"
  shows "configure name env =
    (let flags = fs @ dfs @ get_warnings_flags c warn_level;
         cc = compiler_cc env \<noteq> [] \<and> ccflags env = []; cxx = compiler_cxx env \<noteq> [] \<and> cxxflags env = []
     in Inr (env\<lparr>ccflags := if cc then flags else ccflags env,
                 cxxflags := if cxx then flags else cxxflags env,
                 ccdefines := ccdefines env @ (if cc then defs else []),
                 cxxdefines := cxxdefines env @ (if cxx then defs else [])\<rparr>))"
proof -
  have "\<not> (compiler_cc env = [] \<and> compiler_cxx env = [])" using assms(1) by auto
  then show ?thesis using assms unfolding configure_def
    by (simp add: Let_def or_none_def dict_get_def add_cc_def add_cxx_def append_value_def)
qed

lemma configure_cases:
  "configure name env =
     (if compiler_cc env = [] \<and> compiler_cxx env = []
      then Inl (WafError ''neither COMPILER_CC nor COMPILER_CXX are defined'')
      else case chosen_compiler env of
             None \<Rightarrow> Inr env
           | Some c \<Rightarrow> if map_of profiles name = None then Inl KeyError else configure name env)"
  by (auto simp: configure_def or_none_def dict_get_def Let_def split: option.splits)

theorem configure_flags:
  assumes "chosen_compiler env = Some c" "map_of profiles name = Some (opt_level, warn_level, dbg_level)"
  shows "\<exists>fs dfs defs env'. get_optimization_flags c opt_level = Some fs \<and> get_debug_flags c dbg_level = Some (dfs, defs) \<and>
    configure name env = Inr env' \<and>
    ccflags env' = (if compiler_cc env \<noteq> [] \<and> ccflags env = []
                    then fs @ dfs @ get_warnings_flags c warn_level else ccflags env) \<and>
    cxxflags env' = (if compiler_cxx env \<noteq> [] \<and> cxxflags env = []
                     then fs @ dfs @ get_warnings_flags c warn_level else cxxflags env) \<and>
    (ccdefines env = [] \<and> compiler_cc env \<noteq> [] \<and> ccflags env = [] \<longrightarrow>
       (''NDEBUG'' \<in> set (ccdefines env') \<longleftrightarrow> name = ''release''))"
proof -
  obtain fs dfs defs where "get_optimization_flags c opt_level = Some fs" "get_debug_flags c dbg_level = Some (dfs, defs)"
    "''NDEBUG'' \<in> set defs \<longleftrightarrow> name = ''release''"
    by (rule traits.profile_flags[OF assms(2), of c])
  with configure_known[OF assms this(1,2)] show ?thesis by (simp add: Let_def)
qed

theorem configure_flags_witness:
  "let env = \<lparr>compiler_cc = ''gcc'', compiler_cxx = ''g++'', ccflags = [], cxxflags = [''-O1''], ccdefines = [], cxxdefines = []\<rparr>
   in configure ''release'' env = Inr (env\<lparr>ccflags := [''-O3'', ''-g0'', ''-Wall''], ccdefines := [''NDEBUG'']\<rparr>)"
  using configure_flags[of "\<lparr>compiler_cc = ''gcc'', compiler_cxx = ''g++'', ccflags = [], cxxflags = [''-O1''], ccdefines = [], cxxdefines = []\<rparr>"
      Gcc "''release''" 3 1 0]
  by (simp add: chosen_compiler_def find_compiler_def or_none_def compiler_mapping_def profiles_def Let_def
      get_optimization_flags_def get_debug_flags_def get_warnings_flags_def configure_def dict_get_def add_cc_def append_value_def)

theorem configure_idempotent:
  assumes "configure name env = Inr env'"
  shows "configure name env' = Inr env'"
proof (cases "chosen_compiler env")
  case None
  then show ?thesis using assms configure_cases[of name env] by (simp split: if_splits)
next
  case (Some c)
  then obtain opt_level warn_level dbg_level where p: "map_of profiles name = Some (opt_level, warn_level, dbg_level)"
    using assms configure_cases[of name env] by (cases "map_of profiles name") (auto split: if_splits)
  obtain fs dfs defs where flags: "get_optimization_flags c opt_level = Some fs" "fs \<noteq> []" "get_debug_flags c dbg_level = Some (dfs, defs)"
    by (rule traits.profile_flags[OF p, of c])
  note result = configure_known[OF Some p flags(1,3)]
  have same: "compiler_cc env' = compiler_cc env" "compiler_cxx env' = compiler_cxx env"
    using assms unfolding result by (auto simp: Let_def)
  have "chosen_compiler env' = Some c" using Some unfolding chosen_compiler_def same .
  from configure_known[OF this p flags(1,3)] show ?thesis
    using assms flags(2) unfolding result by (auto simp: Let_def)
qed

theorem configure_idempotent_witness:
  "let env = \<lparr>compiler_cc = [], compiler_cxx = ''icpc'', ccflags = [], cxxflags = [''-O0'', ''-ggdb'', ''-g3''],
     ccdefines = [], cxxdefines = [''_DEBUG'']\<rparr>
   in configure ''debug'' env = Inr env"
proof -
  have "configure ''debug'' \<lparr>compiler_cc = [], compiler_cxx = ''icpc'', ccflags = [], cxxflags = [], ccdefines = [], cxxdefines = []\<rparr> =
    Inr \<lparr>compiler_cc = [], compiler_cxx = ''icpc'', ccflags = [], cxxflags = [''-O0'', ''-ggdb'', ''-g3''], ccdefines = [], cxxdefines = [''_DEBUG'']\<rparr>"
    by code_simp
  from configure_idempotent[OF this] show ?thesis by simp
qed

theorem configure_raises_iff:
  assumes "build_profile_option = Inr (initial, choices)" "name \<in> set choices"
  shows "(\<exists>e. configure name env = Inl e) \<longleftrightarrow> compiler_cc env = [] \<and> compiler_cxx env = []"
proof (cases "chosen_compiler env")
  case None
  then show ?thesis using configure_cases[of name env] by (simp split: if_splits)
next
  case (Some c)
  from assms obtain opt_level warn_level dbg_level where p: "map_of profiles name = Some (opt_level, warn_level, dbg_level)"
    by (auto simp: build_profile_option_def profiles_def dict_keys_def split: if_splits)
  obtain fs dfs defs where "get_optimization_flags c opt_level = Some fs" "get_debug_flags c dbg_level = Some (dfs, defs)"
    by (rule traits.profile_flags[OF p, of c])
  from configure_known[OF Some p this] Some show ?thesis by (auto simp: Let_def)
qed

theorem configure_raises_iff_witness:
  "(\<exists>e. configure ''default'' \<lparr>compiler_cc = ''cc'', compiler_cxx = [], ccflags = [], cxxflags = [], ccdefines = [], cxxdefines = []\<rparr> = Inl e) \<longleftrightarrow> False"
proof -
  have "build_profile_option = Inr (''default'', [''default'', ''debug'', ''release''])" by code_simp
  from configure_raises_iff[OF this] show ?thesis by simp
qed

end
