(* ===== verification/Py_Format.thy ===== *)
theory Py_Format
  imports Prelude
begin

section \<open>Formatting with a dictionary\<close>

text \<open>
  The operator \<open>%\<close> of Python 2 on a string and a dictionary, with the directives \<open>%(key)s\<close>,
  \<open>%(key)r\<close> and \<open>%%\<close> and values that are strings, and on a string and a tuple.  Any other directive is outside the model
  and counts as an error.  The equivalence below is with replacing the directives in the text.
\<close>

text \<open>\<open>repr\<close> of a byte string\<close>

definition hex_byte :: "char \<Rightarrow> string" where
  "hex_byte c =
     (let n = (of_char c :: nat) in [''0123456789abcdef'' ! (n div 16), ''0123456789abcdef'' ! (n mod 16)])"

definition repr_char :: "char \<Rightarrow> char \<Rightarrow> string" where
  "repr_char quote c =
     (if c = quote \<or> c = CHR 0x5C then [CHR 0x5C, c]
      else if c = CHR 0x09 then [CHR 0x5C, CHR ''t'']
      else if c = CHR 0x0A then [CHR 0x5C, CHR ''n'']
      else if c = CHR 0x0D then [CHR 0x5C, CHR ''r'']
      else if (of_char c :: nat) < 32 \<or> 127 \<le> (of_char c :: nat) then [CHR 0x5C, CHR ''x''] @ hex_byte c
      else [c])"

definition repr_str :: "string \<Rightarrow> string" where
  "repr_str s =
     (let quote = (if CHR 0x27 \<in> set s \<and> CHR 0x22 \<notin> set s then CHR 0x22 else CHR 0x27)
      in [quote] @ concat (map (repr_char quote) s) @ [quote])"

text \<open>\<open>str\<close> of a list of strings\<close>

definition str_list :: "string list \<Rightarrow> string" where
  "str_list xs = ''['' @ join '', '' (map repr_str xs) @ '']''"

text \<open>\<open>s.replace('-', '_')\<close>\<close>

definition underscores :: "string \<Rightarrow> string" where
  "underscores s = map (\<lambda>c. if c = CHR ''-'' then CHR ''_'' else c) s"

function format :: "(string, string) dict \<Rightarrow> string \<Rightarrow> string res" where
  "format d [] = Inr []"
| "format d (c # s) =
     (if c \<noteq> CHR ''%'' then map_value (Cons c) (format d s)
      else if prefix ''%'' s then map_value (Cons CHR ''%'') (format d (tl s))
      else if prefix ''('' s then
        (let key = takeWhile (\<lambda>x. x \<noteq> CHR '')'') (tl s);
             conversion = drop (Suc (length key)) (tl s)
         in if prefix ''s'' conversion
            then bind_res (dict_get d key) (\<lambda>v. map_value (\<lambda>t. v @ t) (format d (tl conversion)))
            else if prefix ''r'' conversion
            then bind_res (dict_get d key) (\<lambda>v. map_value (\<lambda>t. repr_str v @ t) (format d (tl conversion)))
            else Inl ValueError)
      else Inl ValueError)"
  by pat_completeness auto
termination by (relation "measure (\<lambda>(d, s). length s)") auto

text \<open>The text with every occurrence of a pattern of a table replaced, from left to right.\<close>

function replace_all :: "(string \<times> string) list \<Rightarrow> string \<Rightarrow> string" where
  "replace_all table [] = []"
| "replace_all table (c # s) =
     (case find (\<lambda>p. prefix (fst p) (c # s)) table of
        None \<Rightarrow> c # replace_all table s
      | Some p \<Rightarrow> snd p @ replace_all table (drop (length (fst p) - 1) s))"
  by pat_completeness auto
termination by (relation "measure (\<lambda>(table, s). length s)") auto

text \<open>Every percent sign begins a pattern.\<close>

function covered :: "string list \<Rightarrow> string \<Rightarrow> bool" where
  "covered pats [] = True"
| "covered pats (c # s) =
     (case find (\<lambda>p. prefix p (c # s)) pats of
        None \<Rightarrow> c \<noteq> CHR ''%'' \<and> covered pats s
      | Some p \<Rightarrow> covered pats (drop (length p - 1) s))"
  by pat_completeness auto
termination by (relation "measure (\<lambda>(pats, s). length s)") auto

declare format.simps(2) [simp del] replace_all.simps(2) [simp del] covered.simps(2) [simp del]

definition str_directive :: "string \<Rightarrow> string" where "str_directive k = ''%('' @ k @ '')s''"
definition repr_directive :: "string \<Rightarrow> string" where "repr_directive k = ''%('' @ k @ '')r''"

definition directives :: "(string, string) dict \<Rightarrow> (string \<times> string) list" where
  "directives d = concat (map (\<lambda>(k, v). [(str_directive k, v), (repr_directive k, repr_str v)]) d)"

definition patterns :: "string list \<Rightarrow> string list" where
  "patterns ks = concat (map (\<lambda>k. [str_directive k, repr_directive k]) ks)"

lemma patterns_directives: "map fst (directives d) = patterns (dict_keys d)"
  by (induction d) (auto simp: patterns_def directives_def dict_keys_def)

lemma format_directive:
  assumes "CHR '')'' \<notin> set k"
  shows "format d (str_directive k @ s) = bind_res (dict_get d k) (\<lambda>v. map_value (\<lambda>t. v @ t) (format d s))"
    "format d (repr_directive k @ s) = bind_res (dict_get d k) (\<lambda>v. map_value (\<lambda>t. repr_str v @ t) (format d s))"
  using take_drop_until(1)[OF assms]
  by (simp_all add: str_directive_def repr_directive_def format.simps(2))

lemma format_plain: "c \<noteq> CHR ''%'' \<Longrightarrow> format d (c # s) = map_value (Cons c) (format d s)"
  by (simp add: format.simps(2))

lemma map_of_distinct_entry: "distinct (dict_keys d) \<Longrightarrow> (k, v) \<in> set d \<Longrightarrow> dict_get d k = Inr v"
  by (simp add: dict_get_def dict_keys_def)

lemma find_SomeD: "find P xs = Some x \<Longrightarrow> x \<in> set xs \<and> P x"
  by (induction xs) (auto split: if_splits)

lemma find_map_fst: "find (\<lambda>p. Q (fst p)) table = Some (p, r) \<Longrightarrow> find Q (map fst table) = Some p"
  by (induction table) (auto split: if_splits)

lemma find_map_fst_None: "find (\<lambda>p. Q (fst p)) table = None \<longleftrightarrow> find Q (map fst table) = None"
  by (induction table) auto

text \<open>Formatting a text of which every percent sign begins a known directive is replacing.\<close>

lemma format_replaces:
  assumes "distinct (dict_keys d)" "\<And>k. k \<in> set (dict_keys d) \<Longrightarrow> CHR '')'' \<notin> set k"
  shows "covered (patterns (dict_keys d)) s \<Longrightarrow> format d s = Inr (replace_all (directives d) s)"
proof (induction s rule: length_induct)
  case (1 s)
  show ?case
  proof (cases s)
    case (Cons c t)
    show ?thesis
    proof (cases "find (\<lambda>p. prefix (fst p) s) (directives d)")
      case None
      then have "c \<noteq> CHR ''%''" "covered (patterns (dict_keys d)) t"
        using "1.prems" Cons find_map_fst_None[of "\<lambda>p. prefix p s" "directives d"]
        by (simp_all add: covered.simps(2) patterns_directives)
      then show ?thesis using "1.IH" None Cons by (simp add: replace_all.simps(2) format_plain)
    next
      case (Some p)
      then obtain pat r where p: "p = (pat, r)" by (cases p)
      have found: "(pat, r) \<in> set (directives d)" "prefix pat s"
        using find_SomeD[OF Some] p by auto
      then obtain rest where rest: "s = pat @ rest" by (auto simp: prefix_def)
      have drop: "drop (length pat - 1) t = rest"
        using rest Cons found(1) by (cases pat) (auto simp: directives_def str_directive_def repr_directive_def)
      have "covered (patterns (dict_keys d)) rest"
        using "1.prems" Cons find_map_fst[of "\<lambda>p. prefix p s" "directives d" pat r] Some p drop
        by (simp add: covered.simps(2) patterns_directives)
      moreover have "length rest < length s"
        using rest found(1) by (auto simp: directives_def str_directive_def repr_directive_def)
      ultimately have IH: "format d rest = Inr (replace_all (directives d) rest)" using "1.IH" by blast
      obtain k v where kv: "(k, v) \<in> set d" "(pat, r) = (str_directive k, v) \<or> (pat, r) = (repr_directive k, repr_str v)"
        using found(1) by (auto simp: directives_def)
      then have "CHR '')'' \<notin> set k" "dict_get d k = Inr v"
        using assms map_of_distinct_entry[OF assms(1)] by (force simp: dict_keys_def)+
      then have "format d s = Inr (r @ replace_all (directives d) rest)"
        using kv(2) rest IH by (auto simp: format_directive)
      then show ?thesis using Some p drop Cons by (simp add: replace_all.simps(2))
    qed
  qed simp
qed

text \<open>Being covered, from line to line\<close>

lemma pattern_begins: "p \<in> set (patterns ks) \<Longrightarrow> \<exists>q. p = CHR ''%'' # q"
  by (auto simp: patterns_def str_directive_def repr_directive_def)

lemma covered_no_percent: "CHR ''%'' \<notin> set s \<Longrightarrow> covered (patterns ks) s"
proof (induction s)
  case (Cons c s)
  then have "find (\<lambda>p. prefix p (c # s)) (patterns ks) = None"
    by (auto simp: find_None_iff dest!: pattern_begins)
  then show ?case using Cons by (auto simp: covered.simps(2))
qed simp

lemma prefix_line: "newline \<notin> set p \<Longrightarrow> prefix p (a @ newline # b) \<longleftrightarrow> prefix p a"
proof
  assume "newline \<notin> set p" "prefix p (a @ newline # b)"
  then show "prefix p a" unfolding prefix_append by (auto simp: prefix_Cons)
qed simp

lemma covered_line:
  assumes "\<And>p. p \<in> set pats \<Longrightarrow> newline \<notin> set p" "\<And>p. p \<in> set pats \<Longrightarrow> p \<noteq> []"
  shows "covered pats a \<Longrightarrow> covered pats b \<Longrightarrow> covered pats (a @ newline # b)"
proof (induction a rule: length_induct)
  case (1 a)
  have same: "find (\<lambda>p. prefix p (u @ newline # b)) pats = find (\<lambda>p. prefix p u) pats" for u
    using assms(1) by (intro find_cong) (auto simp: prefix_line)
  show ?case
  proof (cases a)
    case Nil
    have "find (\<lambda>p. prefix p (newline # b)) pats = None"
      using assms by (fastforce simp: find_None_iff prefix_Cons)
    then show ?thesis using "1.prems"(2) Nil by (simp add: covered.simps(2))
  next
    case (Cons c u)
    show ?thesis
    proof (cases "find (\<lambda>p. prefix p a) pats")
      case None
      then show ?thesis using 1 Cons same[of a] by (simp add: covered.simps(2))
    next
      case (Some p)
      then have "prefix p a" "p \<noteq> []" using find_SomeD[OF Some] assms(2) by auto
      then have "length p - 1 \<le> length u" using Cons prefix_length_le[of p a] by (simp add: le_diff_conv)
      moreover have "covered pats (drop (length p - 1) u)" using "1.prems"(1) Cons Some by (simp add: covered.simps(2))
      moreover have "length (drop (length p - 1) u) < length a" using Cons by simp
      ultimately have "covered pats (drop (length p - 1) u @ newline # b)" using "1.IH" "1.prems"(2) by blast
      then show ?thesis using Some same[of a] Cons \<open>length p - 1 \<le> length u\<close> by (simp add: covered.simps(2))
    qed
  qed
qed

subsection \<open>Positional directives\<close>

text \<open>
  \<open>template % (path,)\<close> for the directives \<open>%s\<close> and \<open>%%\<close>: too few or too many \<open>%s\<close> are a
  \<open>TypeError\<close>, and other directives are taken for unsupported ones.
\<close>

fun percent :: "string \<Rightarrow> string list \<Rightarrow> string res" where
  "percent [] args = (if args = [] then Inr [] else Inl TypeError)"
| "percent (c # s) args =
     (if c \<noteq> CHR ''%'' then map_value ((#) c) (percent s args)
      else case s of
             [] \<Rightarrow> Inl ValueError
           | d # s' \<Rightarrow>
               if d = CHR ''%'' then map_value ((#) d) (percent s' args)
               else if d = CHR ''s'' then
                 (case args of [] \<Rightarrow> Inl TypeError | a # as \<Rightarrow> map_value ((@) a) (percent s' as))
               else Inl ValueError)"

lemma percent_plain: "CHR ''%'' \<notin> set s \<Longrightarrow> percent (s @ t) args = map_value ((@) s) (percent t args)"
  by (induction s; cases "percent t args") auto

lemma percent_template:
  "CHR ''%'' \<notin> set s \<Longrightarrow> CHR ''%'' \<notin> set t \<Longrightarrow> percent (s @ ''%s'' @ t) [path] = Inr (s @ path @ t)"
  using percent_plain[of s "''%s'' @ t" "[path]"] percent_plain[of t "[]" "[]"] by simp

end
