(* ===== verification/Wutils.thy ===== *)
theory Wutils
  imports Shlex Py_Format
begin

section \<open>Running programs from the build (\<open>wutils.py\<close>)\<close>

text \<open>
  \<^verbatim>\<open>wutils.py\<close>: finding a program of the tree by its name, the environment and the command
  line it is run with, and what becomes of its exit code.  The objects of the build system waf
  are the record \<open>build\<close>; the program that is started is a parameter \<open>spawn\<close>.
\<close>

subsection \<open>What is around\<close>

text \<open>A task generator: \<open>target_path\<close> is the absolute path of the program that is built.\<close>

record task_gen =
  tg_name :: string
  is_ns3_program :: bool
  src_path :: string
  bld_path :: string
  target_path :: string

record build =
  all_task_gen :: "task_gen list"
  module_path :: "string list"
  executable_path :: "string list"
  valgrind_program :: string
  python_program :: "string list"
  pymoddir :: string
  pyvizdir :: string

record run_options =
  r_command_template :: string
  r_valgrind :: bool
  r_cwd_launch :: string

text \<open>
  The interpreter: \<open>platform\<close> is \<open>sys.platform\<close>, \<open>on_windows\<close> says whether \<open>WindowsError\<close> is
  defined, \<open>signal_names\<close> are the variables of the module \<open>signal\<close> in the order of iteration,
  \<open>launch_cwd\<close> is \<open>Options.cwd_launch\<close>.
\<close>

record host =
  platform :: string
  pathsep :: char
  on_windows :: bool
  environ :: "(string, string) dict"
  signal_names :: "(string \<times> int) list"
  working_dir :: string
  launch_dir :: string
  launch_cwd :: string

record process =
  p_argv :: "string list"
  p_env :: "(string, string) dict"
  p_cwd :: "string option"

text \<open>A process that was started has an exit code and lines on its standard error.\<close>

datatype spawned = Not_started | Ended int "string list"

datatype run_error =
    No_such_program string "string list"
  | Template_and_valgrind
  | Valgrind_not_installed
  | Command_raised "string list"
  | Terminated_by_signal "string list" string
  | Exited_with_code "string list" int
  | OSError
  | Python_error py_error

type_synonym 'a run_res = "run_error + 'a"

definition lift_res :: "'a res \<Rightarrow> 'a run_res" where
  "lift_res m = (case m of Inl e \<Rightarrow> Inl (Python_error e) | Inr x \<Rightarrow> Inr x)"

lemma lift_res_simps [simp, res_simps]: "lift_res (Inl e) = Inl (Python_error e)" "lift_res (Inr x) = Inr x"
  by (simp_all add: lift_res_def)

subsection \<open>Command template\<close>

text \<open>An unset template is empty.\<close>

definition get_command_template :: "run_options \<Rightarrow> string list \<Rightarrow> string" where
  "get_command_template opts arguments =
     foldl (\<lambda>cmd arg. cmd @ '' '' @ arg)
       (if r_command_template opts = [] then ''%s'' else r_command_template opts) arguments"

subsection \<open>Relative paths\<close>

text \<open>\<open>os.path.commonprefix\<close> of two lists; \<open>os.path.join\<close> of a non-empty list.\<close>

fun commonprefix :: "'a list \<Rightarrow> 'a list \<Rightarrow> 'a list" where
  "commonprefix (x # xs) (y # ys) = (if x = y then x # commonprefix xs ys else [])"
| "commonprefix _ _ = []"

definition path_join_list :: "string list \<Rightarrow> string" where
  "path_join_list parts = foldl path_join (hd parts) (tl parts)"

definition relpath :: "string \<Rightarrow> string \<Rightarrow> string \<Rightarrow> string res" where
  "relpath directory path start =
     (if path = [] then Inl ValueError
      else let start_list = split_on slash (abspath directory start);
               path_list = split_on slash (abspath directory path);
               i = length (commonprefix start_list path_list);
               rel_list = replicate (length start_list - i) ''..'' @ drop i path_list
           in Inr (if rel_list = [] then ''.'' else path_join_list rel_list))"

subsection \<open>Finding a program\<close>

definition under_launch_dir :: "string \<Rightarrow> task_gen \<Rightarrow> bool" where
  "under_launch_dir here obj \<longleftrightarrow> prefix here (src_path obj) \<or> prefix here (bld_path obj)"

fun find_loop :: "string \<Rightarrow> string \<Rightarrow> string \<Rightarrow> string list \<Rightarrow> task_gen list \<Rightarrow> task_gen run_res" where
  "find_loop directory here program_name found_programs [] = Inl (No_such_program program_name found_programs)"
| "find_loop directory here program_name found_programs (obj # objs) =
     (if \<not> is_ns3_program obj \<or> \<not> under_launch_dir here obj
      then find_loop directory here program_name found_programs objs
      else bind_res (lift_res (relpath directory (src_path obj) here)) (\<lambda>rel.
        let names = [tg_name obj, path_join rel (tg_name obj)]
        in if program_name \<in> set names then Inr obj
           else find_loop directory here program_name (found_programs @ names) objs))"

definition find_program :: "host \<Rightarrow> build \<Rightarrow> string \<Rightarrow> task_gen run_res" where
  "find_program host bld program_name =
     find_loop (working_dir host) (abspath (working_dir host) (launch_dir host)) program_name [] (all_task_gen bld)"

subsection \<open>The environment of a process\<close>

definition pathvar :: "string \<Rightarrow> string" where
  "pathvar os =
     (if os = ''linux2'' then ''LD_LIBRARY_PATH''
      else if os = ''darwin'' then ''DYLD_LIBRARY_PATH''
      else if os = ''win32'' then ''PATH''
      else if os = ''cygwin'' then ''PATH''
      else if prefix ''freebsd'' os then ''LD_LIBRARY_PATH''
      else ''LD_LIBRARY_PATH'')"

definition dict_update :: "('k, 'v) dict \<Rightarrow> ('k, 'v) dict \<Rightarrow> ('k, 'v) dict" where
  "dict_update d new = foldl (\<lambda>d (k, v). dict_put k v d) d new"

definition prepend :: "char \<Rightarrow> string list \<Rightarrow> string \<Rightarrow> (string, string) dict \<Rightarrow> (string, string) dict" where
  "prepend sep paths key env =
     dict_put key
       (join [sep] (case map_of env key of Some old \<Rightarrow> paths @ [old] | None \<Rightarrow> paths)) env"

definition get_proc_env :: "host \<Rightarrow> build \<Rightarrow> (string, string) dict option \<Rightarrow> (string, string) dict" where
  "get_proc_env host bld os_env =
     (let sep = pathsep host;
          env0 = (case os_env of None \<Rightarrow> environ host | Some new \<Rightarrow> dict_update (environ host) new);
          env1 = prepend sep (module_path bld) (pathvar (platform host)) env0;
          env2 = prepend sep [pymoddir bld, pyvizdir bld] ''PYTHONPATH'' env1
      in prepend sep (executable_path bld) ''PATH'' env2)"

subsection \<open>Running\<close>

text \<open>The variables of the module \<open>signal\<close> that name a signal.\<close>

definition names_signal :: "string \<Rightarrow> bool" where
  "names_signal name \<longleftrightarrow> length name > 3 \<and> take 3 name = ''SIG'' \<and> name ! 3 \<noteq> CHR ''_''"

definition signame :: "(string \<times> int) list \<Rightarrow> int \<Rightarrow> string option" where
  "signame signals retval =
     (if retval < 0
      then map_option fst (find (\<lambda>(name, val). names_signal name \<and> val = - retval) signals)
      else None)"

definition check_retval :: "host \<Rightarrow> string list \<Rightarrow> int \<Rightarrow> int run_res" where
  "check_retval host argv retval =
     (if retval \<noteq> 0
      then case signame (signal_names host) retval of
             Some name \<Rightarrow> Inl (Terminated_by_signal argv name)
           | None \<Rightarrow> Inl (Exited_with_code argv retval)
      else Inr retval)"

text \<open>
  Under valgrind a failure to start is an \<open>OSError\<close> that nobody handles, on Windows too.  The
  result comes with the process that was to be started, if any.
\<close>

definition run_argv ::
  "host \<Rightarrow> build \<Rightarrow> run_options \<Rightarrow> (process \<Rightarrow> spawned) \<Rightarrow> string list \<Rightarrow> (string, string) dict option \<Rightarrow>
   string option \<Rightarrow> bool \<Rightarrow> process option \<times> int run_res" where
  "run_argv host bld opts spawn argv os_env cwd force_no_valgrind =
     (let proc_env = get_proc_env host bld os_env
      in if r_valgrind opts \<and> \<not> force_no_valgrind then
           if r_command_template opts \<noteq> [] then (None, Inl Template_and_valgrind)
           else if valgrind_program bld = [] then (None, Inl Valgrind_not_installed)
           else let argv' = [valgrind_program bld, ''--leak-check=full'', ''--show-reachable=yes'', ''--error-exitcode=1''] @ argv;
                    proc = \<lparr>p_argv = argv', p_env = proc_env, p_cwd = cwd\<rparr>
                in (Some proc,
                    case spawn proc of
                      Not_started \<Rightarrow> Inl OSError
                    | Ended retval lines \<Rightarrow>
                        check_retval host argv'
                          (if retval = 0 \<and> list_ex (contains ''== LEAK SUMMARY'') lines then 1 else retval))
         else let proc = \<lparr>p_argv = argv, p_env = proc_env, p_cwd = cwd\<rparr>
              in (Some proc,
                  case spawn proc of
                    Not_started \<Rightarrow> Inl (if on_windows host then Command_raised argv else OSError)
                  | Ended retval lines \<Rightarrow> check_retval host argv retval))"

definition get_run_program ::
  "host \<Rightarrow> build \<Rightarrow> string \<Rightarrow> string option \<Rightarrow> (string \<times> string list) run_res" where
  "get_run_program host bld program_string command_template =
     (if command_template \<in> {None, Some ''%s''} then
        bind_res (lift_res (shlex_split program_string)) (\<lambda>argv.
          if argv = [] then Inl (Python_error IndexError)
          else map_value (\<lambda>program_obj. (hd argv, target_path program_obj # tl argv)) (find_program host bld (hd argv)))
      else
        bind_res (find_program host bld program_string) (\<lambda>program_obj.
        bind_res (lift_res (percent (case command_template of Some t \<Rightarrow> t | None \<Rightarrow> []) [target_path program_obj])) (\<lambda>tmpl.
          map_value (\<lambda>execvec. (program_string, execvec)) (lift_res (shlex_split (double_backslashes tmpl))))))"

definition visual_argument :: string where
  "visual_argument = ''--SimulatorImplementationType=ns3::VisualSimulatorImpl''"

definition launch_directory :: "host \<Rightarrow> run_options \<Rightarrow> string option \<Rightarrow> string option" where
  "launch_directory host opts cwd =
     (if cwd = None then Some (if r_cwd_launch opts \<noteq> [] then r_cwd_launch opts else launch_cwd host) else cwd)"

definition run_program ::
  "host \<Rightarrow> build \<Rightarrow> run_options \<Rightarrow> (process \<Rightarrow> spawned) \<Rightarrow> string \<Rightarrow> string option \<Rightarrow> string option \<Rightarrow> bool \<Rightarrow>
   process option \<times> int run_res" where
  "run_program host bld opts spawn program_string command_template cwd visualize =
     (case get_run_program host bld program_string command_template of
        Inl e \<Rightarrow> (None, Inl e)
      | Inr (dummy_program_name, execvec) \<Rightarrow>
          run_argv host bld opts spawn (execvec @ (if visualize then [visual_argument] else []))
            None (launch_directory host opts cwd) False)"

definition run_python_program ::
  "host \<Rightarrow> build \<Rightarrow> run_options \<Rightarrow> (process \<Rightarrow> spawned) \<Rightarrow> string \<Rightarrow> bool \<Rightarrow> process option \<times> int run_res" where
  "run_python_program host bld opts spawn program_string visualize =
     (case shlex_split program_string of
        Inl e \<Rightarrow> (None, Inl (Python_error e))
      | Inr execvec \<Rightarrow>
          if python_program bld = [] then (None, Inl (Python_error IndexError))
          else run_argv host bld opts spawn
                 (hd (python_program bld) # execvec @ (if visualize then [visual_argument] else []))
                 None (launch_directory host opts None) False)"

subsection \<open>A relative path leads back\<close>

text \<open>The components of a normalised path, and the absolute path they make.\<close>

definition proper_part :: "string \<Rightarrow> bool" where
  "proper_part c \<longleftrightarrow> c \<noteq> [] \<and> slash \<notin> set c \<and> c \<noteq> ''.'' \<and> c \<noteq> ''..''"

definition abs_of :: "string list \<Rightarrow> string" where
  "abs_of cs = slash # join [slash] cs"

definition single_root :: "string \<Rightarrow> bool" where
  "single_root s \<longleftrightarrow> prefix [slash] s \<and> \<not> prefix [slash, slash] s"

lemma norm_fold_proper:
  "(\<And>c. c \<in> set cs \<Longrightarrow> proper_part c) \<Longrightarrow> foldl (norm_step True) parts cs = parts @ cs"
  by (induction cs arbitrary: parts) (auto simp: norm_step_def proper_part_def)

lemma norm_fold_up:
  "(\<And>c. c \<in> set parts \<Longrightarrow> proper_part c) \<Longrightarrow>
   foldl (norm_step True) parts (replicate n ''..'') = take (length parts - n) parts"
proof (induction n arbitrary: parts)
  case (Suc n)
  show ?case
  proof (cases "parts = []")
    case True
    then show ?thesis using Suc(1)[of "[]"] by (simp add: norm_step_def)
  next
    case False
    then have "proper_part (last parts)" using Suc(2) by simp
    then have "norm_step True parts ''..'' = butlast parts" using False by (simp add: norm_step_def proper_part_def)
    moreover have "foldl (norm_step True) (butlast parts) (replicate n ''..'') =
        take (length (butlast parts) - n) (butlast parts)"
      by (rule Suc(1)) (auto intro: Suc(2) dest: in_set_butlastD)
    moreover have "take (length parts - Suc n) (butlast parts) = take (length parts - Suc n) parts"
      using False by (simp add: take_butlast)
    ultimately show ?thesis by simp
  qed
qed simp

lemma norm_fold_keeps:
  "(\<And>c. c \<in> set parts \<Longrightarrow> proper_part c) \<Longrightarrow> (\<And>c. c \<in> set cs \<Longrightarrow> slash \<notin> set c) \<Longrightarrow>
   c \<in> set (foldl (norm_step True) parts cs) \<Longrightarrow> proper_part c"
proof (induction cs arbitrary: parts)
  case (Cons x cs)
  have "proper_part y" if "y \<in> set (norm_step True parts x)" for y
    using that Cons(2) Cons(3)[of x]
    by (auto simp: norm_step_def proper_part_def split: if_splits dest: in_set_butlastD)
  then show ?case using Cons(1)[of "norm_step True parts x"] Cons(3,4) by (simp; blast)
qed simp

lemma split_on_no_sep: "c \<in> set (split_on x s) \<Longrightarrow> x \<notin> set c"
  by (induction x s arbitrary: c rule: split_on.induct) (auto split: if_splits list.splits)

lemma normpath_rooted: "single_root s \<Longrightarrow> normpath s = abs_of (foldl (norm_step True) [] (split_on slash (tl s)))"
  by (cases s) (auto simp: single_root_def normpath_def abs_of_def Let_def norm_step_def)

lemma abspath_abs_of:
  assumes "single_root (path_join d p)"
  obtains cs where "abspath d p = abs_of cs" "\<And>c. c \<in> set cs \<Longrightarrow> proper_part c"
proof -
  let ?cs = "foldl (norm_step True) [] (split_on slash (tl (path_join d p)))"
  show thesis
    by (rule that[of ?cs])
      (auto simp: abspath_def normpath_rooted[OF assms] intro: norm_fold_keeps[of "[]", rotated 2] dest: split_on_no_sep)
qed

text \<open>What \<open>split\<close> makes of such a path: an empty part for the root by itself.\<close>

definition parts_of :: "string list \<Rightarrow> string list" where
  "parts_of cs = [] # (if cs = [] then [[]] else cs)"

lemma split_abs_of: "(\<And>c. c \<in> set cs \<Longrightarrow> proper_part c) \<Longrightarrow> split_on slash (abs_of cs) = parts_of cs"
  by (auto simp: abs_of_def parts_of_def proper_part_def split_on_join)

lemma norm_fold_skip [simp]: "norm_step True parts [] = parts"
  by (simp add: norm_step_def)

lemma commonprefix_take: "take (length (commonprefix xs ys)) xs = commonprefix xs ys" "take (length (commonprefix xs ys)) ys = commonprefix xs ys"
  by (induction xs ys rule: commonprefix.induct) auto

lemma norm_relative:
  assumes ss: "\<And>c. c \<in> set ss \<Longrightarrow> proper_part c" and ps: "\<And>c. c \<in> set ps \<Longrightarrow> proper_part c"
    and i: "i = length (commonprefix (parts_of ss) (parts_of ps))"
  shows "foldl (norm_step True) [] (ss @ replicate (length (parts_of ss) - i) ''..'' @ drop i (parts_of ps)) = ps"
proof (cases "ss = []")
  case True
  have "commonprefix [[]] ps = []" using ps by (cases ps) (auto simp: proper_part_def)
  then show ?thesis using True norm_fold_up[of "[]"] ps
    by (auto simp: i parts_of_def norm_fold_proper split: if_splits)
next
  case False
  show ?thesis
  proof (cases "ps = []")
    case True
    obtain s ss' where s: "ss = s # ss'" using False by (cases ss) auto
    have "s \<noteq> []" using ss[of s] by (simp add: s proper_part_def)
    then have "i = 1" by (simp add: i True s parts_of_def)
    then show ?thesis
      using norm_fold_up[of ss "length ss", OF ss] norm_fold_proper[of ss "[]", OF ss] True
      by (simp add: parts_of_def False)
  next
    case ne: False
    define k where "k = length (commonprefix ss ps)"
    have i: "i = Suc k" using False ne by (simp add: i parts_of_def k_def)
    have take: "take k ss = take k ps" by (simp add: k_def commonprefix_take)
    have k: "k \<le> length ss" unfolding k_def by (metis commonprefix_take(1) length_take min.cobounded1)
    have "foldl (norm_step True) [] ss = ss" using norm_fold_proper[of ss "[]", OF ss] by simp
    then have "foldl (norm_step True) [] (ss @ replicate (length ss - k) ''..'' @ drop k ps) =
        foldl (norm_step True) (take (length ss - (length ss - k)) ss) (drop k ps)"
      using norm_fold_up[of ss, OF ss] by simp
    also have "\<dots> = take k ps @ drop k ps"
      using k take by (subst norm_fold_proper) (auto intro: ps dest: in_set_dropD)
    finally show ?thesis using False ne by (simp add: i parts_of_def)
  qed
qed

lemma foldl_path_join:
  "a \<noteq> [] \<Longrightarrow> last a \<noteq> slash \<Longrightarrow> (\<And>b. b \<in> set xs \<Longrightarrow> slash \<notin> set b) \<Longrightarrow> [] \<notin> set (butlast xs) \<Longrightarrow>
   foldl path_join a xs = join [slash] (a # xs)"
proof (induction xs arbitrary: a)
  case (Cons b xs)
  have j: "path_join a b = a @ slash # b" using Cons.prems(1,2) Cons.prems(3)[of b] by (cases b) (auto simp: path_join_def)
  show ?case
  proof (cases xs)
    case Nil
    then show ?thesis by (simp add: j)
  next
    case (Cons x ys)
    with Cons.prems have "b \<noteq> []" "slash \<notin> set b" by auto
    then have "last (path_join a b) \<noteq> slash" by (auto simp: j dest: last_in_set)
    then have "foldl path_join (path_join a b) xs = join [slash] (path_join a b # xs)"
      using Cons.prems Cons by (intro Cons.IH) (auto simp: j)
    then show ?thesis by (simp add: Cons j)
  qed
qed simp

lemma join_append: "xs \<noteq> [] \<Longrightarrow> ys \<noteq> [] \<Longrightarrow> join sep (xs @ ys) = join sep xs @ sep @ join sep ys"
proof (induction xs rule: induct_list012)
  case (2 x)
  then show ?case by (cases ys) auto
qed simp_all

lemma path_join_abs_of:
  assumes "\<And>c. c \<in> set cs \<Longrightarrow> proper_part c" "rel \<noteq> []" "hd rel \<noteq> []" "slash \<notin> set (hd rel)"
  shows "path_join (abs_of cs) (join [slash] rel) = abs_of (cs @ rel)" "single_root (abs_of (cs @ rel))"
proof -
  have hd: "join [slash] rel \<noteq> []" "hd (join [slash] rel) \<noteq> slash"
  proof -
    obtain a rs where a: "rel = a # rs" using assms(2) by (cases rel) auto
    then obtain x r where "a = x # r" using assms(3) by (cases a) auto
    then have "x \<noteq> slash" using assms(4) a by auto
    moreover have "join [slash] rel = x # (r @ (if rs = [] then [] else slash # join [slash] rs))"
      unfolding a \<open>a = x # r\<close> by (cases rs) simp_all
    ultimately show "join [slash] rel \<noteq> []" "hd (join [slash] rel) \<noteq> slash" by simp_all
  qed
  then have np: "\<not> prefix [slash] (join [slash] rel)" by (cases "join [slash] rel") auto
  have last: "last (abs_of cs) \<noteq> slash" if "cs \<noteq> []"
  proof -
    have "last (join [slash] xs) \<noteq> slash \<and> join [slash] xs \<noteq> []"
      if "xs \<noteq> []" "\<And>c. c \<in> set xs \<Longrightarrow> proper_part c" for xs
      using that by (induction xs rule: induct_list012) (auto simp: proper_part_def dest: last_in_set)
    from this[of cs] that assms(1) show ?thesis by (simp add: abs_of_def)
  qed
  show "path_join (abs_of cs) (join [slash] rel) = abs_of (cs @ rel)"
    using np last assms(2) by (cases "cs = []") (simp_all add: path_join_def abs_of_def join_append)
  show "single_root (abs_of (cs @ rel))"
  proof (cases cs)
    case Nil
    then show ?thesis using np by (simp add: single_root_def abs_of_def)
  next
    case (Cons c cs')
    then obtain x c' where "c = x # c'" "x \<noteq> slash" using assms(1)[of c] by (cases c) (auto simp: proper_part_def)
    then show ?thesis using Cons assms(2) by (cases "cs' @ rel") (auto simp: single_root_def abs_of_def)
  qed
qed

text \<open>
  C21: Joining the start directory with the relative path and normalising gives the absolute
  path back.
\<close>

theorem relpath_leads_back:
  assumes "path \<noteq> []" "single_root (path_join d path)" "single_root (path_join d start)"
  shows "\<exists>r. relpath d path start = Inr r \<and> normpath (path_join (abspath d start) r) = abspath d path"
proof -
  obtain ps where ps: "abspath d path = abs_of ps" "\<And>c. c \<in> set ps \<Longrightarrow> proper_part c"
    by (rule abspath_abs_of[OF assms(2)]) blast
  obtain ss where ss: "abspath d start = abs_of ss" "\<And>c. c \<in> set ss \<Longrightarrow> proper_part c"
    by (rule abspath_abs_of[OF assms(3)]) blast
  define i where "i = length (commonprefix (parts_of ss) (parts_of ps))"
  define rel where "rel = replicate (length (parts_of ss) - i) ''..'' @ drop i (parts_of ps)"
  have fold: "foldl (norm_step True) [] (ss @ rel) = ps"
    unfolding rel_def by (rule norm_relative[OF ss(2) ps(2) i_def])
  have r: "relpath d path start = Inr (if rel = [] then ''.'' else path_join_list rel)"
    using assms(1) ss ps by (simp add: relpath_def split_abs_of rel_def i_def Let_def)
  define rel' where "rel' = (if rel = [] then [''.''] else rel)"
  have fold': "foldl (norm_step True) [] (ss @ rel') = ps"
    using fold by (auto simp: rel'_def norm_step_def)
  have good: "slash \<notin> set c" if "c \<in> set rel'" for c
    using that ps(2) by (auto simp: rel'_def rel_def parts_of_def proper_part_def dest!: in_set_dropD split: if_splits)
  obtain j where j: "i = Suc j" by (simp add: i_def parts_of_def)
  have ne: "[] \<notin> set (butlast rel') \<and> hd rel' \<noteq> []"
  proof (cases "ps = []")
    case True
    then show ?thesis by (cases j) (auto simp: rel'_def rel_def j parts_of_def butlast_append hd_append hd_replicate dest: in_set_butlastD)
  next
    case False
    then have "[] \<notin> set rel'" using ps(2)
      by (auto simp: rel'_def rel_def j parts_of_def proper_part_def dest: in_set_dropD)
    moreover have "rel' \<noteq> []" by (simp add: rel'_def)
    ultimately show ?thesis by (metis hd_in_set in_set_butlastD)
  qed
  have ne': "rel' \<noteq> []" by (simp add: rel'_def)
  have "(if rel = [] then ''.'' else path_join_list rel) = join [slash] rel'"
  proof (cases "rel = []")
    case False
    then obtain a xs where a: "rel = a # xs" by (cases rel) auto
    then have "rel' = a # xs" by (simp add: rel'_def)
    then have "foldl path_join a xs = join [slash] (a # xs)"
      using ne good by (intro foldl_path_join) (auto dest!: last_in_set split: if_splits)
    then show ?thesis using a by (simp add: path_join_list_def rel'_def)
  qed (simp add: rel'_def)
  moreover have "normpath (path_join (abs_of ss) (join [slash] rel')) = abs_of ps"
  proof -
    have hd: "hd rel' \<noteq> []" "slash \<notin> set (hd rel')" using ne good[of "hd rel'"] ne' by simp_all
    have "split_on slash (tl (abs_of (ss @ rel'))) = ss @ rel'"
      using ne' good ss(2) by (auto simp: abs_of_def proper_part_def intro!: split_on_join)
    then show ?thesis
      using path_join_abs_of[OF ss(2) ne' hd] fold' by (simp add: normpath_rooted)
  qed
  ultimately show ?thesis using r ss(1) ps(1) by simp
qed

theorem relpath_leads_back_witness:
  "normpath (path_join ''/home/me'' ''../you/src'') = ''/home/you/src''"
proof -
  have "relpath ''/home/me'' ''../you/./src'' ''.'' = Inr ''../you/src''"
    "abspath ''/home/me'' ''.'' = ''/home/me''" "abspath ''/home/me'' ''../you/./src'' = ''/home/you/src''" by code_simp+
  with relpath_leads_back[of "''../you/./src''" "''/home/me''" "''.''"] show ?thesis
    by (simp add: single_root_def path_join_def)
qed

subsection \<open>An example tree\<close>

text \<open>Two programs; the directory of the second one only begins like the launch directory.\<close>

definition example_host :: host where
  "example_host =
     \<lparr>platform = ''linux2'', pathsep = CHR '':'', on_windows = False, environ = [(''PATH'', ''/bin''), (''HOME'', ''/me'')],
      signal_names = [(''SIG_DFL'', 11), (''SIGSEGV'', 11)], working_dir = ''/ns'', launch_dir = ''src'', launch_cwd = ''/ns''\<rparr>"

definition example_build :: build where
  "example_build =
     \<lparr>all_task_gen =
        [\<lparr>tg_name = ''lib'', is_ns3_program = False, src_path = ''/ns/src'', bld_path = ''/ns/build/src'', target_path = ''/ns/build/src/lib''\<rparr>,
         \<lparr>tg_name = ''ping'', is_ns3_program = True, src_path = ''/ns/src/olsr'', bld_path = ''/ns/build/src/olsr'', target_path = ''/ns/build/src/olsr/ping''\<rparr>,
         \<lparr>tg_name = ''old'', is_ns3_program = True, src_path = ''/ns/src-old'', bld_path = ''/ns/build/src-old'', target_path = ''/ns/build/src-old/old''\<rparr>],
      module_path = [''/ns/build''], executable_path = [''/ns/build/bin''], valgrind_program = ''/usr/bin/valgrind'',
      python_program = [''/usr/bin/python''], pymoddir = ''/ns/build/bindings/python'', pyvizdir = ''/ns/src/visualizer''\<rparr>"

subsection \<open>Programs are found by name or relative path\<close>

definition launch_root :: "host \<Rightarrow> string" where
  "launch_root host = abspath (working_dir host) (launch_dir host)"

definition candidate :: "host \<Rightarrow> task_gen \<Rightarrow> bool" where
  "candidate host obj \<longleftrightarrow> is_ns3_program obj \<and> under_launch_dir (launch_root host) obj"

definition relative_to :: "host \<Rightarrow> string \<Rightarrow> string" where
  "relative_to host path =
     (case relpath (working_dir host) path (launch_root host) of Inl e \<Rightarrow> [] | Inr r \<Rightarrow> r)"

definition names_of :: "host \<Rightarrow> task_gen \<Rightarrow> string list" where
  "names_of host obj = [tg_name obj, path_join (relative_to host (src_path obj)) (tg_name obj)]"

lemma relpath_raises_iff: "relpath d path start = Inl e \<longleftrightarrow> path = [] \<and> e = ValueError"
  by (auto simp: relpath_def Let_def)

lemma find_loop_result:
  assumes "\<And>obj. obj \<in> set objs \<Longrightarrow> candidate host obj \<Longrightarrow> src_path obj \<noteq> []"
  shows "find_loop (working_dir host) (launch_root host) name found objs =
    (case find (\<lambda>obj. candidate host obj \<and> name \<in> set (names_of host obj)) objs of
       Some obj \<Rightarrow> Inr obj
     | None \<Rightarrow> Inl (No_such_program name (found @ concat (map (names_of host) (filter (candidate host) objs)))))"
  using assms
proof (induction objs arbitrary: found)
  case (Cons obj objs)
  show ?case
  proof (cases "candidate host obj")
    case True
    then obtain r where "relpath (working_dir host) (src_path obj) (launch_root host) = Inr r"
      using Cons(2)[of obj] relpath_raises_iff by (metis list.set_intros(1) sumE)
    then have names: "names_of host obj = [tg_name obj, path_join r (tg_name obj)]"
      and r: "relpath (working_dir host) (src_path obj) (launch_root host) = Inr r"
      by (simp_all add: names_of_def relative_to_def)
    have "is_ns3_program obj" "under_launch_dir (launch_root host) obj" using True by (simp_all add: candidate_def)
    then show ?thesis using True Cons by (simp add: names r Let_def split: option.split)
  next
    case False
    then have "\<not> is_ns3_program obj \<or> \<not> under_launch_dir (launch_root host) obj" by (simp add: candidate_def)
    then show ?thesis using Cons False by (simp split: option.split)
  qed
qed simp

theorem find_program_result:
  assumes "\<And>obj. obj \<in> set (all_task_gen bld) \<Longrightarrow> candidate host obj \<Longrightarrow> src_path obj \<noteq> []"
  shows "find_program host bld name =
    (case find (\<lambda>obj. candidate host obj \<and> name \<in> set (names_of host obj)) (all_task_gen bld) of
       Some obj \<Rightarrow> Inr obj
     | None \<Rightarrow> Inl (No_such_program name (concat (map (names_of host) (filter (candidate host) (all_task_gen bld))))))"
  using find_loop_result[of "all_task_gen bld" host name "[]", OF assms]
  unfolding find_program_def launch_root_def[symmetric] append_Nil .

text \<open>The second program is outside the launch directory, but its path begins with the same characters.\<close>

theorem find_program_result_witness:
  "find_program example_host example_build ''olsr/ping'' = Inr (all_task_gen example_build ! 1) \<and>
   find_program example_host example_build ''../src-old/old'' = Inr (all_task_gen example_build ! 2) \<and>
   find_program example_host example_build ''lib'' =
     Inl (No_such_program ''lib'' [''ping'', ''olsr/ping'', ''old'', ''../src-old/old''])"
proof -
  have paths: "src_path obj \<noteq> []" if "obj \<in> set (all_task_gen example_build)" for obj
    using that by (auto simp: example_build_def)
  show ?thesis by (intro conjI; rule trans[OF find_program_result]; (erule paths | code_simp))
qed

subsection \<open>The environment\<close>

definition extended :: "char \<Rightarrow> string list \<Rightarrow> string option \<Rightarrow> string option" where
  "extended sep paths old = Some (join [sep] (paths @ (case old of None \<Rightarrow> [] | Some s \<Rightarrow> [s])))"

lemma map_of_prepend: "map_of (prepend sep paths key env) = (map_of env)(key := extended sep paths (map_of env key))"
  by (auto simp: prepend_def extended_def split: option.splits)

lemma map_of_dict_update: "distinct (dict_keys new) \<Longrightarrow> map_of (dict_update d new) = map_of d ++ map_of new"
proof (induction new arbitrary: d)
  case (Cons p new)
  then have "map_of new (fst p) = None" by (simp add: dict_keys_def map_of_eq_None_iff)
  with Cons show ?case
    by (cases p) (auto simp: dict_update_def dict_keys_def map_add_def fun_eq_iff split: option.splits)
qed (simp add: dict_update_def)

text \<open>The values before anything is prepended: those of the caller replace those of the host.\<close>

definition inherited :: "host \<Rightarrow> (string, string) dict option \<Rightarrow> string \<Rightarrow> string option" where
  "inherited host os_env =
     map_of (environ host) ++ (case os_env of None \<Rightarrow> Map.empty | Some new \<Rightarrow> map_of new)"

theorem proc_env_value:
  assumes "case os_env of None \<Rightarrow> True | Some new \<Rightarrow> distinct (dict_keys new)"
  shows "map_of (get_proc_env host bld os_env) =
    (let sep = pathsep host; var = pathvar (platform host); old = inherited host os_env;
         env = old(var := extended sep (module_path bld) (old var))
     in env(''PYTHONPATH'' := extended sep [pymoddir bld, pyvizdir bld] (old ''PYTHONPATH''),
          ''PATH'' := extended sep (executable_path bld) (env ''PATH'')))"
proof -
  have "map_of (case os_env of None \<Rightarrow> environ host | Some new \<Rightarrow> dict_update (environ host) new) = inherited host os_env"
    using assms by (auto simp: inherited_def map_of_dict_update split: option.splits)
  moreover have "''PYTHONPATH'' \<noteq> pathvar os" for os by (simp add: pathvar_def)
  ultimately show ?thesis by (simp add: get_proc_env_def Let_def map_of_prepend)
qed

theorem proc_env_value_witness:
  "map_of (get_proc_env example_host example_build (Some [(''PATH'', ''/usr/bin'')])) ''PATH'' = Some ''/ns/build/bin:/usr/bin'' \<and>
   map_of (get_proc_env example_host example_build (Some [(''PATH'', ''/usr/bin'')])) ''LD_LIBRARY_PATH'' = Some ''/ns/build''"
  using proc_env_value[of "Some [(''PATH'', ''/usr/bin'')]" example_host example_build]
  by (simp add: dict_keys_def example_host_def example_build_def inherited_def pathvar_def extended_def Let_def)

subsection \<open>Only success returns\<close>

lemma check_retval_Inr: "check_retval host argv r = Inr x \<longleftrightarrow> r = 0 \<and> x = 0"
  by (auto simp: check_retval_def split: option.splits)

text \<open>The process that \<open>run_argv\<close> means to start, and when its end counts as a success.\<close>

definition run_process :: "host \<Rightarrow> build \<Rightarrow> bool \<Rightarrow> string list \<Rightarrow> (string, string) dict option \<Rightarrow> string option \<Rightarrow> process" where
  "run_process host bld under_valgrind argv os_env cwd =
     \<lparr>p_argv = (if under_valgrind
                then [valgrind_program bld, ''--leak-check=full'', ''--show-reachable=yes'', ''--error-exitcode=1''] @ argv
                else argv),
      p_env = get_proc_env host bld os_env, p_cwd = cwd\<rparr>"

theorem run_argv_returns:
  assumes "valgrind = (r_valgrind opts \<and> \<not> force_no_valgrind)"
  shows "snd (run_argv host bld opts spawn argv os_env cwd force_no_valgrind) = Inr r \<longleftrightarrow>
    r = 0 \<and> (valgrind \<longrightarrow> r_command_template opts = [] \<and> valgrind_program bld \<noteq> []) \<and>
    (\<exists>lines. spawn (run_process host bld valgrind argv os_env cwd) = Ended 0 lines \<and>
       (valgrind \<longrightarrow> (\<forall>l \<in> set lines. \<not> sublist ''== LEAK SUMMARY'' l)))"
  by (auto simp: assms run_argv_def run_process_def check_retval_Inr Let_def list_ex_iff contains_iff_sublist
      split: spawned.splits if_splits)

theorem run_argv_returns_witness:
  "let opts = \<lparr>r_command_template = [], r_valgrind = True, r_cwd_launch = []\<rparr>
   in snd (run_argv example_host example_build opts (\<lambda>p. Ended 0 [''ok'']) [''ping''] None None False) = Inr 0 \<and>
      snd (run_argv example_host example_build opts (\<lambda>p. Ended 0 [''==7== LEAK SUMMARY:'']) [''ping''] None None False) \<noteq> Inr 0"
proof -
  have "\<not> sublist ''== LEAK SUMMARY'' ''ok''" "sublist ''== LEAK SUMMARY'' ''==7== LEAK SUMMARY:''"
    unfolding contains_iff_sublist[symmetric] by code_simp+
  moreover have "valgrind_program example_build \<noteq> []" by code_simp
  ultimately show ?thesis by (simp add: run_argv_returns[OF refl])
qed

subsection \<open>The command line that a template gives\<close>

lemma join_set: "set (join sep ws) \<subseteq> set sep \<union> \<Union> (set (map set ws))"
  by (induction ws rule: induct_list012) auto

lemma join_around:
  "join '' '' (before @ w # after) =
   (if before = [] then [] else join '' '' before @ '' '') @ w @ (if after = [] then [] else '' '' @ join '' '' after)"
  by (cases after) (auto simp: join_append)

lemma percent_join:
  assumes "\<And>w. w \<in> set (before @ after) \<Longrightarrow> CHR ''%'' \<notin> set w"
  shows "percent (join '' '' (before @ ''%s'' # after)) [path] = Inr (join '' '' (before @ path # after))"
proof -
  have no: "CHR ''%'' \<notin> set (join '' '' ws)" if "set ws \<subseteq> set (before @ after)" for ws
    using join_set[of "'' ''" ws] assms that by fastforce
  show ?thesis unfolding join_around using no[of before] no[of after]
    by (intro percent_template) auto
qed

lemma foldl_words: "foldl (\<lambda>cmd arg. cmd @ '' '' @ arg) cmd args = join '' '' (cmd # args)"
proof (induction args arbitrary: cmd)
  case (Cons a args)
  then show ?case using Cons[of "cmd @ '' '' @ a"] by (cases args) simp_all
qed simp

lemma join_join: "xs \<noteq> [] \<Longrightarrow> join sep (join sep xs # ys) = join sep (xs @ ys)"
  by (cases "ys = []") (simp_all add: join_append neq_Nil_conv, auto simp: join_append)

theorem get_run_program_words:
  assumes template: "(if r_command_template opts = [] then ''%s'' else r_command_template opts) = join '' '' (before @ ''%s'' # after)"
    and obj: "find_program host bld name = Inr obj" and name: "bare_word name"
    and words: "\<forall>w \<in> set (before @ after @ arguments). unquoted_word w \<and> CHR ''%'' \<notin> set w"
    and path: "unquoted_word (target_path obj)"
  shows "get_run_program host bld name (Some (get_command_template opts arguments)) =
    Inr (name, before @ target_path obj # after @ arguments)"
proof -
  let ?line = "\<lambda>w. join '' '' (before @ w # (after @ arguments))"
  have cmd: "get_command_template opts arguments = ?line ''%s''"
    unfolding get_command_template_def template foldl_words by (simp add: join_join)
  show ?thesis
  proof (cases "?line ''%s'' = ''%s''")
    case True
    then have "before = [] \<and> after @ arguments = []"
      unfolding join_around by (auto dest: arg_cong[where f = length] split: if_splits)
    then show ?thesis unfolding cmd True using obj plain.split_words[of "[name]"] name
      by (simp add: get_run_program_def)
  next
    case False
    have "percent (?line ''%s'') [target_path obj] = Inr (?line (target_path obj))"
      by (rule percent_join) (use words in auto)
    moreover have "shlex_split (double_backslashes (?line (target_path obj))) = Inr (before @ target_path obj # after @ arguments)"
      unfolding double_backslashes_join by (rule doubling.split_words) (use words path in auto)
    ultimately show ?thesis using False obj by (simp add: get_run_program_def cmd)
  qed
qed


theorem get_run_program_words_witness:
  "let opts = \<lparr>r_command_template = ''gdb --args %s'', r_valgrind = False, r_cwd_launch = []\<rparr>
   in get_run_program example_host example_build ''ping'' (Some (get_command_template opts [''--n=3''])) =
     Inr (''ping'', [''gdb'', ''--args'', ''/ns/build/src/olsr/ping'', ''--n=3''])"
proof -
  let ?opts = "\<lparr>r_command_template = ''gdb --args %s'', r_valgrind = False, r_cwd_launch = []\<rparr>"
  have 1: "(if r_command_template ?opts = [] then ''%s'' else r_command_template ?opts) = join '' '' ([''gdb'', ''--args''] @ ''%s'' # [])"
    by simp
  have 2: "find_program example_host example_build ''ping'' = Inr (all_task_gen example_build ! 1)" "bare_word ''ping''"
    by code_simp+
  have 3: "\<forall>w \<in> set ([''gdb'', ''--args''] @ [] @ [''--n=3'']). unquoted_word w \<and> CHR ''%'' \<notin> set w" by code_simp
  have path: "target_path (all_task_gen example_build ! 1) = ''/ns/build/src/olsr/ping''" by code_simp
  have 4: "unquoted_word (target_path (all_task_gen example_build ! 1))" by code_simp
  show ?thesis using get_run_program_words[OF 1 2 3 4] unfolding path by simp
qed

end
