(* ===== verification/Grid_Data.thy ===== *)
theory Grid_Data
  imports Cfg_Utils Complex_Main
begin

section \<open>The data of the timeline viewer (\<open>grid.py\<close>)\<close>

text \<open>
  The first half of \<^verbatim>\<open>utils/grid.py\<close>: ranges and events on named timelines, the binary
  searches that find what is visible, the colours of values, and \<open>read_data\<close>, which fills them
  from a file.  Times in the data are integers; the times that are searched for are numbers of the
  window, for which exact rationals stand.  What a method changes in place is returned.
\<close>

subsection \<open>Ranges and events\<close>

record data_range =
  dr_start :: int
  dr_end :: int
  dr_value :: string

record 'v event =
  ev_at :: int
  ev_value :: 'v

definition ranges_cmp :: "data_range \<Rightarrow> data_range \<Rightarrow> int" where
  "ranges_cmp a b =
     (let diff = dr_start a - dr_start b in if diff < 0 then -1 else if diff > 0 then 1 else 0)"

definition events_cmp :: "'v event \<Rightarrow> 'v event \<Rightarrow> int" where
  "events_cmp a b =
     (let diff = ev_at a - ev_at b in if diff < 0 then -1 else if diff > 0 then 1 else 0)"

text \<open>\<open>list.sort(cmp)\<close> is a stable sort: here insertion, before the first greater element.\<close>

fun insert_cmp :: "('a \<Rightarrow> 'a \<Rightarrow> int) \<Rightarrow> 'a \<Rightarrow> 'a list \<Rightarrow> 'a list" where
  "insert_cmp cmp x [] = [x]"
| "insert_cmp cmp x (y # ys) = (if cmp x y \<le> 0 then x # y # ys else y # insert_cmp cmp x ys)"

definition sort_cmp :: "('a \<Rightarrow> 'a \<Rightarrow> int) \<Rightarrow> 'a list \<Rightarrow> 'a list" where
  "sort_cmp cmp xs = foldr (insert_cmp cmp) xs []"

text \<open>Indexing and slicing as Python has them.\<close>

definition nth_py :: "'a list \<Rightarrow> int \<Rightarrow> 'a res" where
  "nth_py xs i =
     (let n = int (length xs); j = (if i < 0 then i + n else i)
      in if 0 \<le> j \<and> j < n then Inr (xs ! nat j) else Inl IndexError)"

definition slice_bound :: "'a list \<Rightarrow> int \<Rightarrow> nat" where
  "slice_bound xs i = (if i < 0 then nat (i + int (length xs)) else min (nat i) (length xs))"

definition slice_py :: "'a list \<Rightarrow> int \<Rightarrow> int \<Rightarrow> 'a list" where
  "slice_py xs i j = drop (slice_bound xs i) (take (slice_bound xs j) xs)"

subsection \<open>Ranges on a timeline\<close>

record timeline_range =
  tr_name :: string
  tr_ranges :: "data_range list"

text \<open>The loop of \<open>__search\<close>, whose variables are \<open>l\<close> and \<open>u\<close>.\<close>

function range_search :: "data_range list \<Rightarrow> rat \<Rightarrow> int \<Rightarrow> int \<Rightarrow> int res" where
  "range_search rs key l u =
     (if l \<le> u then
        let i = (l + u) div 2
        in bind_res (nth_py rs i) (\<lambda>r.
             if of_int (dr_start r) \<le> key \<and> key \<le> of_int (dr_end r) then Inr i
             else if key < of_int (dr_start r) then range_search rs key l (i - 1)
             else range_search rs key (i + 1) u)
      else Inr (-1))"
  by pat_completeness auto
termination by (relation "measure (\<lambda>(rs, key, l, u). nat (u - l + 1))") auto

declare range_search.simps [simp del]

definition search_range :: "data_range list \<Rightarrow> rat \<Rightarrow> int res" where
  "search_range rs key = range_search rs key 0 (int (length rs) - 1)"

definition add_range :: "data_range \<Rightarrow> timeline_range \<Rightarrow> timeline_range" where
  "add_range r t = t\<lparr>tr_ranges := tr_ranges t @ [r]\<rparr>"

definition get_ranges :: "timeline_range \<Rightarrow> rat \<Rightarrow> rat \<Rightarrow> data_range list res" where
  "get_ranges t start stop =
     (let rs = tr_ranges t
      in bind_res (search_range rs start) (\<lambda>s. bind_res (search_range rs stop) (\<lambda>e.
           Inr (if s = -1 \<and> e = -1 then []
                else if s = -1 then slice_py rs 0 (e + 1)
                else if e = -1 then slice_py rs s (int (length rs))
                else slice_py rs s (e + 1)))))"

definition get_ranges_bounds :: "timeline_range \<Rightarrow> rat \<Rightarrow> rat \<Rightarrow> (int \<times> int) res" where
  "get_ranges_bounds t start stop =
     (let rs = tr_ranges t
      in bind_res (search_range rs start) (\<lambda>s. bind_res (search_range rs stop) (\<lambda>e.
           Inr (if s = -1 \<and> e = -1 then (0, 0)
                else if s = -1 then (0, e + 1)
                else if e = -1 then (s, int (length rs))
                else (s, e + 1)))))"

definition sort_ranges :: "timeline_range \<Rightarrow> timeline_range" where
  "sort_ranges t = t\<lparr>tr_ranges := sort_cmp ranges_cmp (tr_ranges t)\<rparr>"

definition range_bounds :: "timeline_range \<Rightarrow> int \<times> int" where
  "range_bounds t =
     (if tr_ranges t \<noteq> [] then (dr_start (hd (tr_ranges t)), dr_end (last (tr_ranges t))) else (0, 0))"

subsection \<open>Events on a timeline\<close>

record 'v timeline_event =
  te_name :: string
  te_events :: "'v event list"

function event_search :: "'v event list \<Rightarrow> rat \<Rightarrow> int \<Rightarrow> int \<Rightarrow> int res" where
  "event_search es key l u =
     (if l \<le> u then
        let i = (l + u) div 2
        in bind_res (nth_py es i) (\<lambda>e.
             if key = of_int (ev_at e) then Inr i
             else if key < of_int (ev_at e) then event_search es key l (i - 1)
             else event_search es key (i + 1) u)
      else Inr l)"
  by pat_completeness auto
termination by (relation "measure (\<lambda>(es, key, l, u). nat (u - l + 1))") auto

declare event_search.simps [simp del]

definition search_event :: "'v event list \<Rightarrow> rat \<Rightarrow> int res" where
  "search_event es key = event_search es key 0 (int (length es) - 1)"

definition add_event :: "'v event \<Rightarrow> 'v timeline_event \<Rightarrow> 'v timeline_event" where
  "add_event e t = t\<lparr>te_events := te_events t @ [e]\<rparr>"

definition get_events_bounds :: "'v timeline_event \<Rightarrow> rat \<Rightarrow> rat \<Rightarrow> (int \<times> int) res" where
  "get_events_bounds t start stop =
     bind_res (search_event (te_events t) start) (\<lambda>s.
     bind_res (search_event (te_events t) stop) (\<lambda>e. Inr (s, e + 1)))"

definition get_events :: "'v timeline_event \<Rightarrow> rat \<Rightarrow> rat \<Rightarrow> 'v event list res" where
  "get_events t start stop =
     bind_res (search_event (te_events t) start) (\<lambda>s.
     bind_res (search_event (te_events t) stop) (\<lambda>e. Inr (slice_py (te_events t) s (e + 1))))"

definition sort_events :: "'v timeline_event \<Rightarrow> 'v timeline_event" where
  "sort_events t = t\<lparr>te_events := sort_cmp events_cmp (te_events t)\<rparr>"

definition event_bounds :: "'v timeline_event \<Rightarrow> int \<times> int" where
  "event_bounds t =
     (if te_events t \<noteq> [] then (ev_at (hd (te_events t)), ev_at (last (te_events t))) else (0, 0))"

subsection \<open>Timelines\<close>

text \<open>
  The four methods that look a named object up and make one if there is none (\<open>Timelines.get\<close>,
  \<open>get_range\<close>, \<open>get_event_str\<close>, \<open>get_event_int\<close>) return a reference, which is then changed:
  \<open>at_named\<close> does both.
\<close>

fun at_named :: "('a \<Rightarrow> string) \<Rightarrow> (string \<Rightarrow> 'a) \<Rightarrow> string \<Rightarrow> ('a \<Rightarrow> 'a) \<Rightarrow> 'a list \<Rightarrow> 'a list" where
  "at_named name_of fresh name f [] = [f (fresh name)]"
| "at_named name_of fresh name f (x # xs) =
     (if name_of x = name then f x # xs else x # at_named name_of fresh name f xs)"

record timeline =
  tl_name :: string
  tl_ranges :: "timeline_range list"
  tl_event_str :: "string timeline_event list"
  tl_event_int :: "int timeline_event list"

definition new_timeline_range :: "string \<Rightarrow> timeline_range" where
  "new_timeline_range name = \<lparr>tr_name = name, tr_ranges = []\<rparr>"

definition new_timeline_event :: "string \<Rightarrow> 'v timeline_event" where
  "new_timeline_event name = \<lparr>te_name = name, te_events = []\<rparr>"

definition new_timeline :: "string \<Rightarrow> timeline" where
  "new_timeline name = \<lparr>tl_name = name, tl_ranges = [], tl_event_str = [], tl_event_int = []\<rparr>"

definition at_range :: "string \<Rightarrow> (timeline_range \<Rightarrow> timeline_range) \<Rightarrow> timeline \<Rightarrow> timeline" where
  "at_range name f t = t\<lparr>tl_ranges := at_named tr_name new_timeline_range name f (tl_ranges t)\<rparr>"

definition at_event_str :: "string \<Rightarrow> (string timeline_event \<Rightarrow> string timeline_event) \<Rightarrow> timeline \<Rightarrow> timeline" where
  "at_event_str name f t = t\<lparr>tl_event_str := at_named te_name new_timeline_event name f (tl_event_str t)\<rparr>"

definition at_event_int :: "string \<Rightarrow> (int timeline_event \<Rightarrow> int timeline_event) \<Rightarrow> timeline \<Rightarrow> timeline" where
  "at_event_int name f t = t\<lparr>tl_event_int := at_named te_name new_timeline_event name f (tl_event_int t)\<rparr>"

definition sort_timeline :: "timeline \<Rightarrow> timeline" where
  "sort_timeline t =
     t\<lparr>tl_ranges := map sort_ranges (tl_ranges t), tl_event_int := map sort_events (tl_event_int t),
       tl_event_str := map sort_events (tl_event_str t)\<rparr>"

definition widen :: "int \<times> int \<Rightarrow> int \<times> int \<Rightarrow> int \<times> int" where
  "widen bounds new =
     (if fst new < fst bounds then fst new else fst bounds, if snd new > snd bounds then snd new else snd bounds)"

definition timeline_bounds :: "timeline \<Rightarrow> int \<times> int" where
  "timeline_bounds t =
     foldl widen (foldl widen (foldl widen (0, 0) (map range_bounds (tl_ranges t)))
       (map event_bounds (tl_event_str t))) (map event_bounds (tl_event_int t))"

definition at_timeline :: "string \<Rightarrow> (timeline \<Rightarrow> timeline) \<Rightarrow> timeline list \<Rightarrow> timeline list" where
  "at_timeline name f ts = at_named tl_name new_timeline name f ts"

definition sort_timelines :: "timeline list \<Rightarrow> timeline list" where
  "sort_timelines ts = map sort_timeline ts"

definition timelines_bounds :: "timeline list \<Rightarrow> int \<times> int" where
  "timelines_bounds ts = foldl widen (0, 0) (map timeline_bounds ts)"

text \<open>The keys of a dictionary, in the order in which Python has them.\<close>

definition all_range_values :: "(string list \<Rightarrow> string list) \<Rightarrow> timeline list \<Rightarrow> string list" where
  "all_range_values ord ts =
     ord (dict_keys (foldl (\<lambda>d v. dict_put v (1::int) d) []
       [dr_value r. t \<leftarrow> ts, rs \<leftarrow> tl_ranges t, r \<leftarrow> tr_ranges rs]))"

subsection \<open>Colours\<close>

record color =
  red :: int
  green :: int
  blue :: int

text \<open>The list of default colours belongs to the class: \<open>lookup\<close> takes from its end.\<close>

record colors =
  color_of :: "(string, color) dict"
  default_colors :: "color list"

definition rgb :: "int \<Rightarrow> int \<Rightarrow> int \<Rightarrow> color" where
  "rgb r g b = \<lparr>red = r, green = g, blue = b\<rparr>"

definition new_colors :: colors where
  "new_colors =
     \<lparr>color_of = [],
      default_colors = [rgb 1 0 0, rgb 0 1 0, rgb 0 0 1, rgb 1 1 0, rgb 1 0 1, rgb 0 1 1]\<rparr>"

definition add_color :: "string \<Rightarrow> color \<Rightarrow> colors \<Rightarrow> colors" where
  "add_color name c cs = cs\<lparr>color_of := dict_put name c (color_of cs)\<rparr>"

definition lookup_color :: "string \<Rightarrow> colors \<Rightarrow> (colors \<times> color) res" where
  "lookup_color name cs =
     (case map_of (color_of cs) name of
        Some c \<Rightarrow> Inr (cs, c)
      | None \<Rightarrow>
          if default_colors cs = [] then Inl IndexError
          else let c = last (default_colors cs)
               in Inr (add_color name c (cs\<lparr>default_colors := butlast (default_colors cs)\<rparr>), c))"

text \<open>What \<open>main\<close> does for the legend.\<close>

fun legend_colors :: "string list \<Rightarrow> colors \<Rightarrow> (colors \<times> color list) res" where
  "legend_colors [] cs = Inr (cs, [])"
| "legend_colors (v # vs) cs =
     bind_res (lookup_color v cs) (\<lambda>(cs', c). map_value (apsnd ((#) c)) (legend_colors vs cs'))"

subsection \<open>Reading a file\<close>

text \<open>
  The patterns are matched at the beginning of a line: \<open>([^ ]+)\<close> with the blank after it, and
  the longest run of digits.
\<close>

definition match_text :: "string \<Rightarrow> string \<Rightarrow> string option" where
  "match_text t s = (if prefix t s then Some (drop (length t) s) else None)"

definition match_word :: "string \<Rightarrow> (string \<times> string) option" where
  "match_word s =
     (let w = takeWhile (\<lambda>c. c \<noteq> CHR '' '') s; rest = dropWhile (\<lambda>c. c \<noteq> CHR '' '') s
      in if w \<noteq> [] \<and> rest \<noteq> [] then Some (w, tl rest) else None)"

definition match_digits :: "string \<Rightarrow> (int \<times> string) option" where
  "match_digits s =
     (let ds = takeWhile is_digit s
      in if ds \<noteq> [] then Some (int (parse_nat ds), dropWhile is_digit s) else None)"

definition hex_digits :: string where "hex_digits = ''0123456789abcdef''"

definition hex_digit :: "char \<Rightarrow> int option" where
  "hex_digit c =
     (let i = length (takeWhile (\<lambda>d. d \<noteq> c) hex_digits);
          j = length (takeWhile (\<lambda>d. d \<noteq> c) ''0123456789ABCDEF'')
      in if i < 16 then Some (int i) else if j < 16 then Some (int j) else None)"

definition match_hex2 :: "string \<Rightarrow> (int \<times> string) option" where
  "match_hex2 s =
     (case s of
        c # d # rest \<Rightarrow>
          Option.bind (hex_digit c) (\<lambda>x. Option.bind (hex_digit d) (\<lambda>y. Some (16 * x + y, rest)))
      | _ \<Rightarrow> None)"

text \<open>What a line says.\<close>

datatype entry =
    Range_entry string string string int int
  | Event_str_entry string string string int
  | Event_int_entry string string int int
  | Color_entry string int int int

definition match_range :: "string \<Rightarrow> entry option" where
  "match_range line =
     Option.bind (match_text ''range '' line) (\<lambda>s. Option.bind (match_word s) (\<lambda>(t, s).
     Option.bind (match_word s) (\<lambda>(n, s). Option.bind (match_word s) (\<lambda>(v, s).
     Option.bind (match_digits s) (\<lambda>(a, s). Option.bind (match_text '' '' s) (\<lambda>s.
     Option.bind (match_digits s) (\<lambda>(b, s). Some (Range_entry t n v a b))))))))"

definition match_event_str :: "string \<Rightarrow> entry option" where
  "match_event_str line =
     Option.bind (match_text ''event-str '' line) (\<lambda>s. Option.bind (match_word s) (\<lambda>(t, s).
     Option.bind (match_word s) (\<lambda>(n, s). Option.bind (match_word s) (\<lambda>(v, s).
     Option.bind (match_digits s) (\<lambda>(a, s). Some (Event_str_entry t n v a))))))"

definition match_event_int :: "string \<Rightarrow> entry option" where
  "match_event_int line =
     Option.bind (match_text ''event-int '' line) (\<lambda>s. Option.bind (match_word s) (\<lambda>(t, s).
     Option.bind (match_word s) (\<lambda>(n, s). Option.bind (match_digits s) (\<lambda>(v, s).
     Option.bind (match_text '' '' s) (\<lambda>s. Option.bind (match_digits s) (\<lambda>(a, s).
       Some (Event_int_entry t n v a)))))))"

definition match_color :: "string \<Rightarrow> entry option" where
  "match_color line =
     Option.bind (match_text ''color '' line) (\<lambda>s. Option.bind (match_word s) (\<lambda>(v, s).
     Option.bind (match_text ''#'' s) (\<lambda>s. Option.bind (match_hex2 s) (\<lambda>(r, s).
     Option.bind (match_hex2 s) (\<lambda>(g, s). Option.bind (match_hex2 s) (\<lambda>(b, s).
       Some (Color_entry v r g b)))))))"

fun first_match :: "(string \<Rightarrow> 'a option) list \<Rightarrow> string \<Rightarrow> 'a option" where
  "first_match [] line = None"
| "first_match (m # ms) line = (case m line of Some e \<Rightarrow> Some e | None \<Rightarrow> first_match ms line)"

definition match_line :: "string \<Rightarrow> entry option" where
  "match_line line = first_match [match_range, match_event_str, match_event_int, match_color] line"

text \<open>\<open>r / 255\<close> divides integers.\<close>

definition enter :: "colors \<times> timeline list \<Rightarrow> entry \<Rightarrow> colors \<times> timeline list" where
  "enter st e =
     (case e of
        Range_entry t n v a b \<Rightarrow>
          apsnd (at_timeline t (at_range n (add_range \<lparr>dr_start = a, dr_end = b, dr_value = v\<rparr>))) st
      | Event_str_entry t n v a \<Rightarrow>
          apsnd (at_timeline t (at_event_str n (add_event \<lparr>ev_at = a, ev_value = v\<rparr>))) st
      | Event_int_entry t n v a \<Rightarrow>
          apsnd (at_timeline t (at_event_int n (add_event \<lparr>ev_at = a, ev_value = v\<rparr>))) st
      | Color_entry v r g b \<Rightarrow>
          apfst (add_color v (rgb (r div 255) (g div 255) (b div 255))) st)"

definition read_line :: "colors \<times> timeline list \<Rightarrow> string \<Rightarrow> colors \<times> timeline list" where
  "read_line st line = (case match_line line of None \<Rightarrow> st | Some e \<Rightarrow> enter st e)"

definition read_data :: "file_system \<Rightarrow> string \<Rightarrow> (colors \<times> timeline list) res" where
  "read_data fs filename =
     (case fs filename of
        None \<Rightarrow> Inl IOError
      | Some content \<Rightarrow> Inr (apsnd sort_timelines (foldl read_line (new_colors, []) (file_lines content))))"

subsection \<open>Sorting\<close>

lemma ranges_cmp_le: "ranges_cmp a b \<le> 0 \<longleftrightarrow> dr_start a \<le> dr_start b"
  by (simp add: ranges_cmp_def Let_def)

lemma events_cmp_le: "events_cmp a b \<le> 0 \<longleftrightarrow> ev_at a \<le> ev_at b"
  by (simp add: events_cmp_def Let_def)

lemma sort_cmp_key: "(\<And>a b. cmp a b \<le> 0 \<longleftrightarrow> key a \<le> key b) \<Longrightarrow> sort_cmp cmp xs = sort_key key xs"
proof -
  assume cmp: "\<And>a b. cmp a b \<le> 0 \<longleftrightarrow> key a \<le> key b"
  have "insert_cmp cmp x ys = insort_key key x ys" for x ys
    by (induction ys) (simp_all add: cmp)
  then show ?thesis unfolding sort_cmp_def sort_key_def by (metis ext)
qed

lemmas sort_ranges_key = sort_cmp_key[of ranges_cmp dr_start, OF ranges_cmp_le]
  and sort_events_key = sort_cmp_key[of events_cmp ev_at, OF events_cmp_le]

subsection \<open>Searching ranges\<close>

definition has_time :: "rat \<Rightarrow> data_range \<Rightarrow> bool" where
  "has_time key r \<longleftrightarrow> of_int (dr_start r) \<le> key \<and> key \<le> of_int (dr_end r)"

text \<open>Ranges one after the other; one may start where the last one ends.\<close>

definition in_order :: "data_range list \<Rightarrow> bool" where
  "in_order rs \<longleftrightarrow> sorted_wrt (\<lambda>a b. dr_end a \<le> dr_start b) rs \<and> (\<forall>r \<in> set rs. dr_start r \<le> dr_end r)"

lemma nth_py_in [simp]: "0 \<le> i \<Longrightarrow> i < int (length xs) \<Longrightarrow> nth_py xs i = Inr (xs ! nat i)"
  by (simp add: nth_py_def Let_def)

lemma in_order_nth:
  assumes "in_order rs" "i < j" "j < length rs"
  shows "dr_end (rs ! i) \<le> dr_start (rs ! j)" "dr_start (rs ! i) \<le> dr_end (rs ! i)" "dr_start (rs ! j) \<le> dr_end (rs ! j)"
  using assms by (auto simp: in_order_def sorted_wrt_iff_nth_less)

text \<open>The search never indexes out of range, whatever the ranges.\<close>

lemma range_search_bounds:
  "0 \<le> l \<Longrightarrow> u < int (length rs) \<Longrightarrow>
   \<exists>i. range_search rs key l u = Inr i \<and> (i = -1 \<or> l \<le> i \<and> i \<le> u \<and> has_time key (rs ! nat i))"
proof (induction rs key l u rule: range_search.induct)
  case (1 rs key l u)
  let ?i = "(l + u) div 2"
  show ?case
  proof (cases "l \<le> u")
    case True
    then have i: "l \<le> ?i" "?i \<le> u" by auto
    then have nth: "nth_py rs ?i = Inr (rs ! nat ?i)" using 1(3,4) by simp
    consider "has_time key (rs ! nat ?i)" | "\<not> has_time key (rs ! nat ?i)" "key < of_int (dr_start (rs ! nat ?i))"
      | "\<not> has_time key (rs ! nat ?i)" "\<not> key < of_int (dr_start (rs ! nat ?i))" by blast
    then show ?thesis
    proof cases
      case 1
      then show ?thesis using True i by (subst range_search.simps) (auto simp: nth has_time_def Let_def)
    next
      case 2
      then have "range_search rs key l u = range_search rs key l (?i - 1)"
        using True by (subst range_search.simps) (auto simp: nth has_time_def Let_def)
      moreover obtain j where "range_search rs key l (?i - 1) = Inr j" "j = -1 \<or> l \<le> j \<and> j \<le> ?i - 1 \<and> has_time key (rs ! nat j)"
        using "1.IH"(1)[OF True refl, of "rs ! nat ?i"] 2 "1.prems" i by (auto simp: has_time_def)
      ultimately show ?thesis using i by auto
    next
      case 3
      then have "range_search rs key l u = range_search rs key (?i + 1) u"
        using True by (subst range_search.simps) (auto simp: nth has_time_def Let_def)
      moreover obtain j where "range_search rs key (?i + 1) u = Inr j" "j = -1 \<or> ?i + 1 \<le> j \<and> j \<le> u \<and> has_time key (rs ! nat j)"
        using "1.IH"(2)[OF True refl, of "rs ! nat ?i"] 3 "1.prems" i by (auto simp: has_time_def)
      ultimately show ?thesis using i by auto
    qed
  qed (subst range_search.simps, simp)
qed

lemma range_search_complete:
  "in_order rs \<Longrightarrow> 0 \<le> l \<Longrightarrow> u < int (length rs) \<Longrightarrow> l \<le> int j \<Longrightarrow> int j \<le> u \<Longrightarrow> has_time key (rs ! j) \<Longrightarrow>
    range_search rs key l u \<noteq> Inr (-1)"
proof (induction rs key l u rule: range_search.induct)
  case (1 rs key l u)
  let ?i = "(l + u) div 2"
  have le: "l \<le> u" using 1 by simp
  then have i: "l \<le> ?i" "?i \<le> u" by auto
  then have nth: "nth_py rs ?i = Inr (rs ! nat ?i)" using "1.prems" by simp
  have len: "nat ?i < length rs" using "1.prems" i by linarith
  consider "has_time key (rs ! nat ?i)" | "\<not> has_time key (rs ! nat ?i)" "key < of_int (dr_start (rs ! nat ?i))"
    | "\<not> has_time key (rs ! nat ?i)" "\<not> key < of_int (dr_start (rs ! nat ?i))" by blast
  then show ?case
  proof cases
    case 1
    then show ?thesis using le i \<open>0 \<le> l\<close> by (subst range_search.simps) (auto simp: nth has_time_def Let_def)
  next
    case 2
    have "j < nat ?i"
    proof (rule ccontr)
      assume "\<not> j < nat ?i"
      then have "j = nat ?i \<or> nat ?i < j" by auto
      then show False using 2 in_order_nth[of rs "nat ?i" j] "1.prems" \<open>in_order rs\<close> by (auto simp: has_time_def)
    qed
    then have "range_search rs key l (?i - 1) \<noteq> Inr (-1)"
      using "1.IH"(1)[OF le refl, of "rs ! nat ?i"] 2 "1.prems" i by (auto simp: has_time_def)
    then show ?thesis using le 2 by (subst range_search.simps) (auto simp: nth has_time_def Let_def)
  next
    case 3
    have "nat ?i < j"
    proof (rule ccontr)
      assume "\<not> nat ?i < j"
      then have "j = nat ?i \<or> j < nat ?i" by auto
      then show False using 3 in_order_nth[of rs j "nat ?i"] "1.prems" len \<open>in_order rs\<close> by (auto simp: has_time_def)
    qed
    then have "range_search rs key (?i + 1) u \<noteq> Inr (-1)"
      using "1.IH"(2)[OF le refl, of "rs ! nat ?i"] 3 "1.prems" i by (auto simp: has_time_def)
    then show ?thesis using le 3 by (subst range_search.simps) (auto simp: nth has_time_def Let_def)
  qed
qed

lemma search_range_cases:
  obtains "search_range rs key = Inr (-1)"
  | i where "search_range rs key = Inr (int i)" "i < length rs" "has_time key (rs ! i)"
proof -
  obtain i where i: "search_range rs key = Inr i" "i = -1 \<or> 0 \<le> i \<and> i \<le> int (length rs) - 1 \<and> has_time key (rs ! nat i)"
    using range_search_bounds[of 0 "int (length rs) - 1" rs key] by (auto simp: search_range_def)
  then show thesis using that(1) that(2)[of "nat i"] by auto
qed

lemma search_range_none:
  "in_order rs \<Longrightarrow> search_range rs key = Inr (-1) \<longleftrightarrow> (\<forall>r \<in> set rs. \<not> has_time key r)"
proof
  assume "in_order rs" "search_range rs key = Inr (-1)"
  then show "\<forall>r \<in> set rs. \<not> has_time key r"
    using range_search_complete[of rs 0 "int (length rs) - 1" _ key] by (fastforce simp: search_range_def in_set_conv_nth)
next
  assume "\<forall>r \<in> set rs. \<not> has_time key r"
  then show "search_range rs key = Inr (-1)" by (metis nth_mem search_range_cases)
qed

text \<open>
  The range that is found holds the time, and for ranges in order one is found when there is one:
  the search does what looking at every range would do.
\<close>

text \<open>
  C24: The binary search over ordered, disjoint ranges ends with a range that holds the time if
  there is one and with -1 otherwise; it never indexes outside the list.
\<close>

theorem search_range_correct:
  shows "\<exists>i. search_range rs key = Inr i \<and> -1 \<le> i \<and> i < int (length rs) \<and>
    (i \<noteq> -1 \<longrightarrow> has_time key (rs ! nat i)) \<and> (in_order rs \<longrightarrow> (i = -1 \<longleftrightarrow> (\<forall>r \<in> set rs. \<not> has_time key r)))"
proof (cases rule: search_range_cases[of rs key])
  case 1
  then show ?thesis using search_range_none[of rs key] by auto
next
  case (2 i)
  then show ?thesis by (auto intro!: exI[of _ "int i"])
qed

subsection \<open>The ranges of a window\<close>

definition overlaps :: "rat \<Rightarrow> rat \<Rightarrow> data_range \<Rightarrow> bool" where
  "overlaps a b r \<longleftrightarrow> a < of_int (dr_end r) \<and> of_int (dr_start r) < b"

lemma slice_py_nat [simp]: "slice_py xs (int i) (int j) = drop i (take j xs)"
  by (cases "i \<le> length xs") (simp_all add: slice_py_def slice_bound_def min_def)

lemma get_ranges_slice:
  "get_ranges t a b = map_value (\<lambda>(lo, hi). slice_py (tr_ranges t) lo hi) (get_ranges_bounds t a b)"
  by (cases rule: search_range_cases[of "tr_ranges t" a]; cases rule: search_range_cases[of "tr_ranges t" b])
    (simp_all add: get_ranges_def get_ranges_bounds_def Let_def slice_py_def slice_bound_def)

lemma nth_in_slice: "s \<le> j \<Longrightarrow> j < e \<Longrightarrow> j < length xs \<Longrightarrow> xs ! j \<in> set (drop s (take e xs))"
  by (auto simp: in_set_conv_nth intro!: exI[of _ "j - s"])

lemma sublist_slice: "sublist (drop s (take e xs)) xs"
  unfolding sublist_def by (metis append_take_drop_id append.assoc)

lemma overlap_position:
  assumes "in_order rs" "j < length rs" "overlaps a b (rs ! j)"
  shows "i < length rs \<Longrightarrow> has_time a (rs ! i) \<Longrightarrow> i \<le> j" "i < length rs \<Longrightarrow> has_time b (rs ! i) \<Longrightarrow> j \<le> i"
  using assms in_order_nth[of rs i j] in_order_nth[of rs j i]
  by (force simp: overlaps_def has_time_def not_le[symmetric] dest: leI)+

text \<open>
  When the start or the end of the window is in some range, the result is a piece of the ranges
  in which none that is visible is missing.  When neither is, nothing is returned, even if there
  are ranges inside the window.
\<close>

theorem get_ranges_window:
  assumes "in_order (tr_ranges t)"
  shows "\<exists>vs. get_ranges t a b = Inr vs \<and> sublist vs (tr_ranges t) \<and>
    (if \<exists>r \<in> set (tr_ranges t). has_time a r \<or> has_time b r
     then \<forall>r \<in> set (tr_ranges t). overlaps a b r \<longrightarrow> r \<in> set vs
     else vs = [])"
proof -
  let ?rs = "tr_ranges t"
  note none = search_range_none[OF assms]
  have vis: "\<forall>r \<in> set ?rs. overlaps a b r \<longrightarrow> r \<in> set (drop s (take e ?rs))"
    if "\<And>j. j < length ?rs \<Longrightarrow> overlaps a b (?rs ! j) \<Longrightarrow> s \<le> j \<and> j < e" for s e
    using that nth_in_slice[of s _ e ?rs] by (metis in_set_conv_nth)
  show ?thesis
  proof (cases rule: search_range_cases[of ?rs a]; cases rule: search_range_cases[of ?rs b])
    assume s: "search_range ?rs a = Inr (-1)" and e: "search_range ?rs b = Inr (-1)"
    then show ?thesis using none[of a] none[of b] by (auto simp: get_ranges_def Let_def)
  next
    fix i assume s: "search_range ?rs a = Inr (-1)" and e: "search_range ?rs b = Inr (int i)" "i < length ?rs" "has_time b (?rs ! i)"
    have "get_ranges t a b = Inr (drop 0 (take (Suc i) ?rs))"
      using s e slice_py_nat[of ?rs 0 "Suc i"] by (simp add: get_ranges_def Let_def add.commute)
    moreover have "\<exists>r \<in> set ?rs. has_time a r \<or> has_time b r" using e(2,3) by auto
    moreover have "\<forall>r \<in> set ?rs. overlaps a b r \<longrightarrow> r \<in> set (drop 0 (take (Suc i) ?rs))"
      using overlap_position(2)[OF assms _ _ e(2,3)] by (intro vis) (simp_all add: less_Suc_eq_le)
    ultimately show ?thesis using sublist_slice[of 0 "Suc i" ?rs] by auto
  next
    fix i assume s: "search_range ?rs a = Inr (int i)" "i < length ?rs" "has_time a (?rs ! i)" and e: "search_range ?rs b = Inr (-1)"
    have "get_ranges t a b = Inr (drop i (take (length ?rs) ?rs))"
      using s e slice_py_nat[of ?rs i "length ?rs"] by (simp add: get_ranges_def Let_def)
    moreover have "\<exists>r \<in> set ?rs. has_time a r \<or> has_time b r" using s(2,3) by auto
    moreover have "\<forall>r \<in> set ?rs. overlaps a b r \<longrightarrow> r \<in> set (drop i (take (length ?rs) ?rs))"
      using overlap_position(1)[OF assms _ _ s(2,3)] by (intro vis) simp_all
    ultimately show ?thesis using sublist_slice[of i "length ?rs" ?rs] by auto
  next
    fix i k assume s: "search_range ?rs a = Inr (int i)" "i < length ?rs" "has_time a (?rs ! i)"
      and e: "search_range ?rs b = Inr (int k)" "k < length ?rs" "has_time b (?rs ! k)"
    have "get_ranges t a b = Inr (drop i (take (Suc k) ?rs))"
      using s e slice_py_nat[of ?rs i "Suc k"] by (simp add: get_ranges_def Let_def add.commute)
    moreover have "\<exists>r \<in> set ?rs. has_time a r \<or> has_time b r" using s(2,3) by auto
    moreover have "\<forall>r \<in> set ?rs. overlaps a b r \<longrightarrow> r \<in> set (drop i (take (Suc k) ?rs))"
      using overlap_position(1)[OF assms _ _ s(2,3)] overlap_position(2)[OF assms _ _ e(2,3)]
      by (intro vis) (simp_all add: less_Suc_eq_le)
    ultimately show ?thesis using sublist_slice[of i "Suc k" ?rs] by auto
  qed
qed

subsection \<open>Searching events\<close>

abbreviation times_increase :: "'v event list \<Rightarrow> bool" where
  "times_increase es \<equiv> sorted_wrt (\<lambda>a b. ev_at a < ev_at b) es"

abbreviation earlier :: "rat \<Rightarrow> 'v event list \<Rightarrow> 'v event list" where
  "earlier key es \<equiv> filter (\<lambda>e. of_int (ev_at e) < key) es"

lemma split_at_time: "times_increase es \<Longrightarrow> es = earlier key es @ filter (\<lambda>e. key \<le> of_int (ev_at e)) es"
proof (induction es)
  case (Cons e es)
  show ?case
  proof (cases "of_int (ev_at e) < key")
    case False
    then have "\<forall>x \<in> set es. \<not> of_int (ev_at x) < key" using Cons.prems by fastforce
    then have "earlier key es = []" "filter (\<lambda>e. key \<le> of_int (ev_at e)) es = es"
      by (simp_all add: filter_empty_conv not_less)
    then show ?thesis using False by simp
  qed (use Cons in simp)
qed simp

lemma nth_earlier:
  assumes "times_increase es" "j < length es"
  shows "of_int (ev_at (es ! j)) < key \<longleftrightarrow> j < length (earlier key es)"
proof
  assume "j < length (earlier key es)"
  then have "es ! j \<in> set (earlier key es)"
    by (subst split_at_time[OF assms(1), of key]) (auto simp: nth_append simp del: set_filter)
  then show "of_int (ev_at (es ! j)) < key" by simp
next
  assume less: "of_int (ev_at (es ! j)) < key"
  show "j < length (earlier key es)"
  proof (rule ccontr)
    assume "\<not> j < length (earlier key es)"
    then have "es ! j = filter (\<lambda>e. key \<le> of_int (ev_at e)) es ! (j - length (earlier key es))" "j - length (earlier key es) < length (filter (\<lambda>e. key \<le> of_int (ev_at e)) es)"
      using assms split_at_time[OF assms(1), of key] by (metis nth_append, metis less_diff_conv2 add.commute length_append not_less)
    then show False using less nth_mem by fastforce
  qed
qed

lemma event_search_correct:
  "times_increase es \<Longrightarrow> 0 \<le> l \<Longrightarrow> u < int (length es) \<Longrightarrow> l \<le> int (length (earlier key es)) \<Longrightarrow>
   int (length (earlier key es)) \<le> u + 1 \<Longrightarrow> event_search es key l u = Inr (int (length (earlier key es)))"
proof (induction es key l u rule: event_search.induct)
  case (1 es key l u)
  let ?i = "(l + u) div 2" and ?c = "length (earlier key es)"
  show ?case
  proof (cases "l \<le> u")
    case True
    then have i: "l \<le> ?i" "?i \<le> u" by auto
    then have nth: "nth_py es ?i = Inr (es ! nat ?i)" and len: "nat ?i < length es" using "1.prems" by auto
    note pos = nth_earlier[OF "1.prems"(1)]
    consider "key = of_int (ev_at (es ! nat ?i))" | "key < of_int (ev_at (es ! nat ?i))" | "of_int (ev_at (es ! nat ?i)) < key" by linarith
    then show ?thesis
    proof cases
      case 1
      have "\<not> nat ?i < ?c" using pos[OF len, of key] 1 by simp
      moreover have "\<not> ?c < nat ?i"
      proof
        assume c: "?c < nat ?i"
        then have "ev_at (es ! ?c) < ev_at (es ! nat ?i)"
          using "1.prems"(1) len by (auto simp: sorted_wrt_iff_nth_less)
        then show False using pos[of ?c key] c len 1 by simp
      qed
      ultimately have "?i = int ?c" using i "1.prems" by simp
      then show ?thesis using 1 True by (subst event_search.simps) (simp add: nth Let_def)
    next
      case 2
      then have "event_search es key l u = event_search es key l (?i - 1)"
        using True by (subst event_search.simps) (simp add: nth Let_def)
      moreover have "int ?c \<le> ?i" using pos[OF len, of key] 2 i "1.prems" by linarith
      ultimately show ?thesis using "1.IH"(1)[OF True refl, of "es ! nat ?i"] 2 "1.prems" i by simp
    next
      case 3
      then have "event_search es key l u = event_search es key (?i + 1) u"
        using True by (subst event_search.simps) (simp add: nth Let_def)
      moreover have "?i + 1 \<le> int ?c" using pos[OF len, of key] 3 i "1.prems" by simp
      ultimately show ?thesis using "1.IH"(2)[OF True refl, of "es ! nat ?i"] 3 "1.prems" i by simp
    qed
  next
    case False
    then show ?thesis using "1.prems" by (subst event_search.simps) simp
  qed
qed

lemma search_event_correct: "times_increase es \<Longrightarrow> search_event es key = Inr (int (length (earlier key es)))"
  unfolding search_event_def by (rule event_search_correct) auto

text \<open>
  For events at different times, the result has those of the window, and when there is none at
  the end of the window, also the next one after it.
\<close>

theorem get_events_window:
  assumes "times_increase (te_events t)" "a \<le> b"
  shows "get_events t a b = Inr (filter (\<lambda>e. a \<le> of_int (ev_at e) \<and> of_int (ev_at e) < b) (te_events t) @
    take 1 (filter (\<lambda>e. b \<le> of_int (ev_at e)) (te_events t)))"
proof -
  let ?es = "te_events t"
  have "get_events t a b = Inr (drop (length (earlier a ?es)) (take (Suc (length (earlier b ?es))) ?es))"
    using slice_py_nat[of ?es "length (earlier a ?es)" "Suc (length (earlier b ?es))"]
    by (simp add: get_events_def search_event_correct[OF assms(1)] add.commute)
  moreover have "take (Suc (length (earlier b ?es))) ?es = earlier b ?es @ take 1 (filter (\<lambda>e. b \<le> of_int (ev_at e)) ?es)"
    by (subst split_at_time[OF assms(1), of b]) (simp add: take_Suc)
  moreover have "earlier b ?es = earlier a ?es @ filter (\<lambda>e. a \<le> of_int (ev_at e) \<and> of_int (ev_at e) < b) ?es"
  proof -
    have "times_increase (earlier b ?es)" using assms(1) by (rule sorted_wrt_filter)
    from split_at_time[OF this, of a] show ?thesis using assms(2)
      by (auto simp: conj_commute intro!: arg_cong2[where f = append] filter_cong)
  qed
  ultimately show ?thesis by simp
qed

subsection \<open>Named objects\<close>

text \<open>What the four look-up-or-make methods have in common.\<close>

locale named =
  fixes name_of :: "'a \<Rightarrow> string" and fresh :: "string \<Rightarrow> 'a"
  assumes name_fresh: "name_of (fresh n) = n"
begin

lemma names_at_named:
  "(\<And>x. name_of (f x) = name_of x) \<Longrightarrow>
   map name_of (at_named name_of fresh n f xs) =
     (if n \<in> name_of ` set xs then map name_of xs else map name_of xs @ [n])"
  by (induction xs) (auto simp: name_fresh)

lemma distinct_at_named:
  "(\<And>x. name_of (f x) = name_of x) \<Longrightarrow> distinct (map name_of xs) \<Longrightarrow>
   distinct (map name_of (at_named name_of fresh n f xs))"
  by (subst names_at_named) auto

lemma find_at_named:
  "(\<And>x. name_of (f x) = name_of x) \<Longrightarrow>
   find (\<lambda>x. name_of x = m) (at_named name_of fresh n f xs) =
     (if m = n then Some (f (case find (\<lambda>x. name_of x = n) xs of None \<Rightarrow> fresh n | Some x \<Rightarrow> x))
      else find (\<lambda>x. name_of x = m) xs)"
  by (induction xs) (auto simp: name_fresh)

lemma all_at_named:
  "(\<And>x. P x \<Longrightarrow> P (f x)) \<Longrightarrow> P (fresh n) \<Longrightarrow> \<forall>x \<in> set xs. P x \<Longrightarrow>
   \<forall>x \<in> set (at_named name_of fresh n f xs). P x"
  by (induction xs) auto

lemma find_map: "(\<And>x. name_of (f x) = name_of x) \<Longrightarrow>
  find (\<lambda>x. name_of x = m) (map f xs) = map_option f (find (\<lambda>x. name_of x = m) xs)"
  by (induction xs) auto

end

interpretation timelines: named tl_name new_timeline
  by unfold_locales (simp add: new_timeline_def)

interpretation timeline_ranges: named tr_name new_timeline_range
  by unfold_locales (simp add: new_timeline_range_def)

interpretation timeline_events: named te_name new_timeline_event
  by unfold_locales (simp add: new_timeline_event_def)

subsection \<open>What a file puts on the timelines\<close>

text \<open>The ranges and events under two names, none when there is no such object.\<close>

definition on_timeline :: "timeline list \<Rightarrow> string \<Rightarrow> (timeline \<Rightarrow> 'a list) \<Rightarrow> 'a list" where
  "on_timeline ts t items = (case find (\<lambda>x. tl_name x = t) ts of None \<Rightarrow> [] | Some x \<Rightarrow> items x)"

definition ranges_on :: "timeline list \<Rightarrow> string \<Rightarrow> string \<Rightarrow> data_range list" where
  "ranges_on ts t n = on_timeline ts t (\<lambda>x.
     case find (\<lambda>r. tr_name r = n) (tl_ranges x) of None \<Rightarrow> [] | Some r \<Rightarrow> tr_ranges r)"

definition strings_on :: "timeline list \<Rightarrow> string \<Rightarrow> string \<Rightarrow> string event list" where
  "strings_on ts t n = on_timeline ts t (\<lambda>x.
     case find (\<lambda>e. te_name e = n) (tl_event_str x) of None \<Rightarrow> [] | Some e \<Rightarrow> te_events e)"

definition ints_on :: "timeline list \<Rightarrow> string \<Rightarrow> string \<Rightarrow> int event list" where
  "ints_on ts t n = on_timeline ts t (\<lambda>x.
     case find (\<lambda>e. te_name e = n) (tl_event_int x) of None \<Rightarrow> [] | Some e \<Rightarrow> te_events e)"

text \<open>What an entry adds to them.\<close>

fun entry_range :: "string \<Rightarrow> string \<Rightarrow> entry \<Rightarrow> data_range list" where
  "entry_range t n (Range_entry t' n' v a b) =
     (if t' = t \<and> n' = n then [\<lparr>dr_start = a, dr_end = b, dr_value = v\<rparr>] else [])"
| "entry_range t n _ = []"

fun entry_string :: "string \<Rightarrow> string \<Rightarrow> entry \<Rightarrow> string event list" where
  "entry_string t n (Event_str_entry t' n' v a) = (if t' = t \<and> n' = n then [\<lparr>ev_at = a, ev_value = v\<rparr>] else [])"
| "entry_string t n _ = []"

fun entry_int :: "string \<Rightarrow> string \<Rightarrow> entry \<Rightarrow> int event list" where
  "entry_int t n (Event_int_entry t' n' v a) = (if t' = t \<and> n' = n then [\<lparr>ev_at = a, ev_value = v\<rparr>] else [])"
| "entry_int t n _ = []"

lemmas on_defs = ranges_on_def strings_on_def ints_on_def on_timeline_def

lemma keeps_name [simp]:
  "tl_name (at_range n f t) = tl_name t" "tl_name (at_event_str n g t) = tl_name t" "tl_name (at_event_int n h t) = tl_name t"
  "tr_name (add_range r tr) = tr_name tr" "te_name (add_event e te) = te_name te"
  "tl_name (sort_timeline t) = tl_name t" "tr_name (sort_ranges tr) = tr_name tr" "te_name (sort_events te) = te_name te"
  by (simp_all add: at_range_def at_event_str_def at_event_int_def add_range_def add_event_def sort_timeline_def
      sort_ranges_def sort_events_def)

lemma enter_adds:
  "ranges_on (snd (enter st e)) t n = ranges_on (snd st) t n @ entry_range t n e"
  "strings_on (snd (enter st e)) t n = strings_on (snd st) t n @ entry_string t n e"
  "ints_on (snd (enter st e)) t n = ints_on (snd st) t n @ entry_int t n e"
  by (cases e;
      auto simp: enter_def on_defs at_timeline_def timelines.find_at_named at_range_def at_event_str_def at_event_int_def
        timeline_ranges.find_at_named timeline_events.find_at_named add_range_def add_event_def
        new_timeline_def new_timeline_range_def new_timeline_event_def split: option.splits)+

lemma enter_names: "distinct (map tl_name (snd st)) \<Longrightarrow> distinct (map tl_name (snd (enter st e)))"
  by (cases e) (auto simp: enter_def at_timeline_def intro!: timelines.distinct_at_named)

lemma read_line_fold: "foldl read_line st lines = foldl enter st (List.map_filter match_line lines)"
  by (induction lines arbitrary: st) (auto simp: read_line_def List.map_filter_simps split: option.splits)

lemma fold_enter:
  "ranges_on (snd (foldl enter st es)) t n = ranges_on (snd st) t n @ concat (map (entry_range t n) es)"
  "strings_on (snd (foldl enter st es)) t n = strings_on (snd st) t n @ concat (map (entry_string t n) es)"
  "ints_on (snd (foldl enter st es)) t n = ints_on (snd st) t n @ concat (map (entry_int t n) es)"
  "distinct (map tl_name (snd st)) \<Longrightarrow> distinct (map tl_name (snd (foldl enter st es)))"
  by (induction es arbitrary: st) (simp_all add: enter_adds enter_names)

lemma sorted_on:
  "ranges_on (sort_timelines ts) t n = sort_key dr_start (ranges_on ts t n)"
  "strings_on (sort_timelines ts) t n = sort_key ev_at (strings_on ts t n)"
  "ints_on (sort_timelines ts) t n = sort_key ev_at (ints_on ts t n)"
  by (auto simp: on_defs sort_timelines_def timelines.find_map timeline_ranges.find_map timeline_events.find_map
      sort_timeline_def sort_ranges_def sort_events_def sort_ranges_key sort_events_key split: option.splits)

text \<open>The colours a file defines, the last one for a value counts.\<close>

fun entry_color :: "entry \<Rightarrow> (string \<times> color) list" where
  "entry_color (Color_entry v r g b) = [(v, rgb (r div 255) (g div 255) (b div 255))]"
| "entry_color _ = []"

lemma enter_colors:
  "map_of (color_of (fst (foldl enter st es))) = map_of (color_of (fst st)) ++ map_of (rev (concat (map entry_color es)))"
proof (induction es arbitrary: st)
  case (Cons e es)
  then show ?case by (cases e) (auto simp: enter_def add_color_def map_add_def fun_eq_iff split: option.splits)
qed simp

lemma enter_defaults: "default_colors (fst (foldl enter st es)) = default_colors (fst st)"
proof (induction es arbitrary: st)
  case (Cons e es)
  then show ?case by (cases e) (auto simp: enter_def add_color_def)
qed simp

text \<open>
  C22: read_data keeps the ranges, events and colours of the lines that match a pattern, each
  under its timeline and name and ordered by time, and drops other lines.
\<close>

theorem read_data_contents:
  assumes "fs filename = Some content"
  shows "\<exists>cs ts. read_data fs filename = Inr (cs, ts) \<and> distinct (map tl_name ts) \<and>
    (let entries = List.map_filter match_line (file_lines content)
     in map_of (color_of cs) = map_of (rev (concat (map entry_color entries))) \<and>
        default_colors cs = default_colors new_colors \<and>
        (\<forall>t n. ranges_on ts t n = sort_key dr_start (concat (map (entry_range t n) entries)) \<and>
           strings_on ts t n = sort_key ev_at (concat (map (entry_string t n) entries)) \<and>
           ints_on ts t n = sort_key ev_at (concat (map (entry_int t n) entries))))"
proof -
  let ?es = "List.map_filter match_line (file_lines content)"
  have empty: "ranges_on [] t n = []" "strings_on [] t n = []" "ints_on [] t n = []" for t n
    by (simp_all add: on_defs)
  have names: "map tl_name (sort_timelines ts) = map tl_name ts" for ts
    by (simp add: sort_timelines_def)
  have "color_of new_colors = []" by (simp add: new_colors_def)
  then show ?thesis
    using fold_enter(4)[of "(new_colors, [])" ?es]
    by (simp add: read_data_def assms read_line_fold apsnd_def map_prod_def case_prod_unfold Let_def sorted_on
        fold_enter(1-3) empty enter_colors enter_defaults names)
qed

subsection \<open>Lines are read back\<close>

definition hex2 :: "int \<Rightarrow> string" where
  "hex2 n = [hex_digits ! nat (n div 16), hex_digits ! nat (n mod 16)]"

definition show_entry :: "entry \<Rightarrow> string" where
  "show_entry e =
     (case e of
        Range_entry t n v a b \<Rightarrow> join '' '' [''range'', t, n, v, show_nat (nat a), show_nat (nat b)]
      | Event_str_entry t n v a \<Rightarrow> join '' '' [''event-str'', t, n, v, show_nat (nat a)]
      | Event_int_entry t n v a \<Rightarrow> join '' '' [''event-int'', t, n, show_nat (nat v), show_nat (nat a)]
      | Color_entry v r g b \<Rightarrow> join '' '' [''color'', v, ''#'' @ hex2 r @ hex2 g @ hex2 b])"

definition one_word :: "string \<Rightarrow> bool" where
  "one_word w \<longleftrightarrow> w \<noteq> [] \<and> CHR '' '' \<notin> set w"

fun wf_entry :: "entry \<Rightarrow> bool" where
  "wf_entry (Range_entry t n v a b) \<longleftrightarrow> one_word t \<and> one_word n \<and> one_word v \<and> 0 \<le> a \<and> 0 \<le> b"
| "wf_entry (Event_str_entry t n v a) \<longleftrightarrow> one_word t \<and> one_word n \<and> one_word v \<and> 0 \<le> a"
| "wf_entry (Event_int_entry t n v a) \<longleftrightarrow> one_word t \<and> one_word n \<and> 0 \<le> v \<and> 0 \<le> a"
| "wf_entry (Color_entry v r g b) \<longleftrightarrow> one_word v \<and> {r, g, b} \<subseteq> {0..255}"

lemma match_text_append [simp]: "match_text t (t @ s) = Some s"
  by (simp add: match_text_def)

lemma match_word_append: "one_word w \<Longrightarrow> match_word (w @ CHR '' '' # s) = Some (w, s)"
  by (simp add: match_word_def one_word_def take_drop_until Let_def)

lemma match_digits_append:
  assumes "s = [] \<or> \<not> is_digit (hd s)" "0 \<le> n"
  shows "match_digits (show_nat (nat n) @ s) = Some (n, s)"
proof -
  have "takeWhile is_digit (show_nat (nat n) @ s) = show_nat (nat n)" "dropWhile is_digit (show_nat (nat n) @ s) = s"
    using show_nat_digits assms(1) by (cases s; auto simp: takeWhile_append dropWhile_append)+
  then show ?thesis using assms(2) by (simp add: match_digits_def)
qed

lemma match_hex2_append: "0 \<le> n \<Longrightarrow> n \<le> 255 \<Longrightarrow> match_hex2 (hex2 n @ s) = Some (n, s)"
proof -
  assume n: "0 \<le> n" "n \<le> 255"
  have "\<forall>i \<in> set [0..<16]. hex_digit (hex_digits ! i) = Some (int i)" by code_simp
  then have d: "hex_digit (hex_digits ! i) = Some (int i)" if "i < 16" for i using that by simp
  have "nat (n div 16) < 16" "nat (n mod 16) < 16" "0 \<le> n div 16" using n by linarith+
  with n show ?thesis by (simp add: match_hex2_def hex2_def d)
qed

lemma not_digit [simp]: "\<not> is_digit (CHR '' '')" "\<not> is_digit newline"
  by (simp_all add: is_digit_def)

text \<open>
  C23: A line written for a well-formed range, event or colour matches as exactly that entry.
\<close>

theorem entry_roundtrip:
  assumes "wf_entry e"
  shows "match_line (ln (show_entry e)) = Some e"
proof (cases e)
  case (Range_entry t n v a b)
  then show ?thesis using assms
    by (simp add: match_line_def match_range_def show_entry_def ln_def match_text_def match_word_append match_digits_append)
next
  case (Event_str_entry t n v a)
  then show ?thesis using assms
    by (simp add: match_line_def match_range_def match_event_str_def show_entry_def ln_def match_text_def
        match_word_append match_digits_append)
next
  case (Event_int_entry t n v a)
  then show ?thesis using assms
    by (simp add: match_line_def match_range_def match_event_str_def match_event_int_def show_entry_def ln_def
        match_text_def match_word_append match_digits_append)
next
  case (Color_entry v r g b)
  then show ?thesis using assms
    by (simp add: match_line_def match_range_def match_event_str_def match_event_int_def match_color_def show_entry_def
        ln_def match_text_def match_word_append match_hex2_append)
qed

subsection \<open>The bounds of the data\<close>

lemma widen_fold_le:
  "fst (foldl widen b xs) \<le> fst b" "x \<in> set xs \<Longrightarrow> fst (foldl widen b xs) \<le> fst x"
  "snd b \<le> snd (foldl widen b xs)" "x \<in> set xs \<Longrightarrow> snd x \<le> snd (foldl widen b xs)"
proof -
  have w: "fst (widen b y) \<le> fst b" "fst (widen b y) \<le> fst y" "snd b \<le> snd (widen b y)" "snd y \<le> snd (widen b y)" for b y
    by (simp_all add: widen_def)
  show lo: "fst (foldl widen b xs) \<le> fst b" for b xs
  proof (induction xs arbitrary: b)
    case (Cons y xs)
    then show ?case using order_trans[OF Cons w(1)] by simp
  qed simp
  show hi: "snd b \<le> snd (foldl widen b xs)" for b xs
  proof (induction xs arbitrary: b)
    case (Cons y xs)
    then show ?case using order_trans[OF w(3) Cons] by simp
  qed simp
  show "x \<in> set xs \<Longrightarrow> fst (foldl widen b xs) \<le> fst x"
  proof (induction xs arbitrary: b)
    case (Cons y xs)
    show ?case
    proof (cases "x = y")
      case True
      then show ?thesis using order_trans[OF lo w(2)] by simp
    qed (use Cons in simp)
  qed simp
  show "x \<in> set xs \<Longrightarrow> snd x \<le> snd (foldl widen b xs)"
  proof (induction xs arbitrary: b)
    case (Cons y xs)
    show ?case
    proof (cases "x = y")
      case True
      then show ?thesis using order_trans[OF w(4) hi] by simp
    qed (use Cons in simp)
  qed simp
qed

lemma widen_fold_zero: "fst b = 0 \<Longrightarrow> \<forall>x \<in> set xs. 0 \<le> fst x \<Longrightarrow> fst (foldl widen b xs) = 0"
  by (induction xs arbitrary: b) (auto simp: widen_def)

text \<open>Nothing on a timeline is before 0.\<close>

definition ranges_nonneg :: "timeline_range \<Rightarrow> bool" where
  "ranges_nonneg tr \<longleftrightarrow> (\<forall>r \<in> set (tr_ranges tr). 0 \<le> dr_start r \<and> 0 \<le> dr_end r)"

definition events_nonneg :: "'v timeline_event \<Rightarrow> bool" where
  "events_nonneg te \<longleftrightarrow> (\<forall>e \<in> set (te_events te). 0 \<le> ev_at e)"

definition timeline_nonneg :: "timeline \<Rightarrow> bool" where
  "timeline_nonneg t \<longleftrightarrow> (\<forall>tr \<in> set (tl_ranges t). ranges_nonneg tr) \<and>
     (\<forall>te \<in> set (tl_event_str t). events_nonneg te) \<and> (\<forall>te \<in> set (tl_event_int t). events_nonneg te)"

lemmas nonneg_defs = timeline_nonneg_def ranges_nonneg_def events_nonneg_def

lemma match_digits_nonneg: "match_digits s = Some (n, r) \<Longrightarrow> 0 \<le> n"
  by (auto simp: match_digits_def Let_def split: if_splits)

fun entry_times :: "entry \<Rightarrow> int set" where
  "entry_times (Range_entry t n v a b) = {a, b}"
| "entry_times (Event_str_entry t n v a) = {a}"
| "entry_times (Event_int_entry t n v a) = {a}"
| "entry_times (Color_entry v r g b) = {}"

lemma match_line_nonneg: "match_line line = Some e \<Longrightarrow> x \<in> entry_times e \<Longrightarrow> 0 \<le> x"
  by (auto simp: match_line_def match_range_def match_event_str_def match_event_int_def match_color_def bind_eq_Some_conv
      dest: match_digits_nonneg split: option.splits)

lemma nonneg_new [simp]:
  "timeline_nonneg (new_timeline n)" "ranges_nonneg (new_timeline_range n)" "events_nonneg (new_timeline_event n)"
  by (simp_all add: nonneg_defs new_timeline_def new_timeline_range_def new_timeline_event_def)

lemma nonneg_add:
  "ranges_nonneg tr \<Longrightarrow> 0 \<le> dr_start r \<Longrightarrow> 0 \<le> dr_end r \<Longrightarrow> ranges_nonneg (add_range r tr)"
  "events_nonneg te \<Longrightarrow> 0 \<le> ev_at e \<Longrightarrow> events_nonneg (add_event e te)"
  by (auto simp: ranges_nonneg_def events_nonneg_def add_range_def add_event_def)

lemma nonneg_at_range:
  assumes "timeline_nonneg t" "\<And>tr. ranges_nonneg tr \<Longrightarrow> ranges_nonneg (f tr)"
  shows "timeline_nonneg (at_range n f t)"
proof -
  have "\<forall>tr \<in> set (at_named tr_name new_timeline_range n f (tl_ranges t)). ranges_nonneg tr"
    by (rule timeline_ranges.all_at_named) (use assms in \<open>auto simp: timeline_nonneg_def\<close>)
  then show ?thesis using assms(1) by (simp add: timeline_nonneg_def at_range_def)
qed

lemma nonneg_at_events:
  assumes "\<And>te. events_nonneg te \<Longrightarrow> events_nonneg (g te)" "\<forall>te \<in> set tes. events_nonneg te"
  shows "\<forall>te \<in> set (at_named te_name new_timeline_event n g tes). events_nonneg te"
  by (rule timeline_events.all_at_named) (use assms in auto)

lemma nonneg_at_event_str:
  assumes "timeline_nonneg t" "\<And>te. events_nonneg te \<Longrightarrow> events_nonneg (g te)"
  shows "timeline_nonneg (at_event_str n g t)"
proof -
  have "\<forall>te \<in> set (at_named te_name new_timeline_event n g (tl_event_str t)). events_nonneg te"
    by (rule nonneg_at_events[OF assms(2)]) (use assms(1) in \<open>simp_all add: timeline_nonneg_def\<close>)
  then show ?thesis using assms(1) by (simp add: timeline_nonneg_def at_event_str_def)
qed

lemma nonneg_at_event_int:
  assumes "timeline_nonneg t" "\<And>te. events_nonneg te \<Longrightarrow> events_nonneg (g te)"
  shows "timeline_nonneg (at_event_int n g t)"
proof -
  have "\<forall>te \<in> set (at_named te_name new_timeline_event n g (tl_event_int t)). events_nonneg te"
    by (rule nonneg_at_events[OF assms(2)]) (use assms(1) in \<open>simp_all add: timeline_nonneg_def\<close>)
  then show ?thesis using assms(1) by (simp add: timeline_nonneg_def at_event_int_def)
qed

lemma enter_nonneg:
  assumes "\<forall>t \<in> set (snd st). timeline_nonneg t" "\<forall>x \<in> entry_times e. 0 \<le> x"
  shows "\<forall>t \<in> set (snd (enter st e)). timeline_nonneg t"
proof (cases e)
  case (Range_entry t n v a b)
  have "\<forall>t \<in> set (at_timeline t (at_range n (add_range \<lparr>dr_start = a, dr_end = b, dr_value = v\<rparr>)) (snd st)). timeline_nonneg t"
    unfolding at_timeline_def using assms Range_entry
    by (intro timelines.all_at_named nonneg_at_range nonneg_add(1)) simp_all
  then show ?thesis by (simp add: enter_def Range_entry)
next
  case (Event_str_entry t n v a)
  have "\<forall>t \<in> set (at_timeline t (at_event_str n (add_event \<lparr>ev_at = a, ev_value = v\<rparr>)) (snd st)). timeline_nonneg t"
    unfolding at_timeline_def using assms Event_str_entry
    by (intro timelines.all_at_named nonneg_at_event_str nonneg_add(2)) simp_all
  then show ?thesis by (simp add: enter_def Event_str_entry)
next
  case (Event_int_entry t n v a)
  have "\<forall>t \<in> set (at_timeline t (at_event_int n (add_event \<lparr>ev_at = a, ev_value = v\<rparr>)) (snd st)). timeline_nonneg t"
    unfolding at_timeline_def using assms Event_int_entry
    by (intro timelines.all_at_named nonneg_at_event_int nonneg_add(2)) simp_all
  then show ?thesis by (simp add: enter_def Event_int_entry)
qed (use assms in \<open>simp add: enter_def\<close>)

lemma read_nonneg:
  "\<forall>t \<in> set (snd st). timeline_nonneg t \<Longrightarrow> \<forall>t \<in> set (snd (foldl read_line st lines)). timeline_nonneg t"
proof (induction lines arbitrary: st)
  case (Cons line lines)
  have "\<forall>t \<in> set (snd (read_line st line)). timeline_nonneg t"
  proof (cases "match_line line")
    case (Some e)
    have "\<forall>x \<in> entry_times e. 0 \<le> x" using match_line_nonneg[OF Some] by blast
    then show ?thesis using enter_nonneg[OF Cons.prems] Some by (simp add: read_line_def)
  qed (use Cons.prems in \<open>simp add: read_line_def\<close>)
  then show ?case using Cons.IH by simp
qed simp

text \<open>Where the items of a timeline lie when it has been sorted.\<close>

definition lies_inside :: "int \<Rightarrow> int \<Rightarrow> timeline \<Rightarrow> bool" where
  "lies_inside lo hi t \<longleftrightarrow>
     (\<forall>tr \<in> set (tl_ranges t). \<forall>r \<in> set (tr_ranges tr). lo \<le> dr_start r \<and> (in_order (tr_ranges tr) \<longrightarrow> dr_end r \<le> hi)) \<and>
     (\<forall>te \<in> set (tl_event_str t). \<forall>e \<in> set (te_events te). lo \<le> ev_at e \<and> ev_at e \<le> hi) \<and>
     (\<forall>te \<in> set (tl_event_int t). \<forall>e \<in> set (te_events te). lo \<le> ev_at e \<and> ev_at e \<le> hi)"

lemma sorted_hd_last:
  assumes "sorted (map key xs)" "x \<in> set xs"
  shows "key (hd xs) \<le> key x" "key x \<le> key (last xs)"
proof -
  show "key (hd xs) \<le> key x" using assms by (cases xs) auto
  obtain ys y where ys: "xs = ys @ [y]" using assms(2) by (cases xs rule: rev_cases) auto
  show "key x \<le> key (last xs)" using assms unfolding ys by (auto simp: sorted_append)
qed

lemma range_bounds_hold:
  assumes "sorted (map dr_start (tr_ranges tr))" "r \<in> set (tr_ranges tr)"
  shows "fst (range_bounds tr) \<le> dr_start r" "in_order (tr_ranges tr) \<Longrightarrow> dr_end r \<le> snd (range_bounds tr)"
proof -
  show "fst (range_bounds tr) \<le> dr_start r" using sorted_hd_last[OF assms] assms(2) by (auto simp: range_bounds_def)
  assume o: "in_order (tr_ranges tr)"
  obtain j where j: "j < length (tr_ranges tr)" "r = tr_ranges tr ! j" using assms(2) by (auto simp: in_set_conv_nth)
  then have ne: "tr_ranges tr \<noteq> []" by auto
  have "dr_end r \<le> dr_end (last (tr_ranges tr))"
  proof (cases "j = length (tr_ranges tr) - 1")
    case True
    then show ?thesis using j ne by (simp add: last_conv_nth)
  next
    case False
    then have "j < length (tr_ranges tr) - 1" using j(1) by simp
    from in_order_nth[OF o this] j ne show ?thesis by (auto simp: last_conv_nth)
  qed
  then show "dr_end r \<le> snd (range_bounds tr)" using assms(2) by (auto simp: range_bounds_def)
qed

lemma event_bounds_hold:
  assumes "sorted (map ev_at (te_events te))" "e \<in> set (te_events te)"
  shows "fst (event_bounds te) \<le> ev_at e" "ev_at e \<le> snd (event_bounds te)"
  using sorted_hd_last[OF assms] assms(2) by (auto simp: event_bounds_def)

lemma timeline_bounds_all:
  "timeline_bounds t = foldl widen (0, 0)
     (map range_bounds (tl_ranges t) @ map event_bounds (tl_event_str t) @ map event_bounds (tl_event_int t))"
  by (simp add: timeline_bounds_def)

lemma sort_timeline_inside:
  assumes "lo \<le> fst (timeline_bounds (sort_timeline t))" "snd (timeline_bounds (sort_timeline t)) \<le> hi"
  shows "lies_inside lo hi (sort_timeline t)"
proof -
  let ?u = "sort_timeline t"
  have sorted: "tr \<in> set (tl_ranges ?u) \<Longrightarrow> sorted (map dr_start (tr_ranges tr))"
    "te \<in> set (tl_event_str ?u) \<Longrightarrow> sorted (map ev_at (te_events te))"
    "te' \<in> set (tl_event_int ?u) \<Longrightarrow> sorted (map ev_at (te_events te'))" for tr te te'
    by (auto simp: sort_timeline_def sort_ranges_def sort_events_def sort_ranges_key sort_events_key)
  let ?items = "map range_bounds (tl_ranges ?u) @ map event_bounds (tl_event_str ?u) @ map event_bounds (tl_event_int ?u)"
  have all: "lo \<le> fst x \<and> snd x \<le> hi" if "x \<in> set ?items" for x
    using widen_fold_le(2,4)[OF that, of "(0, 0)"] assms unfolding timeline_bounds_all by linarith
  show ?thesis unfolding lies_inside_def
  proof (intro conjI ballI impI)
    fix tr r assume tr: "tr \<in> set (tl_ranges ?u)" and r: "r \<in> set (tr_ranges tr)"
    have b: "lo \<le> fst (range_bounds tr)" "snd (range_bounds tr) \<le> hi" using all[of "range_bounds tr"] tr by auto
    show "lo \<le> dr_start r" using b(1) range_bounds_hold(1)[OF sorted(1)[OF tr] r] by simp
    show "dr_end r \<le> hi" if "in_order (tr_ranges tr)" using b(2) range_bounds_hold(2)[OF sorted(1)[OF tr] r that] by simp
  next
    fix te e assume te: "te \<in> set (tl_event_str ?u)" and e: "e \<in> set (te_events te)"
    have b: "lo \<le> fst (event_bounds te)" "snd (event_bounds te) \<le> hi" using all[of "event_bounds te"] te by auto
    show "lo \<le> ev_at e" "ev_at e \<le> hi" using b event_bounds_hold[OF sorted(2)[OF te] e] by simp_all
  next
    fix te e assume te: "te \<in> set (tl_event_int ?u)" and e: "e \<in> set (te_events te)"
    have b: "lo \<le> fst (event_bounds te)" "snd (event_bounds te) \<le> hi" using all[of "event_bounds te"] te by auto
    show "lo \<le> ev_at e" "ev_at e \<le> hi" using b event_bounds_hold[OF sorted(3)[OF te] e] by simp_all
  qed
qed

lemma sort_timeline_nonneg: "timeline_nonneg t \<Longrightarrow> timeline_nonneg (sort_timeline t)"
  by (auto simp: nonneg_defs sort_timeline_def sort_ranges_def sort_events_def sort_ranges_key sort_events_key)

lemma timeline_bounds_nonneg: "timeline_nonneg t \<Longrightarrow> fst (timeline_bounds t) = 0"
  unfolding timeline_bounds_all
  by (rule widen_fold_zero) (auto simp: nonneg_defs range_bounds_def event_bounds_def)

text \<open>
  The bounds that \<open>main\<close> gives the viewer: the lower one is always 0, even if nothing happens
  before some later time, and everything lies between them, if no range reaches beyond the start
  of the next one.
\<close>

lemma read_bounds:
  assumes "read_data fs filename = Inr (cs, ts)"
  shows "fst (timelines_bounds ts) = 0 \<and> (\<forall>t \<in> set ts. lies_inside 0 (snd (timelines_bounds ts)) t)"
proof -
  obtain us where ts: "ts = map sort_timeline us" and us: "\<forall>t \<in> set us. timeline_nonneg t"
    using assms read_nonneg[of "(new_colors, [])"]
    by (auto simp: read_data_def sort_timelines_def apsnd_def map_prod_def case_prod_unfold split: option.splits)
  have zero: "\<forall>t \<in> set ts. fst (timeline_bounds t) = 0"
    using us by (auto simp: ts intro: timeline_bounds_nonneg sort_timeline_nonneg)
  then have "fst (timelines_bounds ts) = 0" unfolding timelines_bounds_def by (intro widen_fold_zero) auto
  moreover have "lies_inside 0 (snd (timelines_bounds ts)) t" if "t \<in> set ts" for t
  proof -
    have "snd (timeline_bounds t) \<le> snd (timelines_bounds ts)"
      unfolding timelines_bounds_def using that by (intro widen_fold_le(4)) auto
    then show ?thesis using that zero by (auto simp: ts intro: sort_timeline_inside)
  qed
  ultimately show ?thesis by blast
qed

theorem read_data_bounds:
  assumes "read_data fs filename = Inr (cs, ts)"
  shows "fst (timelines_bounds ts) = 0 \<and> (\<forall>t \<in> set ts. lies_inside 0 (snd (timelines_bounds ts)) t)"
  using read_bounds[OF assms] .

subsection \<open>Colours run out\<close>

definition uncolored :: "colors \<Rightarrow> string list \<Rightarrow> string list" where
  "uncolored cs vs = filter (\<lambda>v. map_of (color_of cs) v = None) vs"

lemma uncolored_add: "v \<notin> set vs \<Longrightarrow> uncolored (add_color v c cs) vs = uncolored cs vs"
  unfolding uncolored_def add_color_def by (rule filter_cong) auto

lemma uncolored_defaults [simp]: "uncolored (cs\<lparr>default_colors := d\<rparr>) vs = uncolored cs vs"
  by (simp add: uncolored_def)

text \<open>
  The legend gives every value without a colour the next default colour, from the end of the
  list; when there are more such values than default colours, the list runs empty.
\<close>

lemma legend_colors_result:
  "distinct vs \<Longrightarrow>
   (if length (uncolored cs vs) \<le> length (default_colors cs)
    then \<exists>cs'. legend_colors vs cs = Inr (cs', map (\<lambda>v. the (map_of (color_of cs') v)) vs) \<and>
      map_of (color_of cs') = map_of (color_of cs) ++ map_of (zip (uncolored cs vs) (rev (default_colors cs)))
    else legend_colors vs cs = Inl IndexError)"
proof (induction vs arbitrary: cs)
  case (Cons v vs)
  show ?case
  proof (cases "map_of (color_of cs) v")
    case (Some c)
    then have "uncolored cs (v # vs) = uncolored cs vs" "lookup_color v cs = Inr (cs, c)"
      by (simp_all add: uncolored_def lookup_color_def)
    moreover have "map_of (zip (uncolored cs vs) ds) v = None" for ds :: "color list"
      using Cons.prems by (auto simp: map_of_eq_None_iff uncolored_def dest: set_zip_leftD)
    then have "(map_of (color_of cs) ++ map_of (zip (uncolored cs vs) (rev (default_colors cs)))) v = Some c"
      using Some by (simp add: map_add_def)
    ultimately show ?thesis using Cons.IH[of cs] Cons.prems by (auto simp: map_add_dom_app_simps dom_def split: if_splits)
  next
    case None
    show ?thesis
    proof (cases "default_colors cs" rule: rev_cases)
      case Nil
      then show ?thesis using None by (simp add: uncolored_def lookup_color_def)
    next
      case (snoc ds d)
      let ?cs = "add_color v d (cs\<lparr>default_colors := ds\<rparr>)"
      have l: "lookup_color v cs = Inr (?cs, d)" using None snoc by (simp add: lookup_color_def Let_def)
      have u: "uncolored cs (v # vs) = v # uncolored cs vs" "uncolored ?cs vs = uncolored cs vs"
        using None Cons.prems by (simp_all add: uncolored_add) (simp add: uncolored_def)
      have d: "default_colors ?cs = ds" "map_of (color_of ?cs) = (map_of (color_of cs))(v \<mapsto> d)"
        by (simp_all add: add_color_def)
      have none: "map_of (zip (uncolored cs vs) ds') v = None" for ds' :: "color list"
        using Cons.prems by (auto simp: map_of_eq_None_iff uncolored_def dest: set_zip_leftD)
      have "(map_of (color_of cs))(v \<mapsto> d) ++ map_of (zip (uncolored cs vs) (rev ds)) =
          map_of (color_of cs) ++ map_of (zip (v # uncolored cs vs) (rev (ds @ [d])))"
        using none[of "rev ds"] by (auto simp: fun_eq_iff map_add_def split: option.splits)
      moreover have "((map_of (color_of cs))(v \<mapsto> d) ++ map_of (zip (uncolored cs vs) (rev ds))) v = Some d"
        using none[of "rev ds"] by (simp add: map_add_def)
      ultimately show ?thesis using Cons.IH[of ?cs] Cons.prems unfolding u d snoc by (auto simp: l split: if_splits)
    qed
  qed
qed (simp add: uncolored_def)

theorem legend_colors_limit:
  "distinct vs \<Longrightarrow>
   (if length (uncolored cs vs) \<le> length (default_colors cs)
    then \<exists>cs'. legend_colors vs cs = Inr (cs', map (\<lambda>v. the (map_of (color_of cs') v)) vs) \<and>
      map_of (color_of cs') = map_of (color_of cs) ++ map_of (zip (uncolored cs vs) (rev (default_colors cs)))
    else legend_colors vs cs = Inl IndexError)"
  by (rule legend_colors_result)

definition example_range :: timeline_range where
  "example_range = \<lparr>tr_name = ''state'', tr_ranges =
     [\<lparr>dr_start = 0, dr_end = 10, dr_value = ''TX''\<rparr>, \<lparr>dr_start = 20, dr_end = 30, dr_value = ''RX''\<rparr>,
      \<lparr>dr_start = 40, dr_end = 50, dr_value = ''TX''\<rparr>]\<rparr>"

theorem search_range_correct_witness:
  "search_range (tr_ranges example_range) 25 = Inr 1 \<and> search_range (tr_ranges example_range) 15 = Inr (-1)"
proof -
  have "in_order (tr_ranges example_range)" by (simp add: in_order_def example_range_def)
  then show ?thesis
    using search_range_correct[of "tr_ranges example_range" 15] search_range_correct[of "tr_ranges example_range" 25]
    by (auto simp: example_range_def has_time_def nth_Cons' split: if_splits)
qed

theorem get_ranges_window_witness:
  "get_ranges example_range 15 35 = Inr [] \<and> (\<exists>vs. get_ranges example_range 5 35 = Inr vs \<and> tr_ranges example_range ! 1 \<in> set vs)"
proof -
  have o: "in_order (tr_ranges example_range)" by (simp add: in_order_def example_range_def)
  show ?thesis using get_ranges_window[OF o, of 15 35] get_ranges_window[OF o, of 5 35]
    by (auto simp: example_range_def has_time_def overlaps_def)
qed

definition example_events :: "string timeline_event" where
  "example_events = \<lparr>te_name = ''msg'', te_events = [\<lparr>ev_at = 1, ev_value = ''a''\<rparr>, \<lparr>ev_at = 5, ev_value = ''b''\<rparr>, \<lparr>ev_at = 9, ev_value = ''c''\<rparr>]\<rparr>"

theorem get_events_window_witness: "get_events example_events 2 6 = Inr (tl (te_events example_events))"
  using get_events_window[of example_events 2 6] by (simp add: example_events_def)

definition example_data :: string where
  "example_data = concat (map ln [''range n0 state RX 20 30'', ''color RX #00ff80'', ''range n0 state TX 0 10'',
     ''event-int n0 queue 3 7'', ''a comment''])"

theorem read_data_contents_witness:
  "\<exists>cs ts. read_data [''log'' \<mapsto> example_data] ''log'' = Inr (cs, ts) \<and> map_of (color_of cs) ''RX'' = Some (rgb 0 1 0) \<and>
     map dr_value (ranges_on ts ''n0'' ''state'') = [''TX'', ''RX''] \<and> map ev_value (ints_on ts ''n0'' ''queue'') = [3]"
proof -
  have "List.map_filter match_line (file_lines example_data) =
      [Range_entry ''n0'' ''state'' ''RX'' 20 30, Color_entry ''RX'' 0 255 128, Range_entry ''n0'' ''state'' ''TX'' 0 10,
       Event_int_entry ''n0'' ''queue'' 3 7]" by code_simp
  then show ?thesis
    using read_data_contents[of "[''log'' \<mapsto> example_data]" "''log''" example_data] by (force simp: sort_key_def)
qed

theorem entry_roundtrip_witness:
  "match_line (ln ''color RX #00ff80'') = Some (Color_entry ''RX'' 0 255 128)"
proof -
  have "show_entry (Color_entry ''RX'' 0 255 128) = ''color RX #00ff80''" "wf_entry (Color_entry ''RX'' 0 255 128)" by code_simp+
  then show ?thesis using entry_roundtrip by metis
qed

theorem read_data_bounds_witness:
  "\<exists>cs ts. read_data [''log'' \<mapsto> example_data] ''log'' = Inr (cs, ts) \<and> fst (timelines_bounds ts) = 0"
proof -
  obtain cs ts where "read_data [''log'' \<mapsto> example_data] ''log'' = Inr (cs, ts)" by (simp add: read_data_def apsnd_def map_prod_def case_prod_unfold)
  then show ?thesis using read_data_bounds by blast
qed

theorem legend_colors_limit_witness:
  "legend_colors (map show_nat [0..<7]) new_colors = Inl IndexError \<and>
   (\<exists>cs. legend_colors [''TX'', ''RX''] new_colors = Inr (cs, [rgb 0 1 1, rgb 1 0 1]))"
proof -
  have "uncolored new_colors (map show_nat [0..<7]) = map show_nat [0..<7]" "uncolored new_colors [''TX'', ''RX''] = [''TX'', ''RX'']"
    by (simp_all add: uncolored_def new_colors_def)
  then show ?thesis
    using legend_colors_limit[of "map show_nat [0..<7]" new_colors] legend_colors_limit[of "[''TX'', ''RX'']" new_colors]
    by (auto simp: new_colors_def distinct_map inj_on_def)
qed

end
