(* ===== verification/Py_Num.thy ===== *)
theory Py_Num
  imports Prelude Complex_Main
begin

section \<open>Numbers as Python 2 mixes them\<close>

text \<open>
  An integer or a floating-point number.  Arithmetic on two integers stays with integers (the
  quotient is rounded down), otherwise the result is a floating-point number, for which an exact
  rational stands: rounding errors are not modelled.
\<close>

datatype num = I int | F rat

fun val :: "num \<Rightarrow> rat" where
  "val (I i) = of_int i"
| "val (F q) = q"

fun arith :: "(int \<Rightarrow> int \<Rightarrow> int) \<Rightarrow> (rat \<Rightarrow> rat \<Rightarrow> rat) \<Rightarrow> num \<Rightarrow> num \<Rightarrow> num" where
  "arith f g (I a) (I b) = I (f a b)"
| "arith f g a b = F (g (val a) (val b))"

definition py_add :: "num \<Rightarrow> num \<Rightarrow> num" where "py_add = arith (+) (+)"
definition py_sub :: "num \<Rightarrow> num \<Rightarrow> num" where "py_sub = arith (-) (-)"
definition py_mul :: "num \<Rightarrow> num \<Rightarrow> num" where "py_mul = arith (*) (*)"

definition rat_mod :: "rat \<Rightarrow> rat \<Rightarrow> rat" where
  "rat_mod a b = a - b * of_int \<lfloor>a / b\<rfloor>"

definition py_div :: "num \<Rightarrow> num \<Rightarrow> num res" where
  "py_div a b = (if val b = 0 then Inl ZeroDivisionError else Inr (arith (div) (/) a b))"

definition py_mod :: "num \<Rightarrow> num \<Rightarrow> num res" where
  "py_mod a b = (if val b = 0 then Inl ZeroDivisionError else Inr (arith (mod) rat_mod a b))"

text \<open>\<open>x / 2\<close>\<close>

definition py_half :: "num \<Rightarrow> num" where
  "py_half a = arith (div) (/) a (I 2)"

text \<open>\<open>min\<close> and \<open>max\<close> return the first of equal arguments.\<close>

definition py_min :: "num \<Rightarrow> num \<Rightarrow> num" where "py_min a b = (if val b < val a then b else a)"
definition py_max :: "num \<Rightarrow> num \<Rightarrow> num" where "py_max a b = (if val b > val a then b else a)"

text \<open>\<open>int(x)\<close> drops the fraction.\<close>

fun py_int :: "num \<Rightarrow> int" where
  "py_int (I i) = i"
| "py_int (F q) = (if 0 \<le> q then \<lfloor>q\<rfloor> else \<lceil>q\<rceil>)"

text \<open>\<open>range(start, stop, step)\<close>\<close>

function range_up :: "int \<Rightarrow> int \<Rightarrow> int \<Rightarrow> int list" where
  "range_up start stop step =
     (if start < stop \<and> 0 < step then start # range_up (start + step) stop step else [])"
  by pat_completeness auto
termination by (relation "measure (\<lambda>(start, stop, step). nat (stop - start))") auto

declare range_up.simps [simp del]

definition range_py :: "int \<Rightarrow> int \<Rightarrow> int \<Rightarrow> int list res" where
  "range_py start stop step =
     (if step = 0 then Inl ValueError
      else Inr (if 0 < step then range_up start stop step
                else map uminus (range_up (- start) (- stop) (- step))))"

lemma val_arith [simp]:
  "val (py_add a b) = val a + val b" "val (py_sub a b) = val a - val b" "val (py_mul a b) = val a * val b"
  by (cases a; cases b; simp add: py_add_def py_sub_def py_mul_def)+

lemma val_min_max [simp]: "val (py_min a b) = min (val a) (val b)" "val (py_max a b) = max (val a) (val b)"
  by (simp_all add: py_min_def py_max_def)

lemma py_div_raises [simp]: "py_div a b = Inl e \<longleftrightarrow> val b = 0 \<and> e = ZeroDivisionError"
  by (auto simp: py_div_def)

lemma py_mod_raises [simp]: "py_mod a b = Inl e \<longleftrightarrow> val b = 0 \<and> e = ZeroDivisionError"
  by (auto simp: py_mod_def)

lemma py_div_F [simp]: "q \<noteq> 0 \<Longrightarrow> py_div a (F q) = Inr (F (val a / q))" "val b \<noteq> 0 \<Longrightarrow> py_div (F q) b = Inr (F (q / val b))"
  by (cases a; simp add: py_div_def) (cases b; simp add: py_div_def)

lemma val_half_F [simp]: "val (py_half (F q)) = q / 2"
  by (simp add: py_half_def)

lemma py_int_val: "py_int a = (if 0 \<le> val a then \<lfloor>val a\<rfloor> else \<lceil>val a\<rceil>)"
  by (cases a) simp_all

lemma py_int_bounds: "0 \<le> val a \<Longrightarrow> of_int (py_int a) \<le> val a \<and> val a < of_int (py_int a) + 1"
  unfolding py_int_val using floor_correct[of "val a"] by simp

lemma py_int_mono: "val a \<le> val b \<Longrightarrow> py_int a \<le> py_int b"
proof -
  assume le: "val a \<le> val b"
  have "\<lceil>val a\<rceil> \<le> \<lfloor>val b\<rfloor>" if "val a \<le> 0" "0 \<le> val b"
  proof -
    have "\<lceil>val a\<rceil> \<le> 0" "0 \<le> \<lfloor>val b\<rfloor>" using that by (simp_all add: ceiling_le_iff)
    then show ?thesis by linarith
  qed
  with le show ?thesis by (auto simp: py_int_val intro: floor_mono ceiling_mono)
qed

lemma set_range_up: "0 < step \<Longrightarrow> x \<in> set (range_up start stop step) \<longleftrightarrow> start \<le> x \<and> x < stop \<and> (x - start) mod step = 0"
proof (induction start stop step rule: range_up.induct)
  case (1 start stop step)
  show ?case
  proof (cases "start < stop")
    case True
    have "(x - (start + step)) mod step = (x - start) mod step"
      by (metis diff_diff_add minus_mod_self2)
    moreover have "start + step \<le> x" if "start \<le> x" "x \<noteq> start" "(x - start) mod step = 0"
      using that zdvd_imp_le[of step "x - start"] by (auto simp: dvd_eq_mod_eq_0)
    ultimately show ?thesis using 1 True by (subst range_up.simps) auto
  qed (subst range_up.simps, auto)
qed

end
