(* ===== verification/Grid_View.thy ===== *)
theory Grid_View
  imports Grid_Data Py_Num
begin

section \<open>Drawing the timelines (\<open>grid.py\<close>)\<close>

text \<open>
  The renderers of \<^verbatim>\<open>utils/grid.py\<close>: the legend, the timelines, the scales, and the graphic
  that holds them.  Each has a layout for a width and draws on a cairo context; here drawing gives
  the list of calls of the context.  \<open>font\<close> stands for \<open>text_extents\<close> of cairo, and a drawing
  that raises gives the exception only.
\<close>

record text_extents =
  y_bearing :: rat
  t_width :: rat
  t_height :: rat

type_synonym font = "string \<Rightarrow> text_extents"

datatype draw_op =
    Move_to num num
  | Line_to num num
  | Rel_line_to num num
  | Rectangle num num num num
  | Source_rgb num num num
  | Line_width num
  | Operator_source
  | Dash num
  | Show_text string
  | Translate num num
  | Stroke | Stroke_preserve | Fill | Close_path | Save | Restore

definition draw_all :: "('a \<Rightarrow> draw_op list res) \<Rightarrow> 'a list \<Rightarrow> draw_op list res" where
  "draw_all f xs = map_value concat (traverse_res f xs)"

definition alphabet :: string where
  "alphabet = ''ABCDEFGHIJKLMNOPQRSTUVWXYZabcedefghijklmnopqrstuvwxyz0123456789''"

definition black :: draw_op where "black = Source_rgb (I 0) (I 0) (I 0)"
definition grey :: draw_op where "grey = Source_rgb (F 0.9) (F 0.9) (F 0.9)"

subsection \<open>The legend\<close>

record legend_view =
  lg_padding :: num
  lg_legends :: "string list"
  lg_colors :: "color list"
  lg_width :: num
  lg_height :: num

definition new_legend :: legend_view where
  "new_legend = \<lparr>lg_padding = I 10, lg_legends = [], lg_colors = [], lg_width = I 0, lg_height = I 0\<rparr>"

definition set_legends :: "string list \<Rightarrow> color list \<Rightarrow> legend_view \<Rightarrow> legend_view" where
  "set_legends legends cs v = v\<lparr>lg_legends := legends, lg_colors := cs\<rparr>"

text \<open>
  The body that the loops of \<open>layout\<close> and \<open>draw\<close> share: the height of the line, the height used,
  the width used on the line, and the place of the item.
\<close>

definition legend_step ::
  "font \<Rightarrow> num \<Rightarrow> num \<Rightarrow> num \<times> num \<times> num \<Rightarrow> string \<Rightarrow> (num \<times> num \<times> num) \<times> num" where
  "legend_step font padding width st legend =
     (case st of (line_height, total_height, line_used) \<Rightarrow>
        let item_width = py_add (py_add (py_add padding padding) (F (t_width (font legend)))) padding;
            item_height = py_add (F (t_height (font legend))) padding;
            line_height' = (if val item_height > val line_height then item_height else line_height);
            (line_used', total_height') =
              (if val (py_add line_used item_width) > val width
               then (py_add padding item_width, py_add total_height line_height')
               else (py_add line_used item_width, total_height))
        in ((line_height', total_height', line_used'), py_sub line_used' item_width))"

definition legend_layout :: "font \<Rightarrow> num \<Rightarrow> legend_view \<Rightarrow> legend_view" where
  "legend_layout font width v =
     (case foldl (\<lambda>st legend. fst (legend_step font (lg_padding v) width st legend)) (I 0, lg_padding v, lg_padding v) (lg_legends v)
      of (line_height, total_height, line_used) \<Rightarrow>
        v\<lparr>lg_width := width, lg_height := py_add total_height line_height\<rparr>)"

fun legend_loop ::
  "font \<Rightarrow> num \<Rightarrow> num \<Rightarrow> color list \<Rightarrow> int \<Rightarrow> num \<times> num \<times> num \<Rightarrow> string list \<Rightarrow> draw_op list res" where
  "legend_loop font padding width cs i st [] = Inr []"
| "legend_loop font padding width cs i st (legend # legends) =
     (case legend_step font padding width st legend of
        ((line_height, total_height, line_used), x) \<Rightarrow>
          bind_res (nth_py cs i) (\<lambda>c.
          map_value ((@)
            [Rectangle x total_height padding padding, black, Line_width (I 2), Stroke_preserve,
             Source_rgb (I (red c)) (I (green c)) (I (blue c)), Fill,
             Move_to (py_add x (py_mul padding (I 2))) (py_add total_height (F (t_height (font legend)))),
             black, Show_text legend])
            (legend_loop font padding width cs (i + 1) (line_height, total_height, line_used) legends)))"

definition legend_draw :: "font \<Rightarrow> legend_view \<Rightarrow> draw_op list res" where
  "legend_draw font v =
     legend_loop font (lg_padding v) (lg_width v) (lg_colors v) 0 (I 0, lg_padding v, lg_padding v) (lg_legends v)"

subsection \<open>The timelines\<close>

record timelines_view =
  tv_padding :: num
  tv_timelines :: "timeline list"
  tv_colors :: colors
  tv_start :: num
  tv_end :: num
  tv_left_width :: num
  tv_right_width :: num
  tv_max_text_height :: num
  tv_width :: num
  tv_height :: num
  tv_grey_background :: int

definition new_timelines_view :: timelines_view where
  "new_timelines_view =
     \<lparr>tv_padding = I 10, tv_timelines = [], tv_colors = new_colors, tv_start = I 0, tv_end = I 0,
      tv_left_width = I 0, tv_right_width = I 0, tv_max_text_height = I 0, tv_width = I 0, tv_height = I 0,
      tv_grey_background = 0\<rparr>"

definition set_timelines :: "timeline list \<Rightarrow> colors \<Rightarrow> timelines_view \<Rightarrow> timelines_view" where
  "set_timelines ts cs v = v\<lparr>tv_timelines := ts, tv_colors := cs\<rparr>"

definition set_render_range :: "num \<Rightarrow> num \<Rightarrow> timelines_view \<Rightarrow> timelines_view" where
  "set_render_range start stop v = v\<lparr>tv_start := start, tv_end := stop\<rparr>"

definition data_x_start :: "timelines_view \<Rightarrow> num" where
  "data_x_start v =
     py_add (py_add (py_add (py_add (py_half (tv_padding v)) (tv_left_width v)) (tv_padding v)) (tv_right_width v))
       (py_half (tv_padding v))"

definition widest :: "font \<Rightarrow> string list \<Rightarrow> num" where
  "widest font names = foldl py_max (I 0) (map (\<lambda>n. F (t_width (font n))) names)"

definition timelines_layout :: "font \<Rightarrow> num \<Rightarrow> timelines_view \<Rightarrow> timelines_view" where
  "timelines_layout font width v =
     (let ts = tv_timelines v;
          max_text_height = F (t_height (font alphabet));
          left_n_lines = I (int (length ts));
          range_n = I (sum_list (map (\<lambda>t. int (length (tl_ranges t))) ts));
          eventint_n = I (sum_list (map (\<lambda>t. int (length (tl_event_int t))) ts));
          eventstr_n = I (sum_list (map (\<lambda>t. int (length (tl_event_str t))) ts));
          left_height = py_add (py_mul left_n_lines max_text_height) (py_mul (py_sub left_n_lines (I 1)) (tv_padding v));
          right_n_lines = py_add (py_add range_n eventint_n) eventstr_n;
          right_height = py_add (py_mul (py_sub right_n_lines (I 1)) (tv_padding v)) (py_mul right_n_lines max_text_height);
          right_data_height =
            py_add (py_add (py_mul (py_add eventint_n eventstr_n) (py_add max_text_height (I 5))) (py_mul range_n (I 10)))
              (py_mul (py_sub right_n_lines (I 1)) (tv_padding v));
          height = py_max (py_max left_height right_height) right_data_height
      in v\<lparr>tv_left_width := widest font (map tl_name ts),
           tv_right_width := widest font (concat (map (\<lambda>t. map tr_name (tl_ranges t) @ map te_name (tl_event_int t) @
             map te_name (tl_event_str t)) ts)),
           tv_max_text_height := max_text_height, tv_width := width, tv_height := py_add height (tv_padding v)\<rparr>)"

definition draw_line :: "num \<Rightarrow> num \<Rightarrow> num \<Rightarrow> num \<Rightarrow> draw_op list" where
  "draw_line x y width height =
     [Move_to x y, Rel_line_to width height, Close_path, Operator_source, Line_width (F 1), black, Stroke]"

definition grey_rectangle :: "timelines_view \<Rightarrow> num \<Rightarrow> num \<Rightarrow> num \<Rightarrow> num \<Rightarrow> draw_op list" where
  "grey_rectangle v x y width height =
     (if tv_grey_background v mod 2 = 0
      then [Rectangle x (py_sub y (py_half (tv_padding v))) width (py_add height (tv_padding v)), grey, Fill]
      else [])"

text \<open>The place of a time: \<open>int(x + (at - start) * width / (end - start))\<close>.\<close>

definition pixel :: "timelines_view \<Rightarrow> num \<Rightarrow> num \<Rightarrow> num \<Rightarrow> int res" where
  "pixel v x width time =
     map_value (\<lambda>d. py_int (py_add x d))
       (py_div (py_mul (py_sub time (tv_start v)) width) (py_sub (tv_end v) (tv_start v)))"

fun events_loop ::
  "timelines_view \<Rightarrow> ('v \<Rightarrow> string) \<Rightarrow> num \<Rightarrow> num \<Rightarrow> num \<Rightarrow> int \<Rightarrow> 'v event list \<Rightarrow> draw_op list res" where
  "events_loop v show_value x y width last_x_drawn [] = Inr []"
| "events_loop v show_value x y width last_x_drawn (e # es) =
     bind_res (pixel v x width (I (ev_at e))) (\<lambda>real_x.
       if real_x > last_x_drawn + 2 then
         map_value ((@)
           [Rectangle (I real_x) y (I 1) (I 1), Source_rgb (I 1) (I 0) (I 0), Stroke,
            Move_to (I real_x) (py_add y (tv_max_text_height v)), black, Show_text (show_value (ev_value e))])
           (events_loop v show_value x y width real_x es)
       else events_loop v show_value x y width last_x_drawn es)"

definition draw_events ::
  "timelines_view \<Rightarrow> ('v \<Rightarrow> string) \<Rightarrow> 'v timeline_event \<Rightarrow> num \<Rightarrow> num \<Rightarrow> num \<Rightarrow> num \<Rightarrow> (timelines_view \<times> draw_op list) res" where
  "draw_events v show_value t x y width height =
     bind_res (get_events_bounds t (val (tv_start v)) (val (tv_end v))) (\<lambda>(lo, hi).
       map_value (\<lambda>ops. (v\<lparr>tv_grey_background := tv_grey_background v + 1\<rparr>, grey_rectangle v x y width height @ ops))
         (events_loop v show_value x y width (py_int x) (slice_py (te_events t) lo hi)))"

fun ranges_loop ::
  "timelines_view \<Rightarrow> num \<Rightarrow> num \<Rightarrow> num \<Rightarrow> int \<Rightarrow> colors \<Rightarrow> data_range list \<Rightarrow> (colors \<times> draw_op list) res" where
  "ranges_loop v x y width last_x_drawn cs [] = Inr (cs, [])"
| "ranges_loop v x y width last_x_drawn cs (r # rs) =
     bind_res (pixel v x width (py_max (I (dr_start r)) (tv_start v))) (\<lambda>x_start.
     bind_res (pixel v x width (py_min (I (dr_end r)) (tv_end v))) (\<lambda>x_end.
       if x_end > last_x_drawn then
         bind_res (lookup_color (dr_value r) cs) (\<lambda>(cs', c).
         map_value (apsnd ((@)
           [Rectangle (I x_start) y (I (x_end - x_start)) (I 10), black, Stroke_preserve,
            Source_rgb (I (red c)) (I (green c)) (I (blue c)), Fill]))
           (ranges_loop v x y width x_end cs' rs))
       else ranges_loop v x y width last_x_drawn cs rs))"

definition draw_ranges ::
  "timelines_view \<Rightarrow> timeline_range \<Rightarrow> num \<Rightarrow> num \<Rightarrow> num \<Rightarrow> num \<Rightarrow> (timelines_view \<times> draw_op list) res" where
  "draw_ranges v t x y width height =
     bind_res (get_ranges_bounds t (val (tv_start v)) (val (tv_end v))) (\<lambda>(lo, hi).
       map_value (\<lambda>(cs, ops).
           (v\<lparr>tv_grey_background := tv_grey_background v + 1, tv_colors := cs\<rparr>, grey_rectangle v x y width height @ ops))
         (ranges_loop v x y width (py_int (py_sub x (I 1))) (tv_colors v) (slice_py (tr_ranges t) lo hi)))"

text \<open>\<open>draw\<close>: a row of text and data for every item; the state is \<open>cur_y\<close> with the renderer itself.\<close>

definition row_label :: "font \<Rightarrow> timelines_view \<Rightarrow> num \<Rightarrow> num \<Rightarrow> string \<Rightarrow> draw_op list" where
  "row_label font v x cur_y name =
     [Move_to x (py_sub (py_add cur_y (tv_max_text_height v)) (F (t_height (font name) + y_bearing (font name)))), Show_text name]"

record rows =
  rw_view :: timelines_view
  rw_y :: num
  rw_ops :: "draw_op list"

text \<open>\<open>advance\<close> goes down by the height of the row and draws the line below it.\<close>

definition row ::
  "font \<Rightarrow> num \<Rightarrow> num \<Rightarrow> (timelines_view \<Rightarrow> num \<Rightarrow> (timelines_view \<times> draw_op list) res) \<Rightarrow> string \<Rightarrow> rows \<Rightarrow> rows res" where
  "row font right_x_start advance draw name st =
     map_value (\<lambda>(v, ops).
       let y = py_add (rw_y st) advance
       in \<lparr>rw_view = v, rw_y = y,
           rw_ops = rw_ops st @ row_label font (rw_view st) right_x_start (rw_y st) name @ ops @
             draw_line (py_sub right_x_start (py_half (tv_padding v))) (py_sub y (py_half (tv_padding v)))
               (py_add (tv_right_width v) (tv_padding v)) (I 0)\<rparr>)
       (draw (rw_view st) (rw_y st))"

definition draw_timeline :: "font \<Rightarrow> num \<Rightarrow> num \<Rightarrow> num \<Rightarrow> num \<Rightarrow> rows \<Rightarrow> timeline \<Rightarrow> rows res" where
  "draw_timeline font left_x_start right_x_start data_x data_width st t =
     (let v = rw_view st;
          event_height = py_add (tv_max_text_height v) (I 5);
          event_advance = py_add event_height (tv_padding v);
          range_advance = py_add (tv_max_text_height v) (tv_padding v);
          st = st\<lparr>rw_ops := rw_ops st @ row_label font v left_x_start (rw_y st) (tl_name t)\<rparr>
      in bind_res (fold_res (\<lambda>st e. row font right_x_start event_advance
             (\<lambda>v y. draw_events v show_int e data_x y data_width event_height) (te_name e) st) st (tl_event_int t)) (\<lambda>st.
         bind_res (fold_res (\<lambda>st e. row font right_x_start event_advance
             (\<lambda>v y. draw_events v (\<lambda>s. s) e data_x y data_width event_height) (te_name e) st) st (tl_event_str t)) (\<lambda>st.
         map_value (\<lambda>st. st\<lparr>rw_ops := rw_ops st @
               draw_line (I 0) (py_sub (rw_y st) (py_half (tv_padding v))) (tv_width v) (I 0)\<rparr>)
           (fold_res (\<lambda>st r. row font right_x_start range_advance
             (\<lambda>v y. draw_ranges v r data_x y data_width (I 10)) (tr_name r) st) st (tl_ranges t)))))"

definition timelines_draw :: "font \<Rightarrow> timelines_view \<Rightarrow> (timelines_view \<times> draw_op list) res" where
  "timelines_draw font v =
     (let half = py_half (tv_padding v);
          left_x_start = half;
          left_x_end = py_add left_x_start (tv_left_width v);
          right_x_start = py_add left_x_end (tv_padding v);
          right_x_end = py_add right_x_start (tv_right_width v);
          data_x = py_add right_x_end half;
          data_width = py_sub (tv_width v) data_x
      in map_value (\<lambda>st.
           let bot_y = py_sub (rw_y st) half
           in (rw_view st, rw_ops st @ draw_line (py_add left_x_end half) (I 0) (I 0) bot_y @
                 draw_line (py_add right_x_end half) (I 0) (I 0) bot_y))
           (fold_res (draw_timeline font left_x_start right_x_start data_x data_width)
             \<lparr>rw_view = v\<lparr>tv_grey_background := 1\<rparr>, rw_y = half, rw_ops = draw_line (I 0) (I 0) (tv_width v) (I 0)\<rparr>
             (tv_timelines v)))"

subsection \<open>The scales\<close>

record scale =
  sc_lo :: num
  sc_hi :: num
  sc_delta :: int
  sc_width :: num
  sc_height :: num
  sc_top :: bool

definition new_scale :: scale where
  "new_scale = \<lparr>sc_lo = I 0, sc_hi = I 0, sc_delta = 1, sc_width = I 0, sc_height = I 0, sc_top = False\<rparr>"

definition set_bounds :: "num \<Rightarrow> num \<Rightarrow> scale \<Rightarrow> scale" where
  "set_bounds lo hi s = s\<lparr>sc_lo := lo, sc_hi := hi\<rparr>"

definition get_position :: "scale \<Rightarrow> num \<Rightarrow> num res" where
  "get_position s x = py_div (py_mul (py_sub x (sc_lo s)) (sc_width s)) (py_sub (sc_hi s) (sc_lo s))"

text \<open>The loop starts with 1; it would not end from a number below 1.\<close>

function closest_loop :: "int \<Rightarrow> rat \<Rightarrow> int" where
  "closest_loop closest data_delta =
     (if 0 < closest \<and> of_int (closest * 10) < data_delta then closest_loop (closest * 10) data_delta else closest)"
  by pat_completeness auto
termination
  by (relation "measure (\<lambda>(closest, data_delta). nat (\<lceil>data_delta\<rceil> - closest))") (auto simp: less_ceiling_iff)

declare closest_loop.simps [simp del]

definition choose_delta :: "num \<Rightarrow> int res" where
  "choose_delta data_delta =
     (let closest = closest_loop 1 (val data_delta)
      in map_value (\<lambda>ratio.
           if val ratio = 0 then closest else if val ratio = 1 then closest div 10 else closest)
           (py_div data_delta (I closest)))"

text \<open>\<open>lo - (lo % delta) + delta\<close> and \<open>hi - (hi % delta)\<close>\<close>

definition first_tick :: "scale \<Rightarrow> int \<Rightarrow> num res" where
  "first_tick s delta = map_value (\<lambda>m. py_add (py_sub (sc_lo s) m) (I delta)) (py_mod (sc_lo s) (I delta))"

definition last_tick :: "scale \<Rightarrow> int \<Rightarrow> num res" where
  "last_tick s delta = map_value (py_sub (sc_hi s)) (py_mod (sc_hi s) (I delta))"

definition scale_layout :: "font \<Rightarrow> num \<Rightarrow> scale \<Rightarrow> scale res" where
  "scale_layout font width s =
     bind_res (choose_delta (py_sub (sc_hi s) (sc_lo s))) (\<lambda>delta.
     bind_res (first_tick s delta) (\<lambda>start. bind_res (last_tick s delta) (\<lambda>stop.
       Inr (s\<lparr>sc_delta := delta, sc_width := width, sc_height := py_add (F (t_height (font alphabet))) (I 10)\<rparr>))))"

definition ticks :: "scale \<Rightarrow> int \<Rightarrow> int list res" where
  "ticks s delta =
     bind_res (first_tick s delta) (\<lambda>start. bind_res (last_tick s delta) (\<lambda>stop.
       range_py (py_int start) (py_int (py_add stop (I delta))) delta))"

definition tick_line :: "num \<Rightarrow> int \<Rightarrow> draw_op list" where
  "tick_line x len = [Move_to x (I 0), Line_to x (I len), Close_path, Stroke]"

definition draw_tick :: "font \<Rightarrow> scale \<Rightarrow> int \<Rightarrow> int \<Rightarrow> draw_op list res" where
  "draw_tick font s sign x =
     map_value (\<lambda>real_x.
         let t = font (show_int x);
             text_delta = (if sc_top s then t_height t + y_bearing t else - y_bearing t)
         in tick_line real_x (5 * sign) @
            [Move_to (py_sub real_x (F (t_width t / 2))) (F ((10 + text_delta) * of_int sign)), Show_text (show_int x)])
       (get_position s (I x))"

definition scale_draw :: "font \<Rightarrow> scale \<Rightarrow> draw_op list res" where
  "scale_draw font s =
     (let sign = (if sc_top s then -1 else 1)
      in bind_res (ticks s (sc_delta s)) (\<lambda>xs.
         bind_res (draw_all (draw_tick font s sign) xs) (\<lambda>main_ops.
         let delta = sc_delta s div 10
         in if 0 < delta
            then bind_res (ticks s delta) (\<lambda>subs.
                 map_value (\<lambda>sub_ops. [black, Line_width (F 1)] @ main_ops @ sub_ops)
                   (draw_all (\<lambda>x. map_value (\<lambda>real_x. tick_line real_x (3 * sign)) (get_position s (I x))) subs))
            else Inr ([black, Line_width (F 1)] @ main_ops))))"

subsection \<open>The scale has a few ticks\<close>

lemma closest_loop_result:
  "0 < c \<Longrightarrow> \<exists>k. closest_loop c d = c * 10 ^ k \<and> d \<le> of_int (10 * closest_loop c d) \<and>
     (k = 0 \<or> of_int (closest_loop c d) < d)"
proof (induction c d rule: closest_loop.induct)
  case (1 c d)
  show ?case
  proof (cases "of_int (c * 10) < d")
    case True
    then have e: "closest_loop c d = closest_loop (c * 10) d" using 1(2) by (subst closest_loop.simps) simp
    have "0 < c \<and> of_int (c * 10) < d" "0 < c * 10" using 1(2) True by simp_all
    then obtain k where "closest_loop (c * 10) d = c * 10 * 10 ^ k" "d \<le> of_int (10 * closest_loop (c * 10) d)"
      "k = 0 \<or> of_int (closest_loop (c * 10) d) < d"
      using 1(1) by blast
    then show ?thesis unfolding e using True by (intro exI[of _ "Suc k"]) auto
  next
    case False
    then have "closest_loop c d = c" using 1(2) by (subst closest_loop.simps) simp
    then show ?thesis using False by (intro exI[of _ 0]) (auto simp: mult.commute)
  qed
qed

lemma choose_delta_small: "val d \<le> 1 \<Longrightarrow> choose_delta d = Inr (if val d = 1 then 0 else 1)"
proof -
  assume "val d \<le> 1"
  then have "closest_loop 1 (val d) = 1" by (subst closest_loop.simps) simp
  then show ?thesis by (cases d) (auto simp: choose_delta_def py_div_def)
qed

text \<open>For more than one unit of time the distance of the ticks gives at least one and less than twenty intervals.\<close>

lemma choose_delta_range:
  assumes "1 < val d"
  shows "\<exists>delta. choose_delta d = Inr delta \<and> 1 \<le> delta \<and> of_int delta < val d \<and> val d < 20 * of_int delta"
proof -
  define c where "c = closest_loop 1 (val d)"
  obtain k where c: "c = 10 ^ k" "val d \<le> of_int (10 * c)" "k = 0 \<or> of_int c < val d"
    using closest_loop_result[of 1 "val d"] unfolding c_def by (metis mult_1 zero_less_one)
  have cd: "choose_delta d =
      map_value (\<lambda>ratio. if val ratio = 0 then c else if val ratio = 1 then c div 10 else c) (py_div d (I c))"
    unfolding choose_delta_def c_def Let_def ..
  have pos: "1 \<le> c" by (simp add: c(1))
  have less: "of_int c < val d" using c(1,3) assms by auto
  show ?thesis
  proof (cases d)
    case (I i)
    have ci: "c < i" using less I by simp
    then have "i div c \<noteq> 0" using pos by (simp add: zdiv_eq_0_iff)
    show ?thesis
    proof (cases "i div c = 1")
      case True
      then have "k \<noteq> 0" using c(1) ci by (cases k) auto
      then obtain j where j: "c = 10 * 10 ^ j" using c(1) by (cases k) auto
      have "i = c + i mod c" using True by (metis div_mult_mod_eq mult_1)
      then have "i < 2 * c" using pos pos_mod_bound[of c i] by linarith
      moreover have "choose_delta d = Inr (c div 10)" unfolding cd using True pos by (simp add: py_div_def I)
      moreover from \<open>i < 2 * c\<close> have "(of_int i :: rat) < of_int (20 * 10 ^ j)"
        using j unfolding of_int_less_iff by simp
      moreover have "(of_int (10 ^ j) :: rat) < of_int i" 
        using j ci zero_less_power[of "10 :: int" j] unfolding of_int_less_iff by linarith
      ultimately show ?thesis using j I by (intro exI[of _ "10 ^ j"]) auto
    next
      case False
      then have "choose_delta d = Inr c" unfolding cd using False pos \<open>i div c \<noteq> 0\<close> by (simp add: py_div_def I)
      then show ?thesis using pos less c(2) by (intro exI[of _ c]) auto
    qed
  next
    case (F q)
    have "q / of_int c \<noteq> 0" "q / of_int c \<noteq> 1" using less F pos by auto
    then have "choose_delta d = Inr c" unfolding cd using pos by (simp add: py_div_def F)
    then show ?thesis using pos less c(2) by (intro exI[of _ c]) auto
  qed
qed

text \<open>
  C25: For a range longer than 1 the distance of the ticks is found: it is at least 1, less than
  the range, and more than a twentieth of it.
\<close>

theorem choose_delta_bounds:
  assumes "1 < val d"
  shows "\<exists>delta. choose_delta d = Inr delta \<and> 1 \<le> delta \<and> of_int delta < val d \<and> val d < 20 * of_int delta"
  using choose_delta_range[OF assms] .

lemma choose_delta_total: "\<exists>delta. choose_delta d = Inr delta \<and> 0 \<le> delta \<and> (delta = 0 \<longleftrightarrow> val d = 1)"
proof (cases "1 < val d")
  case True
  then show ?thesis using choose_delta_range[of d] by force
qed (auto simp: choose_delta_small)

theorem scale_layout_raises:
  "scale_layout font width s = Inl e \<longleftrightarrow> val (sc_hi s) - val (sc_lo s) = 1 \<and> e = ZeroDivisionError"
proof -
  obtain delta where d: "choose_delta (py_sub (sc_hi s) (sc_lo s)) = Inr delta" "delta = 0 \<longleftrightarrow> val (sc_hi s) - val (sc_lo s) = 1"
    using choose_delta_total[of "py_sub (sc_hi s) (sc_lo s)"] by auto
  show ?thesis
  proof (cases "delta = 0")
    case True
    then show ?thesis using d by (auto simp: scale_layout_def first_tick_def py_mod_def)
  next
    case False
    then show ?thesis using d by (auto simp: scale_layout_def first_tick_def last_tick_def py_mod_def)
  qed
qed

subsection \<open>Where the ticks are\<close>

lemma rat_mod_val: "0 < d \<Longrightarrow> val a - rat_mod (val a) (of_int d) = of_int (d * \<lfloor>val a / of_int d\<rfloor>)"
  by (simp add: rat_mod_def)

lemma py_mod_val: "0 < d \<Longrightarrow> \<exists>m. py_mod a (I d) = Inr m \<and> val m = rat_mod (val a) (of_int d)"
proof (cases a)
  case (I i)
  assume "0 < d"
  have "of_int (i mod d) = rat_mod (of_int i) (of_int d)"
    by (simp add: rat_mod_def floor_divide_of_int_eq minus_mult_div_eq_mod[symmetric])
  then show ?thesis using \<open>0 < d\<close> by (simp add: py_mod_def I)
qed (simp add: py_mod_def)

lemma first_tick_val:
  "0 < d \<Longrightarrow> \<exists>n. first_tick s d = Inr n \<and> val n = of_int (d * (\<lfloor>val (sc_lo s) / of_int d\<rfloor> + 1))"
  using py_mod_val[of d "sc_lo s"] rat_mod_val[of d "sc_lo s"] by (auto simp: first_tick_def algebra_simps)

lemma last_tick_val:
  "0 < d \<Longrightarrow> \<exists>n. last_tick s d = Inr n \<and> val n = of_int (d * \<lfloor>val (sc_hi s) / of_int d\<rfloor>)"
  using py_mod_val[of d "sc_hi s"] rat_mod_val[of d "sc_hi s"] by (auto simp: last_tick_def)

lemma py_int_of_int: "val n = of_int k \<Longrightarrow> py_int n = k"
  by (simp add: py_int_val)

text \<open>The ticks are the multiples of the distance after the lower bound and up to the upper one.\<close>

theorem ticks_spec:
  assumes "0 < d"
  shows "\<exists>xs. ticks s d = Inr xs \<and>
    (\<forall>x. x \<in> set xs \<longleftrightarrow> d dvd x \<and> val (sc_lo s) < of_int x \<and> of_int x \<le> val (sc_hi s))"
proof -
  let ?a = "\<lfloor>val (sc_lo s) / of_int d\<rfloor>" and ?b = "\<lfloor>val (sc_hi s) / of_int d\<rfloor>"
  obtain m where m: "first_tick s d = Inr m" "val m = of_int (d * (?a + 1))" using first_tick_val[OF assms] by blast
  obtain n where n: "last_tick s d = Inr n" "val n = of_int (d * ?b)" using last_tick_val[OF assms] by blast
  have n': "val (py_add n (I d)) = of_int (d * ?b + d)" by (simp add: n(2))
  then have t: "ticks s d = Inr (range_up (d * (?a + 1)) (d * ?b + d) d)"
    using assms py_int_of_int[OF m(2)] py_int_of_int[OF n'] by (simp add: ticks_def m(1) n(1) range_py_def)
  have "x \<in> set (range_up (d * (?a + 1)) (d * ?b + d) d) \<longleftrightarrow> d dvd x \<and> val (sc_lo s) < of_int x \<and> of_int x \<le> val (sc_hi s)" for x
  proof (cases "d dvd x")
    case True
    then obtain k where k: "x = d * k" by blast
    have "d * (?a + 1) \<le> x \<longleftrightarrow> ?a < k" "x < d * ?b + d \<longleftrightarrow> k \<le> ?b"
      using assms mult_le_cancel_left_pos[of d "?a + 1" k] mult_less_cancel_left_pos[of d k "?b + 1"]
      by (auto simp: k algebra_simps)
    moreover have "?a < k \<longleftrightarrow> val (sc_lo s) < of_int x" "k \<le> ?b \<longleftrightarrow> of_int x \<le> val (sc_hi s)"
      using assms by (auto simp: k floor_less_iff le_floor_iff pos_divide_less_eq pos_le_divide_eq mult.commute)
    moreover have "(x - d * (?a + 1)) mod d = 0" by (simp add: k right_diff_distrib[symmetric])
    ultimately show ?thesis using True by (simp add: set_range_up[OF assms])
  next
    case False
    have "(x - d * (?a + 1)) mod d = x mod d" by (metis diff_0_right mod_diff_right_eq mod_mult_self1_is_0)
    then show ?thesis using False by (simp add: set_range_up[OF assms] dvd_eq_mod_eq_0)
  qed
  then show ?thesis using t by blast
qed

subsection \<open>What is drawn stays in its area\<close>

text \<open>The first step of drawing an item: where it is, and what is used of the line then.\<close>

lemma legend_step_place:
  assumes "0 \<le> val padding" "\<And>s. 0 \<le> t_width (font s)"
    and "legend_step font padding width (line_height, total_height, line_used) legend = ((lh, th, used), x)"
    and "val padding \<le> val line_used"
  shows "val padding \<le> val x" "val padding \<le> val used" "val used = val x + 3 * val padding + t_width (font legend)"
    "val x + 3 * val padding + t_width (font legend) \<le> val width \<or> val x = val padding"
  using assms(1,3,4) assms(2)[of legend] by (auto simp: legend_step_def Let_def split: if_splits)

text \<open>The squares of the legend with the text that belongs to each.\<close>

fun legend_items :: "draw_op list \<Rightarrow> (num \<times> string) list" where
  "legend_items (Rectangle x y w h # a # b # c # d # e # f # g # Show_text s # ops) = (x, s) # legend_items ops"
| "legend_items ops = []"

lemma legend_loop_fits:
  assumes "0 \<le> val padding" "\<And>s. 0 \<le> t_width (font s)"
  shows "val padding \<le> val line_used \<Longrightarrow>
    legend_loop font padding width cs i (line_height, total_height, line_used) legends = Inr ops \<Longrightarrow>
    map snd (legend_items ops) = legends \<and>
    (\<forall>(x, s) \<in> set (legend_items ops). val padding \<le> val x \<and>
       (val x + 3 * val padding + t_width (font s) \<le> val width \<or> val x = val padding))"
proof (induction legends arbitrary: i line_height total_height line_used ops)
  case (Cons legend legends)
  obtain lh th used x where st: "legend_step font padding width (line_height, total_height, line_used) legend = ((lh, th, used), x)"
    by (metis prod.exhaust)
  note place = legend_step_place[OF assms st Cons.prems(1)]
  from Cons.prems(2) obtain ops' cr cg cb where ops: "legend_loop font padding width cs (i + 1) (lh, th, used) legends = Inr ops'"
    "ops = [Rectangle x th padding padding, black, Line_width (I 2), Stroke_preserve,
       Source_rgb cr cg cb, Fill,
       Move_to (py_add x (py_mul padding (I 2))) (py_add th (F (t_height (font legend)))), black, Show_text legend] @ ops'"
    by (auto simp: st bind_res_eq_Inr map_value_eq_Inr)
  from Cons.IH[OF place(2) ops(1)] place(1,4) show ?case by (auto simp: ops(2))
qed auto

theorem legend_fits:
  assumes "legend_draw font v = Inr ops" "0 \<le> val (lg_padding v)" "\<forall>s. 0 \<le> t_width (font s)"
  shows "map snd (legend_items ops) = lg_legends v \<and>
    (\<forall>(x, s) \<in> set (legend_items ops). val (lg_padding v) \<le> val x \<and>
       (val x + 3 * val (lg_padding v) + t_width (font s) \<le> val (lg_width v) \<or> val x = val (lg_padding v)))"
  using assms legend_loop_fits[of "lg_padding v" font "lg_padding v"] by (auto simp: legend_draw_def)

subsection \<open>Ranges are drawn inside the data area\<close>





text \<open>The rectangles of a drawing as left and right border.\<close>

fun spans :: "draw_op list \<Rightarrow> (int \<times> int) list" where
  "spans (Rectangle (I a) y (I w) h # ops) = (a, a + w) # spans ops"
| "spans (_ # ops) = spans ops"
| "spans [] = []"

lemma spans_append [simp]: "spans (ops @ ops') = spans ops @ spans ops'"
  by (induction ops rule: spans.induct) auto









text \<open>
  In a view that ends in a gap the range after it is painted too, from beyond the right edge back to it.
\<close>

definition example_gap :: timeline_range where
  "example_gap =
     \<lparr>tr_name = ''state'',
      tr_ranges = [\<lparr>dr_start = 10, dr_end = 30, dr_value = ''TX''\<rparr>, \<lparr>dr_start = 150, dr_end = 200, dr_value = ''RX''\<rparr>]\<rparr>"

lemma bar_beyond_the_edge:
  "case draw_ranges (new_timelines_view\<lparr>tv_start := I 20, tv_end := I 100\<rparr>) example_gap (I 20) (I 5) (I 200) (I 10) of
     Inl e \<Rightarrow> False
   | Inr (v', ops) \<Rightarrow> (345, 220) \<in> set (spans ops)"
  by code_simp

subsection \<open>Examples\<close>

definition plain_font :: font where
  "plain_font s = \<lparr>y_bearing = -7, t_width = 6 * of_nat (length s), t_height = 9\<rparr>"

theorem choose_delta_bounds_witness: "choose_delta (I 15) = Inr 1 \<and> (\<exists>delta. choose_delta (F 99) = Inr delta \<and> 1 \<le> delta)"
proof -
  have "choose_delta (I 15) = Inr 1"
    by (simp add: choose_delta_def closest_loop.simps[of _ 15] py_div_def)
  then show ?thesis using choose_delta_bounds[of "F 99"] by auto
qed

theorem ticks_spec_witness:
  "\<exists>xs. ticks (set_bounds (F 3.5) (I 20) new_scale) 5 = Inr xs \<and> set xs = {5, 10, 15, 20}"
proof -
  obtain xs where xs: "ticks (set_bounds (F 3.5) (I 20) new_scale) 5 = Inr xs"
    "\<And>x. x \<in> set xs \<longleftrightarrow> 5 dvd x \<and> 3.5 < (of_int x :: rat) \<and> (of_int x :: rat) \<le> 20"
    using ticks_spec[of 5 "set_bounds (F 3.5) (I 20) new_scale"] by (auto simp: set_bounds_def)
  have "set xs = {5, 10, 15, 20}"
  proof (intro set_eqI iffI)
    fix x assume "x \<in> set xs"
    then have "5 dvd x" "3 < x" "x \<le> 20" using xs(2)[of x] by (auto simp: of_int_le_iff[of _ 20, simplified] dest: order.strict_trans[of 3, rotated])
    then show "x \<in> {5, 10, 15, 20}" by (auto elim!: dvdE)
  next
    fix x :: int assume "x \<in> {5, 10, 15, 20}"
    then show "x \<in> set xs" unfolding xs(2) by auto
  qed
  then show ?thesis using xs(1) by blast
qed

theorem legend_fits_witness:
  "\<exists>ops. legend_draw plain_font (legend_layout plain_font (I 100) (set_legends [''TX'', ''IDLE''] [rgb 1 0 0, rgb 0 1 0] new_legend)) = Inr ops \<and>
     map snd (legend_items ops) = [''TX'', ''IDLE'']"
proof -
  let ?v = "legend_layout plain_font (I 100) (set_legends [''TX'', ''IDLE''] [rgb 1 0 0, rgb 0 1 0] new_legend)"
  have v: "lg_padding ?v = I 10" "lg_legends ?v = [''TX'', ''IDLE'']" "lg_colors ?v = [rgb 1 0 0, rgb 0 1 0]"
    by (simp_all add: legend_layout_def set_legends_def new_legend_def split: prod.splits)
  have "case legend_draw plain_font ?v of Inl e \<Rightarrow> False | Inr r \<Rightarrow> True" by code_simp
  then obtain ops where "legend_draw plain_font ?v = Inr ops" by (auto split: sum.splits)
  moreover from legend_fits[OF this] have "map snd (legend_items ops) = [''TX'', ''IDLE'']"
    by (simp add: v plain_font_def)
  ultimately show ?thesis by (intro exI[of _ ops] conjI)
qed




end
