(* ===== verification/Grid_Window.thy ===== *)
theory Grid_Window
  imports Grid_View
begin

section \<open>The window of the timeline viewer (\<open>grid.py\<close>)\<close>

text \<open>
  The graphic that holds the renderers and the range of time in view, the widget that turns the
  mouse into changes of that range, and \<open>main\<close>.  Requests for redrawing are left out.  A handler
  that raises is the end of the model; gtk would print the exception and go on with what had been
  assigned before.
\<close>

subsection \<open>The graphic\<close>

record graphic =
  g_start :: num
  g_end :: num
  g_mid_scale :: scale
  g_bot_scale :: scale
  g_width :: num
  g_height :: num
  g_r_start :: num
  g_r_end :: num
  g_data :: timelines_view
  g_top_legend :: legend_view

definition new_graphic :: "num \<Rightarrow> num \<Rightarrow> timelines_view \<Rightarrow> legend_view \<Rightarrow> graphic" where
  "new_graphic start stop data legend =
     \<lparr>g_start = F (val start), g_end = F (val stop), g_mid_scale = new_scale\<lparr>sc_top := True\<rparr>,
      g_bot_scale = set_bounds start stop new_scale, g_width = I 1, g_height = I 1,
      g_r_start = I 0, g_r_end = I 0, g_data = data, g_top_legend = legend\<rparr>"

text \<open>Rectangles: x, y, width and height.\<close>

definition data_rectangle :: "graphic \<Rightarrow> num \<times> num \<times> num \<times> num" where
  "data_rectangle g =
     (let x_start = data_x_start (g_data g)
      in (x_start, lg_height (g_top_legend g), py_sub (g_width g) x_start, tv_height (g_data g)))"

definition scale_data :: "graphic \<Rightarrow> num \<Rightarrow> num res" where
  "scale_data g x =
     map_value (\<lambda>q. py_mul q (py_sub (g_r_end g) (g_r_start g)))
       (py_div x (py_sub (g_width g) (data_x_start (g_data g))))"

definition selection_rectangle :: "graphic \<Rightarrow> (num \<times> num \<times> num \<times> num) res" where
  "selection_rectangle g =
     (let y_start = py_add (py_add (py_add (lg_height (g_top_legend g)) (tv_height (g_data g))) (sc_height (g_mid_scale g))) (I 20);
          y_height = py_add (sc_height (g_bot_scale g)) (I 20)
      in bind_res (get_position (g_bot_scale g) (g_r_start g)) (\<lambda>x_start.
         map_value (\<lambda>x_end. (x_start, y_start, py_sub x_end x_start, y_height))
           (get_position (g_bot_scale g) (g_r_end g))))"

definition scale_selection :: "graphic \<Rightarrow> num \<Rightarrow> num res" where
  "scale_selection g x = map_value (\<lambda>q. py_mul q (py_sub (g_end g) (g_start g))) (py_div x (g_width g))"

definition graphic_layout :: "font \<Rightarrow> num \<Rightarrow> num \<Rightarrow> graphic \<Rightarrow> graphic res" where
  "graphic_layout font width height g =
     (let legend = legend_layout font width (g_top_legend g);
          data = timelines_layout font width (g_data g)
      in bind_res (scale_layout font (py_sub width (data_x_start data)) (g_mid_scale g)) (\<lambda>mid.
         map_value (\<lambda>bot. g\<lparr>g_width := width, g_height := height, g_top_legend := legend, g_data := data,
             g_mid_scale := mid, g_bot_scale := bot\<rparr>)
           (scale_layout font width (g_bot_scale g))))"

definition set_range :: "font \<Rightarrow> num \<Rightarrow> num \<Rightarrow> graphic \<Rightarrow> graphic res" where
  "set_range font start stop g =
     (let s = py_min start stop;
          e = py_max start stop;
          start = py_max (g_start g) s;
          stop = py_min (g_end g) e
      in graphic_layout font (g_width g) (g_height g)
           (g\<lparr>g_r_start := start, g_r_end := stop, g_data := set_render_range start stop (g_data g),
              g_mid_scale := set_bounds start stop (g_mid_scale g)\<rparr>))"

definition get_range :: "graphic \<Rightarrow> num \<times> num" where
  "get_range g = (g_r_start g, g_r_end g)"

text \<open>The grey area beside the selection: a polygon with the same pen each time.\<close>

definition outlined :: "draw_op list" where
  "outlined = [black, Line_width (I 1), Stroke_preserve, grey, Fill]"

definition graphic_draw :: "font \<Rightarrow> graphic \<Rightarrow> (graphic \<times> draw_op list) res" where
  "graphic_draw font g =
     (let legend_height = lg_height (g_top_legend g);
          mid_height = sc_height (g_mid_scale g);
          data_x = data_x_start (g_data g);
          width = g_width g
      in bind_res (legend_draw font (g_top_legend g)) (\<lambda>legend_ops.
         bind_res (timelines_draw font (g_data g)) (\<lambda>(data, data_ops).
         bind_res (scale_draw font (g_mid_scale g)) (\<lambda>mid_ops.
         bind_res (get_position (g_bot_scale g) (g_r_start g)) (\<lambda>select_start.
         bind_res (get_position (g_bot_scale g) (g_r_end g)) (\<lambda>select_end.
         bind_res (scale_draw font (g_bot_scale g)) (\<lambda>bot_ops.
           let used = py_add (py_add legend_height (tv_height data)) mid_height;
               below = py_add used (I 20);
               unused_height = py_add (sc_height (g_bot_scale g)) (I 20)
           in Inr (g\<lparr>g_data := data\<rparr>,
                [Save, Source_rgb (I 1) (I 1) (I 1), Operator_source, Rectangle (I 0) (I 0) width (g_height g), Fill,
                 Save] @ legend_ops @ [Restore,
                 Move_to (I 0) legend_height, Line_to width legend_height, Close_path, Line_width (I 2), black, Stroke,
                 Save, Translate (I 0) legend_height] @ data_ops @ [Restore,
                 Save, Translate data_x used] @ mid_ops @ [Restore,
                 Move_to data_x used, Rel_line_to (I 0) (py_sub (I 0) mid_height), Close_path, black, Line_width (I 2), Stroke,
                 Move_to (I 0) used, Line_to width used, Close_path, Line_width (I 2), black, Stroke,
                 Move_to (I 0) used, Line_to data_x used, Line_to select_start below, Line_to (I 0) below,
                 Line_to (I 0) used] @ outlined @
                [Move_to width used, Line_to width below, Line_to select_end below, Line_to width used] @ outlined @
                [Rectangle (I 0) below select_start unused_height,
                 Rectangle select_end below (py_sub width select_end) unused_height, grey, Fill,
                 Move_to select_end below, Line_to width below, Line_to width (py_add below unused_height),
                 Line_to (I 0) (py_add below unused_height), Line_to (I 0) below, Line_to select_start below,
                 Close_path, Line_width (I 2), black, Stroke,
                 Move_to select_start below, Line_to select_end below, Close_path, Line_width (I 1), grey, Stroke,
                 Save, Move_to (py_max select_start (I 2)) below, Rel_line_to (I 0) unused_height,
                 Move_to (py_min select_end (py_sub width (I 2))) below, Rel_line_to (I 0) unused_height,
                 Dash (I 5), black, Line_width (I 1), Stroke, Restore,
                 Save, Translate (I 0) below] @ bot_ops @ [Restore]))))))))"

subsection \<open>The widget\<close>

text \<open>
  \<open>moving_left_cur\<close> and \<open>moving_right_cur\<close> do not exist before the first motion that sets them,
  the size not before the first allocation, and the buffer not before the first exposure.
\<close>

datatype cursor = Default_cursor | Double_arrow | Fleur

record viewer =
  vw_graphic :: graphic
  moving_left :: bool
  moving_right :: bool
  moving_both :: bool
  moving_top :: bool
  moving_left_cur :: "num option"
  moving_right_cur :: "num option"
  moving_both_start :: num
  moving_both_cur :: num
  moving_top_start :: num
  moving_top_cur :: num
  force_full_redraw :: bool
  vw_width :: "num option"
  vw_height :: "num option"
  vw_buffer :: "draw_op list option"
  vw_cursor :: cursor

definition new_viewer :: "graphic \<Rightarrow> viewer" where
  "new_viewer g =
     \<lparr>vw_graphic = g, moving_left = False, moving_right = False, moving_both = False, moving_top = False,
      moving_left_cur = None, moving_right_cur = None, moving_both_start = I 0, moving_both_cur = I 0,
      moving_top_start = I 0, moving_top_cur = I 0, force_full_redraw = True, vw_width = None, vw_height = None,
      vw_buffer = None, vw_cursor = Default_cursor\<rparr>"

definition attribute :: "'a option \<Rightarrow> 'a res" where
  "attribute x = (case x of None \<Rightarrow> Inl AttributeError | Some y \<Rightarrow> Inr y)"

definition change_range :: "font \<Rightarrow> num \<Rightarrow> num \<Rightarrow> viewer \<Rightarrow> viewer res" where
  "change_range font start stop v =
     map_value (\<lambda>g. v\<lparr>vw_graphic := g, force_full_redraw := True\<rparr>) (set_range font start stop (vw_graphic v))"

definition set_smaller_zoom :: "font \<Rightarrow> viewer \<Rightarrow> viewer res" where
  "set_smaller_zoom font v =
     (case get_range (vw_graphic v) of (start, stop) \<Rightarrow>
        change_range font start (py_add start (py_mul (py_sub stop start) (I 2))) v)"

definition set_bigger_zoom :: "font \<Rightarrow> viewer \<Rightarrow> viewer res" where
  "set_bigger_zoom font v =
     (case get_range (vw_graphic v) of (start, stop) \<Rightarrow>
        change_range font start (py_add start (py_half (py_sub stop start))) v)"

definition inside :: "num \<Rightarrow> num \<Rightarrow> num \<Rightarrow> bool" where
  "inside a lo width \<longleftrightarrow> val lo < val a \<and> val a < val lo + val width"

definition near :: "num \<Rightarrow> num \<Rightarrow> bool" where
  "near a b \<longleftrightarrow> \<bar>val a - val b\<bar> < 5"

definition button_press :: "num \<Rightarrow> num \<Rightarrow> viewer \<Rightarrow> (viewer \<times> bool) res" where
  "button_press ev_x ev_y v =
     map_value (\<lambda>(x, y, width, height).
       case data_rectangle (vw_graphic v) of (d_x, d_y, d_width, d_height) \<Rightarrow>
         if inside ev_y y height \<and> near ev_x x then (v\<lparr>moving_left := True\<rparr>, True)
         else if inside ev_y y height \<and> near ev_x (py_add x width) then (v\<lparr>moving_right := True\<rparr>, True)
         else if inside ev_y y height \<and> inside ev_x x width
         then (v\<lparr>moving_both := True, moving_both_start := ev_x, moving_both_cur := ev_x\<rparr>, True)
         else if inside ev_y d_y d_height \<and> inside ev_x d_x d_width
         then (v\<lparr>moving_top := True, moving_top_start := ev_x, moving_top_cur := ev_x\<rparr>, True)
         else (v, False))
       (selection_rectangle (vw_graphic v))"

definition button_release :: "font \<Rightarrow> viewer \<Rightarrow> (viewer \<times> bool) res" where
  "button_release font v =
     (let g = vw_graphic v
      in if moving_left v then
           bind_res (attribute (moving_left_cur v)) (\<lambda>cur. bind_res (scale_selection g cur) (\<lambda>left.
             map_value (\<lambda>v. (v, True)) (change_range font left (g_r_end g) (v\<lparr>moving_left := False\<rparr>))))
         else if moving_right v then
           bind_res (attribute (moving_right_cur v)) (\<lambda>cur. bind_res (scale_selection g cur) (\<lambda>right.
             map_value (\<lambda>v. (v, True)) (change_range font (g_r_start g) right (v\<lparr>moving_right := False\<rparr>))))
         else if moving_both v then
           bind_res (scale_selection g (py_sub (moving_both_cur v) (moving_both_start v))) (\<lambda>delta.
             map_value (\<lambda>v. (v, True))
               (change_range font (py_add (g_r_start g) delta) (py_add (g_r_end g) delta) (v\<lparr>moving_both := False\<rparr>)))
         else Inr (v\<lparr>moving_top := False\<rparr>, False))"

text \<open>
  \<open>motion_notify\<close>.  Past the right border the handler assigns the width to \<open>moving_right\<close>
  itself, which then counts as true unless the width is 0.
\<close>

definition clamp :: "num \<Rightarrow> num \<Rightarrow> num \<Rightarrow> num" where
  "clamp lo hi x = (if val x < val lo then lo else if val x > val hi then hi else x)"

definition motion_notify :: "font \<Rightarrow> num \<Rightarrow> num \<Rightarrow> viewer \<Rightarrow> (viewer \<times> bool) res" where
  "motion_notify font ev_x ev_y v =
     (let g = vw_graphic v
      in bind_res (selection_rectangle g) (\<lambda>(x, y, width, height).
           if moving_left v then
             map_value (\<lambda>own_width. (v\<lparr>moving_left_cur := Some
                 (if val ev_x \<le> 0 then I 0 else if val ev_x \<ge> val x + val width then py_add x width else ev_x)\<rparr>, True))
               (attribute (vw_width v))
           else if moving_right v then
             map_value (\<lambda>own_width.
                 (if val ev_x \<ge> val own_width then v\<lparr>moving_right := val own_width \<noteq> 0\<rparr>
                  else v\<lparr>moving_right_cur := Some (if val ev_x < val x then x else ev_x)\<rparr>, True))
               (attribute (vw_width v))
           else if moving_both v then
             map_value (\<lambda>own_width.
                 let cur_e = py_sub own_width (py_sub (py_add x width) (moving_both_start v));
                     cur_s = py_sub (moving_both_start v) x
                 in (v\<lparr>moving_both_cur := clamp cur_s cur_e ev_x\<rparr>, True))
               (attribute (vw_width v))
           else if moving_top v then
             bind_res (scale_data g (py_sub (moving_top_start v) ev_x)) (\<lambda>delta.
               map_value (\<lambda>v. (v\<lparr>moving_top_start := ev_x\<rparr>, True))
                 (change_range font (py_add (g_r_start g) delta) (py_add (g_r_end g) delta) (v\<lparr>moving_top_cur := ev_x\<rparr>)))
           else
             (case data_rectangle g of (d_x, d_y, d_width, d_height) \<Rightarrow>
                Inr (if inside ev_y y height \<and> (near ev_x x \<or> near ev_x (py_add x width))
                     then (v\<lparr>vw_cursor := Double_arrow\<rparr>, True)
                     else if inside ev_y y height \<and> inside ev_x x width then (v\<lparr>vw_cursor := Fleur\<rparr>, True)
                     else if inside ev_y d_y d_height \<and> inside ev_x d_x d_width then (v\<lparr>vw_cursor := Fleur\<rparr>, True)
                     else (v\<lparr>vw_cursor := Default_cursor\<rparr>, False)))))"

definition size_allocate :: "font \<Rightarrow> num \<Rightarrow> num \<Rightarrow> viewer \<Rightarrow> viewer res" where
  "size_allocate font width height v =
     map_value (\<lambda>g. v\<lparr>vw_width := Some width, vw_height := Some height, vw_graphic := g, force_full_redraw := True\<rparr>)
       (graphic_layout font width height (vw_graphic v))"

text \<open>
  \<open>expose\<close>: the buffer is drawn again if needed; the result has what goes on the window after
  the buffer, namely the borders that are being moved.
\<close>

definition border :: "num \<Rightarrow> num \<Rightarrow> num \<Rightarrow> draw_op list" where
  "border x y height = [Move_to x y, Rel_line_to (I 0) height, Close_path]"

definition pen :: "draw_op list" where
  "pen = [Line_width (I 1), black, Stroke]"

definition expose :: "font \<Rightarrow> viewer \<Rightarrow> (viewer \<times> draw_op list) res" where
  "expose font v =
     bind_res
       (if force_full_redraw v
        then map_value (\<lambda>(g, ops). v\<lparr>vw_graphic := g, vw_buffer := Some ops, force_full_redraw := False\<rparr>)
               (graphic_draw font (vw_graphic v))
        else Inr v) (\<lambda>v.
     bind_res (selection_rectangle (vw_graphic v)) (\<lambda>(x, y, width, height).
     bind_res (if moving_left v
               then map_value (\<lambda>cur. border (py_max cur (I 2)) y height @ pen) (attribute (moving_left_cur v))
               else Inr []) (\<lambda>left_ops.
     bind_res (if moving_right v
               then bind_res (attribute (moving_right_cur v)) (\<lambda>cur.
                    map_value (\<lambda>own_width. border (py_min cur (py_sub own_width (I 2))) y height @ pen) (attribute (vw_width v)))
               else Inr []) (\<lambda>right_ops.
       let delta_x = py_sub (moving_both_cur v) (moving_both_start v);
           both_ops = (if moving_both v
                       then border (py_add x delta_x) y height @ border (py_add (py_add x width) delta_x) y height @ pen
                       else [])
       in Inr (v, left_ops @ right_ops @ both_ops)))))"

text \<open>
  \<open>output_png\<close> makes a new surface, draws on the buffer, and writes the new surface to a file:
  the second component is what is on it.
\<close>

definition output_png :: "font \<Rightarrow> viewer \<Rightarrow> (viewer \<times> draw_op list) res" where
  "output_png font v =
     bind_res (attribute (vw_buffer v)) (\<lambda>buffer.
       map_value (\<lambda>(g, ops). (v\<lparr>vw_graphic := g, vw_buffer := Some (buffer @ ops)\<rparr>, []))
         (graphic_draw font (vw_graphic v)))"

subsection \<open>Events and the program\<close>

datatype gtk_event =
    Press num num
  | Release
  | Motion num num
  | Allocate num num
  | Expose
  | Zoom_out
  | Zoom_in
  | Write_png

definition handle :: "font \<Rightarrow> viewer \<Rightarrow> gtk_event \<Rightarrow> viewer res" where
  "handle font v event =
     (case event of
        Press x y \<Rightarrow> map_value fst (button_press x y v)
      | Release \<Rightarrow> map_value fst (button_release font v)
      | Motion x y \<Rightarrow> map_value fst (motion_notify font x y v)
      | Allocate width height \<Rightarrow> size_allocate font width height v
      | Expose \<Rightarrow> map_value fst (expose font v)
      | Zoom_out \<Rightarrow> set_smaller_zoom font v
      | Zoom_in \<Rightarrow> set_bigger_zoom font v
      | Write_png \<Rightarrow> map_value fst (output_png font v))"

text \<open>\<open>main\<close> up to the loop of gtk, and the events that follow.\<close>

definition grid_start ::
  "font \<Rightarrow> file_system \<Rightarrow> (string list \<Rightarrow> string list) \<Rightarrow> string \<Rightarrow> viewer res" where
  "grid_start font fs ord filename =
     bind_res (read_data fs filename) (\<lambda>(cs, ts).
       case timelines_bounds ts of (lower_bound, upper_bound) \<Rightarrow>
       let range_values = all_range_values ord ts
       in bind_res (legend_colors range_values cs) (\<lambda>(cs, range_colors).
            let graphic = new_graphic (I lower_bound) (I upper_bound) (set_timelines ts cs new_timelines_view)
                  (set_legends range_values range_colors new_legend);
                range_mid = (upper_bound - lower_bound) div 2;
                range_width = (upper_bound - lower_bound) div 10
            in map_value new_viewer
                 (set_range font (I (range_mid - range_width div 2)) (I (range_mid + range_width div 2)) graphic)))"

definition grid_main ::
  "font \<Rightarrow> file_system \<Rightarrow> (string list \<Rightarrow> string list) \<Rightarrow> string \<Rightarrow> gtk_event list \<Rightarrow> viewer res" where
  "grid_main font fs ord filename events =
     bind_res (grid_start font fs ord filename) (\<lambda>v. fold_res (handle font) v events)"

subsection \<open>The range in view\<close>

lemma graphic_layout_keeps:
  assumes "graphic_layout font width height g = Inr g'"
  shows "g_start g' = g_start g" "g_end g' = g_end g" "g_r_start g' = g_r_start g" "g_r_end g' = g_r_end g"
    "tv_start (g_data g') = tv_start (g_data g)" "tv_end (g_data g') = tv_end (g_data g)"
    "sc_lo (g_mid_scale g') = sc_lo (g_mid_scale g)" "sc_hi (g_mid_scale g') = sc_hi (g_mid_scale g)"
    "sc_lo (g_bot_scale g') = sc_lo (g_bot_scale g)" "sc_hi (g_bot_scale g') = sc_hi (g_bot_scale g)"
    "g_width g' = width" "g_height g' = height"
  using assms
  by (auto simp: graphic_layout_def Let_def scale_layout_def bind_res_eq_Inr map_value_eq_Inr timelines_layout_def)

lemma map_value_raises: "map_value f m = Inl e \<longleftrightarrow> m = Inl e"
  by (cases m) simp_all

lemma scale_layout_returns: "(\<exists>s'. scale_layout font w s = Inr s') \<longleftrightarrow> val (sc_hi s) - val (sc_lo s) \<noteq> 1"
proof (cases "scale_layout font w s")
  case (Inl e)
  then show ?thesis using scale_layout_raises[of font w s e] by simp
next
  case (Inr s')
  then show ?thesis using scale_layout_raises[of font w s ZeroDivisionError] by simp
qed

lemma graphic_layout_raises:
  "graphic_layout font width height g = Inl e \<longleftrightarrow> e = ZeroDivisionError \<and>
    (val (sc_hi (g_mid_scale g)) - val (sc_lo (g_mid_scale g)) = 1 \<or>
     val (sc_hi (g_bot_scale g)) - val (sc_lo (g_bot_scale g)) = 1)"
proof -
  let ?w = "py_sub width (data_x_start (timelines_layout font width (g_data g)))"
  show ?thesis
    using scale_layout_returns[of font ?w "g_mid_scale g"]
    by (auto simp: graphic_layout_def Let_def bind_res_eq_Inl map_value_raises scale_layout_raises)
qed

text \<open>The requested borders in either order, cut off at the ends of the data.\<close>

lemma set_range_result:
  assumes "set_range font a b g = Inr g'"
  shows "g_r_start g' = py_max (g_start g) (py_min a b)" "g_r_end g' = py_min (g_end g) (py_max a b)"
    "g_start g' = g_start g" "g_end g' = g_end g" "tv_start (g_data g') = g_r_start g'" "tv_end (g_data g') = g_r_end g'"
    "sc_lo (g_mid_scale g') = g_r_start g'" "sc_hi (g_mid_scale g') = g_r_end g'"
    "sc_lo (g_bot_scale g') = sc_lo (g_bot_scale g)" "sc_hi (g_bot_scale g') = sc_hi (g_bot_scale g)"
    "g_width g' = g_width g" "g_height g' = g_height g"
  using graphic_layout_keeps[OF assms[unfolded set_range_def Let_def]]
  by (simp_all add: set_render_range_def set_bounds_def)

lemma set_range_raises:
  "set_range font a b g = Inl e \<longleftrightarrow> e = ZeroDivisionError \<and>
    (min (val (g_end g)) (max (val a) (val b)) - max (val (g_start g)) (min (val a) (val b)) = 1 \<or>
     val (sc_hi (g_bot_scale g)) - val (sc_lo (g_bot_scale g)) = 1)"
  by (simp add: set_range_def Let_def graphic_layout_raises set_bounds_def)

text \<open>
  What holds between two events: the range in view is some interval cut off at the bounds of the
  data, the renderers know it, and the bottom scale covers the data.  If the interval lies
  outside the data, the start comes out past the end.
\<close>

definition cut_off :: "rat \<Rightarrow> rat \<Rightarrow> rat \<Rightarrow> rat \<Rightarrow> bool" where
  "cut_off lo hi start stop \<longleftrightarrow> (\<exists>a b. a \<le> b \<and> start = max lo a \<and> stop = min hi b)"

definition consistent :: "rat \<Rightarrow> rat \<Rightarrow> graphic \<Rightarrow> bool" where
  "consistent lo hi g \<longleftrightarrow>
     g_start g = F lo \<and> g_end g = F hi \<and> cut_off lo hi (val (g_r_start g)) (val (g_r_end g)) \<and>
     tv_start (g_data g) = g_r_start g \<and> tv_end (g_data g) = g_r_end g \<and>
     sc_lo (g_mid_scale g) = g_r_start g \<and> sc_hi (g_mid_scale g) = g_r_end g \<and>
     val (sc_lo (g_bot_scale g)) = lo \<and> val (sc_hi (g_bot_scale g)) = hi"

lemma cut_off_bounds: "cut_off lo hi start stop \<Longrightarrow> lo \<le> start \<and> stop \<le> hi"
  by (auto simp: cut_off_def)

lemma cut_off_sorted [simp]: "cut_off lo hi (max lo (min a b)) (min hi (max a b))"
  unfolding cut_off_def by (rule exI[of _ "min a b"], rule exI[of _ "max a b"]) simp

lemma consistent_set_range:
  "consistent lo hi g \<Longrightarrow> set_range font a b g = Inr g' \<Longrightarrow> consistent lo hi g'"
  using set_range_result[of font a b g g'] by (simp add: consistent_def)

lemma consistent_layout:
  "consistent lo hi g \<Longrightarrow> graphic_layout font width height g = Inr g' \<Longrightarrow> consistent lo hi g'"
  using graphic_layout_keeps[of font width height g g'] by (simp add: consistent_def)

text \<open>Drawing the timelines only changes the colours and the background.\<close>

definition shows_range :: "num \<Rightarrow> num \<Rightarrow> timelines_view \<Rightarrow> bool" where
  "shows_range a b v \<longleftrightarrow> tv_start v = a \<and> tv_end v = b"

lemma fold_res_keeps:
  assumes "\<And>s x s'. P s \<Longrightarrow> f s x = Inr s' \<Longrightarrow> P s'"
  shows "P s \<Longrightarrow> fold_res f s xs = Inr s' \<Longrightarrow> P s'"
proof (induction xs arbitrary: s)
  case (Cons x xs)
  then show ?case using assms[of s x] by (auto simp: bind_res_eq_Inr)
qed simp

lemma rows_keep:
  assumes "\<And>x v y v' ops. shows_range a b v \<Longrightarrow> draw x v y = Inr (v', ops) \<Longrightarrow> shows_range a b v'"
    and "shows_range a b (rw_view st)"
    and "fold_res (\<lambda>st x. row font left advance (draw x) (name x) st) st xs = Inr st'"
  shows "shows_range a b (rw_view st')"
proof (rule fold_res_keeps[where P = "\<lambda>s. shows_range a b (rw_view s)", OF _ assms(2,3)])
  fix s x s' assume s: "shows_range a b (rw_view s)" and step: "row font left advance (draw x) (name x) s = Inr s'"
  from step obtain v ops where "draw x (rw_view s) (rw_y s) = Inr (v, ops)" "rw_view s' = v"
    by (auto simp: row_def map_value_eq_Inr Let_def)
  then show "shows_range a b (rw_view s')" using assms(1)[OF s] by blast
qed

lemma draw_keeps:
  "shows_range a b v \<Longrightarrow> draw_events v show_value t x y width height = Inr (v', ops) \<Longrightarrow> shows_range a b v'"
  "shows_range a b v \<Longrightarrow> draw_ranges v r x y width height = Inr (v', ops) \<Longrightarrow> shows_range a b v'"
  by (auto simp: draw_events_def draw_ranges_def bind_res_eq_Inr map_value_eq_Inr shows_range_def)

lemma draw_timeline_keeps:
  assumes "shows_range a b (rw_view st)" "draw_timeline font left right data_x width st t = Inr st'"
  shows "shows_range a b (rw_view st')"
proof -
  let ?v = "rw_view st"
  let ?h = "py_add (tv_max_text_height ?v) (I 5)"
  let ?st = "st\<lparr>rw_ops := rw_ops st @ row_label font ?v left (rw_y st) (tl_name t)\<rparr>"
  from assms(2) obtain s1 s2 s3 where
    1: "fold_res (\<lambda>st e. row font right (py_add ?h (tv_padding ?v)) (\<lambda>v y. draw_events v show_int e data_x y width ?h) (te_name e) st) ?st (tl_event_int t) = Inr s1" and
    2: "fold_res (\<lambda>st e. row font right (py_add ?h (tv_padding ?v)) (\<lambda>v y. draw_events v (\<lambda>s. s) e data_x y width ?h) (te_name e) st) s1 (tl_event_str t) = Inr s2" and
    3: "fold_res (\<lambda>st r. row font right (py_add (tv_max_text_height ?v) (tv_padding ?v)) (\<lambda>v y. draw_ranges v r data_x y width (I 10)) (tr_name r) st) s2 (tl_ranges t) = Inr s3"
    and st': "rw_view st' = rw_view s3"
    by (auto simp: draw_timeline_def Let_def bind_res_eq_Inr map_value_eq_Inr)
  have 0: "shows_range a b (rw_view ?st)" using assms(1) by simp
  have "shows_range a b (rw_view s1)" by (rule rows_keep[OF _ 0 1]) (rule draw_keeps(1))
  then have "shows_range a b (rw_view s2)" by (rule rows_keep[OF _ _ 2, rotated]) (rule draw_keeps(1))
  then show ?thesis unfolding st' by (rule rows_keep[OF _ _ 3, rotated]) (rule draw_keeps(2))
qed

lemma timelines_draw_keeps:
  assumes "shows_range a b v" "timelines_draw font v = Inr (v', ops)"
  shows "shows_range a b v'"
proof -
  from assms(2) obtain l r x w st st' where
    "fold_res (draw_timeline font l r x w) st (tv_timelines v) = Inr st'" "rw_view st = v\<lparr>tv_grey_background := 1\<rparr>" "v' = rw_view st'"
    unfolding timelines_draw_def Let_def map_value_eq_Inr by (elim exE conjE) (rule that, auto)
  moreover have "shows_range a b (v\<lparr>tv_grey_background := 1\<rparr>)" using assms(1) by (simp add: shows_range_def)
  ultimately show ?thesis
    using fold_res_keeps[where P = "\<lambda>s. shows_range a b (rw_view s)" and f = "draw_timeline font l r x w"] draw_timeline_keeps
    by metis
qed

lemma consistent_draw:
  assumes "consistent lo hi g" "graphic_draw font g = Inr (g', ops)"
  shows "consistent lo hi g'"
proof -
  from assms(2) obtain data data_ops where "timelines_draw font (g_data g) = Inr (data, data_ops)" "g' = g\<lparr>g_data := data\<rparr>"
    by (auto simp: graphic_draw_def Let_def bind_res_eq_Inr)
  moreover from timelines_draw_keeps[OF _ this(1), of "g_r_start g" "g_r_end g"]
  have "shows_range (g_r_start g) (g_r_end g) data" using assms(1) by (simp add: shows_range_def consistent_def)
  ultimately show ?thesis using assms(1) by (simp add: consistent_def shows_range_def)
qed

subsection \<open>Every event keeps the range inside the data\<close>

lemma consistent_change:
  "consistent lo hi (vw_graphic v) \<Longrightarrow> change_range font a b v = Inr v' \<Longrightarrow> consistent lo hi (vw_graphic v')"
  by (auto simp: change_range_def map_value_eq_Inr dest: consistent_set_range)

lemma consistent_changed:
  assumes "map_value (\<lambda>v. (w v, r)) (change_range font a b v) = Inr (v', r')" "consistent lo hi (vw_graphic v)"
    "\<And>v. vw_graphic (w v) = vw_graphic v"
  shows "consistent lo hi (vw_graphic v')"
proof -
  from assms(1) obtain u where "change_range font a b v = Inr u" "v' = w u" by (auto simp: map_value_eq_Inr)
  then show ?thesis using consistent_change[OF assms(2)] assms(3) by simp
qed

lemma consistent_button_release:
  assumes "consistent lo hi (vw_graphic v)" "button_release font v = Inr (v', r)"
  shows "consistent lo hi (vw_graphic v')"
proof -
  let ?change = "\<lambda>a b u. map_value (\<lambda>v. (v, True)) (change_range font a b u)"
  consider (same) "vw_graphic v' = vw_graphic v"
    | (left) a b where "?change a b (v\<lparr>moving_left := False\<rparr>) = Inr (v', r)"
    | (right) a b where "?change a b (v\<lparr>moving_right := False\<rparr>) = Inr (v', r)"
    | (both) a b where "?change a b (v\<lparr>moving_both := False\<rparr>) = Inr (v', r)"
    using assms(2) unfolding button_release_def Let_def bind_res_eq_Inr
    by (simp only: bind_res_eq_Inr prod.case split: if_splits) (blast | auto)+
  then show ?thesis
    using assms(1) by cases (auto intro: consistent_changed[where w = "\<lambda>v. v"])
qed

lemma motion_notify_graphic:
  assumes "motion_notify font x y v = Inr (v', r)"
  shows "vw_graphic v' = vw_graphic v \<or> (\<exists>a b u w. map_value (\<lambda>v. (w v, True)) (change_range font a b u) = Inr (v', r) \<and>
    vw_graphic u = vw_graphic v \<and> (\<forall>v. vw_graphic (w v) = vw_graphic v))"
proof -
  from assms obtain rx ry width height where s: "selection_rectangle (vw_graphic v) = Inr (rx, ry, width, height)"
    by (auto simp: motion_notify_def bind_res_eq_Inr Let_def)
  show ?thesis
  proof (cases "moving_left v \<or> moving_right v \<or> moving_both v")
    case True
    then have "vw_graphic v' = vw_graphic v" using assms s
      by (cases "moving_left v"; cases "moving_right v")
        (auto simp: motion_notify_def Let_def map_value_eq_Inr split: if_splits)
    then show ?thesis ..
  next
    case other: False
    show ?thesis
    proof (cases "moving_top v")
      case True
      from assms other True s obtain delta where
        "map_value (\<lambda>v. (v\<lparr>moving_top_start := x\<rparr>, True))
          (change_range font (py_add (g_r_start (vw_graphic v)) delta) (py_add (g_r_end (vw_graphic v)) delta)
            (v\<lparr>moving_top_cur := x\<rparr>)) = Inr (v', r)"
        by (auto simp: motion_notify_def Let_def bind_res_eq_Inr)
      then show ?thesis
        by (intro disjI2 exI[of _ "py_add (g_r_start (vw_graphic v)) delta"] exI[of _ "py_add (g_r_end (vw_graphic v)) delta"]
            exI[of _ "v\<lparr>moving_top_cur := x\<rparr>"] exI[of _ "\<lambda>v. v\<lparr>moving_top_start := x\<rparr>"]) simp
    next
      case False
      obtain dx dy dw dh where d: "data_rectangle (vw_graphic v) = (dx, dy, dw, dh)" by (rule prod_cases4)
      have "v' \<in> {v, v\<lparr>vw_cursor := Double_arrow\<rparr>, v\<lparr>vw_cursor := Fleur\<rparr>, v\<lparr>vw_cursor := Default_cursor\<rparr>}"
        using assms other False unfolding motion_notify_def Let_def s bind_res_simps prod.case d
        by (simp split: if_splits)
      then have "vw_graphic v' = vw_graphic v" by auto
      then show ?thesis ..
    qed
  qed
qed

lemma consistent_motion:
  assumes "consistent lo hi (vw_graphic v)" "motion_notify font x y v = Inr (v', r)"
  shows "consistent lo hi (vw_graphic v')"
  using motion_notify_graphic[OF assms(2)]
proof (elim disjE exE conjE)
  fix a b u w
  assume "map_value (\<lambda>v. (w v, True)) (change_range font a b u) = Inr (v', r)" "vw_graphic u = vw_graphic v"
    "\<forall>v. vw_graphic (w v) = vw_graphic v"
  then show ?thesis using assms(1) consistent_changed[of w True font a b u v' r lo hi] by simp
qed (use assms(1) in simp)

lemma consistent_press:
  "button_press x y v = Inr (v', r) \<Longrightarrow> vw_graphic v' = vw_graphic v"
  by (cases "data_rectangle (vw_graphic v)") (auto simp: button_press_def map_value_eq_Inr split: if_splits)

lemma consistent_expose:
  "consistent lo hi (vw_graphic v) \<Longrightarrow> expose font v = Inr (v', r) \<Longrightarrow> consistent lo hi (vw_graphic v')"
  by (auto simp: expose_def Let_def bind_res_eq_Inr map_value_eq_Inr split: if_splits dest: consistent_draw)

lemma consistent_handle:
  assumes "consistent lo hi (vw_graphic v)" "handle font v event = Inr v'"
  shows "consistent lo hi (vw_graphic v')"
proof (cases event)
  case (Press x y)
  then show ?thesis using assms by (auto simp: handle_def map_value_eq_Inr dest: consistent_press)
next
  case Release
  then show ?thesis using assms by (auto simp: handle_def map_value_eq_Inr dest: consistent_button_release)
next
  case (Motion x y)
  then show ?thesis using assms by (auto simp: handle_def map_value_eq_Inr dest: consistent_motion)
next
  case (Allocate w h)
  then show ?thesis using assms by (auto simp: handle_def size_allocate_def map_value_eq_Inr dest: consistent_layout)
next
  case Expose
  then show ?thesis using assms by (auto simp: handle_def map_value_eq_Inr dest: consistent_expose)
next
  case Zoom_out
  then show ?thesis using assms by (auto simp: handle_def set_smaller_zoom_def get_range_def intro: consistent_change)
next
  case Zoom_in
  then show ?thesis using assms by (auto simp: handle_def set_bigger_zoom_def get_range_def intro: consistent_change)
next
  case Write_png
  then show ?thesis using assms
    by (auto simp: handle_def output_png_def map_value_eq_Inr bind_res_eq_Inr dest: consistent_draw)
qed

interpretation events: res_loop "handle font" "\<lambda>v. consistent lo hi (vw_graphic v)" "\<lambda>e. True" for font lo hi
  by unfold_locales (auto split: sum.splits intro: consistent_handle)

text \<open>The range at the start, and what can go wrong before.\<close>

lemma distinct_values:
  assumes "permuting ord"
  shows "distinct (all_range_values ord ts)"
proof -
  have "distinct (dict_keys (foldl (\<lambda>d v. dict_put v (1::int) d) d vs))" if "distinct (dict_keys d)" for d vs
    using that by (induction vs arbitrary: d) (simp_all add: distinct_dict_put)
  from this[of "[]"] show ?thesis
    using assms unfolding all_range_values_def permuting_def by (metis dict_keys_def distinct.simps(1) list.simps(8) mset_eq_imp_distinct_iff)
qed

lemma new_graphic_consistent:
  assumes "set_range font a b (new_graphic (I lo) (I hi) data legend) = Inr g" 
  shows "consistent (of_int lo) (of_int hi) g"
  using set_range_result[OF assms] by (simp add: consistent_def new_graphic_def set_bounds_def)

lemma grid_start_cases:
  assumes "read_data fs filename = Inr (cs, ts)" "permuting ord" "snd (timelines_bounds ts) = hi"
  defines "values \<equiv> all_range_values ord ts" and "half \<equiv> hi div 10 div 2"
  shows "case grid_start font fs ord filename of
      Inl e \<Rightarrow> e = IndexError \<and> length (default_colors cs) < length (uncolored cs values) \<or> e = ZeroDivisionError \<and> hi = 1
    | Inr v \<Rightarrow> length (uncolored cs values) \<le> length (default_colors cs) \<and> hi \<noteq> 1 \<and>
        consistent 0 (of_int hi) (vw_graphic v) \<and>
        val (g_r_start (vw_graphic v)) = of_int (hi div 2 - half) \<and> val (g_r_end (vw_graphic v)) = of_int (hi div 2 + half) \<and>
        moving_left_cur v = None \<and> moving_right_cur v = None"
proof -
  have b: "timelines_bounds ts = (0, hi)" using read_bounds[OF assms(1)] assms(3) by (metis prod.collapse)
  have pos: "0 \<le> hi"
    using widen_fold_le(3)[of "(0, 0)" "map timeline_bounds ts"] assms(3) by (simp add: timelines_bounds_def)
  have d: "distinct values" unfolding values_def by (rule distinct_values[OF assms(2)])
  show ?thesis
  proof (cases "length (uncolored cs values) \<le> length (default_colors cs)")
    case False
    then have "legend_colors values cs = Inl IndexError" using legend_colors_result[OF d, of cs] by simp
    then show ?thesis using False assms(1) b by (simp add: grid_start_def values_def Let_def)
  next
    case True
    then obtain cs' ps where l: "legend_colors values cs = Inr (cs', ps)" using legend_colors_result[OF d, of cs] by auto
    let ?g = "new_graphic (I 0) (I hi) (set_timelines ts cs' new_timelines_view) (set_legends values ps new_legend)"
    have start: "grid_start font fs ord filename = map_value new_viewer (set_range font (I (hi div 2 - half)) (I (hi div 2 + half)) ?g)"
      using assms(1) b l by (simp add: grid_start_def values_def half_def Let_def)
    have half: "0 \<le> half" "half \<le> hi div 2" using pos by (auto simp: half_def)
    have window: "max 0 (of_int (hi div 2 - half) :: rat) = of_int (hi div 2 - half)" "min (of_int hi) (of_int (hi div 2 + half) :: rat) = of_int (hi div 2 + half)"
      "of_int (hi div 2 - half) \<le> (of_int (hi div 2 + half) :: rat)"
      unfolding of_int_le_iff using half pos by (auto simp: max_def min_def)
    have g: "val (g_start ?g) = 0" "val (g_end ?g) = of_int hi" "val (sc_lo (g_bot_scale ?g)) = 0" "val (sc_hi (g_bot_scale ?g)) = of_int hi"
      by (simp_all add: new_graphic_def set_bounds_def)
    show ?thesis
    proof (cases "set_range font (I (hi div 2 - half)) (I (hi div 2 + half)) ?g")
      case (Inl e)
      have "of_int (hi div 2 + half) - of_int (hi div 2 - half) \<noteq> (1 :: rat)"
        unfolding of_int_diff[symmetric] of_int_eq_1_iff by presburger
      then show ?thesis using Inl set_range_raises[of font _ _ ?g e] window g start by (auto simp: min_absorb1 max_absorb2)
    next
      case (Inr g')
      have "hi \<noteq> 1" using Inr set_range_raises[of font _ _ ?g ZeroDivisionError] g by auto
      then show ?thesis using Inr start True new_graphic_consistent[OF Inr] set_range_result(1,2)[OF Inr] window g
        by (simp add: new_viewer_def min_absorb1 max_absorb2)
    qed
  qed
qed

subsection \<open>The program\<close>

text \<open>Without a press of the button nothing is dragged, and the range stays one within the data.\<close>

definition no_press :: "gtk_event \<Rightarrow> bool" where
  "no_press e = (case e of Press x y \<Rightarrow> False | _ \<Rightarrow> True)"

definition undisturbed :: "rat \<Rightarrow> rat \<Rightarrow> viewer \<Rightarrow> bool" where
  "undisturbed lo hi v \<longleftrightarrow>
     consistent lo hi (vw_graphic v) \<and> val (g_r_start (vw_graphic v)) \<le> val (g_r_end (vw_graphic v)) \<and>
     \<not> moving_left v \<and> \<not> moving_right v \<and> \<not> moving_both v \<and> \<not> moving_top v"

lemma same_range:
  "graphic_layout font w h g = Inr g' \<Longrightarrow> g_r_start g' = g_r_start g \<and> g_r_end g' = g_r_end g"
  "graphic_draw font g = Inr (g', ops) \<Longrightarrow> g_r_start g' = g_r_start g \<and> g_r_end g' = g_r_end g"
  using graphic_layout_keeps[of font w h g g'] by (auto simp: graphic_draw_def Let_def bind_res_eq_Inr)

lemma undisturbed_zoom:
  assumes "undisturbed lo hi v" "change_range font (g_r_start (vw_graphic v)) stop v = Inr v'"
    "val (g_r_start (vw_graphic v)) \<le> val stop"
  shows "undisturbed lo hi v'"
proof -
  let ?g = "vw_graphic v"
  from assms(2) obtain g where g: "set_range font (g_r_start ?g) stop ?g = Inr g"
    "v' = v\<lparr>vw_graphic := g, force_full_redraw := True\<rparr>"
    by (auto simp: change_range_def map_value_eq_Inr)
  have c: "consistent lo hi ?g" "val (g_r_start ?g) \<le> val (g_r_end ?g)" using assms(1) by (simp_all add: undisturbed_def)
  then have "lo \<le> val (g_r_start ?g)" "val (g_r_start ?g) \<le> hi" "val (g_start ?g) = lo" "val (g_end ?g) = hi"
    using cut_off_bounds[of lo hi "val (g_r_start ?g)" "val (g_r_end ?g)"] by (auto simp: consistent_def)
  then have "val (g_r_start g) \<le> val (g_r_end g)"
    using set_range_result(1,2)[OF g(1)] assms(3) by (simp add: min_def max_def)
  then show ?thesis using consistent_set_range[OF c(1) g(1)] assms(1) g(2) by (simp add: undisturbed_def)
qed

lemma val_add_part:
  "val a \<le> val b \<Longrightarrow> val a \<le> val (py_add a (py_mul (py_sub b a) (I 2)))"
  "val a \<le> val b \<Longrightarrow> val a \<le> val (py_add a (py_half (py_sub b a)))"
  by (cases a; cases b; simp add: py_add_def py_mul_def py_sub_def py_half_def)+

lemma undisturbed_handle:
  assumes "undisturbed lo hi v" "no_press e" "handle font v e = Inr v'"
  shows "undisturbed lo hi v'"
proof -
  have c: "consistent lo hi (vw_graphic v')"
    using assms(1,3) consistent_handle[of lo hi v font e v'] by (simp add: undisturbed_def)
  show ?thesis
  proof (cases e)
    case (Motion x y)
    obtain dx dy dw dh where d: "data_rectangle (vw_graphic v) = (dx, dy, dw, dh)" by (rule prod_cases4)
    then have "\<exists>c. v' = v\<lparr>vw_cursor := c\<rparr>" using assms(1,3) Motion
      by (auto simp: handle_def motion_notify_def undisturbed_def Let_def bind_res_eq_Inr map_value_eq_Inr split: if_splits)
    then show ?thesis using assms(1) by (auto simp: undisturbed_def)
  next
    case Zoom_out
    then show ?thesis using assms(1,3) val_add_part(1) undisturbed_zoom[OF assms(1)]
      by (simp add: handle_def set_smaller_zoom_def get_range_def undisturbed_def)
  next
    case Zoom_in
    then show ?thesis using assms(1,3) val_add_part(2) undisturbed_zoom[OF assms(1)]
      by (simp add: handle_def set_bigger_zoom_def get_range_def undisturbed_def)
  next
    case (Allocate w h)
    then show ?thesis using assms c
      by (auto simp: handle_def size_allocate_def map_value_eq_Inr undisturbed_def dest: same_range)
  next
    case Expose
    then show ?thesis using assms c
      by (auto simp: handle_def expose_def Let_def bind_res_eq_Inr map_value_eq_Inr undisturbed_def split: if_splits dest: same_range)
  next
    case Write_png
    then show ?thesis using assms c
      by (auto simp: handle_def output_png_def map_value_eq_Inr bind_res_eq_Inr undisturbed_def dest: same_range)
  qed (use assms c in \<open>auto simp: handle_def no_press_def button_release_def undisturbed_def\<close>)
qed

lemma undisturbed_run:
  "undisturbed lo hi v \<Longrightarrow> list_all no_press events \<Longrightarrow> fold_res (handle font) v events = Inr v' \<Longrightarrow> undisturbed lo hi v'"
proof (induction events arbitrary: v)
  case (Cons e es)
  then show ?case using undisturbed_handle[of lo hi v e font] by (auto simp: bind_res_eq_Inr)
qed simp

lemma grid_start_still:
  "grid_start font fs ord filename = Inr v \<Longrightarrow> \<not> moving_left v \<and> \<not> moving_right v \<and> \<not> moving_both v \<and> \<not> moving_top v"
  by (auto simp: grid_start_def Let_def bind_res_eq_Inr map_value_eq_Inr new_viewer_def case_prod_unfold)

text \<open>
  C13: Whatever sequence of mouse, zoom, resize and redraw events is handled without an
  exception, the range of time in view is a range cut off at 0 and at the end of the data, so it
  starts at 0 or later, ends with the data or before, and is turned round only if it was wholly
  outside the data; without a press of a button it is within the data. The renderers agree on
  it.
\<close>

theorem range_in_view:
  assumes "grid_main font fs ord filename events = Inr v" "read_data fs filename = Inr (cs, ts)" "permuting ord"
  defines "hi \<equiv> of_int (snd (timelines_bounds ts))" and "start \<equiv> val (g_r_start (vw_graphic v))"
    and "stop \<equiv> val (g_r_end (vw_graphic v))"
  shows "(\<exists>a b. a \<le> b \<and> start = max 0 a \<and> stop = min hi b) \<and>
    (list_all no_press events \<longrightarrow> 0 \<le> start \<and> start \<le> stop \<and> stop \<le> hi) \<and>
    consistent 0 hi (vw_graphic v)"
proof -
  from assms(1) obtain v0 where v0: "grid_start font fs ord filename = Inr v0" and run: "fold_res (handle font) v0 events = Inr v"
    by (auto simp: grid_main_def bind_res_eq_Inr)
  let ?half = "snd (timelines_bounds ts) div 10 div 2"
  have c: "consistent 0 hi (vw_graphic v0)"
    "val (g_r_start (vw_graphic v0)) = of_int (snd (timelines_bounds ts) div 2 - ?half)"
    "val (g_r_end (vw_graphic v0)) = of_int (snd (timelines_bounds ts) div 2 + ?half)"
    using grid_start_cases[OF assms(2,3) refl, of font] v0 by (simp_all add: hi_def)
  have "0 \<le> snd (timelines_bounds ts)"
    using widen_fold_le(3)[of "(0, 0)" "map timeline_bounds ts"] by (simp add: timelines_bounds_def)
  then have "undisturbed 0 hi v0"
    using c grid_start_still[OF v0] by (simp add: undisturbed_def)
  then have still: "undisturbed 0 hi v" if "list_all no_press events" using undisturbed_run[OF _ that run] by simp
  have cons: "consistent 0 hi (vw_graphic v)" by (rule events.run_inv[OF c(1) run])
  then have cut: "cut_off 0 hi start stop" by (simp add: consistent_def start_def stop_def)
  have "0 \<le> start \<and> start \<le> stop \<and> stop \<le> hi" if "list_all no_press events"
    using still[OF that] cut_off_bounds[OF cut] by (simp add: undisturbed_def start_def stop_def)
  with cons cut show ?thesis unfolding cut_off_def by blast
qed

text \<open>Which range is shown first, and when the program ends with an exception before.\<close>

theorem grid_start_result:
  assumes "read_data fs filename = Inr (cs, ts)" "permuting ord"
  defines "hi \<equiv> snd (timelines_bounds ts)" and "values \<equiv> all_range_values ord ts"
  shows "(grid_start font fs ord filename = Inl IndexError \<longleftrightarrow> length (default_colors cs) < length (uncolored cs values)) \<and>
    (grid_start font fs ord filename = Inl ZeroDivisionError \<longleftrightarrow>
      length (uncolored cs values) \<le> length (default_colors cs) \<and> hi = 1) \<and>
    (\<forall>v. grid_start font fs ord filename = Inr v \<longrightarrow>
      val (g_r_start (vw_graphic v)) = of_int (hi div 2 - hi div 10 div 2) \<and>
      val (g_r_end (vw_graphic v)) = of_int (hi div 2 + hi div 10 div 2))"
proof (intro conjI allI impI)
  note c = grid_start_cases[OF assms(1,2) refl, of font, folded hi_def values_def]
  have one: "grid_start font fs ord filename \<noteq> Inl ZeroDivisionError \<Longrightarrow>
    length (uncolored cs values) \<le> length (default_colors cs) \<Longrightarrow> hi \<noteq> 1"
    using c by (auto split: sum.splits)
  have more_colors: "grid_start font fs ord filename = Inl ZeroDivisionError \<Longrightarrow>
    length (uncolored cs values) \<le> length (default_colors cs)"
  proof (rule ccontr)
    assume raises: "grid_start font fs ord filename = Inl ZeroDivisionError"
      and "\<not> length (uncolored cs values) \<le> length (default_colors cs)"
    then have "legend_colors values cs = Inl IndexError"
      using legend_colors_result[OF distinct_values[OF assms(2)], of cs ts] by (simp add: values_def)
    then show False using raises assms(1) by (simp add: grid_start_def values_def Let_def case_prod_unfold)
  qed
  show "grid_start font fs ord filename = Inl IndexError \<longleftrightarrow> length (default_colors cs) < length (uncolored cs values)"
    using c more_colors by (cases "grid_start font fs ord filename") (auto simp: not_less[symmetric])
  show "grid_start font fs ord filename = Inl ZeroDivisionError \<longleftrightarrow>
      length (uncolored cs values) \<le> length (default_colors cs) \<and> hi = 1"
  proof
    assume raises: "grid_start font fs ord filename = Inl ZeroDivisionError"
    then show "length (uncolored cs values) \<le> length (default_colors cs) \<and> hi = 1" using more_colors[OF raises] c by simp
  qed (use one in blast)
  fix v assume "grid_start font fs ord filename = Inr v"
  then show "val (g_r_start (vw_graphic v)) = of_int (hi div 2 - hi div 10 div 2)"
    "val (g_r_end (vw_graphic v)) = of_int (hi div 2 + hi div 10 div 2)"
    using c by simp_all
qed

subsection \<open>Moving the borders\<close>

text \<open>Only a motion sets the positions that a release reads.\<close>

definition no_motion :: "gtk_event \<Rightarrow> bool" where
  "no_motion e = (case e of Motion x y \<Rightarrow> False | _ \<Rightarrow> True)"

definition never_moved :: "viewer \<Rightarrow> bool" where
  "never_moved v \<longleftrightarrow> moving_left_cur v = None \<and> moving_right_cur v = None"

lemma change_range_keeps: "change_range font a b v = Inr v' \<Longrightarrow> never_moved v' = never_moved v"
  by (auto simp: change_range_def map_value_eq_Inr never_moved_def)

lemma never_moved_handle:
  assumes "never_moved v" "no_motion e" "handle font v e = Inr v'"
  shows "never_moved v'"
proof (cases e)
  case (Press x y)
  then show ?thesis using assms
    by (cases "data_rectangle (vw_graphic v)")
      (auto simp: handle_def button_press_def map_value_eq_Inr never_moved_def split: if_splits)
next
  case Release
  have "\<not> moving_left v \<and> \<not> moving_right v"
    using assms Release by (auto simp: handle_def button_release_def never_moved_def attribute_def Let_def split: if_splits)
  moreover from this have "moving_both v \<Longrightarrow> \<exists>a b. change_range font a b (v\<lparr>moving_both := False\<rparr>) = Inr v'"
    using assms(3) Release by (auto simp: handle_def button_release_def Let_def map_value_eq_Inr bind_res_eq_Inr)
  ultimately show ?thesis using assms Release change_range_keeps[of font _ _ "v\<lparr>moving_both := False\<rparr>" v']
    by (cases "moving_both v") (auto simp: handle_def button_release_def never_moved_def)
next
  case (Motion x y)
  then show ?thesis using assms by (simp add: no_motion_def)
next
  case (Allocate w h)
  then show ?thesis using assms by (auto simp: handle_def size_allocate_def map_value_eq_Inr never_moved_def)
next
  case Expose
  then show ?thesis using assms
    by (auto simp: handle_def expose_def Let_def bind_res_eq_Inr map_value_eq_Inr never_moved_def split: if_splits)
next
  case Zoom_out
  then show ?thesis using assms by (auto simp: handle_def set_smaller_zoom_def get_range_def dest: change_range_keeps)
next
  case Zoom_in
  then show ?thesis using assms by (auto simp: handle_def set_bigger_zoom_def get_range_def dest: change_range_keeps)
next
  case Write_png
  then show ?thesis using assms by (auto simp: handle_def output_png_def map_value_eq_Inr bind_res_eq_Inr never_moved_def)
qed

lemma never_moved_run:
  "never_moved v \<Longrightarrow> \<forall>e \<in> set events. no_motion e \<Longrightarrow> fold_res (handle font) v events = Inr v' \<Longrightarrow> never_moved v'"
proof (induction events arbitrary: v)
  case (Cons e es)
  then show ?case using never_moved_handle[of v e font] by (auto simp: bind_res_eq_Inr)
qed simp

lemma grid_start_never_moved: "grid_start font fs ord filename = Inr v \<Longrightarrow> never_moved v"
  by (auto simp: grid_start_def Let_def bind_res_eq_Inr map_value_eq_Inr never_moved_def new_viewer_def case_prod_unfold)

text \<open>A click on a border of the selection, with no motion before it, ends in an exception.\<close>

text \<open>
  C27: Pressing the button on a border of the selection and releasing it, without any motion
  since the program started, ends in AttributeError.
\<close>

theorem border_click_raises:
  assumes "grid_main font fs ord filename events = Inr v" "\<forall>e \<in> set events. no_motion e"
    "selection_rectangle (vw_graphic v) = Inr (x, y, width, height)"
    "inside ev_y y height" "near ev_x x \<or> near ev_x (py_add x width)"
  shows "grid_main font fs ord filename (events @ [Press ev_x ev_y, Release]) = Inl AttributeError"
proof -
  have never: "never_moved v" using assms(1,2) never_moved_run[OF grid_start_never_moved] by (auto simp: grid_main_def bind_res_eq_Inr)
  obtain dx dy dw dh where d: "data_rectangle (vw_graphic v) = (dx, dy, dw, dh)" by (rule prod_cases4)
  have press: "handle font v (Press ev_x ev_y) = Inr (if near ev_x x then v\<lparr>moving_left := True\<rparr> else v\<lparr>moving_right := True\<rparr>)"
    using assms(3-5) d by (auto simp: handle_def button_press_def)
  have "handle font (if near ev_x x then v\<lparr>moving_left := True\<rparr> else v\<lparr>moving_right := True\<rparr>) Release = Inl AttributeError"
    using never by (auto simp: handle_def button_release_def never_moved_def attribute_def Let_def)
  then show ?thesis using assms(1) press by (auto simp: grid_main_def bind_res_eq_Inr fold_res_append)
qed

text \<open>The same happens when the right border is dragged out of the window.\<close>

theorem right_border_lost:
  assumes "\<not> moving_left v" "moving_right v" "moving_right_cur v = None" "vw_width v = Some width"
    "0 < val width" "val width \<le> val ev_x" "selection_rectangle (vw_graphic v) = Inr r"
  shows "bind_res (handle font v (Motion ev_x ev_y)) (\<lambda>v. handle font v Release) = Inl AttributeError"
  using assms by (cases r) (simp add: handle_def motion_notify_def button_release_def attribute_def Let_def)

text \<open>Zooming in after zooming out shows the same range again, unless the data ended before.\<close>

lemma change_range_returns:
  assumes "consistent lo hi (vw_graphic v)" "hi - lo \<noteq> 1" "min hi (max (val a) (val b)) - max lo (min (val a) (val b)) \<noteq> 1"
  obtains v' where "change_range font a b v = Inr v'" "set_range font a b (vw_graphic v) = Inr (vw_graphic v')"
proof (cases "set_range font a b (vw_graphic v)")
  case (Inl e)
  then show ?thesis using set_range_raises[of font a b "vw_graphic v" e] assms by (simp add: consistent_def)
next
  case (Inr g)
  then show ?thesis by (intro that[of "v\<lparr>vw_graphic := g, force_full_redraw := True\<rparr>"]) (simp_all add: change_range_def)
qed

theorem zoom_roundtrip:
  assumes "consistent lo hi (vw_graphic v)" "hi - lo \<noteq> 1" "get_range (vw_graphic v) = (start, stop)" "val start \<le> val stop"
    "2 * val stop - val start \<le> hi" "val stop - val start \<notin> {1, 1 / 2}"
  shows "\<exists>v1 v2. set_smaller_zoom font v = Inr v1 \<and> set_bigger_zoom font v1 = Inr v2 \<and>
    map_prod val val (get_range (vw_graphic v2)) = (val start, val stop)"
proof -
  let ?g = "vw_graphic v"
  let ?x = "py_add start (py_mul (py_sub stop start) (I 2))"
  have g: "g_start ?g = F lo" "g_end ?g = F hi" "lo \<le> val start" "g_r_start ?g = start" "g_r_end ?g = stop"
    using assms(1,3) cut_off_bounds by (auto simp: consistent_def get_range_def)
  obtain v1 where 1: "change_range font start ?x v = Inr v1" "set_range font start ?x ?g = Inr (vw_graphic v1)"
    by (rule change_range_returns[OF assms(1,2), of start ?x font]) (use g assms(4-6) in \<open>simp add: min_def max_def\<close>)
  let ?g1 = "vw_graphic v1"
  let ?y = "py_add (g_r_start ?g1) (py_half (py_sub (g_r_end ?g1) (g_r_start ?g1)))"
  have c: "consistent lo hi ?g1" by (rule consistent_set_range[OF assms(1) 1(2)])
  have r: "val (g_r_start ?g1) = val start" "val (g_r_end ?g1) = 2 * val stop - val start"
    using set_range_result(1,2)[OF 1(2)] g assms(4,5) by (simp_all add: min_def max_def)
  have y: "val (py_half (py_sub (g_r_end ?g1) (g_r_start ?g1))) = val stop - val start"
    using set_range_result(1,2)[OF 1(2)] g r
    by (cases start; cases stop) (auto simp: py_max_def py_min_def py_half_def py_sub_def py_add_def py_mul_def split: if_splits)
  obtain v2 where 2: "change_range font (g_r_start ?g1) ?y v1 = Inr v2" "set_range font (g_r_start ?g1) ?y ?g1 = Inr (vw_graphic v2)"
    by (rule change_range_returns[OF c assms(2), of "g_r_start ?g1" ?y font]) (use g r y assms(4-6) in \<open>simp add: min_def max_def\<close>)
  have "map_prod val val (get_range (vw_graphic v2)) = (val start, val stop)"
    using set_range_result(1-4)[OF 2(2)] set_range_result(3,4)[OF 1(2)] g r y assms(4,5)
    by (simp add: get_range_def min_def max_def)
  then show ?thesis using 1(1) 2(1) assms(3) by (simp add: set_smaller_zoom_def set_bigger_zoom_def get_range_def)
qed

subsection \<open>The example log in a window\<close>

definition example_window :: "gtk_event list \<Rightarrow> viewer res" where
  "example_window = grid_main plain_font [''log'' \<mapsto> example_data] (\<lambda>xs. xs) ''log''"

definition small_data :: string where
  "small_data = ln ''event-int n0 queue 7 1''"

lemma keep_order [simp]: "permuting (\<lambda>xs. xs)"
  by (simp add: permuting_def)

lemma example_read:
  obtains cs ts where "read_data [''log'' \<mapsto> example_data] ''log'' = Inr (cs, ts)" "snd (timelines_bounds ts) = 30"
proof -
  have "case read_data [''log'' \<mapsto> example_data] ''log'' of Inl e \<Rightarrow> False | Inr (cs, ts) \<Rightarrow> snd (timelines_bounds ts) = 30"
    by code_simp
  then show ?thesis by (auto split: sum.splits intro: that)
qed

theorem range_in_view_witness:
  "\<exists>v. example_window [Allocate (I 400) (I 300), Motion (I 200) (I 120), Release] = Inr v \<and>
     val (g_r_start (vw_graphic v)) \<le> val (g_r_end (vw_graphic v)) \<and> val (g_r_end (vw_graphic v)) \<le> 30"
proof -
  let ?events = "[Allocate (I 400) (I 300), Motion (I 200) (I 120), Release]"
  obtain cs ts where r: "read_data [''log'' \<mapsto> example_data] ''log'' = Inr (cs, ts)" "snd (timelines_bounds ts) = 30"
    by (rule example_read)
  have "case example_window ?events of Inl e \<Rightarrow> False | Inr v \<Rightarrow> True" by code_simp
  then obtain v where v: "example_window ?events = Inr v" by (auto split: sum.splits)
  have "list_all no_press ?events" by (simp add: no_press_def)
  then have "val (g_r_start (vw_graphic v)) \<le> val (g_r_end (vw_graphic v)) \<and> val (g_r_end (vw_graphic v)) \<le> 30"
    using range_in_view[OF v[unfolded example_window_def] r(1) keep_order, THEN conjunct2, THEN conjunct1, rule_format]
    unfolding r(2) of_int_numeral by blast
  with v show ?thesis by blast
qed

text \<open>A drag in the data that leaves the window takes the range out of the data, on either side.\<close>

lemma drag_past_the_data:
  "case example_window [Allocate (I 400) (I 300), Press (I 200) (I 30), Motion (I 9000) (I 30)] of
     Inr v \<Rightarrow> val (g_r_end (vw_graphic v)) < 0 | Inl e \<Rightarrow> False"
  "case example_window [Allocate (I 400) (I 300), Press (I 200) (I 30), Motion (I (- 9000)) (I 30)] of
     Inr v \<Rightarrow> 30 < val (g_r_start (vw_graphic v)) | Inl e \<Rightarrow> False"
  by code_simp+

theorem grid_start_result_witness:
  "(\<exists>v. grid_start plain_font [''log'' \<mapsto> example_data] (\<lambda>xs. xs) ''log'' = Inr v \<and> val (g_r_start (vw_graphic v)) = 14) \<and>
   grid_start plain_font [''log'' \<mapsto> small_data] (\<lambda>xs. xs) ''log'' = Inl ZeroDivisionError"
proof
  obtain cs ts where r: "read_data [''log'' \<mapsto> example_data] ''log'' = Inr (cs, ts)" "snd (timelines_bounds ts) = 30"
    by (rule example_read)
  have "case grid_start plain_font [''log'' \<mapsto> example_data] (\<lambda>xs. xs) ''log'' of Inl e \<Rightarrow> False | Inr v \<Rightarrow> True" by code_simp
  then obtain v where "grid_start plain_font [''log'' \<mapsto> example_data] (\<lambda>xs. xs) ''log'' = Inr v" by (auto split: sum.splits)
  then show "\<exists>v. grid_start plain_font [''log'' \<mapsto> example_data] (\<lambda>xs. xs) ''log'' = Inr v \<and> val (g_r_start (vw_graphic v)) = 14"
    using grid_start_result[OF r(1), of "\<lambda>xs. xs" plain_font] r(2) by simp
next
  have "case read_data [''log'' \<mapsto> small_data] ''log'' of Inl e \<Rightarrow> False
    | Inr (cs, ts) \<Rightarrow> snd (timelines_bounds ts) = 1 \<and> length (uncolored cs (all_range_values (\<lambda>xs. xs) ts)) \<le> length (default_colors cs)"
    by code_simp
  then obtain cs ts where r: "read_data [''log'' \<mapsto> small_data] ''log'' = Inr (cs, ts)" "snd (timelines_bounds ts) = 1"
    "length (uncolored cs (all_range_values (\<lambda>xs. xs) ts)) \<le> length (default_colors cs)" by (auto split: sum.splits)
  then show "grid_start plain_font [''log'' \<mapsto> small_data] (\<lambda>xs. xs) ''log'' = Inl ZeroDivisionError"
    using grid_start_result[OF r(1), of "\<lambda>xs. xs" plain_font] by simp
qed

theorem border_click_raises_witness:
  "example_window [Allocate (I 400) (I 300), Press (I 188) (I 120), Release] = Inl AttributeError"
proof -
  have "case example_window [Allocate (I 400) (I 300)] of Inl e \<Rightarrow> False
    | Inr v \<Rightarrow> (case selection_rectangle (vw_graphic v) of Inl e \<Rightarrow> False
        | Inr (x, y, width, height) \<Rightarrow> inside (I 120) y height \<and> near (I 188) x)" by code_simp
  then obtain v x y width height where "example_window [Allocate (I 400) (I 300)] = Inr v"
    "selection_rectangle (vw_graphic v) = Inr (x, y, width, height)" "inside (I 120) y height" "near (I 188) x"
    by (auto split: sum.splits)
  then show ?thesis
    using border_click_raises[of plain_font "[''log'' \<mapsto> example_data]" "\<lambda>xs. xs" "''log''" "[Allocate (I 400) (I 300)]" v x y width height "I 120" "I 188"]
    by (simp add: example_window_def no_motion_def)
qed

theorem right_border_lost_witness:
  "example_window [Allocate (I 400) (I 300), Press (I 213) (I 120), Motion (I 500) (I 120), Release] = Inl AttributeError"
proof -
  have "case example_window [Allocate (I 400) (I 300), Press (I 213) (I 120)] of Inl e \<Rightarrow> False
    | Inr v \<Rightarrow> \<not> moving_left v \<and> moving_right v \<and> moving_right_cur v = None \<and> vw_width v = Some (I 400) \<and>
        (case selection_rectangle (vw_graphic v) of Inl e \<Rightarrow> False | Inr r \<Rightarrow> True)" by code_simp
  then obtain v r where v: "example_window [Allocate (I 400) (I 300), Press (I 213) (I 120)] = Inr v"
    "\<not> moving_left v" "moving_right v" "moving_right_cur v = None" "vw_width v = Some (I 400)"
    "selection_rectangle (vw_graphic v) = Inr r" by (auto split: sum.splits)
  have "example_window ([Allocate (I 400) (I 300), Press (I 213) (I 120)] @ [Motion (I 500) (I 120), Release]) =
      bind_res (handle plain_font v (Motion (I 500) (I 120))) (\<lambda>v. handle plain_font v Release)"
    using v(1) by (auto simp: example_window_def grid_main_def bind_res_eq_Inr fold_res_append bind_res_def split: sum.splits)
  then show ?thesis
    using right_border_lost[of v "I 400" "I 500" r plain_font "I 120"] v by simp
qed

theorem zoom_roundtrip_witness:
  "\<exists>v. example_window [Allocate (I 400) (I 300), Zoom_out, Zoom_in] = Inr v \<and> val (fst (get_range (vw_graphic v))) = 14 \<and>
     val (snd (get_range (vw_graphic v))) = 16"
proof -
  obtain cs ts where r: "read_data [''log'' \<mapsto> example_data] ''log'' = Inr (cs, ts)" "snd (timelines_bounds ts) = 30"
    by (rule example_read)
  have "case example_window [Allocate (I 400) (I 300)] of Inl e \<Rightarrow> False | Inr v \<Rightarrow> get_range (vw_graphic v) = (I 14, I 16)"
    by code_simp
  then obtain v where v: "example_window [Allocate (I 400) (I 300)] = Inr v" "get_range (vw_graphic v) = (I 14, I 16)"
    by (auto split: sum.splits)
  have c: "consistent 0 30 (vw_graphic v)"
  proof -
    from v(1) obtain v0 where "grid_start plain_font [''log'' \<mapsto> example_data] (\<lambda>xs. xs) ''log'' = Inr v0"
      "fold_res (handle plain_font) v0 [Allocate (I 400) (I 300)] = Inr v" by (auto simp: example_window_def grid_main_def bind_res_eq_Inr)
    moreover from this have "consistent 0 30 (vw_graphic v0)"
      using grid_start_cases[OF r(1) keep_order refl, of plain_font] r(2) by simp
    ultimately show ?thesis using events.run_inv by blast
  qed
  obtain v1 v2 where z: "set_smaller_zoom plain_font v = Inr v1" "set_bigger_zoom plain_font v1 = Inr v2"
    "map_prod val val (get_range (vw_graphic v2)) = (14, 16)"
    using zoom_roundtrip[OF c _ v(2), of plain_font] by auto
  then have "example_window ([Allocate (I 400) (I 300)] @ [Zoom_out, Zoom_in]) = Inr v2"
    using v by (auto simp: example_window_def grid_main_def bind_res_eq_Inr fold_res_append handle_def)
  then show ?thesis using z(3) by (cases "get_range (vw_graphic v2)") auto
qed

end
