(* ===== verification/Create_Module.thy ===== *)
theory Create_Module
  imports Py_Format
begin

section \<open>A new module (\<open>create-module.py\<close>)\<close>

text \<open>
  The script that writes the files of a new ns-3 module, on a model of the directories and files
  it touches.  There are no symbolic links and no lack of permissions or space, and all paths are
  seen from one working directory.  What \<open>optparse\<close> returns and the directory of the script are
  parameters; the help text and the message for an existing module are left out.
\<close>

subsection \<open>Directories and files\<close>

text \<open>A place: the leading slashes of a path and its components, where dots are resolved.\<close>

type_synonym place = "string \<times> string list"

definition leading_slashes :: "string \<Rightarrow> string" where
  "leading_slashes path =
     (if \<not> prefix [slash] path then []
      else if prefix [slash, slash] path \<and> \<not> prefix [slash, slash, slash] path then [slash, slash]
      else [slash])"

definition place_of :: "string \<Rightarrow> place" where
  "place_of path =
     (let slashes = leading_slashes path in (slashes, foldl (norm_step (slashes \<noteq> [])) [] (split_on slash path)))"

definition child :: "place \<Rightarrow> string \<Rightarrow> place" where
  "child p name = (fst p, snd p @ [name])"

definition parent :: "place \<Rightarrow> place" where
  "parent p = (fst p, butlast (snd p))"

record disk =
  directories :: "place list"
  contents :: "(place, string) dict"

text \<open>The empty path names nothing, although it has the place of the current directory.\<close>

definition exists_path :: "disk \<Rightarrow> string \<Rightarrow> bool" where
  "exists_path d path \<longleftrightarrow>
     path \<noteq> [] \<and> (place_of path \<in> set (directories d) \<or> dict_has (contents d) (place_of path))"

lemma place_of_nil [simp]: "place_of [] = ([], [])"
  by (simp add: place_of_def leading_slashes_def norm_step_def)

text \<open>An action has a result, or an exception, and leaves a disk in both cases.\<close>

type_synonym 'a action = "disk \<Rightarrow> 'a res \<times> disk"

definition then_do :: "'a action \<Rightarrow> ('a \<Rightarrow> 'b action) \<Rightarrow> 'b action" where
  "then_do m k d = (case m d of (Inl e, d') \<Rightarrow> (Inl e, d') | (Inr x, d') \<Rightarrow> k x d')"

fun do_all :: "unit action list \<Rightarrow> unit action" where
  "do_all [] d = (Inr (), d)"
| "do_all (a # as) d = then_do a (\<lambda>_. do_all as) d"

definition mkdir :: "string \<Rightarrow> unit action" where
  "mkdir path d =
     (if path = [] \<or> exists_path d path \<or> parent (place_of path) \<notin> set (directories d) then (Inl OSError, d)
      else (Inr (), d\<lparr>directories := directories d @ [place_of path]\<rparr>))"

text \<open>\<open>file(path, "wt")\<close>, and \<open>write\<close> up to \<open>close\<close>\<close>

definition open_write :: "string \<Rightarrow> unit action" where
  "open_write path d =
     (if place_of path \<in> set (directories d) \<or> parent (place_of path) \<notin> set (directories d) then (Inl IOError, d)
      else (Inr (), d\<lparr>contents := dict_put (place_of path) [] (contents d)\<rparr>))"

definition write_text :: "string \<Rightarrow> string \<Rightarrow> unit action" where
  "write_text path s d = (Inr (), d\<lparr>contents := dict_put (place_of path) s (contents d)\<rparr>)"

definition write_file :: "string \<Rightarrow> string res \<Rightarrow> unit action" where
  "write_file path formatted =
     then_do (open_write path) (\<lambda>_ d. case formatted of Inl e \<Rightarrow> (Inl e, d) | Inr s \<Rightarrow> write_text path s d)"

subsection \<open>The templates\<close>

definition lines_of :: "string list \<Rightarrow> string" where
  "lines_of ls = concat (map ln ls)"

definition wscript_template :: string where
  "wscript_template = lines_of [
     ''# -*- Mode: python; py-indent-offset: 4; indent-tabs-mode: nil; coding: utf-8; -*-'',
     '''',
     ''# def options(opt):'',
     ''#     pass'',
     '''',
     ''# def configure(conf):'',
     ''#     conf.check_nonfatal(header_name='stdint.h', define_name='HAVE_STDINT_H')'',
     '''',
     ''def build(bld):'',
     ''    module = bld.create_ns3_module(%(MODULE)r, ['core'])'',
     ''    module.source = ['',
     ''        'model/%(MODULE)s.cc','',
     ''        'helper/%(MODULE)s-helper.cc','',
     ''        ]'',
     '''',
     ''    module_test = bld.create_ns3_module_test_library('%(MODULE)s')'',
     ''    module_test.source = ['',
     ''        'test/%(MODULE)s-test-suite.cc','',
     ''        ]'',
     '''',
     ''    headers = bld.new_task_gen(features=['ns3header'])'',
     ''    headers.module = %(MODULE)r'',
     ''    headers.source = ['',
     ''        'model/%(MODULE)s.h','',
     ''        'helper/%(MODULE)s-helper.h','',
     ''        ]'',
     '''',
     ''    if bld.env.ENABLE_EXAMPLES:'',
     ''        bld.add_subdirs('examples')'',
     '''',
     ''    # bld.ns3_python_bindings()'',
     '''']"

definition model_cc_template :: string where
  "model_cc_template = lines_of [
     ''/* -*- Mode:C++; c-file-style:\"gnu\"; indent-tabs-mode:nil; -*- */'',
     '''',
     ''#include \"%(MODULE)s.h\"'',
     '''',
     ''namespace ns3 {'',
     '''',
     ''/* ... */'',
     '''',
     '''',
     ''}'',
     '''']"

definition model_h_template :: string where
  "model_h_template = lines_of [
     ''/* -*- Mode:C++; c-file-style:\"gnu\"; indent-tabs-mode:nil; -*- */'',
     ''#ifndef %(INCLUDE_GUARD)s'',
     ''#define %(INCLUDE_GUARD)s'',
     '''',
     ''namespace ns3 {'',
     '''',
     ''/* ... */'',
     '''',
     ''}'',
     '''',
     ''#endif /* %(INCLUDE_GUARD)s */'',
     '''']"

definition helper_cc_template :: string where
  "helper_cc_template = lines_of [
     ''/* -*- Mode:C++; c-file-style:\"gnu\"; indent-tabs-mode:nil; -*- */'',
     '''',
     ''#include \"%(MODULE)s-helper.h\"'',
     '''',
     ''namespace ns3 {'',
     '''',
     ''/* ... */'',
     '''',
     '''',
     ''}'',
     '''']"

definition helper_h_template :: string where
  "helper_h_template = lines_of [
     ''/* -*- Mode:C++; c-file-style:\"gnu\"; indent-tabs-mode:nil; -*- */'',
     ''#ifndef %(INCLUDE_GUARD)s'',
     ''#define %(INCLUDE_GUARD)s'',
     '''',
     ''#include \"ns3/%(MODULE)s.h\"'',
     '''',
     ''namespace ns3 {'',
     '''',
     ''/* ... */'',
     '''',
     ''}'',
     '''',
     ''#endif /* %(INCLUDE_GUARD)s */'',
     '''']"

definition examples_wscript_template :: string where
  "examples_wscript_template = lines_of [
     ''# -*- Mode: python; py-indent-offset: 4; indent-tabs-mode: nil; coding: utf-8; -*-'',
     '''',
     ''def build(bld):'',
     ''    obj = bld.create_ns3_program('%(MODULE)s-example', [%(MODULE)r])'',
     ''    obj.source = '%(MODULE)s-example.cc'' @ [CHR 0x27],
     '''']"

definition example_cc_template :: string where
  "example_cc_template = lines_of [
     ''/* -*- Mode:C++; c-file-style:\"gnu\"; indent-tabs-mode:nil; -*- */'',
     '''',
     ''#include \"ns3/core-module.h\"'',
     ''#include \"ns3/%(MODULE)s-helper.h\"'',
     '''',
     ''using namespace ns3;'',
     '''',
     '''',
     ''int '',
     ''main (int argc, char *argv[])'',
     ''{'',
     ''  bool verbose = true;'',
     '''',
     ''  CommandLine cmd;'',
     ''  cmd.AddValue (\"verbose\", \"Tell application to log if true\", verbose);'',
     '''',
     ''  cmd.Parse (argc,argv);'',
     '''',
     ''  /* ... */'',
     '''',
     ''  Simulator::Run ();'',
     ''  Simulator::Destroy ();'',
     ''  return 0;'',
     ''}'',
     '''',
     '''']"

definition test_cc_template :: string where
  "test_cc_template = lines_of [
     ''/* -*- Mode:C++; c-file-style:\"gnu\"; indent-tabs-mode:nil; -*- */'',
     '''',
     ''// Include a header file from your module to test.'',
     ''#include \"ns3/%(MODULE)s.h\"'',
     '''',
     ''// An essential include is test.h'',
     ''#include \"ns3/test.h\"'',
     '''',
     ''// Do not put your test classes in namespace ns3.  You may find it useful'',
     ''// to use the using directive to access the ns3 namespace directly'',
     ''using namespace ns3;'',
     '''',
     ''// This is an example TestCase.'',
     ''class %(CAPITALIZED)sTestCase1 : public TestCase'',
     ''{'',
     ''public:'',
     ''  %(CAPITALIZED)sTestCase1 ();'',
     ''  virtual ~%(CAPITALIZED)sTestCase1 ();'',
     '''',
     ''private:'',
     ''  virtual void DoRun (void);'',
     ''};'',
     '''',
     ''// Add some help text to this case to describe what it is intended to test'',
     ''%(CAPITALIZED)sTestCase1::%(CAPITALIZED)sTestCase1 ()'',
     ''  : TestCase (\"%(CAPITALIZED)s test case (does nothing)\")'',
     ''{'',
     ''}'',
     '''',
     ''// This destructor does nothing but we include it as a reminder that'',
     ''// the test case should clean up after itself'',
     ''%(CAPITALIZED)sTestCase1::~%(CAPITALIZED)sTestCase1 ()'',
     ''{'',
     ''}'',
     '''',
     ''//'',
     ''// This method is the pure virtual method from class TestCase that every'',
     ''// TestCase must implement'',
     ''//'',
     ''void'',
     ''%(CAPITALIZED)sTestCase1::DoRun (void)'',
     ''{'',
     ''  // A wide variety of test macros are available in src/core/test.h'',
     ''  NS_TEST_ASSERT_MSG_EQ (true, true, \"true doesn't equal true for some reason\");'',
     ''  // Use this one for floating point comparisons'',
     ''  NS_TEST_ASSERT_MSG_EQ_TOL (0.01, 0.01, 0.001, \"Numbers are not equal within tolerance\");'',
     ''}'',
     '''',
     ''// The TestSuite class names the TestSuite, identifies what type of TestSuite,'',
     ''// and enables the TestCases to be run.  Typically, only the constructor for'',
     ''// this class must be defined'',
     ''//'',
     ''class %(CAPITALIZED)sTestSuite : public TestSuite'',
     ''{'',
     ''public:'',
     ''  %(CAPITALIZED)sTestSuite ();'',
     ''};'',
     '''',
     ''%(CAPITALIZED)sTestSuite::%(CAPITALIZED)sTestSuite ()'',
     ''  : TestSuite (\"%(MODULE)s\", UNIT)'',
     ''{'',
     ''  AddTestCase (new %(CAPITALIZED)sTestCase1);'',
     ''}'',
     '''',
     ''// Do not forget to allocate an instance of this TestSuite'',
     ''static %(CAPITALIZED)sTestSuite %(MODULE)sTestSuite;'',
     '''']"

definition doc_rst_template :: string where
  "doc_rst_template = lines_of [
     ''Example Module Documentation'',
     ''----------------------------'',
     '''',
     ''.. heading hierarchy:'',
     ''   ------------- Chapter'',
     ''   ************* Section (#.#)'',
     ''   ============= Subsection (#.#.#)'',
     ''   ############# Paragraph (no number)'',
     '''',
     ''This is a suggested outline for adding new module documentation to ns-3.'',
     ''See ``src/click/doc/click.rst`` for an example.'',
     '''',
     ''The introductory paragraph is for describing what this code is trying to'',
     ''model.'',
     '''',
     ''Model Description'',
     ''*****************'',
     '''',
     ''The source code for the new module lives in the directory ``src/%(MODULE)s``.'',
     '''',
     ''Add here a basic description of what is being modeled.'',
     '''',
     ''Design'',
     ''======'',
     '''',
     ''Briefly describe the software design of the model and how it fits into '',
     ''the existing ns-3 architecture. '',
     '''',
     ''Scope and Limitations'',
     ''====================='',
     '''',
     ''What can the model do?  What can it not do?  Please use this section to'',
     ''describe the scope and limitations of the model.'',
     '''',
     ''References'',
     ''=========='',
     '''',
     ''Add academic citations here, such as if you published a paper on this'',
     ''model, or if readers should read a particular specification or other work.'',
     '''',
     ''Usage'',
     ''*****'',
     '''',
     ''This section is principally concerned with the usage of your model, using'',
     ''the public API.  Focus first on most common usage patterns, then go'',
     ''into more advanced topics.'',
     '''',
     ''Building New Module'',
     ''==================='',
     '''',
     ''Include this subsection only if there are special build instructions or'',
     ''platform limitations.'',
     '''',
     ''Helpers'',
     ''======='',
     '''',
     ''What helper API will users typically use?  Describe it here.'',
     '''',
     ''Attributes'',
     ''=========='',
     '''',
     ''What classes hold attributes, and what are the key ones worth mentioning?'',
     '''',
     ''Output'',
     ''======'',
     '''',
     ''What kind of data does the model generate?  What are the key trace'',
     ''sources?   What kind of logging output can be enabled?'',
     '''',
     ''Advanced Usage'',
     ''=============='',
     '''',
     ''Go into further details (such as using the API outside of the helpers)'',
     ''in additional sections, as needed.'',
     '''',
     ''Examples'',
     ''========'',
     '''',
     ''What examples using this new code are available?  Describe them here.'',
     '''',
     ''Troubleshooting'',
     ''==============='',
     '''',
     ''Add any tips for avoiding pitfalls, etc.'',
     '''',
     ''Validation'',
     ''**********'',
     '''',
     ''Describe how the model has been tested/validated.  What tests run in the'',
     ''test suite?  How much API and code is covered by the tests?  Again, '',
     ''references to outside published work may help here.'']"


subsection \<open>\<open>main\<close>\<close>

definition module_vars :: "string \<Rightarrow> (string, string) dict" where
  "module_vars modname = [(''MODULE'', modname)]"

definition guard_vars :: "string \<Rightarrow> string \<Rightarrow> (string, string) dict" where
  "guard_vars modname guard = [(''MODULE'', modname), (''INCLUDE_GUARD'', guard)]"

definition test_vars :: "string \<Rightarrow> (string, string) dict" where
  "test_vars modname = [(''MODULE'', modname), (''CAPITALIZED'', capitalize modname)]"

definition create_files :: "string \<Rightarrow> string \<Rightarrow> unit action" where
  "create_files moduledir modname =
     do_all
       [mkdir moduledir,
        write_file (path_join moduledir ''wscript'') (format (module_vars modname) wscript_template),
        mkdir (path_join moduledir ''model''),
        write_file (path_join3 moduledir ''model'' (modname @ ''.cc'')) (format (module_vars modname) model_cc_template),
        write_file (path_join3 moduledir ''model'' (modname @ ''.h''))
          (format (guard_vars modname (''__'' @ upper modname @ ''_H__'')) model_h_template),
        mkdir (path_join moduledir ''test''),
        write_file (path_join3 moduledir ''test'' (modname @ ''-test-suite.cc'')) (format (test_vars modname) test_cc_template),
        mkdir (path_join moduledir ''helper''),
        write_file (path_join3 moduledir ''helper'' (modname @ ''-helper.cc''))
          (format (module_vars modname) helper_cc_template),
        write_file (path_join3 moduledir ''helper'' (modname @ ''-helper.h''))
          (format (guard_vars modname (''__'' @ upper modname @ ''_HELPER_H__'')) helper_h_template),
        mkdir (path_join moduledir ''examples''),
        write_file (path_join (path_join moduledir ''examples'') ''wscript'')
          (format (module_vars modname) examples_wscript_template),
        write_file (path_join3 moduledir ''examples'' (modname @ ''-example.cc''))
          (format (module_vars modname) example_cc_template),
        mkdir (path_join moduledir ''doc''),
        write_file (path_join3 moduledir ''doc'' (modname @ ''.rst'')) (format (module_vars modname) doc_rst_template)]"

definition create_module :: "string \<Rightarrow> string list \<Rightarrow> int action" where
  "create_module script_dir args d =
     (case args of
        [modname] \<Rightarrow>
          if slash \<in> set modname then (Inl AssertionError, d)
          else
            let moduledir = path_join script_dir modname
            in if exists_path d moduledir then (Inr 2, d)
               else then_do (create_files moduledir modname) (\<lambda>_ d. (Inr 0, d)) d
      | _ \<Rightarrow> (Inr 1, d))"

subsection \<open>Places\<close>

lemma child_simps [simp]:
  "child p a = child q b \<longleftrightarrow> p = q \<and> a = b" "child p a \<noteq> p" "p \<noteq> child p a" "parent (child p a) = p"
  "child (child p a) b \<noteq> p" "p \<noteq> child (child p a) b"
  by (auto simp: child_def parent_def prod_eq_iff)

definition plain_name :: "string \<Rightarrow> bool" where
  "plain_name m \<longleftrightarrow> slash \<notin> set m \<and> m \<noteq> [] \<and> m \<noteq> ''.'' \<and> m \<noteq> ''..''"

lemma leading_slashes_app:
  assumes "slash \<notin> set m" "a \<noteq> []"
  shows "leading_slashes (a @ m) = leading_slashes a" "last a \<noteq> slash \<Longrightarrow> leading_slashes (a @ slash # m) = leading_slashes a"
proof -
  have m: "\<not> prefix (slash # u) m" for u using assms(1) by (cases m) auto
  have "prefix [slash, slash] (a @ m) = prefix [slash, slash] a" "prefix [slash, slash, slash] (a @ m) = prefix [slash, slash, slash] a"
    "prefix [slash] (a @ m) = prefix [slash] a"
    using m assms(2) by (cases a; cases "tl a"; cases "tl (tl a)"; auto)+
  then show "leading_slashes (a @ m) = leading_slashes a" by (simp only: leading_slashes_def)
  assume "last a \<noteq> slash"
  then have "prefix [slash, slash] (a @ slash # m) = prefix [slash, slash] a"
    "prefix [slash, slash, slash] (a @ slash # m) = prefix [slash, slash, slash] a" "prefix [slash] (a @ slash # m) = prefix [slash] a"
    using m assms(2) by (cases a; cases "tl a"; cases "tl (tl a)"; auto)+
  then show "leading_slashes (a @ slash # m) = leading_slashes a" by (simp only: leading_slashes_def)
qed

lemma place_of_child:
  assumes "plain_name m"
  shows "place_of (path_join a m) = child (place_of a) m"
proof -
  have m: "slash \<notin> set m" "\<not> prefix [slash] m" "split_on slash m = [m]" "norm_step r ps m = ps @ [m]" for r ps
    using assms by (auto simp: plain_name_def norm_step_def split_on_word) (cases m; auto)
  consider "a = []" | b where "a = b @ [slash]" | "a \<noteq> []" "last a \<noteq> slash"
    by (cases a rule: rev_cases) auto
  then show ?thesis
  proof cases
    case 1
    then show ?thesis using m by (simp add: path_join_def place_of_def leading_slashes_def child_def norm_step_def)
  next
    case 2
    have "leading_slashes (b @ slash # m) = leading_slashes (b @ [slash])" using leading_slashes_app(1)[OF m(1), of "b @ [slash]"] by simp
    then show ?thesis using m 2
      by (simp add: path_join_def place_of_def Let_def child_def split_on_app norm_step_def[of _ _ "[]"])
  next
    case 3
    then have "leading_slashes (a @ slash # m) = leading_slashes a" using leading_slashes_app(2)[OF m(1)] by simp
    then show ?thesis using m 3 by (simp add: path_join_def place_of_def Let_def child_def split_on_app)
  qed
qed

lemma plain_extension: "slash \<notin> set m \<Longrightarrow> slash \<notin> set e \<Longrightarrow> 3 \<le> length e \<Longrightarrow> plain_name (m @ e)"
  by (auto simp: plain_name_def append_eq_Cons_conv)

text \<open>Everything stands in a directory.\<close>

definition wf_disk :: "disk \<Rightarrow> bool" where
  "wf_disk d \<longleftrightarrow> (\<forall>p \<in> set (directories d) \<union> set (dict_keys (contents d)). snd p \<noteq> [] \<longrightarrow> parent p \<in> set (directories d))"

lemma wf_disk_child:
  assumes "wf_disk d" "p \<notin> set (directories d)"
  shows "child p n \<notin> set (directories d)" "\<not> dict_has (contents d) (child p n)"
proof -
  have "child p n \<in> set (directories d) \<union> set (dict_keys (contents d)) \<Longrightarrow> parent (child p n) \<in> set (directories d)"
    using assms(1) unfolding wf_disk_def by (simp add: child_def)
  then show "child p n \<notin> set (directories d)" "\<not> dict_has (contents d) (child p n)"
    using assms(2) by (auto simp: dict_has_iff(1))
qed

lemma set_keys_put: "set (dict_keys (dict_put k v d)) = insert k (set (dict_keys d))"
  by (auto simp: keys_dict_put dict_has_iff(1))

lemma dict_put_twice: "dict_put k v (dict_put k u d) = dict_put k v d"
  by (induction d) auto

text \<open>Whatever holds after each kind of action holds after the script.\<close>

locale disk_invariant =
  fixes inv :: "disk \<Rightarrow> bool"
  assumes mkdir_keeps: "inv d \<Longrightarrow> inv (snd (mkdir path d))"
    and write_file_keeps: "inv d \<Longrightarrow> inv (snd (write_file path written d))"
begin

lemma do_all_keeps: "(\<And>a d. a \<in> set as \<Longrightarrow> inv d \<Longrightarrow> inv (snd (a d))) \<Longrightarrow> inv d \<Longrightarrow> inv (snd (do_all as d))"
proof (induction as arbitrary: d)
  case (Cons a as)
  have step: "inv (snd (a d))" by (rule Cons.prems(1)) (simp_all add: Cons.prems(2))
  show ?case
  proof (cases "a d")
    case (Pair r d')
    then show ?thesis using step Cons.IH[of d'] Cons.prems(1) by (cases r) (simp_all add: then_do_def)
  qed
qed simp

lemma create_files_keeps: "inv d \<Longrightarrow> inv (snd (create_files moduledir m d))"
  unfolding create_files_def
  by (rule do_all_keeps) (auto intro: mkdir_keeps write_file_keeps)

lemma create_keeps: "inv d \<Longrightarrow> inv (snd (create_module script_dir args d))"
  using create_files_keeps[of d]
  by (auto simp: create_module_def then_do_def Let_def split: list.split prod.splits sum.splits) (metis snd_conv)+

end

lemma write_file_cases:
  obtains e where "write_file path written d = (Inl e, d)"
  | s where "place_of path \<notin> set (directories d)" "parent (place_of path) \<in> set (directories d)"
    "snd (write_file path written d) = d\<lparr>contents := dict_put (place_of path) s (contents d)\<rparr>"
proof (cases "place_of path \<in> set (directories d) \<or> parent (place_of path) \<notin> set (directories d)")
  case True
  then show ?thesis by (intro that(1)[of IOError]) (auto simp: write_file_def open_write_def then_do_def)
next
  case False
  then show ?thesis
    by (intro that(2)[of "case written of Inl e \<Rightarrow> [] | Inr s \<Rightarrow> s"])
      (auto simp: write_file_def open_write_def then_do_def write_text_def dict_put_twice split: sum.split)
qed

interpretation tree: disk_invariant wf_disk
proof
  show "wf_disk (snd (mkdir path d))" if "wf_disk d" for d path
    using that unfolding mkdir_def wf_disk_def by auto
  show "wf_disk (snd (write_file path written d))" if "wf_disk d" for d path written
    using that by (cases path written d rule: write_file_cases) (auto simp: wf_disk_def set_keys_put)
qed

definition no_clash :: "disk \<Rightarrow> bool" where
  "no_clash d \<longleftrightarrow> distinct (directories d @ dict_keys (contents d))"

interpretation places: disk_invariant no_clash
proof
  show "no_clash (snd (mkdir path d))" if "no_clash d" for d path
    using that unfolding mkdir_def no_clash_def exists_path_def dict_has_iff(1) by auto
  show "no_clash (snd (write_file path written d))" if "no_clash d" for d path written
    using that by (cases path written d rule: write_file_cases) (auto simp: no_clash_def set_keys_put distinct_dict_put)
qed

text \<open>An action in a directory that has nothing of the name yet\<close>

lemma mkdir_new:
  assumes "place_of path = child p n" "p \<in> set (directories d)" "child p n \<notin> set (directories d)" "\<not> dict_has (contents d) (child p n)"
  shows "mkdir path d = (Inr (), d\<lparr>directories := directories d @ [child p n]\<rparr>)"
proof -
  have "path \<noteq> []" using assms(1) by (auto simp: child_def)
  then show ?thesis using assms by (simp add: mkdir_def exists_path_def)
qed

lemma write_file_new:
  assumes "place_of path = child p n" "p \<in> set (directories d)" "child p n \<notin> set (directories d)"
  shows "write_file path (Inr s) d = (Inr (), d\<lparr>contents := dict_put (child p n) s (contents d)\<rparr>)"
  using assms by (simp add: write_file_def open_write_def then_do_def write_text_def dict_put_twice)

subsection \<open>What the script leaves\<close>

text \<open>A template with its directives replaced.\<close>

definition filled :: "(string, string) dict \<Rightarrow> string \<Rightarrow> string" where
  "filled vars template = replace_all (directives vars) template"

text \<open>A text is covered if each of its lines is.\<close>

lemma covered_lines: "list_all (covered (patterns ks)) ls \<Longrightarrow> list_all (\<lambda>k. newline \<notin> set k) ks \<Longrightarrow> covered (patterns ks) (lines_of ls)"
proof (induction ls)
  case (Cons l ls)
  have "newline \<notin> set p" "p \<noteq> []" if "p \<in> set (patterns ks)" for p
    using that Cons.prems(2) by (auto simp: patterns_def str_directive_def repr_directive_def list_all_iff)
  then show ?case using Cons covered_line[of "patterns ks" l "lines_of ls"] by (simp add: lines_of_def ln_def)
qed (simp add: lines_of_def)

lemma list_all_intros: "list_all P []" "P x \<Longrightarrow> list_all P xs \<Longrightarrow> list_all P (x # xs)"
  by simp_all

lemma templates_covered:
  "covered (patterns [''MODULE'']) wscript_template" "covered (patterns [''MODULE'']) model_cc_template"
  "covered (patterns [''MODULE'', ''INCLUDE_GUARD'']) model_h_template" "covered (patterns [''MODULE'']) helper_cc_template"
  "covered (patterns [''MODULE'', ''INCLUDE_GUARD'']) helper_h_template" "covered (patterns [''MODULE'']) examples_wscript_template"
  "covered (patterns [''MODULE'']) example_cc_template" "covered (patterns [''MODULE'', ''CAPITALIZED'']) test_cc_template"
  "covered (patterns [''MODULE'']) doc_rst_template"
  unfolding wscript_template_def model_cc_template_def model_h_template_def helper_cc_template_def helper_h_template_def
    examples_wscript_template_def example_cc_template_def test_cc_template_def doc_rst_template_def
  by (rule covered_lines; (rule list_all_intros | (rule covered_no_percent, simp; fail) | code_simp)+)+

lemma keys_of_vars:
  "dict_keys (module_vars m) = [''MODULE'']" "dict_keys (guard_vars m g) = [''MODULE'', ''INCLUDE_GUARD'']"
  "dict_keys (test_vars m) = [''MODULE'', ''CAPITALIZED'']"
  by (simp_all add: module_vars_def guard_vars_def test_vars_def dict_keys_def)

lemma format_filled:
  "covered (patterns [''MODULE'']) t \<Longrightarrow> format (module_vars m) t = Inr (filled (module_vars m) t)"
  "covered (patterns [''MODULE'', ''INCLUDE_GUARD'']) t \<Longrightarrow> format (guard_vars m g) t = Inr (filled (guard_vars m g) t)"
  "covered (patterns [''MODULE'', ''CAPITALIZED'']) t \<Longrightarrow> format (test_vars m) t = Inr (filled (test_vars m) t)"
  unfolding filled_def by (rule format_replaces; auto simp: keys_of_vars)+

lemmas templates_filled = templates_covered(1,2,4,6,7,9)[THEN format_filled(1)] templates_covered(3,5)[THEN format_filled(2)]
  templates_covered(8)[THEN format_filled(3)]

definition module_dirs :: "place \<Rightarrow> place list" where
  "module_dirs base = base # map (child base) [''model'', ''test'', ''helper'', ''examples'', ''doc'']"

definition module_files :: "place \<Rightarrow> string \<Rightarrow> (place \<times> string) list" where
  "module_files base m =
     [(child base ''wscript'', filled (module_vars m) wscript_template),
      (child (child base ''model'') (m @ ''.cc''), filled (module_vars m) model_cc_template),
      (child (child base ''model'') (m @ ''.h''), filled (guard_vars m (''__'' @ upper m @ ''_H__'')) model_h_template),
      (child (child base ''test'') (m @ ''-test-suite.cc''), filled (test_vars m) test_cc_template),
      (child (child base ''helper'') (m @ ''-helper.cc''), filled (module_vars m) helper_cc_template),
      (child (child base ''helper'') (m @ ''-helper.h''), filled (guard_vars m (''__'' @ upper m @ ''_HELPER_H__'')) helper_h_template),
      (child (child base ''examples'') ''wscript'', filled (module_vars m) examples_wscript_template),
      (child (child base ''examples'') (m @ ''-example.cc''), filled (module_vars m) example_cc_template),
      (child (child base ''doc'') (m @ ''.rst''), filled (module_vars m) doc_rst_template)]"

lemma plain_names: "plain_name ''wscript''" "plain_name ''model''" "plain_name ''test''" "plain_name ''helper''"
    "plain_name ''examples''" "plain_name ''doc''"
  by (simp_all add: plain_name_def)

lemma plain_files:
  assumes "slash \<notin> set m"
  shows "plain_name (m @ ''.cc'')" "plain_name (m @ ''-test-suite.cc'')" "plain_name (m @ ''-helper.cc'')"
    "plain_name (m @ ''-helper.h'')" "plain_name (m @ ''-example.cc'')" "plain_name (m @ ''.rst'')"
  by (rule plain_extension[OF assms]; simp)+

lemma plain_header: "slash \<notin> set m \<Longrightarrow> plain_name (m @ ''.h'')"
  by (auto simp: plain_name_def append_eq_Cons_conv)

lemma create_files_new:
  assumes "wf_disk d" "slash \<notin> set m" "place_of moduledir = base" "base \<notin> set (directories d)"
    "\<not> dict_has (contents d) base" "parent base \<in> set (directories d)"
  shows "create_files moduledir m d =
    (Inr (), d\<lparr>directories := directories d @ module_dirs base,
       contents := foldl (\<lambda>c (p, s). dict_put p s c) (contents d) (module_files base m)\<rparr>)"
proof -
  have new: "child base n \<notin> set (directories d)" "\<not> dict_has (contents d) (child base n)"
    "child (child base n) k \<notin> set (directories d)" for n k
    using wf_disk_child[OF assms(1,4)] wf_disk_child[OF assms(1), of "child base n" k for n] by blast+
  have old: "\<not> dict_has (dict_put p s c) q \<longleftrightarrow> q \<noteq> p \<and> \<not> dict_has c q" for p q and s :: string and c
    by (auto simp: dict_has_iff(1) set_keys_put)
  have places: "place_of (path_join moduledir n) = child base n" if "plain_name n" for n
    using place_of_child[OF that] assms(3) by simp
  have places3: "place_of (path_join3 moduledir n k) = child (child base n) k" if "plain_name n" "plain_name k" for n k
    using places place_of_child that by (simp add: path_join3_def)
  note facts = plain_names plain_files[OF assms(2)] plain_header[OF assms(2)]
  have base: "mkdir moduledir d = (Inr (), d\<lparr>directories := directories d @ [base]\<rparr>)"
    using assms(3-6) by (cases "moduledir = []") (auto simp: mkdir_def exists_path_def parent_def)
  show ?thesis
    unfolding create_files_def do_all.simps then_do_def base prod.case sum.case templates_filled
    by (simp add: mkdir_new[OF places] write_file_new[OF places] write_file_new[OF places3] write_file_new[OF place_of_child[OF facts(1)]]
      facts new old places module_dirs_def module_files_def)
qed

text \<open>The result of the script, in every case.\<close>

lemma create_result:
  assumes "wf_disk d"
  shows "create_module script_dir args d =
    (case args of
       [m] \<Rightarrow>
         (let base = place_of (path_join script_dir m)
          in if slash \<in> set m then (Inl AssertionError, d)
             else if exists_path d (path_join script_dir m) then (Inr 2, d)
             else if path_join script_dir m = [] \<or> parent base \<notin> set (directories d) then (Inl OSError, d)
             else (Inr 0, d\<lparr>directories := directories d @ module_dirs base,
                     contents := foldl (\<lambda>c (p, s). dict_put p s c) (contents d) (module_files base m)\<rparr>))
     | _ \<Rightarrow> (Inr 1, d))"
proof (cases "\<exists>m. args = [m]")
  case True
  then obtain m where args: "args = [m]" by blast
  let ?path = "path_join script_dir m"
  show ?thesis
  proof (cases "slash \<in> set m \<or> exists_path d ?path")
    case True
    then show ?thesis by (auto simp: args create_module_def Let_def)
  next
    case False
    show ?thesis
    proof (cases "?path \<noteq> [] \<and> parent (place_of ?path) \<in> set (directories d)")
      case True
      have "create_files ?path m d = (Inr (), d\<lparr>directories := directories d @ module_dirs (place_of ?path),
          contents := foldl (\<lambda>c (p, s). dict_put p s c) (contents d) (module_files (place_of ?path) m)\<rparr>)"
        by (rule create_files_new[OF assms _ refl]) (use False True in \<open>auto simp: exists_path_def\<close>)
      then show ?thesis using False True by (simp add: args create_module_def Let_def then_do_def)
    next
      case parent: False
      then have "create_files ?path m d = (Inl OSError, d)" by (auto simp add: create_files_def then_do_def mkdir_def)
      then show ?thesis using False parent by (auto simp: args create_module_def Let_def then_do_def)
    qed
  qed
next
  case False
  then show ?thesis by (auto simp: create_module_def split: list.split)
qed

lemma map_of_put_all: "q \<notin> fst ` set files \<Longrightarrow> map_of (foldl (\<lambda>c (p, s). dict_put p s c) c files) q = map_of c q"
  by (induction files arbitrary: c) (auto split: prod.splits)

lemma module_files_below: "q \<in> fst ` set (module_files base m) \<Longrightarrow> \<exists>n k. q = child base n \<or> q = child (child base n) k"
  by (auto simp: module_files_def)

lemma existing_files_stay:
  assumes "wf_disk d" "map_of (contents d) q = Some s"
  shows "map_of (contents (snd (create_module script_dir args d))) q = Some s"
proof -
  have kept: "map_of (foldl (\<lambda>c (p, s). dict_put p s c) (contents d) (module_files base m)) q = Some s"
    if "base \<notin> set (directories d)" for base m
  proof -
    have "\<not> dict_has (contents d) (child base n)" "\<not> dict_has (contents d) (child (child base n) k)" for n k
      using wf_disk_child[OF assms(1) that] wf_disk_child(2)[OF assms(1), of "child base n" k for n] by auto
    then have "q \<notin> fst ` set (module_files base m)" using assms(2) module_files_below[of q base m] by (metis dict_has_iff(2) option.distinct(1))
    then show ?thesis using map_of_put_all assms(2) by metis
  qed
  then show ?thesis using assms(2) unfolding create_result[OF assms(1)]
    by (auto simp: Let_def exists_path_def split: list.split)
qed

text \<open>
  C28: The new-module script returns 1 unless given one argument, fails on a name with a slash,
  returns 2 if the path exists, and otherwise creates exactly six directories and nine files,
  each file its template with the name filled in.
\<close>

theorem create_module_result:
  assumes "wf_disk d"
  shows "create_module script_dir args d =
    (case args of
       [m] \<Rightarrow>
         (let base = place_of (path_join script_dir m)
          in if slash \<in> set m then (Inl AssertionError, d)
             else if exists_path d (path_join script_dir m) then (Inr 2, d)
             else if path_join script_dir m = [] \<or> parent base \<notin> set (directories d) then (Inl OSError, d)
             else (Inr 0, d\<lparr>directories := directories d @ module_dirs base,
                     contents := foldl (\<lambda>c (p, s). dict_put p s c) (contents d) (module_files base m)\<rparr>))
     | _ \<Rightarrow> (Inr 1, d))"
  by (rule create_result[OF assms])

text \<open>
  C14: The new-module script keeps the tree of directories consistent, puts no file where a
  directory is, and leaves every existing file as it was, also when it fails.
\<close>

theorem create_module_keeps:
  assumes "wf_disk d" "no_clash d"
  shows "let d' = snd (create_module script_dir args d)
    in wf_disk d' \<and> no_clash d' \<and> (\<forall>p s. map_of (contents d) p = Some s \<longrightarrow> map_of (contents d') p = Some s)"
  using tree.create_keeps[OF assms(1)] places.create_keeps[OF assms(2)] existing_files_stay[OF assms(1)]
  by (simp add: Let_def)

definition source_tree :: disk where
  "source_tree = \<lparr>directories = [([], []), ([], [''src''])], contents = [(([], [''src'', ''wscript'']), ''all'')]\<rparr>"

lemma source_tree_wf: "wf_disk source_tree" "no_clash source_tree"
  by (simp_all add: source_tree_def wf_disk_def no_clash_def dict_keys_def parent_def)

theorem create_module_result_witness:
  "fst (create_module ''src'' [''demo''] source_tree) = Inr 0 \<and>
   ([], [''src'', ''demo'', ''model'']) \<in> set (directories (snd (create_module ''src'' [''demo''] source_tree))) \<and>
   fst (create_module ''tools'' [''demo''] source_tree) = Inl OSError"
proof -
  have "\<not> exists_path source_tree (path_join ''src'' ''demo'')" "place_of (path_join ''src'' ''demo'') = ([], [''src'', ''demo''])"
    "\<not> exists_path source_tree (path_join ''tools'' ''demo'')" "place_of (path_join ''tools'' ''demo'') = ([], [''tools'', ''demo''])"
    "path_join ''src'' ''demo'' \<noteq> []"
    by code_simp+
  then show ?thesis
    unfolding create_module_result[OF source_tree_wf(1)]
    by (simp add: Let_def source_tree_def module_dirs_def parent_def child_def)
qed

theorem create_module_keeps_witness:
  "map_of (contents (snd (create_module ''src'' [''demo''] source_tree))) ([], [''src'', ''wscript'']) = Some ''all''"
  using create_module_keeps[OF source_tree_wf, of "''src''" "[''demo'']"]
  by (simp add: Let_def source_tree_def)

end
