(* ===== verification/Flowmon.thy ===== *)
theory Flowmon
  imports Test_Report Py_Num
begin

section \<open>Flow monitor results (\<open>flowmon-parse-results.py\<close>)\<close>

text \<open>
  The script that reads the XML file of the flow monitor and prints some figures of each flow.
  A float is an exact rational, and \<open>inf\<close>, \<open>nan\<close> and a long integer with an \<open>L\<close> are not
  numbers of the model.  The document is read to its end before a simulation is built.  The progress
  output while the file is read is left out.  The last section holds what the C++ code of
  the flow monitor writes for a time, to say which files the script can read.
\<close>

subsection \<open>Numbers in attributes\<close>

definition signed :: "string \<Rightarrow> int \<times> string" where
  "signed s =
     (if prefix ''-'' s then (-1, tl s) else if prefix ''+'' s then (1, tl s) else (1, s))"

definition digits_value :: "string \<Rightarrow> int" where
  "digits_value s = foldl (\<lambda>n c. 10 * n + int (digit_val c)) 0 s"

text \<open>\<open>int(s)\<close> and \<open>long(s)\<close>\<close>

definition int_of_text :: "string \<Rightarrow> int res" where
  "int_of_text s =
     (case signed (strip s) of (sign, ds) \<Rightarrow>
        if ds \<noteq> [] \<and> list_all is_digit ds then Inr (sign * digits_value ds) else Inl ValueError)"

text \<open>\<open>float(s)\<close>: digits, perhaps a point, perhaps an exponent\<close>

definition mantissa :: "string \<Rightarrow> (int \<times> nat) res" where
  "mantissa m =
     (let whole = takeWhile (\<lambda>c. c \<noteq> CHR ''.'') m;
          fraction = drop (Suc (length whole)) m
      in if whole @ fraction \<noteq> [] \<and> list_all is_digit (whole @ fraction)
         then Inr (digits_value (whole @ fraction), length fraction) else Inl ValueError)"

definition is_exponent :: "char \<Rightarrow> bool" where
  "is_exponent c \<longleftrightarrow> c = CHR ''e'' \<or> c = CHR ''E''"

definition float_of_text :: "string \<Rightarrow> num res" where
  "float_of_text s =
     (case signed (strip s) of (sign, t) \<Rightarrow>
        let m = takeWhile (\<lambda>c. \<not> is_exponent c) t;
            e = drop (length m) t
        in bind_res (mantissa m) (\<lambda>(n, k).
           bind_res (if e = [] then Inr 0
                     else if list_ex is_space e then Inl ValueError
                     else int_of_text (tl e)) (\<lambda>x.
             Inr (F (of_int (sign * n) / 10 ^ k * (if 0 \<le> x then 10 ^ nat x else 1 / 10 ^ nat (- x)))))))"

text \<open>\<open>a / b\<close> with \<open>from __future__ import division\<close>\<close>

definition true_div :: "num \<Rightarrow> num \<Rightarrow> num res" where
  "true_div a b = (if val b = 0 then Inl ZeroDivisionError else Inr (F (val a / val b)))"

definition attr :: "xml \<Rightarrow> string \<Rightarrow> string option" where
  "attr e name = map_of (xml_attrs e) name"

definition attr_int :: "xml \<Rightarrow> string \<Rightarrow> int res" where
  "attr_int e name = (case attr e name of None \<Rightarrow> Inl TypeError | Some s \<Rightarrow> int_of_text s)"

definition attr_float :: "xml \<Rightarrow> string \<Rightarrow> num res" where
  "attr_float e name = (case attr e name of None \<Rightarrow> Inl TypeError | Some s \<Rightarrow> float_of_text s)"

text \<open>\<open>el.get(name)[:-2]\<close>\<close>

definition attr_cut :: "xml \<Rightarrow> string \<Rightarrow> string res" where
  "attr_cut e name = (case attr e name of None \<Rightarrow> Inl TypeError | Some s \<Rightarrow> Inr (take (length s - 2) s))"

definition parse_time_ns :: "string option \<Rightarrow> int res" where
  "parse_time_ns tm =
     (case tm of
        None \<Rightarrow> Inl AttributeError
      | Some s \<Rightarrow> if suffix ''ns'' s then int_of_text (take (length s - 2) s) else Inl ValueError)"

subsection \<open>The classes\<close>

record five_tuple =
  source_address :: "string option"
  destination_address :: "string option"
  protocol :: int
  source_port :: int
  destination_port :: int

definition new_five_tuple :: "xml \<Rightarrow> five_tuple res" where
  "new_five_tuple e =
     bind_res (attr_int e ''sourcePort'') (\<lambda>sport. bind_res (attr_int e ''destinationPort'') (\<lambda>dport.
     bind_res (attr_int e ''protocol'') (\<lambda>proto.
       Inr \<lparr>source_address = attr e ''sourceAddress'', destination_address = attr e ''destinationAddress'',
         protocol = proto, source_port = sport, destination_port = dport\<rparr>)))"

type_synonym histogram = "(num \<times> num \<times> int) list"

definition new_histogram :: "xml \<Rightarrow> histogram res" where
  "new_histogram e =
     traverse_res (\<lambda>b. bind_res (attr_float b ''start'') (\<lambda>start. bind_res (attr_float b ''width'') (\<lambda>width.
       map_value (\<lambda>count. (start, width, count)) (attr_int b ''count'')))) (findall e ''bin'')"

record probe_stats =
  probe_id :: int
  packets :: int
  probe_bytes :: int
  delay_from_first_probe :: num

record flow =
  flow_id :: int
  delay_mean :: "num option"
  packet_loss_ratio :: "num option"
  rx_bitrate :: "num option"
  tx_bitrate :: "num option"
  five_tuple_of :: "five_tuple option"
  packet_size_mean :: "num option"
  probe_stats_unsorted :: "probe_stats list"
  hop_count :: num
  flow_interruptions :: "histogram option"
  rx_duration :: num

text \<open>The time between two attributes that hold nanoseconds, in seconds\<close>

definition nano :: num where "nano = F (1 / 10 ^ 9)"

definition duration :: "xml \<Rightarrow> string \<Rightarrow> string \<Rightarrow> num res" where
  "duration e final initial =
     bind_res (bind_res (attr_cut e final) int_of_text) (\<lambda>t1.
     bind_res (bind_res (attr_cut e initial) int_of_text) (\<lambda>t0. Inr (py_mul (F (of_int (t1 - t0))) nano)))"

definition bitrate :: "xml \<Rightarrow> string \<Rightarrow> num \<Rightarrow> num option res" where
  "bitrate e name time =
     (if 0 < val time
      then bind_res (attr_int e name) (\<lambda>b. map_value Some (true_div (I (b * 8)) time))
      else Inr None)"

definition when_received :: "int \<Rightarrow> 'a res \<Rightarrow> 'a option res" where
  "when_received rx value = (if rx \<noteq> 0 then map_value Some value else Inr None)"

definition new_flow :: "xml \<Rightarrow> flow res" where
  "new_flow e =
     bind_res (attr_int e ''flowId'') (\<lambda>ident.
     bind_res (attr_int e ''rxPackets'') (\<lambda>rx.
     bind_res (attr_int e ''txPackets'') (\<lambda>tx.
     bind_res (duration e ''timeLastTxPacket'' ''timeFirstTxPacket'') (\<lambda>tx_time.
     bind_res (duration e ''timeLastRxPacket'' ''timeFirstRxPacket'') (\<lambda>rx_time.
     bind_res (when_received rx (bind_res (attr_float e ''timesForwarded'') (\<lambda>n.
       map_value (\<lambda>q. py_add q (I 1)) (true_div n (I rx))))) (\<lambda>hops.
     bind_res (when_received rx (bind_res (bind_res (attr_cut e ''delaySum'') float_of_text) (\<lambda>d.
       map_value (\<lambda>q. py_mul q nano) (true_div d (I rx))))) (\<lambda>delay.
     bind_res (when_received rx (bind_res (attr_float e ''rxBytes'') (\<lambda>b. true_div b (I rx)))) (\<lambda>size_mean.
     bind_res (bitrate e ''rxBytes'' rx_time) (\<lambda>rx_rate.
     bind_res (bitrate e ''txBytes'' tx_time) (\<lambda>tx_rate.
     bind_res (attr_float e ''lostPackets'') (\<lambda>lost.
     bind_res (when_received rx (true_div lost (py_add (I rx) lost))) (\<lambda>loss.
     bind_res (case find_element e ''flowInterruptionsHistogram'' of
         None \<Rightarrow> Inr None | Some h \<Rightarrow> map_value Some (new_histogram h)) (\<lambda>interruptions.
       Inr \<lparr>flow_id = ident, delay_mean = delay, packet_loss_ratio = loss, rx_bitrate = rx_rate, tx_bitrate = tx_rate,
         five_tuple_of = None, packet_size_mean = size_mean, probe_stats_unsorted = [],
         hop_count = (case hops of None \<Rightarrow> I (-1000) | Some h \<Rightarrow> h), flow_interruptions = interruptions,
         rx_duration = rx_time\<rparr>)))))))))))))"

text \<open>
  The flows in the order of the file; \<open>flow_map\<close> leads from an identifier to the place of the
  last flow that has it.
\<close>

record simulation =
  flows :: "flow list"
  flow_map :: "(int, nat) dict"

definition update_flow :: "int \<Rightarrow> (flow \<Rightarrow> flow) \<Rightarrow> simulation \<Rightarrow> simulation res" where
  "update_flow ident f sim =
     map_value (\<lambda>i. sim\<lparr>flows := (flows sim)[i := f (flows sim ! i)]\<rparr>) (dict_get (flow_map sim) ident)"

definition add_flow :: "simulation \<Rightarrow> xml \<Rightarrow> simulation res" where
  "add_flow sim e =
     map_value (\<lambda>f. \<lparr>flows = flows sim @ [f], flow_map = dict_put (flow_id f) (length (flows sim)) (flow_map sim)\<rparr>)
       (new_flow e)"

definition classify :: "simulation \<Rightarrow> xml \<Rightarrow> simulation res" where
  "classify sim e =
     bind_res (attr_int e ''flowId'') (\<lambda>ident. bind_res (new_five_tuple e) (\<lambda>t.
       update_flow ident (\<lambda>f. f\<lparr>five_tuple_of := Some t\<rparr>) sim))"

definition add_probe_stats :: "int \<Rightarrow> simulation \<Rightarrow> xml \<Rightarrow> simulation res" where
  "add_probe_stats probe sim e =
     bind_res (attr_int e ''flowId'') (\<lambda>ident. bind_res (attr_int e ''packets'') (\<lambda>n.
     bind_res (attr_int e ''bytes'') (\<lambda>b.
     bind_res (if 0 < n
               then bind_res (parse_time_ns (attr e ''delayFromFirstProbeSum'')) (\<lambda>t. true_div (I t) (I n))
               else Inr (I 0)) (\<lambda>delay.
       update_flow ident (\<lambda>f. f\<lparr>probe_stats_unsorted := probe_stats_unsorted f @
         [\<lparr>probe_id = probe, packets = n, probe_bytes = b, delay_from_first_probe = delay\<rparr>]\<rparr>) sim))))"

definition add_probe :: "simulation \<Rightarrow> xml \<Rightarrow> simulation res" where
  "add_probe sim e =
     bind_res (attr_int e ''index'') (\<lambda>probe. fold_res (add_probe_stats probe) sim (findall e ''FlowStats''))"

text \<open>\<open>findall("a/b")\<close>\<close>

definition findall2 :: "xml \<Rightarrow> string \<Rightarrow> string \<Rightarrow> xml list" where
  "findall2 e a b = concat (map (\<lambda>x. findall x b) (findall e a))"

definition new_simulation :: "xml \<Rightarrow> simulation res" where
  "new_simulation e =
     (case findall e ''Ipv4FlowClassifier'' of
        [classifier] \<Rightarrow>
          bind_res (fold_res add_flow \<lparr>flows = [], flow_map = []\<rparr> (findall2 e ''FlowStats'' ''Flow'')) (\<lambda>sim.
          bind_res (fold_res classify sim (findall classifier ''Flow'')) (\<lambda>sim.
            fold_res add_probe sim (findall2 e ''FlowProbes'' ''FlowProbe'')))
      | _ \<Rightarrow> Inl ValueError)"

subsection \<open>\<open>main\<close>\<close>

text \<open>\<open>'%.2f' % x\<close>\<close>

definition round_even :: "rat \<Rightarrow> int" where
  "round_even q =
     (let n = \<lfloor>q\<rfloor>; d = q - of_int n
      in if d < 1 / 2 then n else if d > 1 / 2 then n + 1 else if even n then n else n + 1)"

definition show_fixed2 :: "rat \<Rightarrow> string" where
  "show_fixed2 q =
     (let n = round_even (\<bar>q\<bar> * 100)
      in (if q < 0 then ''-'' else []) @ show_int (n div 100) @ ''.'' @ [digit_char (nat (n div 10 mod 10)), digit_char (nat (n mod 10))])"

text \<open>A line that shows a figure times a factor, for which \<open>None\<close> raises\<close>

definition figure_line :: "string \<Rightarrow> num option \<Rightarrow> rat \<Rightarrow> string \<Rightarrow> string res" where
  "figure_line label figure factor unit =
     (case figure of
        None \<Rightarrow> Inl TypeError
      | Some x \<Rightarrow> Inr ([tab] @ label @ '': '' @ show_fixed2 (val x * factor) @ '' '' @ unit))"

definition protocol_name :: "int \<Rightarrow> string res" where
  "protocol_name p = (if p = 6 then Inr ''TCP'' else if p = 17 then Inr ''UDP'' else Inl KeyError)"

definition header_line :: "flow \<Rightarrow> string res" where
  "header_line f =
     (case five_tuple_of f of
        None \<Rightarrow> Inl AttributeError
      | Some t \<Rightarrow> map_value (\<lambda>proto.
          ''FlowID: '' @ show_int (flow_id f) @ '' ('' @ proto @ '' '' @ str_of_option (source_address t) @ ''/'' @
          show_int (source_port t) @ '' --> '' @ str_of_option (destination_address t) @ ''/'' @
          show_int (destination_port t) @ '')'') (protocol_name (protocol t)))"

definition flow_lines :: "flow \<Rightarrow> string res list" where
  "flow_lines f =
     [header_line f,
      figure_line ''TX bitrate'' (tx_bitrate f) (1 / 1000) ''kbit/s'',
      figure_line ''RX bitrate'' (rx_bitrate f) (1 / 1000) ''kbit/s'',
      figure_line ''Mean Delay'' (delay_mean f) 1000 ''ms'',
      figure_line ''Packet Loss Ratio'' (packet_loss_ratio f) 100 ''%'']"

text \<open>What is printed, and the exception that ends it\<close>

fun print_lines :: "string res list \<Rightarrow> string list \<times> py_error option" where
  "print_lines [] = ([], None)"
| "print_lines (Inl e # ls) = ([], Some e)"
| "print_lines (Inr l # ls) = apfst (Cons l) (print_lines ls)"

definition simulations :: "xml \<Rightarrow> simulation list res" where
  "simulations doc = (if xml_tag doc = ''FlowMonitor'' then map_value (\<lambda>sim. [sim]) (new_simulation doc) else Inr [])"

definition flowmon_main :: "file_system \<Rightarrow> string list \<Rightarrow> string list \<times> py_error option" where
  "flowmon_main fs argv =
     (if length argv < 2 then ([], Some IndexError)
      else case fs (argv ! 1) of
             None \<Rightarrow> ([], Some IOError)
           | Some content \<Rightarrow>
               (case bind_res (parse_xml content) simulations of
                  Inl e \<Rightarrow> ([], Some e)
                | Inr sims \<Rightarrow> print_lines (concat (map flow_lines (concat (map flows sims))))))"

subsection \<open>What the flow monitor writes\<close>

text \<open>\<open>operator<<\<close> for a time: the sign, the integer, a point and a zero, and the unit of the resolution.\<close>

definition time_units :: "string list" where
  "time_units = [''s'', ''ms'', ''us'', ''ns'', ''ps'', ''fs'']"

definition written_time :: "string \<Rightarrow> int \<Rightarrow> string" where
  "written_time unit v = (if v < 0 then ''-'' else ''+'') @ show_nat (nat \<bar>v\<bar>) @ ''.0'' @ unit"

lemma point_no_int: "CHR ''.'' \<in> set s \<Longrightarrow> int_of_text s = Inl ValueError"
proof -
  assume "CHR ''.'' \<in> set s"
  have keep: "c \<in> set t \<Longrightarrow> \<not> P c \<Longrightarrow> c \<in> set (dropWhile P t)" for c :: char and P t
    by (induction t) auto
  have "CHR ''.'' \<in> set (strip s)"
    unfolding strip_def set_rev by (intro keep) (simp_all add: \<open>CHR ''.'' \<in> set s\<close> keep is_space_def)
  then have "CHR ''.'' \<in> set (snd (signed (strip s)))"
    by (cases "strip s") (auto simp: signed_def)
  moreover have "\<not> is_digit (CHR ''.'')" by (simp add: is_digit_def)
  ultimately show ?thesis by (auto simp: int_of_text_def list_all_iff split: prod.splits)
qed

lemma written_time_no_int:
  assumes "unit \<in> set time_units"
  shows "int_of_text (take (length (written_time unit v) - 2) (written_time unit v)) = Inl ValueError"
proof (rule point_no_int)
  have "unit \<in> {''s'', ''ms'', ''us'', ''ns'', ''ps'', ''fs''}" using assms by (simp add: time_units_def)
  then show "CHR ''.'' \<in> set (take (length (written_time unit v) - 2) (written_time unit v))"
    by (auto simp: written_time_def)
qed

lemma digits_value_nat: "digits_value s = int (parse_nat s)"
proof -
  have "foldl (\<lambda>n c. 10 * n + int (digit_val c)) (int k) s = int (foldl (\<lambda>n c. 10 * n + digit_val c) k s)" for k
    by (induction s arbitrary: k) (simp_all, metis (mono_tags, lifting) of_nat_add of_nat_mult of_nat_numeral)
  from this[of 0] show ?thesis by (simp add: digits_value_def parse_nat_def)
qed

lemma int_of_show_nat: "int_of_text (show_nat n) = Inr (int n)"
proof -
  have digits: "list_all is_digit (show_nat n)" using show_nat_digits by (auto simp: list_all_iff)
  then have "strip (show_nat n) = show_nat n"
    by (intro strip_no_space) (auto simp: list_all_iff is_digit_def is_space_def)
  moreover have "signed (show_nat n) = (1, show_nat n)"
    using digits by (cases "show_nat n") (auto simp: signed_def is_digit_def)
  ultimately show ?thesis using digits digits_value_nat[of "show_nat n"] by (simp add: int_of_text_def)
qed

text \<open>The attributes that the flow monitor writes for a flow, as far as the script gets.\<close>

definition written_by_monitor :: "string \<Rightarrow> xml \<Rightarrow> bool" where
  "written_by_monitor unit e \<longleftrightarrow>
     (\<exists>ident rx tx v. attr e ''flowId'' = Some (show_nat ident) \<and> attr e ''rxPackets'' = Some (show_nat rx) \<and>
        attr e ''txPackets'' = Some (show_nat tx) \<and> attr e ''timeLastTxPacket'' = Some (written_time unit v))"

lemma new_flow_fails: "unit \<in> set time_units \<Longrightarrow> written_by_monitor unit e \<Longrightarrow> new_flow e = Inl ValueError"
  using written_time_no_int[of unit]
  by (auto simp: written_by_monitor_def new_flow_def attr_int_def int_of_show_nat duration_def attr_cut_def)

text \<open>
  C29: No results file whose first flow was written by the flow monitor can be read by its own
  example script: the times are written with a point, and long() raises ValueError.
\<close>

theorem monitor_file_unreadable:
  assumes "fs path = Some content" "parse_xml content = Inr doc" "xml_tag doc = ''FlowMonitor''"
    "findall doc ''Ipv4FlowClassifier'' = [classifier]" "findall2 doc ''FlowStats'' ''Flow'' = e # es"
    "unit \<in> set time_units" "written_by_monitor unit e"
  shows "flowmon_main fs [prog, path] = ([], Some ValueError)"
  using assms new_flow_fails[OF assms(6,7)]
  by (simp add: flowmon_main_def simulations_def new_simulation_def add_flow_def)

subsection \<open>The figures\<close>

theorem flow_figures:
  assumes "new_flow e = Inr f" "attr_int e ''rxPackets'' = Inr rx" "0 < rx" "attr_float e ''lostPackets'' = Inr lost" "0 \<le> val lost"
    "attr_int e ''rxBytes'' = Inr bytes" "0 < val (rx_duration f)"
  shows "\<exists>ratio rate. packet_loss_ratio f = Some ratio \<and> 0 \<le> val ratio \<and> val ratio < 1 \<and>
    val ratio * (of_int rx + val lost) = val lost \<and>
    rx_bitrate f = Some rate \<and> val rate * val (rx_duration f) = 8 * of_int bytes"
proof -
  have pos: "0 < of_int rx + val lost" using assms(3,5) by simp
  have loss: "true_div lost (py_add (I rx) lost) = Inr (F (val lost / (of_int rx + val lost)))"
    using pos by (simp add: true_div_def)
  have f: "packet_loss_ratio f = Some (F (val lost / (of_int rx + val lost)))"
    "bitrate e ''rxBytes'' (rx_duration f) = Inr (rx_bitrate f)"
    using assms(1-4) loss by (auto simp: new_flow_def bind_res_eq_Inr when_received_def)
  have "rx_bitrate f = Some (F (of_int (bytes * 8) / val (rx_duration f)))"
    using f(2) assms(6,7) by (auto simp: bitrate_def true_div_def)
  then show ?thesis using f(1) pos assms(3,5,7)
    by (simp add: divide_simps)
qed

subsection \<open>The report\<close>

text \<open>A flow of which every line can be printed.\<close>

definition complete :: "flow \<Rightarrow> bool" where
  "complete f \<longleftrightarrow> tx_bitrate f \<noteq> None \<and> rx_bitrate f \<noteq> None \<and> delay_mean f \<noteq> None \<and> packet_loss_ratio f \<noteq> None \<and>
     (case five_tuple_of f of None \<Rightarrow> False | Some t \<Rightarrow> protocol t = 6 \<or> protocol t = 17)"

definition shown_lines :: "flow \<Rightarrow> string list" where
  "shown_lines f = map (case_sum (\<lambda>_. []) (\<lambda>l. l)) (flow_lines f)"

lemma figure_line_raises: "figure_line label x factor unit = Inl e \<longleftrightarrow> x = None \<and> e = TypeError"
  by (cases x) (auto simp: figure_line_def)

lemma header_line_raises: "(\<exists>e. header_line f = Inl e) \<longleftrightarrow>
  \<not> (case five_tuple_of f of None \<Rightarrow> False | Some t \<Rightarrow> protocol t = 6 \<or> protocol t = 17)"
  by (auto simp: header_line_def protocol_name_def split: option.split)

lemma print_lines_append:
  "print_lines (ls @ ms) = (case print_lines ls of (out, None) \<Rightarrow> apfst ((@) out) (print_lines ms) | (out, Some e) \<Rightarrow> (out, Some e))"
  by (induction ls rule: print_lines.induct) (auto simp: prod_eq_iff split: option.splits prod.splits)

lemma print_lines_ok: "snd (print_lines ls) = None \<longleftrightarrow> (\<forall>l \<in> set ls. \<exists>s. l = Inr s)"
  by (induction ls rule: print_lines.induct) (auto simp: apfst_def map_prod_def split: prod.splits)

lemma print_lines_all: "(\<forall>l \<in> set ls. \<exists>s. l = Inr s) \<Longrightarrow> fst (print_lines ls) = map (case_sum (\<lambda>_. []) (\<lambda>l. l)) ls"
  by (induction ls rule: print_lines.induct) (auto simp: apfst_def map_prod_def split: prod.splits)

lemma flow_lines_ok: "(\<forall>l \<in> set (flow_lines f). \<exists>s. l = Inr s) \<longleftrightarrow> complete f"
proof -
  have ok: "(\<exists>s. l = Inr s) \<longleftrightarrow> \<not> (\<exists>e. l = Inl e)" for l :: "string res" by (cases l) auto
  show ?thesis unfolding ok
    using header_line_raises[of f] by (simp add: flow_lines_def complete_def figure_line_raises) blast
qed

text \<open>The report is complete exactly when every flow is; otherwise it ends within the first flow that is not.\<close>

lemma report_result:
  "print_lines (concat (map flow_lines fs)) =
     (case dropWhile complete fs of
        [] \<Rightarrow> (concat (map shown_lines fs), None)
      | f # _ \<Rightarrow> apfst ((@) (concat (map shown_lines (takeWhile complete fs)))) (print_lines (flow_lines f)))"
proof (induction fs)
  case (Cons f fs)
  show ?case
  proof (cases "complete f")
    case True
    then have "print_lines (flow_lines f) = (shown_lines f, None)"
      using flow_lines_ok[of f] print_lines_ok[of "flow_lines f"] print_lines_all[of "flow_lines f"]
      by (simp add: shown_lines_def prod_eq_iff)
    then have "print_lines (concat (map flow_lines (f # fs))) = apfst ((@) (shown_lines f)) (print_lines (concat (map flow_lines fs)))"
      by (simp add: print_lines_append)
    then show ?thesis using Cons True
      by (cases "dropWhile complete fs") (simp_all add: prod_eq_iff del: dropWhile_eq_Nil_conv)
  next
    case False
    then obtain e where "snd (print_lines (flow_lines f)) = Some e"
      using flow_lines_ok[of f] print_lines_ok[of "flow_lines f"] by auto
    then show ?thesis using False by (cases "print_lines (flow_lines f)") (simp add: print_lines_append apfst_def)
  qed
qed simp

theorem report_ends:
  "(snd (print_lines (concat (map flow_lines fs))) = None \<longleftrightarrow> list_all complete fs) \<and>
   print_lines (concat (map flow_lines fs)) =
     (case dropWhile complete fs of
        [] \<Rightarrow> (concat (map shown_lines fs), None)
      | f # _ \<Rightarrow> apfst ((@) (concat (map shown_lines (takeWhile complete fs)))) (print_lines (flow_lines f)))"
proof
  have "(\<forall>l \<in> set (concat (map flow_lines fs)). \<exists>s. l = Inr s) \<longleftrightarrow> (\<forall>f \<in> set fs. complete f)"
    unfolding flow_lines_ok[symmetric] by auto
  then show "snd (print_lines (concat (map flow_lines fs))) = None \<longleftrightarrow> list_all complete fs"
    unfolding print_lines_ok list_all_iff .
qed (rule report_result)

subsection \<open>Two files\<close>

definition q :: string where "q = [CHR 0x22]"

definition attribute_text :: "string \<Rightarrow> string \<Rightarrow> string" where
  "attribute_text name v = '' '' @ name @ ''='' @ q @ v @ q"

text \<open>A file as the flow monitor writes it, and one with whole nanoseconds.\<close>

definition flow_xml :: "string \<Rightarrow> string" where
  "flow_xml zero =
     ''<Flow'' @ attribute_text ''flowId'' ''1'' @ attribute_text ''timeFirstTxPacket'' (''+1000000000'' @ zero) @
     attribute_text ''timeFirstRxPacket'' (''+1000000000'' @ zero) @ attribute_text ''timeLastTxPacket'' (''+3000000000'' @ zero) @
     attribute_text ''timeLastRxPacket'' (''+3000000000'' @ zero) @ attribute_text ''delaySum'' (''+60000000'' @ zero) @
     attribute_text ''txBytes'' ''4000'' @ attribute_text ''rxBytes'' ''3000'' @ attribute_text ''txPackets'' ''4'' @
     attribute_text ''rxPackets'' ''3'' @ attribute_text ''lostPackets'' ''1'' @ attribute_text ''timesForwarded'' ''3'' @ ''></Flow>''"

definition example_file :: "string \<Rightarrow> string" where
  "example_file zero =
     ''<FlowMonitor><FlowStats>'' @ flow_xml zero @ ''</FlowStats><Ipv4FlowClassifier><Flow'' @
     attribute_text ''flowId'' ''1'' @ attribute_text ''sourceAddress'' ''10.1.1.1'' @ attribute_text ''destinationAddress'' ''10.1.1.2'' @
     attribute_text ''protocol'' ''17'' @ attribute_text ''sourcePort'' ''80'' @ attribute_text ''destinationPort'' ''9'' @
     '' /></Ipv4FlowClassifier></FlowMonitor>''"

lemma example_report:
  "flowmon_main [''flows.xml'' \<mapsto> example_file ''ns''] [''parse'', ''flows.xml''] =
     ([''FlowID: 1 (UDP 10.1.1.1/80 --> 10.1.1.2/9)'', tab # ''TX bitrate: 16.00 kbit/s'', tab # ''RX bitrate: 12.00 kbit/s'',
       tab # ''Mean Delay: 20.00 ms'', tab # ''Packet Loss Ratio: 25.00 %''], None)"
  by code_simp

theorem monitor_file_unreadable_witness:
  "flowmon_main [''flows.xml'' \<mapsto> example_file ''.0ns''] [''parse'', ''flows.xml''] = ([], Some ValueError)"
proof -
  have "case parse_xml (example_file ''.0ns'') of Inl e \<Rightarrow> False
    | Inr doc \<Rightarrow> xml_tag doc = ''FlowMonitor'' \<and> length (findall doc ''Ipv4FlowClassifier'') = 1 \<and>
       (case findall2 doc ''FlowStats'' ''Flow'' of [] \<Rightarrow> False
        | e # es \<Rightarrow> attr e ''flowId'' = Some (show_nat 1) \<and> attr e ''rxPackets'' = Some (show_nat 3) \<and>
            attr e ''txPackets'' = Some (show_nat 4) \<and> attr e ''timeLastTxPacket'' = Some ''+3000000000.0ns'')"
    by code_simp
  moreover have "written_time ''ns'' 3000000000 = ''+3000000000.0ns''"
    by (simp add: written_time_def show_nat.simps digit_char_def, code_simp)
  ultimately obtain doc e es c where
    doc: "parse_xml (example_file ''.0ns'') = Inr doc" "xml_tag doc = ''FlowMonitor''" "findall doc ''Ipv4FlowClassifier'' = [c]"
      "findall2 doc ''FlowStats'' ''Flow'' = e # es" and "written_by_monitor ''ns'' e"
    unfolding written_by_monitor_def length_Suc_conv One_nat_def
    by (auto split: sum.splits list.splits) metis
  then show ?thesis
    using monitor_file_unreadable[OF _ doc, of "[''flows.xml'' \<mapsto> example_file ''.0ns'']" "''flows.xml''" "''ns''"]
    by (simp add: time_units_def)
qed

theorem flow_figures_witness:
  "\<exists>e f ratio. new_flow e = Inr f \<and> packet_loss_ratio f = Some ratio \<and> val ratio * 4 = 1"
proof -
  have "case parse_xml (flow_xml ''ns'') of Inl e \<Rightarrow> False
    | Inr e \<Rightarrow> attr_int e ''rxPackets'' = Inr 3 \<and> attr_float e ''lostPackets'' = Inr (F 1) \<and> attr_int e ''rxBytes'' = Inr 3000 \<and>
        (case new_flow e of Inl x \<Rightarrow> False | Inr f \<Rightarrow> 0 < val (rx_duration f))"
    by code_simp
  then obtain e f where e: "new_flow e = Inr f" "attr_int e ''rxPackets'' = Inr 3" "attr_float e ''lostPackets'' = Inr (F 1)"
    "attr_int e ''rxBytes'' = Inr 3000" "0 < val (rx_duration f)"
    by (auto split: sum.splits)
  then show ?thesis using flow_figures[OF e(1,2) _ e(3) _ e(4,5)] by auto
qed

end
