(* ===== verification/Command_Task.thy ===== *)
theory Command_Task
  imports Shellcmd
begin

section \<open>Command tasks (\<open>command.py\<close>)\<close>

text \<open>
  The waf task that runs a command line after filling in \<open>${NAME...}\<close>.  Evaluating the expression
  in the braces is a parameter; the nodes of waf are the paths that are asked of them.
\<close>

record path_node =
  src_path_of :: string
  bld_path_of :: string
  nice_path_of :: string

text \<open>
  What an expression may be: a node, the list of inputs or of outputs itself, another list, a
  string, \<open>None\<close>, which \<open>re.sub\<close> takes for no text, or something else.
\<close>

datatype arg_value =
    Node_value path_node
  | The_inputs
  | The_outputs
  | List_value "string list"
  | Text_value string
  | None_value
  | Other_value

type_synonym namespace = "(string, arg_value) dict"

record command_task =
  t_inputs :: "path_node list"
  t_outputs :: "path_node list"
  t_command :: command_line
  t_variables :: "namespace option"
  t_env :: namespace

subsection \<open>Substitution\<close>

text \<open>The match of \<open>${NAME...}\<close> after its dollar: the name, the rest up to the brace, and what follows.\<close>

definition reference :: "string \<Rightarrow> (string \<times> string \<times> string) option" where
  "reference s =
     (let var = takeWhile is_word_char (tl s);
          after = drop (length var) (tl s);
          code = takeWhile (\<lambda>c. c \<noteq> CHR ''}'') after
      in if prefix ''{'' s \<and> var \<noteq> [] \<and> newline \<notin> set code \<and> length code < length after
         then Some (var, code, drop (Suc (length code)) after) else None)"

lemma reference_shorter: "reference s = Some (var, code, rest) \<Longrightarrow> length rest < length s"
  by (auto simp: reference_def Let_def split: if_splits)

text \<open>\<open>arg_rx.sub(repl, arg)\<close>\<close>

function subst_text :: "(string \<Rightarrow> string \<Rightarrow> string res) \<Rightarrow> string \<Rightarrow> string res" where
  "subst_text repl [] = Inr []"
| "subst_text repl (c # s) =
     (if c \<noteq> CHR ''$'' then map_value (Cons c) (subst_text repl s)
      else if prefix ''$'' s then map_value (Cons CHR ''$'') (subst_text repl (tl s))
      else case reference s of
             None \<Rightarrow> map_value (Cons c) (subst_text repl s)
           | Some (var, code, rest) \<Rightarrow>
               bind_res (repl var code) (\<lambda>v. map_value (\<lambda>t. v @ t) (subst_text repl rest)))"
  by pat_completeness auto
termination
proof (relation "measure (\<lambda>(repl, s). length s)")
  fix repl :: "string \<Rightarrow> string \<Rightarrow> string res" and c s x y var code rest
  assume "reference s = Some x" "(var, y) = x" "(code, rest) = y"
  then show "((repl, rest), repl, c # s) \<in> measure (\<lambda>(repl, s). length s)"
    using reference_shorter[of s var code rest] by auto
qed auto

declare subst_text.simps(2) [simp del]

definition repl_value :: "command_task \<Rightarrow> (string \<Rightarrow> arg_value res) \<Rightarrow> string \<Rightarrow> string \<Rightarrow> string res" where
  "repl_value task evaluate var code =
     bind_res (evaluate (var @ code)) (\<lambda>v.
       case v of
         Node_value n \<Rightarrow>
           if var = ''TGT'' then Inr (bld_path_of n)
           else if var = ''SRC'' then Inr (src_path_of n) else Inl ValueError
       | The_inputs \<Rightarrow> (case t_inputs task of [n] \<Rightarrow> Inr (src_path_of n) | _ \<Rightarrow> Inl ValueError)
       | The_outputs \<Rightarrow> (case t_outputs task of [n] \<Rightarrow> Inr (bld_path_of n) | _ \<Rightarrow> Inl ValueError)
       | List_value xs \<Rightarrow> (case xs of [x] \<Rightarrow> Inr x | _ \<Rightarrow> Inl AssertionError)
       | Text_value s \<Rightarrow> Inr s
       | None_value \<Rightarrow> Inr []
       | Other_value \<Rightarrow> Inl TypeError)"

definition subst_arg :: "command_task \<Rightarrow> (string \<Rightarrow> arg_value res) \<Rightarrow> string \<Rightarrow> string res" where
  "subst_arg task evaluate arg = subst_text (repl_value task evaluate) arg"

subsection \<open>Running\<close>

text \<open>The names that expressions can use.\<close>

definition task_namespace :: "command_task \<Rightarrow> namespace" where
  "task_namespace task =
     (let ns = (case t_variables task of None \<Rightarrow> t_env task | Some vars \<Rightarrow> foldl (\<lambda>d (k, v). dict_put k v d) (t_env task) vars)
      in dict_put ''TGT'' The_outputs (dict_put ''SRC'' The_inputs (dict_put ''env'' Other_value ns)))"

definition opt_res :: "('a \<Rightarrow> 'b res) \<Rightarrow> 'a option \<Rightarrow> 'b option res" where
  "opt_res f x = (case x of None \<Rightarrow> Inr None | Some y \<Rightarrow> map_value Some (f y))"

definition subst_stdout :: "(string \<Rightarrow> string res) \<Rightarrow> out_target \<Rightarrow> out_target res" where
  "subst_stdout f target = (case target of To_file s \<Rightarrow> map_value To_file (f s) | _ \<Rightarrow> Inr target)"

definition subst_stderr :: "(string \<Rightarrow> string res) \<Rightarrow> err_target \<Rightarrow> err_target res" where
  "subst_stderr f target = (case target of Err_file s \<Rightarrow> map_value Err_file (f s) | _ \<Rightarrow> Inr target)"

text \<open>A command with its strings substituted, in the order of the code; \<open>ord\<close> is that of the dictionary.\<close>

definition subst_command ::
  "((string, string) dict \<Rightarrow> (string, string) dict) \<Rightarrow> (string \<Rightarrow> string res) \<Rightarrow> command \<Rightarrow> command res" where
  "subst_command ord f c =
     bind_res (opt_res f (c_stdin c)) (\<lambda>stdin.
     bind_res (opt_res (subst_stdout f) (c_stdout c)) (\<lambda>stdout.
     bind_res (opt_res (subst_stderr f) (c_stderr c)) (\<lambda>stderr.
     bind_res (traverse_res f (c_argv c)) (\<lambda>argv.
     bind_res (opt_res (\<lambda>vars. traverse_res (\<lambda>(k, v). map_value (Pair k) (f v)) (ord vars)) (c_env c)) (\<lambda>env.
       Inr (c\<lparr>c_stdin := stdin, c_stdout := stdout, c_stderr := stderr, c_argv := argv, c_env := env\<rparr>))))))"

definition subst_node ::
  "((string, string) dict \<Rightarrow> (string, string) dict) \<Rightarrow> (string \<Rightarrow> string res) \<Rightarrow> node \<Rightarrow> node res" where
  "subst_node ord f n =
     (case n of
        Command c \<Rightarrow> map_value Command (subst_command ord f c)
      | Chdir None \<Rightarrow> Inl TypeError
      | Chdir (Some d) \<Rightarrow> map_value (\<lambda>d. Chdir (Some d)) (f d)
      | _ \<Rightarrow> Inr n)"

definition run_task ::
  "(popen \<Rightarrow> int) \<Rightarrow> ((string, string) dict \<Rightarrow> (string, string) dict) \<Rightarrow> (string, string) dict \<Rightarrow> bool \<Rightarrow>
   (namespace \<Rightarrow> string \<Rightarrow> arg_value res) \<Rightarrow> command_task \<Rightarrow> run_state \<times> int option res" where
  "run_task wait ord environ verbose eval_in task =
     (case bind_res (parse (t_command task)) (traverse_res (subst_node ord (subst_arg task (eval_in (task_namespace task))))) of
        Inl e \<Rightarrow> (start_state, Inl e)
      | Inr nodes \<Rightarrow> run wait ord environ verbose nodes)"

text \<open>\<open>__str__\<close>\<close>

definition task_str :: "command_task \<Rightarrow> string res" where
  "task_str task =
     map_value (\<lambda>nodes.
         ln (''command ('' @ get_abbreviated_command nodes @ ''): '' @ join '' '' (map nice_path_of (t_inputs task)) @
             (if t_outputs task \<noteq> [] then '' -> '' else []) @ join '' '' (map nice_path_of (t_outputs task))))
       (parse (t_command task))"

subsection \<open>What substitution does\<close>

datatype piece = Words string | Dollar | Reference string string

fun show_piece :: "piece \<Rightarrow> string" where
  "show_piece (Words s) = s"
| "show_piece Dollar = ''$$''"
| "show_piece (Reference var code) = ''${'' @ var @ code @ ''}''"

fun wf_piece :: "piece \<Rightarrow> bool" where
  "wf_piece (Words s) = (CHR ''$'' \<notin> set s)"
| "wf_piece Dollar = True"
| "wf_piece (Reference var code) =
     (var \<noteq> [] \<and> list_all is_word_char var \<and> (code = [] \<or> \<not> is_word_char (hd code)) \<and>
      CHR ''}'' \<notin> set code \<and> newline \<notin> set code)"

fun piece_value :: "(string \<Rightarrow> string \<Rightarrow> string res) \<Rightarrow> piece \<Rightarrow> string res" where
  "piece_value repl (Words s) = Inr s"
| "piece_value repl Dollar = Inr ''$''"
| "piece_value repl (Reference var code) = repl var code"

lemma brace_no_word [simp]: "\<not> is_word_char (CHR ''}'')"
  by (simp add: is_word_char_def)

lemma reference_shown:
  assumes "wf_piece (Reference var code)"
  shows "reference (''{'' @ var @ code @ ''}'' @ rest) = Some (var, code, rest)"
proof -
  have var: "takeWhile is_word_char (var @ code @ ''}'' @ rest) = var"
    using assms by (cases code) (simp_all add: takeWhile_append list_all_iff)
  have "takeWhile (\<lambda>c. c \<noteq> CHR ''}'') (code @ ''}'' @ rest) = code"
    using assms take_drop_until(1)[of "CHR ''}''" code rest] by simp
  then show ?thesis using assms var by (simp add: reference_def Let_def)
qed

lemma subst_words: "CHR ''$'' \<notin> set s \<Longrightarrow> subst_text repl (s @ t) = map_value (\<lambda>u. s @ u) (subst_text repl t)"
  by (induction s) (cases "subst_text repl t"; auto simp: subst_text.simps(2))+

lemma subst_piece:
  "wf_piece p \<Longrightarrow> subst_text repl (show_piece p @ t) = bind_res (piece_value repl p) (\<lambda>v. map_value (\<lambda>u. v @ u) (subst_text repl t))"
proof (cases p)
  case (Reference var code)
  assume "wf_piece p"
  with reference_shown[of var code t] show ?thesis
    by (simp add: Reference subst_text.simps(2))
next
  case Dollar
  then show ?thesis by (cases "subst_text repl t") (simp_all add: subst_text.simps(2))
qed (simp add: subst_words)

lemma subst_pieces:
  "list_all wf_piece ps \<Longrightarrow>
   subst_text repl (concat (map show_piece ps)) = map_value concat (traverse_res (piece_value repl) ps)"
proof (induction ps)
  case (Cons p ps)
  then show ?case
    by (cases "piece_value repl p"; cases "traverse_res (piece_value repl) ps") (simp_all add: subst_piece)
qed simp

text \<open>
  An argument made of plain text, doubled dollars and references stands for the text, a dollar
  and the values in their place; the first reference without a value raises.
\<close>

text \<open>
  C31: Substituting an argument built from words, doubled dollars and references gives the
  words, single dollars and the values of the references, and raises exactly when a reference
  has none.
\<close>

theorem subst_arg_pieces:
  assumes "list_all wf_piece ps"
  shows "subst_arg task evaluate (concat (map show_piece ps)) =
    map_value concat (traverse_res (piece_value (repl_value task evaluate)) ps)"
  unfolding subst_arg_def by (rule subst_pieces[OF assms])

text \<open>Any text can be passed through.\<close>

definition double_dollars :: "string \<Rightarrow> string" where
  "double_dollars s = concat (map (\<lambda>c. if c = CHR ''$'' then ''$$'' else [c]) s)"

theorem literal_argument: "subst_arg task evaluate (double_dollars s) = Inr s"
proof (induction s)
  case (Cons c s)
  then show ?case by (simp add: double_dollars_def subst_arg_def subst_text.simps(2))
qed (simp add: double_dollars_def subst_arg_def)

subsection \<open>What a task runs\<close>

lemma subst_node_kind:
  "subst_node ord f n = Inr n' \<Longrightarrow> runnable (n' # rest) = runnable (n # rest)"
  by (cases n; cases rest) (auto simp: subst_node_def map_value_eq_Inr split: option.splits)

lemma subst_operator: "n \<in> {Pipe, And, Or} \<Longrightarrow> subst_node ord f n = Inr n"
  by (auto simp: subst_node_def)

lemma subst_runnable:
  "runnable nodes \<Longrightarrow> traverse_res (subst_node ord f) nodes = Inr nodes' \<Longrightarrow> runnable nodes'"
proof (induction nodes arbitrary: nodes' rule: runnable.induct)
  case (2 n)
  then show ?case using subst_node_kind[of ord f n _ "[]"] by (auto simp: bind_res_eq_Inr map_value_eq_Inr)
next
  case (3 n operator rest)
  then have "operator \<in> {Pipe, And, Or}" by (cases n) auto
  then obtain n' rest' where n': "subst_node ord f n = Inr n'" "traverse_res (subst_node ord f) rest = Inr rest'"
    "nodes' = n' # operator # rest'"
    using 3(3) subst_operator[of operator ord f] by (auto simp: bind_res_eq_Inr map_value_eq_Inr)
  have "runnable (n' # operator # rest') = runnable (n # operator # rest')" by (rule subst_node_kind[OF n'(1)])
  moreover have "runnable rest'" using 3 n'(2) by simp
  ultimately show ?case using 3(2) n'(3) by simp
qed simp

text \<open>
  A task whose substitutions succeed runs the processes of the substituted pipeline, as its groups
  prescribe; if a substitution raises, nothing is started.
\<close>

text \<open>
  C12: Running a command task starts and waits for exactly the processes of the groups of its
  substituted pipeline, with the result that these groups have, verbose or not; when parsing or
  substituting fails it fails with that error and starts nothing.
\<close>

theorem run_task_refines:
  "case run_task wait ord environ verbose eval_in task of (st, r) \<Rightarrow>
     (case bind_res (parse (t_command task))
             (traverse_res (subst_node ord (subst_arg task (eval_in (task_namespace task))))) of
        Inl e \<Rightarrow> r = Inl e \<and> started (trace st) = [] \<and> waited (trace st) = []
      | Inr nodes \<Rightarrow>
          (started (trace st), waited (trace st), r) = run_groups verbose wait (groups environ ''.'' [] nodes))"
proof -
  let ?subst = "traverse_res (subst_node ord (subst_arg task (eval_in (task_namespace task))))"
  have "runnable nodes'" if "parse (t_command task) = Inr nodes" "?subst nodes = Inr nodes'" for nodes nodes'
    using subst_runnable[OF wf_pipeline_runnable[OF parsed_wf[OF that(1)]] that(2)] .
  then show ?thesis using run_outcome[where wait = wait and ord = ord and environ = environ and verbose = verbose]
    by (cases "parse (t_command task)")
      (auto simp: run_task_def start_state_def split: sum.splits)
qed

definition example_task :: command_task where
  "example_task =
     \<lparr>t_inputs = [\<lparr>src_path_of = ''src/gen.py'', bld_path_of = ''/b/gen.py'', nice_path_of = ''gen.py''\<rparr>],
      t_outputs = [\<lparr>src_path_of = ''out.cc'', bld_path_of = ''/b/out.cc'', nice_path_of = ''out.cc''\<rparr>],
      t_command = Token_list [''${PYTHON}'', ''${SRC}'', ''>'', ''${TGT}''], t_variables = None,
      t_env = [(''PYTHON'', List_value [''python2''])]\<rparr>"

definition lookup_only :: "namespace \<Rightarrow> string \<Rightarrow> arg_value res" where
  "lookup_only ns expression = (case map_of ns expression of None \<Rightarrow> Inl NameError | Some v \<Rightarrow> Inr v)"

theorem subst_arg_pieces_witness:
  "subst_arg example_task (lookup_only (task_namespace example_task)) ''cost $$5 for ${SRC}'' = Inr ''cost $5 for src/gen.py''"
proof -
  have "list_all wf_piece [Words ''cost '', Dollar, Words ''5 for '', Reference ''SRC'' []]" by code_simp
  note subst_arg_pieces[OF this, of example_task "lookup_only (task_namespace example_task)"]
  moreover have "concat (map show_piece [Words ''cost '', Dollar, Words ''5 for '', Reference ''SRC'' []]) = ''cost $$5 for ${SRC}''"
    by simp
  moreover have "map_value concat (traverse_res (piece_value (repl_value example_task (lookup_only (task_namespace example_task))))
      [Words ''cost '', Dollar, Words ''5 for '', Reference ''SRC'' []]) = Inr ''cost $5 for src/gen.py''" by code_simp
  ultimately show ?thesis by (simp only:)
qed

theorem run_task_refines_witness:
  "case run_task (\<lambda>p. 0) id [] False lookup_only example_task of (st, r) \<Rightarrow>
     r = Inr (Some 0) \<and> map p_argv (started (trace st)) = [[''python2'', ''src/gen.py'']]"
proof -
  have "bind_res (parse (t_command example_task))
      (traverse_res (subst_node id (subst_arg example_task (lookup_only (task_namespace example_task))))) =
      Inr [Command ((new_command ''${PYTHON}'')\<lparr>c_argv := [''python2'', ''src/gen.py''], c_stdout := Some (To_file ''/b/out.cc'')\<rparr>)]"
    by code_simp
  with run_task_refines[where wait = "\<lambda>p. 0" and ord = id and environ = "[]" and verbose = False and
      eval_in = lookup_only and task = example_task]
  show ?thesis by (auto simp: Let_def process_of_def group_code_def split: prod.splits)
qed

end
