(* ===== verification/Misc_Tools.thy ===== *)
theory Misc_Tools
  imports Command_Task Py_Format
begin

section \<open>Copying, substituting and command output (\<open>misc.py\<close>)\<close>

text \<open>
  The waf tools of \<^verbatim>\<open>waf-tools/misc.py\<close>.  What waf finds for a name is a parameter, and a node is the
  paths that are asked of it.  Left out are the hash of the dictionary, which only triggers
  rebuilds, and the modes of copied files.  The tasks of a generator run one after the other, in the
  order of its files; waf may run them in parallel.
\<close>

subsection \<open>Substituting variables in a file\<close>

text \<open>The matches of \<open>@(\w+)@\<close>: the name after the at sign, and what follows.\<close>

definition at_name :: "string \<Rightarrow> (string \<times> string) option" where
  "at_name s =
     (let name = takeWhile is_word_char s
      in if name \<noteq> [] \<and> prefix ''@'' (drop (length name) s) then Some (name, drop (Suc (length name)) s) else None)"

lemma at_name_shorter: "at_name s = Some (name, rest) \<Longrightarrow> length rest < length s"
  by (cases s) (auto simp: at_name_def Let_def split: if_splits)

function m4_sub :: "(string \<Rightarrow> string) \<Rightarrow> string \<Rightarrow> string" where
  "m4_sub f [] = []"
| "m4_sub f (c # s) =
     (case (if c = CHR ''@'' then at_name s else None) of
        None \<Rightarrow> c # m4_sub f s
      | Some (name, rest) \<Rightarrow> f name @ m4_sub f rest)"
  by pat_completeness auto
termination
  by (relation "measure (\<lambda>(f, s). length s)") (auto split: if_splits dest: at_name_shorter)

function m4_names :: "string \<Rightarrow> string list" where
  "m4_names [] = []"
| "m4_names (c # s) =
     (case (if c = CHR ''@'' then at_name s else None) of
        None \<Rightarrow> m4_names s
      | Some (name, rest) \<Rightarrow> name # m4_names rest)"
  by pat_completeness auto
termination
  by (relation "measure length") (auto split: if_splits dest: at_name_shorter)

declare m4_sub.simps(2) [simp del] m4_names.simps(2) [simp del]

definition double_percents :: "string \<Rightarrow> string" where
  "double_percents s = concat (map (\<lambda>c. if c = CHR ''%'' then ''%%'' else [c]) s)"

text \<open>
  \<open>subst_func\<close> on the text of a file; \<open>flat\<close> is \<open>env.get_flat\<close>.  The dictionary of the task
  generator is changed if it was empty.
\<close>

definition flat_value :: "(string \<Rightarrow> string) \<Rightarrow> string \<Rightarrow> string" where
  "flat_value flat i = (if flat i \<noteq> [] then flat i else flat (upper i))"

definition subst_func :: "(string \<Rightarrow> string) \<Rightarrow> string \<Rightarrow> (string, string) dict \<Rightarrow> string res \<times> (string, string) dict" where
  "subst_func flat content di =
     (let code = double_percents content;
          s = m4_sub str_directive code;
          di = (if di = [] then foldl (\<lambda>d i. dict_put i (flat_value flat i) d) di (m4_names code) else di)
      in (format di s, di))"

text \<open>The tasks of one generator share its dictionary.\<close>

fun subst_tasks :: "(string \<Rightarrow> string) \<Rightarrow> (string, string) dict \<Rightarrow> string list \<Rightarrow> string res list" where
  "subst_tasks flat di [] = []"
| "subst_tasks flat di (content # contents) =
     (case subst_func flat content di of (r, di) \<Rightarrow> r # subst_tasks flat di contents)"

subsection \<open>Generators\<close>

text \<open>A task that \<open>apply_copy\<close> or \<open>apply_subst\<close> creates: from which node to which.\<close>

definition not_found :: "string \<Rightarrow> py_error" where
  "not_found filename = WafError (''cannot find input file '' @ filename @ '' for processing'')"

definition apply_copy ::
  "(string \<Rightarrow> path_node option) \<Rightarrow> (string \<Rightarrow> path_node) \<Rightarrow> (path_node \<Rightarrow> string) \<Rightarrow> string list \<Rightarrow> string \<Rightarrow>
   (path_node \<times> path_node) list res" where
  "apply_copy find_resource find_or_declare name_of lst self_target =
     traverse_res (\<lambda>filename.
         case find_resource filename of
           None \<Rightarrow> Inl (not_found filename)
         | Some n \<Rightarrow> Inr (n, find_or_declare (if self_target = [] \<or> 1 < length lst then name_of n else self_target)))
       lst"

definition apply_subst ::
  "(string \<Rightarrow> path_node option) \<Rightarrow> (string \<Rightarrow> path_node) \<Rightarrow> (path_node \<Rightarrow> path_node) \<Rightarrow> string list \<Rightarrow> string \<Rightarrow>
   (path_node \<times> path_node) list res" where
  "apply_subst find_resource find_or_declare drop_ext lst self_target =
     traverse_res (\<lambda>filename.
         case find_resource filename of
           None \<Rightarrow> Inl (not_found filename)
         | Some n \<Rightarrow> Inr (n, if self_target \<noteq> [] then find_or_declare self_target else drop_ext n))
       lst"

text \<open>\<open>copy_attrs\<close>: attributes are dictionaries; \<open>truthy\<close> says what counts as set, \<open>unset\<close> is \<open>()\<close>.\<close>

definition copy_attrs ::
  "('v \<Rightarrow> bool) \<Rightarrow> 'v \<Rightarrow> (string, 'v) dict \<Rightarrow> (string, 'v) dict \<Rightarrow> string list \<Rightarrow> bool \<Rightarrow> (string, 'v) dict" where
  "copy_attrs truthy unset orig dest names only_if_set =
     foldl (\<lambda>d a. let u = (case map_of orig a of None \<Rightarrow> unset | Some u \<Rightarrow> u)
                  in if truthy u \<or> \<not> only_if_set then dict_put a u d else d) dest names"

subsection \<open>Command output\<close>

text \<open>
  An argument: a word, or a file or directory with a template for its path.  \<open>path_of\<close> below
  gives the source and build paths of a node, and its absolute path is the third.
\<close>

record tree_node =
  srcpath :: string
  bldpath :: string
  node_abspath :: string

datatype arg_kind = Input_file | Output_file | Input_dir | Output_dir

record cmd_arg =
  a_kind :: arg_kind
  a_name :: string
  a_template :: string
  a_node :: "tree_node option"

datatype cmd_word = Word string | Arg cmd_arg

record lookup =
  find_resource :: "string \<Rightarrow> tree_node option"
  find_or_declare :: "string \<Rightarrow> tree_node option"
  find_dir :: "string \<Rightarrow> tree_node option"

text \<open>
  \<open>find_node\<close>: the message for a missing node has one directive for two values, so making it
  raises \<open>TypeError\<close> before there is a \<open>WafError\<close>.
\<close>

definition find_node :: "lookup \<Rightarrow> cmd_arg \<Rightarrow> cmd_arg res" where
  "find_node base arg =
     (let found = (case a_kind arg of
                     Input_file \<Rightarrow> find_resource base (a_name arg)
                   | Output_file \<Rightarrow> find_or_declare base (a_name arg)
                   | _ \<Rightarrow> find_dir base (a_name arg))
      in case found of None \<Rightarrow> Inl TypeError | Some n \<Rightarrow> Inr (arg\<lparr>a_node := Some n\<rparr>))"

definition get_path :: "bool \<Rightarrow> cmd_arg \<Rightarrow> string res" where
  "get_path absolute arg =
     (case a_node arg of
        None \<Rightarrow> Inl AttributeError
      | Some n \<Rightarrow>
          percent (a_template arg)
            [case a_kind arg of
               Input_file \<Rightarrow> if absolute then node_abspath n else srcpath n
             | Output_file \<Rightarrow> if absolute then node_abspath n else bldpath n
             | _ \<Rightarrow> node_abspath n])"

datatype command_word = External string | Program tree_node

record output_task =
  o_command :: command_word
  o_args :: "cmd_word list"
  o_stdin :: "tree_node option"
  o_stdout :: "tree_node option"
  o_stderr :: "tree_node option"
  o_cwd :: "string option"
  o_env :: "(string, string) dict option"
  o_inputs :: "tree_node list"
  o_outputs :: "tree_node list"

text \<open>What \<open>Popen\<close> is called with: the words, the files, the directory and the environment.\<close>

record popen_call =
  pc_argv :: "string list"
  pc_stdin :: "string option"
  pc_stdout :: "string option"
  pc_stderr :: "string option"
  pc_cwd :: "string option"
  pc_env :: "(string, string) dict"

definition shown_path :: "output_task \<Rightarrow> tree_node \<Rightarrow> string" where
  "shown_path task n = (if o_cwd task = None then bldpath n else node_abspath n)"

definition run_output :: "(string, string) dict \<Rightarrow> (popen_call \<Rightarrow> int) \<Rightarrow> output_task \<Rightarrow> (popen_call \<times> int) res" where
  "run_output environ wait task =
     map_value (\<lambda>args.
         let call = \<lparr>pc_argv = (case o_command task of External s \<Rightarrow> s | Program n \<Rightarrow> shown_path task n) # args,
                pc_stdin = map_option (shown_path task) (o_stdin task),
                pc_stdout = map_option (shown_path task) (o_stdout task),
                pc_stderr = map_option (shown_path task) (o_stderr task), pc_cwd = o_cwd task,
                pc_env = (case o_env task of None \<Rightarrow> environ | Some env \<Rightarrow> env)\<rparr>
         in (call, wait call))
       (traverse_res (\<lambda>arg. case arg of Word s \<Rightarrow> Inr s | Arg a \<Rightarrow> get_path (o_cwd task \<noteq> None) a) (o_args task))"

text \<open>The attributes of a generator; \<open>no_inputs\<close> and \<open>no_outputs\<close> count as false when they are missing.\<close>

record output_gen =
  g_command :: "string option"
  g_external :: bool
  g_argv :: "cmd_word list"
  g_stdin :: "string option"
  g_stdout :: "string option"
  g_stderr :: "string option"
  g_hidden_inputs :: "string list"
  g_hidden_outputs :: "string list"
  g_cwd :: "cmd_arg option"
  g_os_env :: "(string, string) dict option"
  g_no_inputs :: bool
  g_no_outputs :: bool

definition new_output_gen :: output_gen where
  "new_output_gen =
     \<lparr>g_command = None, g_external = False, g_argv = [], g_stdin = None, g_stdout = None, g_stderr = None,
      g_hidden_inputs = [], g_hidden_outputs = [], g_cwd = None, g_os_env = None, g_no_inputs = False, g_no_outputs = False\<rparr>"

definition file_not_found :: "string \<Rightarrow> py_error" where
  "file_not_found name = WafError (''File '' @ name @ '' not found'')"

text \<open>A file that is found by \<open>find_file\<close>, if there is a name at all\<close>

definition opt_node :: "(string \<Rightarrow> tree_node option) \<Rightarrow> string option \<Rightarrow> tree_node option res" where
  "opt_node find_file name =
     (case name of
        None \<Rightarrow> Inr None
      | Some f \<Rightarrow> (case find_file f of None \<Rightarrow> Inl (file_not_found f) | Some n \<Rightarrow> Inr (Some n)))"

definition hidden_nodes :: "string \<Rightarrow> (string \<Rightarrow> tree_node option) \<Rightarrow> string list \<Rightarrow> tree_node list res" where
  "hidden_nodes dir find_file names =
     traverse_res (\<lambda>f. case find_file f of
         None \<Rightarrow> Inl (WafError (''File '' @ f @ '' not found in dir '' @ dir)) | Some n \<Rightarrow> Inr n) names"

definition resolve_args :: "lookup \<Rightarrow> cmd_word list \<Rightarrow> cmd_word list res" where
  "resolve_args base args =
     traverse_res (\<lambda>arg. case arg of Word s \<Rightarrow> Inr (Word s) | Arg a \<Rightarrow> map_value Arg (find_node base a)) args"

definition nodes_of_kind :: "arg_kind \<Rightarrow> cmd_word list \<Rightarrow> tree_node list" where
  "nodes_of_kind kind args =
     concat (map (\<lambda>arg. case arg of
         Arg a \<Rightarrow> (case a_node a of Some n \<Rightarrow> if a_kind a = kind then [n] else [] | None \<Rightarrow> []) | Word s \<Rightarrow> []) args)"

definition find_command :: "lookup \<Rightarrow> output_gen \<Rightarrow> command_word res" where
  "find_command base gen =
     (case g_command gen of
        None \<Rightarrow> Inl (WafError ''command-output missing command'')
      | Some c \<Rightarrow>
          if g_external gen then Inr (External c)
          else case find_resource base c of None \<Rightarrow> Inl AssertionError | Some n \<Rightarrow> Inr (Program n))"

definition at_least_one :: "string \<Rightarrow> tree_node list \<Rightarrow> bool \<Rightarrow> tree_node list res" where
  "at_least_one what nodes none_wanted =
     (if nodes = [] \<and> \<not> none_wanted
      then Inl (WafError (''command-output objects must have at least one '' @ what @ '' file or give self.no_'' @ what @ ''s''))
      else Inr nodes)"

text \<open>
  \<open>apply_cmd_output\<close>; \<open>variant_dir\<close> is the directory of the build, which becomes the directory
  of the command whatever \<open>cwd\<close> was asked for.
\<close>

definition apply_cmd_output :: "lookup \<Rightarrow> string \<Rightarrow> string \<Rightarrow> output_gen \<Rightarrow> output_task res" where
  "apply_cmd_output base dir variant_dir gen =
     bind_res (find_command base gen) (\<lambda>cmd.
     bind_res (resolve_args base (g_argv gen)) (\<lambda>args.
     bind_res (opt_node (find_or_declare base) (g_stdout gen)) (\<lambda>stdout.
     bind_res (opt_node (find_or_declare base) (g_stderr gen)) (\<lambda>stderr.
     bind_res (opt_node (find_resource base) (g_stdin gen)) (\<lambda>stdin.
     bind_res (hidden_nodes dir (find_resource base) (g_hidden_inputs gen)) (\<lambda>hidden_ins.
     bind_res (hidden_nodes dir (find_or_declare base) (g_hidden_outputs gen)) (\<lambda>hidden_outs.
     bind_res (at_least_one ''input'' (nodes_of_kind Input_file args @ map the (filter (\<lambda>x. x \<noteq> None) [stdin]) @ hidden_ins)
         (g_no_inputs gen)) (\<lambda>inputs.
     bind_res (at_least_one ''output'' (nodes_of_kind Output_file args @
           map the (filter (\<lambda>x. x \<noteq> None) [stdout, stderr]) @ hidden_outs) (g_no_outputs gen)) (\<lambda>outputs.
       Inr \<lparr>o_command = cmd, o_args = args, o_stdin = stdin, o_stdout = stdout, o_stderr = stderr,
         o_cwd = Some variant_dir, o_env = g_os_env gen, o_inputs = inputs, o_outputs = outputs\<rparr>)))))))))"

subsection \<open>What substitution gives\<close>

lemma percent_no_word [simp]: "\<not> is_word_char (CHR ''%'')"
  by (simp add: is_word_char_def)

lemma paren_no_word [simp]: "\<not> is_word_char (CHR '')'')"
  by (simp add: is_word_char_def)

lemma double_percents_simps [simp]:
  "double_percents [] = []"
  "double_percents (c # s) = (if c = CHR ''%'' then CHR ''%'' # CHR ''%'' # double_percents s else c # double_percents s)"
  by (simp_all add: double_percents_def)

lemma words_double_percents: "takeWhile is_word_char (double_percents s) = takeWhile is_word_char s"
  by (induction s) auto

lemma drop_double_percents:
  "drop (length (takeWhile is_word_char s)) (double_percents s) = double_percents (drop (length (takeWhile is_word_char s)) s)"
  by (induction s) auto

lemma double_percents_at: "prefix ''@'' (double_percents s) \<longleftrightarrow> prefix ''@'' s"
  by (cases s) auto

lemma double_percents_tl: "prefix ''@'' s \<Longrightarrow> tl (double_percents s) = double_percents (tl s)"
  by (cases s) auto

lemma at_name_double: "at_name (double_percents s) = map_option (\<lambda>(n, rest). (n, double_percents rest)) (at_name s)"
  using double_percents_tl[of "drop (length (takeWhile is_word_char s)) s"] drop_double_percents[of s]
  by (auto simp: at_name_def Let_def words_double_percents double_percents_at drop_Suc simp flip: tl_drop)

lemma at_name_word: "at_name s = Some (n, rest) \<Longrightarrow> n \<noteq> [] \<and> (\<forall>c \<in> set n. is_word_char c)"
  by (auto simp: at_name_def Let_def dest: set_takeWhileD split: if_splits)

lemma m4_names_double: "m4_names (double_percents s) = m4_names s"
proof (induction s rule: m4_names.induct)
  case (2 c s)
  then show ?case
    by (auto simp: m4_names.simps(2) at_name_double split: option.split)
qed simp

lemma m4_sub_no_names: "m4_names s = [] \<Longrightarrow> m4_sub f s = s"
  by (induction s rule: m4_names.induct) (auto simp: m4_names.simps(2) m4_sub.simps(2) split: option.splits if_splits)

lemma m4_sub_cong: "(\<And>n. n \<in> set (m4_names s) \<Longrightarrow> f n = g n) \<Longrightarrow> m4_sub f s = m4_sub g s"
  by (induction s rule: m4_names.induct) (auto simp: m4_names.simps(2) m4_sub.simps(2) split: option.splits if_splits)

lemma format_m4_sub:
  "format d (m4_sub str_directive (double_percents s)) =
     (if set (m4_names s) \<subseteq> set (dict_keys d) then Inr (m4_sub (\<lambda>name. the (map_of d name)) s) else Inl KeyError)"
proof (induction s rule: m4_names.induct)
  case (2 c s)
  show ?case
  proof (cases "if c = CHR ''@'' then at_name s else None")
    case None
    then show ?thesis using 2(1)[OF None]
      by (cases "set (m4_names s) \<subseteq> set (dict_keys d)")
        (simp_all add: m4_names.simps(2) m4_sub.simps(2) at_name_double format.simps(2) split: if_splits)
  next
    case (Some p)
    then obtain n rest where p: "p = (n, rest)" and c: "c = CHR ''@''" "at_name s = Some (n, rest)"
      by (cases p) (auto split: if_splits)
    have "CHR '')'' \<notin> set n" using at_name_word[OF c(2)] by auto
    note step = format_directive(1)[OF this]
    have keys: "n \<in> set (dict_keys d) \<longleftrightarrow> map_of d n \<noteq> None" using dict_has_iff by metis
    show ?thesis
    proof (cases "map_of d n")
      case None
      then show ?thesis using 2(2)[OF Some p[symmetric]] c step keys
        by (simp add: m4_names.simps(2) m4_sub.simps(2) at_name_double dict_get_def)
    next
      case (Some v)
      then show ?thesis using 2(2)[OF \<open>_ = Some p\<close> p[symmetric]] c step keys
        by (simp add: m4_names.simps(2) m4_sub.simps(2) at_name_double dict_get_def)
    qed
  qed
qed simp

definition value_table :: "(string \<Rightarrow> string) \<Rightarrow> string list \<Rightarrow> (string, string) dict" where
  "value_table flat names = foldl (\<lambda>d i. dict_put i (flat_value flat i) d) [] names"

lemma foldl_put:
  "set (dict_keys (foldl (\<lambda>d i. dict_put i (v i) d) d names)) = set (dict_keys d) \<union> set names"
  "k \<in> set names \<Longrightarrow> map_of (foldl (\<lambda>d i. dict_put i (v i) d) d names) k = Some (v k)"
proof (induction names arbitrary: d)
  case (Cons n names)
  { case 1 show ?case using Cons.IH(1) by (auto simp: keys_dict_put dict_has_iff) }
  { case 2 show ?case
    proof (cases "k \<in> set names")
      case False
      moreover have "map_of (foldl (\<lambda>d i. dict_put i (v i) d) d' names) k = map_of d' k" if "k \<notin> set names" for d'
        using that by (induction names arbitrary: d') auto
      ultimately show ?thesis using 2 by simp
    qed (simp add: Cons.IH(2)) }
qed simp_all

lemma value_table_keys: "set (dict_keys (value_table flat names)) = set names"
  using foldl_put(1)[of "flat_value flat" "[]" names] by (simp add: value_table_def dict_keys_def)

lemma value_table_value: "k \<in> set names \<Longrightarrow> map_of (value_table flat names) k = Some (flat_value flat k)"
  by (simp add: value_table_def foldl_put)

lemma value_table_empty: "value_table flat names = [] \<longleftrightarrow> names = []"
proof
  assume "value_table flat names = []"
  then show "names = []" using value_table_keys[of flat names] by (simp add: dict_keys_def)
qed (simp add: value_table_def)

lemma subst_func_empty:
  "subst_func flat content [] = (Inr (m4_sub (flat_value flat) content), value_table flat (m4_names content))"
proof -
  have "m4_sub (\<lambda>name. the (map_of (value_table flat (m4_names content)) name)) content = m4_sub (flat_value flat) content"
    by (intro m4_sub_cong) (simp add: value_table_value)
  then show ?thesis
    by (simp add: subst_func_def Let_def m4_names_double format_m4_sub value_table_keys flip: value_table_def)
qed

text \<open>
  The dictionary that the files of a generator are filled from, one after the other: its own, or
  else the names of the first file that has any, with their values in the environment.
\<close>

definition shared_table :: "(string \<Rightarrow> string) \<Rightarrow> (string, string) dict \<Rightarrow> string list \<Rightarrow> (string, string) dict" where
  "shared_table flat di contents =
     (if di \<noteq> [] then di
      else case dropWhile (\<lambda>t. m4_names t = []) contents of
             [] \<Rightarrow> []
           | first # rest \<Rightarrow> map (\<lambda>n. (n, flat_value flat n)) (m4_names first))"

definition filled :: "(string, string) dict \<Rightarrow> string \<Rightarrow> string res" where
  "filled table t = (if set (m4_names t) \<subseteq> set (dict_keys table) then Inr (m4_sub (\<lambda>n. the (map_of table n)) t) else Inl KeyError)"

lemma dict_keys_dom: "set (dict_keys d) = dom (map_of d)"
proof -
  have "k \<in> set (dict_keys d) \<longleftrightarrow> map_of d k \<noteq> None" for k using dict_has_iff by metis
  then show ?thesis by auto
qed

lemma subst_tasks_given: "di \<noteq> [] \<Longrightarrow> subst_tasks flat di contents = map (filled di) contents"
  by (induction contents) (simp_all add: subst_func_def Let_def format_m4_sub filled_def)

lemma filled_cong: "map_of table = map_of table' \<Longrightarrow> filled table t = filled table' t"
  by (simp add: filled_def dict_keys_dom)

lemma value_table_map: "map_of (value_table flat names) = map_of (map (\<lambda>n. (n, flat_value flat n)) names)"
proof
  fix k
  show "map_of (value_table flat names) k = map_of (map (\<lambda>n. (n, flat_value flat n)) names) k"
  proof (cases "k \<in> set names")
    case False
    then have "k \<notin> dom (map_of (value_table flat names))" using value_table_keys dict_keys_dom by metis
    then show ?thesis using False by (simp add: domIff map_of_map_restrict)
  qed (simp add: value_table_value map_of_map_restrict)
qed

text \<open>
  C32: The files of a subst generator, processed one after the other, are all filled from one
  dictionary, percent signs kept: the generator's own, or if that is empty the names of the
  first file that has any with their values in the environment; a file with a name that is not
  in it raises KeyError.
\<close>

theorem subst_tasks_result: "subst_tasks flat di contents = map (filled (shared_table flat di contents)) contents"
proof (cases "di = []")
  case True
  show ?thesis unfolding True
  proof (induction contents)
    case (Cons t contents)
    show ?case
    proof (cases "m4_names t = []")
      case True
      then show ?thesis using Cons
        by (simp add: subst_func_empty value_table_def m4_sub_no_names filled_def shared_table_def)
    next
      case False
      let ?table = "map (\<lambda>n. (n, flat_value flat n)) (m4_names t)"
      have "subst_tasks flat (value_table flat (m4_names t)) contents = map (filled ?table) contents"
        using False by (simp add: subst_tasks_given value_table_empty filled_cong[OF value_table_map])
      moreover have "filled ?table t = Inr (m4_sub (flat_value flat) t)"
        by (auto simp: filled_def dict_keys_dom dom_map_of_conv_image_fst map_of_map_restrict image_image intro!: m4_sub_cong)
      ultimately show ?thesis using False by (simp add: subst_func_empty shared_table_def)
    qed
  qed simp
next
  case False
  then show ?thesis by (simp add: subst_tasks_given shared_table_def)
qed

text \<open>A generator without a dictionary of its own, and one with\<close>

theorem subst_tasks_result_witness:
  "subst_tasks (\<lambda>n. if n = ''PREFIX'' then ''/usr'' else []) [] [''100%'', ''dir=@prefix@ 5%'', ''@PREFIX@/lib''] =
     [Inr ''100%'', Inr ''dir=/usr 5%'', Inl KeyError] \<and>
   subst_tasks (\<lambda>n. []) [(''prefix'', ''/opt'')] [''dir=@prefix@ 5%'', ''@PREFIX@/lib''] = [Inr ''dir=/opt 5%'', Inl KeyError]"
  unfolding subst_tasks_result by code_simp
subsection \<open>What a command generator runs\<close>

text \<open>An argument as it should reach the command, from the names in the generator\<close>

definition found_for :: "lookup \<Rightarrow> cmd_arg \<Rightarrow> tree_node option" where
  "found_for base a =
     (case a_kind a of
        Input_file \<Rightarrow> find_resource base (a_name a)
      | Output_file \<Rightarrow> find_or_declare base (a_name a)
      | _ \<Rightarrow> find_dir base (a_name a))"

definition arg_text :: "lookup \<Rightarrow> cmd_word \<Rightarrow> string res" where
  "arg_text base arg =
     (case arg of
        Word s \<Rightarrow> Inr s
      | Arg a \<Rightarrow> (case found_for base a of None \<Rightarrow> Inl TypeError | Some n \<Rightarrow> percent (a_template a) [node_abspath n]))"

definition absolute :: "(string \<Rightarrow> tree_node option) \<Rightarrow> string option \<Rightarrow> string option" where
  "absolute find_file name = Option.bind name (\<lambda>f. map_option node_abspath (find_file f))"

definition command_text :: "lookup \<Rightarrow> output_gen \<Rightarrow> string option" where
  "command_text base gen = (if g_external gen then g_command gen else absolute (find_resource base) (g_command gen))"

definition intended_call :: "lookup \<Rightarrow> string \<Rightarrow> (string, string) dict \<Rightarrow> output_gen \<Rightarrow> popen_call res" where
  "intended_call base variant_dir environ gen =
     map_value (\<lambda>args.
         \<lparr>pc_argv = the (command_text base gen) # args, pc_stdin = absolute (find_resource base) (g_stdin gen),
          pc_stdout = absolute (find_or_declare base) (g_stdout gen),
          pc_stderr = absolute (find_or_declare base) (g_stderr gen), pc_cwd = Some variant_dir,
          pc_env = (case g_os_env gen of None \<Rightarrow> environ | Some env \<Rightarrow> env)\<rparr>)
       (traverse_res (arg_text base) (g_argv gen))"

lemma find_node_found: "find_node base a = (case found_for base a of None \<Rightarrow> Inl TypeError | Some n \<Rightarrow> Inr (a\<lparr>a_node := Some n\<rparr>))"
  by (simp add: find_node_def found_for_def Let_def)

lemma find_node_kind: "find_node base a = Inr a' \<Longrightarrow> a_kind a' = a_kind a \<and> a_node a' = found_for base a \<and> found_for base a \<noteq> None"
  by (auto simp: find_node_found split: option.splits)

lemma resolved_arg_text:
  assumes "resolve_args base args = Inr args'"
  shows "traverse_res (\<lambda>arg. case arg of Word s \<Rightarrow> Inr s | Arg a \<Rightarrow> get_path True a) args' = traverse_res (arg_text base) args"
  using assms
proof (induction args arbitrary: args')
  case (Cons arg args)
  have "(case x of Word s \<Rightarrow> Inr s | Arg a \<Rightarrow> get_path True a) = arg_text base arg"
    if "(case arg of Word s \<Rightarrow> Inr (Word s) | Arg a \<Rightarrow> map_value Arg (find_node base a)) = Inr x" for x
    using that by (auto simp: arg_text_def find_node_found get_path_def res_simps split: cmd_word.splits option.splits arg_kind.splits)
  then show ?case using Cons by (auto simp: resolve_args_def res_simps)
qed (simp add: resolve_args_def)

lemma opt_node_absolute: "opt_node find_file name = Inr n \<Longrightarrow> map_option node_abspath n = absolute find_file name"
  by (auto simp: opt_node_def absolute_def split: option.splits)

lemma find_command_text:
  "find_command base gen = Inr cmd \<Longrightarrow>
     Some (case cmd of External s \<Rightarrow> s | Program n \<Rightarrow> node_abspath n) = command_text base gen"
  by (auto simp: find_command_def command_text_def absolute_def split: option.splits if_splits)

lemma apply_cmd_output_parts:
  assumes "apply_cmd_output base dir variant_dir gen = Inr task"
  obtains cmd args stdin stdout stderr where
    "find_command base gen = Inr cmd" "resolve_args base (g_argv gen) = Inr args"
    "opt_node (find_or_declare base) (g_stdout gen) = Inr stdout"
    "opt_node (find_or_declare base) (g_stderr gen) = Inr stderr"
    "opt_node (find_resource base) (g_stdin gen) = Inr stdin"
    "o_command task = cmd" "o_args task = args" "o_stdin task = stdin" "o_stdout task = stdout" "o_stderr task = stderr"
    "o_cwd task = Some variant_dir" "o_env task = g_os_env gen"
    "o_inputs task \<noteq> [] \<or> g_no_inputs gen" "o_outputs task \<noteq> [] \<or> g_no_outputs gen"
  using assms unfolding apply_cmd_output_def bind_res_eq_Inr
  by (auto simp: at_least_one_def split: if_splits)

theorem command_output_call:
  assumes "apply_cmd_output base dir variant_dir gen = Inr task"
  shows "run_output environ wait task = map_value (\<lambda>call. (call, wait call)) (intended_call base variant_dir environ gen)"
proof -
  from assms obtain cmd args stdin stdout stderr where parts:
    "find_command base gen = Inr cmd" "resolve_args base (g_argv gen) = Inr args"
    "opt_node (find_or_declare base) (g_stdout gen) = Inr stdout"
    "opt_node (find_or_declare base) (g_stderr gen) = Inr stderr"
    "opt_node (find_resource base) (g_stdin gen) = Inr stdin"
    and task: "o_command task = cmd" "o_args task = args" "o_stdin task = stdin" "o_stdout task = stdout" "o_stderr task = stderr"
    "o_cwd task = Some variant_dir" "o_env task = g_os_env gen"
    by (rule apply_cmd_output_parts)
  have shown: "shown_path task = node_abspath" by (auto simp: shown_path_def task)
  have "(case cmd of External s \<Rightarrow> s | Program n \<Rightarrow> shown_path task n) = the (command_text base gen)"
    unfolding shown using find_command_text[OF parts(1)] by (metis option.sel)
  then show ?thesis
    using resolved_arg_text[OF parts(2)] opt_node_absolute[OF parts(3)] opt_node_absolute[OF parts(4)] opt_node_absolute[OF parts(5)]
    by (simp add: run_output_def intended_call_def shown task Let_def map_value_def bind_res_def split: sum.split)
qed

definition node_at :: "string \<Rightarrow> string \<Rightarrow> tree_node" where
  "node_at d f = \<lparr>srcpath = ''../'' @ f, bldpath = f, node_abspath = d @ f\<rparr>"

definition example_base :: lookup where
  "example_base =
     \<lparr>find_resource = (\<lambda>f. if f = ''missing'' then None else Some (node_at ''/src/'' f)),
      find_or_declare = (\<lambda>f. Some (node_at ''/build/'' f)), find_dir = (\<lambda>f. Some (node_at ''/src/'' f))\<rparr>"

definition example_gen :: output_gen where
  "example_gen = new_output_gen\<lparr>g_command := Some ''gen.py'',
     g_argv := [Word ''-v'', Arg \<lparr>a_kind = Input_file, a_name = ''in.txt'', a_template = ''--in=%s'', a_node = None\<rparr>],
     g_stdout := Some ''out.txt'', g_cwd := Some \<lparr>a_kind = Input_dir, a_name = ''tools'', a_template = ''%s'', a_node = None\<rparr>\<rparr>"

theorem command_output_call_witness:
  "case apply_cmd_output example_base ''/src'' ''/build'' example_gen of
     Inl e \<Rightarrow> False
   | Inr task \<Rightarrow> run_output [] (\<lambda>call. 0) task =
       Inr (\<lparr>pc_argv = [''/src/gen.py'', ''-v'', ''--in=/src/in.txt''], pc_stdin = None, pc_stdout = Some ''/build/out.txt'',
             pc_stderr = None, pc_cwd = Some ''/build'', pc_env = []\<rparr>, 0)"
proof -
  have runs: "case apply_cmd_output example_base ''/src'' ''/build'' example_gen of Inl e \<Rightarrow> False | Inr task \<Rightarrow> True"
    by code_simp
  have call: "intended_call example_base ''/build'' [] example_gen =
      Inr \<lparr>pc_argv = [''/src/gen.py'', ''-v'', ''--in=/src/in.txt''], pc_stdin = None, pc_stdout = Some ''/build/out.txt'',
           pc_stderr = None, pc_cwd = Some ''/build'', pc_env = []\<rparr>"
    by code_simp
  from runs obtain task where task: "apply_cmd_output example_base ''/src'' ''/build'' example_gen = Inr task"
    by (auto split: sum.splits)
  show ?thesis
    using command_output_call[OF task, where wait = "\<lambda>call. 0" and environ = "[]"] unfolding task by (simp add: call)
qed

lemma output_task_needs_files:
  "apply_cmd_output base dir variant_dir gen = Inr task \<Longrightarrow> \<not> g_no_inputs gen \<Longrightarrow> \<not> g_no_outputs gen \<Longrightarrow>
     o_inputs task \<noteq> [] \<and> o_outputs task \<noteq> []"
  by (elim apply_cmd_output_parts) auto

text \<open>The message of \<open>WafError\<close> for a missing argument is never made.\<close>

lemma missing_argument:
  assumes "find_command base gen = Inr cmd" "Arg a \<in> set (g_argv gen)" "found_for base a = None"
  shows "apply_cmd_output base dir variant_dir gen = Inl TypeError"
proof -
  have "resolve_args base args = Inl TypeError" if "Arg a \<in> set args" for args
    using that
  proof (induction args)
    case (Cons arg args)
    then show ?case
      using assms(3) by (cases "resolve_args base args")
        (auto simp: resolve_args_def find_node_found split: cmd_word.splits option.splits)
  qed simp
  then show ?thesis using assms(1,2) by (simp add: apply_cmd_output_def)
qed

end
