(* ===== verification/Module_Build.thy ===== *)
theory Module_Build
  imports Wutils
begin

section \<open>Which modules and programs are built (\<open>wscript\<close>)\<close>

text \<open>
  The build of the top-level \<^verbatim>\<open>wscript\<close>: the modules that the enabled ones need, the task generators
  that are taken out because they belong to a disabled module, and the programs and scripts that
  can be run.  Task generators are objects that several lists refer to, so they are kept in a
  store and the groups of the build hold their addresses.  What waf finds for a name is a
  parameter.
\<close>

subsection \<open>Task generators\<close>

text \<open>\<open>features\<close> may be one string or a list; an attribute that is not there is \<open>None\<close>.\<close>

datatype features = Feature_text string | Feature_list "string list"

definition has_feature :: "string \<Rightarrow> features \<Rightarrow> bool" where
  "has_feature f fs = (case fs of Feature_text s \<Rightarrow> contains f s | Feature_list xs \<Rightarrow> f \<in> set xs)"

record build_gen =
  gen_name :: string
  gen_features :: features
  gen_module :: "string option option"
  gen_mode :: string
  gen_dependencies :: "string list option"
  gen_use :: "string list"
  gen_is_module :: bool
  gen_tests_module :: "string option"
  gen_bld_path :: string
  gen_target :: string
  gen_source :: "string list"

record build_state =
  b_gens :: "nat \<Rightarrow> build_gen"
  b_groups :: "nat list list"
  b_enabled :: "string list"
  b_test_libraries :: "(string \<times> string) list"
  b_enabled_tests :: "string list"
  b_script_dependencies :: "(string \<times> string list) list"
  b_programs :: "string list"
  b_scripts :: "string list"

definition all_gens :: "build_state \<Rightarrow> nat list" where
  "all_gens st = concat (b_groups st)"

text \<open>\<open>_exclude_taskgen\<close> removes the first reference to the object.\<close>

fun exclude_groups :: "nat \<Rightarrow> nat list list \<Rightarrow> nat list list" where
  "exclude_groups x [] = []"
| "exclude_groups x (g # rest) =
     (if x \<in> set g then remove1 x g # rest else g # exclude_groups x rest)"

definition exclude_taskgen :: "nat \<Rightarrow> build_state \<Rightarrow> build_state" where
  "exclude_taskgen x st = st\<lparr>b_groups := exclude_groups x (b_groups st)\<rparr>"

text \<open>\<open>_find_ns3_module\<close>\<close>

definition find_ns3_module :: "build_state \<Rightarrow> string \<Rightarrow> nat res" where
  "find_ns3_module st name =
     (case find (\<lambda>x. gen_is_module (b_gens st x) \<and> gen_name (b_gens st x) = name) (all_gens st) of
        None \<Rightarrow> Inl KeyError | Some x \<Rightarrow> Inr x)"

subsection \<open>Enabling what is needed\<close>

definition add_deps :: "string list \<Rightarrow> string list \<Rightarrow> string list" where
  "add_deps modules deps =
     foldl (\<lambda>ms dep. if \<not> prefix ''ns3-'' dep then ms else if dep \<notin> set ms then ms @ [dep] else ms) modules deps"

text \<open>
  One pass over the list of modules, which grows meanwhile.  \<open>tgen\<close> is \<open>get_tgen_by_name\<close>, which
  raises for an unknown name; the loops need not end if there is no bound on the names in use.
\<close>

partial_function (option) scan_modules ::
  "(string \<Rightarrow> build_gen option res) \<Rightarrow> nat \<Rightarrow> string list \<Rightarrow> bool \<Rightarrow> (string list \<times> bool) res option" where
  "scan_modules tgen i modules changed =
     (if i < length modules then
        (case tgen (modules ! i) of
           Inl e \<Rightarrow> Some (Inl e)
         | Inr None \<Rightarrow> Some (Inl ValueError)
         | Inr (Some obj) \<Rightarrow>
             (let ms = add_deps modules (gen_use obj) in scan_modules tgen (Suc i) ms (changed \<or> ms \<noteq> modules)))
      else Some (Inr (modules, changed)))"

partial_function (option) enable_needed :: "(string \<Rightarrow> build_gen option res) \<Rightarrow> string list \<Rightarrow> string list res option" where
  "enable_needed tgen modules =
     Option.bind (scan_modules tgen 0 modules False) (\<lambda>r.
       (case r of
          Inl e \<Rightarrow> Some (Inl e)
        | Inr (ms, changed) \<Rightarrow> if changed then enable_needed tgen ms else Some (Inr ms)))"

declare scan_modules.simps [code] enable_needed.simps [code]

definition enabled_test_libraries :: "bool \<Rightarrow> build_state \<Rightarrow> build_state" where
  "enabled_test_libraries enable_tests st =
     (if enable_tests
      then st\<lparr>b_enabled_tests := b_enabled_tests st @
             map snd (filter (\<lambda>(m, testlib). m \<in> set (b_enabled st)) (b_test_libraries st))\<rparr>
      else st)"

text \<open>The enabled modules are one list, so the needed ones are added to the environment as well.\<close>

definition enable_modules :: "(string \<Rightarrow> build_gen option res) \<Rightarrow> bool \<Rightarrow> build_state \<Rightarrow> build_state res option" where
  "enable_modules tgen enable_tests st =
     (if b_enabled st = [] then Some (Inr st)
      else map_option (map_value (\<lambda>ms. enabled_test_libraries enable_tests (st\<lparr>b_enabled := ms\<rparr>)))
             (enable_needed tgen (b_enabled st)))"

subsection \<open>Taking out what is disabled\<close>

definition gen_module_of :: "build_gen \<Rightarrow> string option res" where
  "gen_module_of obj = (case gen_module obj of None \<Rightarrow> Inl AttributeError | Some m \<Rightarrow> Inr m)"

text \<open>Headers of a module that is not enabled are removed instead of installed.\<close>

definition mark_headers :: "string \<Rightarrow> nat \<Rightarrow> build_state \<Rightarrow> build_state res" where
  "mark_headers feature x st =
     (if has_feature feature (gen_features (b_gens st x))
      then map_value (\<lambda>m. if ''ns3-'' @ str_of_option m \<notin> set (b_enabled st)
                then st\<lparr>b_gens := (b_gens st)(x := (b_gens st x)\<lparr>gen_mode := ''remove''\<rparr>)\<rparr> else st)
             (gen_module_of (b_gens st x))
      else Inr st)"

record naming =
  n_prefix :: string
  n_suffix :: string

definition object_name :: "naming \<Rightarrow> string \<Rightarrow> string" where
  "object_name n name = n_prefix n @ ''-'' @ name @ n_suffix n"

definition program_path :: "host \<Rightarrow> naming \<Rightarrow> build_gen \<Rightarrow> string res" where
  "program_path host n obj =
     map_value (\<lambda>p. path_join p (object_name n (gen_name obj)))
       (relpath (working_dir host) (gen_bld_path obj) (abspath (working_dir host) (launch_dir host)))"

definition check_program :: "host \<Rightarrow> naming \<Rightarrow> nat \<Rightarrow> build_state \<Rightarrow> build_state res" where
  "check_program host n x st =
     (case gen_dependencies (b_gens st x) of
        None \<Rightarrow> Inr st
      | Some deps \<Rightarrow>
          if \<not> set deps \<subseteq> set (b_enabled st) then Inr (exclude_taskgen x st)
          else map_value (\<lambda>p. st\<lparr>b_programs := b_programs st @ [p]\<rparr>) (program_path host n (b_gens st x)))"

definition check_module :: "nat \<Rightarrow> build_state \<Rightarrow> build_state" where
  "check_module x st =
     (if gen_is_module (b_gens st x) \<and> gen_name (b_gens st x) \<notin> set (b_enabled st) then exclude_taskgen x st else st)"

definition check_test_library :: "bool \<Rightarrow> nat \<Rightarrow> build_state \<Rightarrow> build_state" where
  "check_test_library enable_tests x st =
     (case gen_tests_module (b_gens st x) of
        None \<Rightarrow> st
      | Some m \<Rightarrow> if \<not> enable_tests \<or> m \<notin> set (b_enabled st) then exclude_taskgen x st else st)"

definition check_pcfile :: "nat \<Rightarrow> build_state \<Rightarrow> build_state res" where
  "check_pcfile x st =
     (if has_feature ''ns3pcfile'' (gen_features (b_gens st x))
      then map_value (\<lambda>m. if m \<notin> Some ` set (b_enabled st) then exclude_taskgen x st else st)
             (gen_module_of (b_gens st x))
      else Inr st)"

definition check_gen :: "host \<Rightarrow> naming \<Rightarrow> bool \<Rightarrow> build_state \<Rightarrow> nat \<Rightarrow> build_state res" where
  "check_gen host n enable_tests st x =
     bind_res (mark_headers ''ns3moduleheader'' x st) (\<lambda>st.
     bind_res (check_program host n x st) (\<lambda>st.
     bind_res (mark_headers ''ns3header'' x (check_test_library enable_tests x (check_module x st))) (\<lambda>st.
       check_pcfile x st)))"

text \<open>The loop runs over a copy of the list of generators.\<close>

definition exclude_disabled :: "host \<Rightarrow> naming \<Rightarrow> bool \<Rightarrow> build_state \<Rightarrow> build_state res" where
  "exclude_disabled host n enable_tests st =
     (if b_enabled st = [] then Inr st else fold_res (check_gen host n enable_tests) st (all_gens st))"

text \<open>
  Runnable scripts: \<open>modules\<close> is a local variable that is only set when modules are enabled.
\<close>

definition runnable_scripts :: "build_state \<Rightarrow> build_state res" where
  "runnable_scripts st =
     (if b_enabled st = [] \<and> (\<exists>(script, deps) \<in> set (b_script_dependencies st). deps \<noteq> [])
      then Inl UnboundLocalError
      else Inr (st\<lparr>b_scripts := b_scripts st @
             map fst (filter (\<lambda>(script, deps). set deps \<subseteq> set (b_enabled st)) (b_script_dependencies st))\<rparr>))"

subsection \<open>Programs\<close>

definition create_ns3_program :: "naming \<Rightarrow> string \<Rightarrow> string \<Rightarrow> string list \<Rightarrow> build_gen" where
  "create_ns3_program n dir name dependencies =
     (let deps = map (\<lambda>d. ''ns3-'' @ d) dependencies
      in \<lparr>gen_name = name, gen_features = Feature_text ''cxx cxxprogram'', gen_module = None, gen_mode = ''install'',
          gen_dependencies = Some deps, gen_use = deps, gen_is_module = False, gen_tests_module = None,
          gen_bld_path = dir, gen_target = object_name n name, gen_source = []\<rparr>)"

text \<open>
  \<open>add_scratch_programs\<close>: the generators for the entries of the directory.  \<open>bld_path_of\<close> gives the
  build directory of a source directory and \<open>glob\<close> the files \<open>*.cc\<close> in one.
\<close>

definition scratch_gen ::
  "naming \<Rightarrow> (string \<Rightarrow> string) \<Rightarrow> (string \<Rightarrow> bool) \<Rightarrow> (string \<Rightarrow> string list) \<Rightarrow> string list \<Rightarrow> string \<Rightarrow> build_gen list" where
  "scratch_gen n bld_path_of is_dir glob modules filename =
     (if prefix ''.'' filename \<or> filename = ''CVS'' then []
      else if is_dir (path_join ''scratch'' filename) then
        [(create_ns3_program n (bld_path_of (path_join ''scratch'' filename)) filename modules)
           \<lparr>gen_target := filename, gen_source := glob (path_join ''scratch'' filename)\<rparr>]
      else if suffix ''.cc'' filename then
        (let name = take (length filename - 3) filename
         in [(create_ns3_program n (bld_path_of ''scratch'') name modules)\<lparr>gen_target := name, gen_source := [filename]\<rparr>])
      else [])"

definition add_scratch_programs ::
  "naming \<Rightarrow> (string \<Rightarrow> string) \<Rightarrow> (string \<Rightarrow> bool) \<Rightarrow> (string \<Rightarrow> string list) \<Rightarrow> string list \<Rightarrow> string list \<Rightarrow> build_gen list" where
  "add_scratch_programs n bld_path_of is_dir glob enabled listing =
     concat (map (scratch_gen n bld_path_of is_dir glob (map (drop 4) enabled)) listing)"

definition register_ns3_script :: "string \<Rightarrow> string list \<Rightarrow> build_state \<Rightarrow> build_state" where
  "register_ns3_script name dependencies st =
     st\<lparr>b_script_dependencies := b_script_dependencies st @ [(name, map (\<lambda>d. ''ns3-'' @ d) dependencies)]\<rparr>"

subsection \<open>The build\<close>

text \<open>\<open>recurse_src\<close> is what the modules' own scripts create; \<open>add_programs\<close> the examples and scratch programs.\<close>

definition build_start :: "build_state \<Rightarrow> build_state" where
  "build_start st =
     st\<lparr>b_test_libraries := [], b_enabled_tests := [], b_script_dependencies := [], b_programs := [], b_scripts := []\<rparr>"

definition build ::
  "host \<Rightarrow> naming \<Rightarrow> bool \<Rightarrow> bool \<Rightarrow> (build_state \<Rightarrow> string \<Rightarrow> build_gen option res) \<Rightarrow>
   (build_state \<Rightarrow> build_state) \<Rightarrow> (build_state \<Rightarrow> build_state) \<Rightarrow> build_state \<Rightarrow> build_state res option" where
  "build host n option_enable_modules enable_tests tgen_in recurse_src add_programs st =
     (if option_enable_modules then Some (Inr st)
      else let st1 = recurse_src (build_start st)
           in map_option (\<lambda>r. bind_res r (\<lambda>st2.
                bind_res (exclude_disabled host n enable_tests (add_programs st2)) runnable_scripts))
              (enable_modules (tgen_in st1) enable_tests st1))"

subsection \<open>The modules that are needed\<close>

definition depends_on :: "(string \<Rightarrow> build_gen option res) \<Rightarrow> (string \<times> string) set" where
  "depends_on tgen = {(m, d). \<exists>obj. tgen m = Inr (Some obj) \<and> d \<in> set (gen_use obj) \<and> prefix ''ns3-'' d}"

definition needed :: "(string \<Rightarrow> build_gen option res) \<Rightarrow> string list \<Rightarrow> string set" where
  "needed tgen modules = (depends_on tgen)\<^sup>* `` set modules"

lemma needed_start: "set modules \<subseteq> needed tgen modules"
  by (auto simp: needed_def)

lemma needed_step: "m \<in> needed tgen modules \<Longrightarrow> (m, d) \<in> depends_on tgen \<Longrightarrow> d \<in> needed tgen modules"
  by (auto simp: needed_def intro: rtrancl_into_rtrancl)

lemma needed_least:
  assumes "set modules \<subseteq> S" "\<And>m d. m \<in> S \<Longrightarrow> (m, d) \<in> depends_on tgen \<Longrightarrow> d \<in> S"
  shows "needed tgen modules \<subseteq> S"
proof -
  have "d \<in> S" if "(m, d) \<in> (depends_on tgen)\<^sup>*" "m \<in> S" for m d
    using that by (induction rule: rtrancl_induct) (auto intro: assms(2))
  then show ?thesis using assms(1) by (auto simp: needed_def)
qed

lemma add_deps_simps [simp]:
  "add_deps ms [] = ms"
  "add_deps ms (d # ds) = add_deps (if prefix ''ns3-'' d \<and> d \<notin> set ms then ms @ [d] else ms) ds"
  by (simp_all add: add_deps_def)

lemma add_deps_new: "\<exists>new. add_deps ms ds = ms @ new \<and> set new \<subseteq> {d \<in> set ds. prefix ''ns3-'' d} - set ms \<and> distinct new"
proof (induction ds arbitrary: ms)
  case (Cons d ds)
  define ms' where "ms' = (if prefix ''ns3-'' d \<and> d \<notin> set ms then ms @ [d] else ms)"
  from Cons[of ms'] obtain new where new: "add_deps ms' ds = ms' @ new"
    "set new \<subseteq> {d \<in> set ds. prefix ''ns3-'' d} - set ms'" "distinct new" by blast
  show ?case
  proof (cases "prefix ''ns3-'' d \<and> d \<notin> set ms")
    case True
    then show ?thesis using new by (intro exI[of _ "d # new"]) (auto simp: ms'_def)
  next
    case False
    then show ?thesis using new by (intro exI[of _ new]) (auto simp: ms'_def)
  qed
qed simp

lemma add_deps_set: "set (add_deps ms ds) = set ms \<union> {d \<in> set ds. prefix ''ns3-'' d}"
  by (induction ds arbitrary: ms) auto

lemma add_deps_all_known: "{d \<in> set ds. prefix ''ns3-'' d} \<subseteq> set ms \<Longrightarrow> add_deps ms ds = ms"
  by (induction ds) auto

definition settled :: "(string \<Rightarrow> build_gen option res) \<Rightarrow> nat \<Rightarrow> string list \<Rightarrow> bool" where
  "settled tgen i modules \<longleftrightarrow>
     (\<forall>j < i. \<exists>obj. tgen (modules ! j) = Inr (Some obj) \<and> {d \<in> set (gen_use obj). prefix ''ns3-'' d} \<subseteq> set modules)"

definition used_names :: "(string \<Rightarrow> build_gen option res) \<Rightarrow> string set" where
  "used_names tgen = {d. \<exists>m obj. tgen m = Inr (Some obj) \<and> d \<in> set (gen_use obj)}"

definition lookup_failed :: "(string \<Rightarrow> build_gen option res) \<Rightarrow> string \<Rightarrow> py_error \<Rightarrow> bool" where
  "lookup_failed tgen m e \<longleftrightarrow> tgen m = Inl e \<or> tgen m = Inr None \<and> e = ValueError"

lemma scan_modules_result:
  assumes "finite (used_names tgen)" "settled tgen i ms" "i \<le> length ms" "ms = start @ more_ms"
    "set ms \<subseteq> needed tgen start" "distinct start \<Longrightarrow> distinct ms" "changed = (more_ms \<noteq> [])"
  shows "\<exists>r. scan_modules tgen i ms changed = Some r \<and>
    (case r of
       Inl e \<Rightarrow> \<exists>m \<in> needed tgen start. lookup_failed tgen m e
     | Inr (ms', changed') \<Rightarrow> \<exists>new. ms' = start @ new \<and> changed' = (new \<noteq> []) \<and> settled tgen (length ms') ms' \<and>
         set ms' \<subseteq> needed tgen start \<and> (distinct start \<longrightarrow> distinct ms'))"
  using assms(2-)
proof (induction "card (used_names tgen - set ms) + (length ms - i)" arbitrary: i ms changed more_ms rule: less_induct)
  case less
  show ?case
  proof (cases "i < length ms")
    case False
    then have "i = length ms" using less.prems by simp
    then show ?thesis using less.prems by (simp add: scan_modules.simps)
  next
    case True
    then have here: "ms ! i \<in> needed tgen start" using less.prems(4) by auto
    show ?thesis
    proof (cases "tgen (ms ! i)")
      case (Inl e)
      then show ?thesis using True here by (auto simp: scan_modules.simps lookup_failed_def)
    next
      case (Inr found)
      show ?thesis
      proof (cases found)
        case None
        then show ?thesis using True here Inr by (auto simp: scan_modules.simps lookup_failed_def)
      next
        case (Some obj)
        obtain new where new: "add_deps ms (gen_use obj) = ms @ new"
          "set new \<subseteq> {d \<in> set (gen_use obj). prefix ''ns3-'' d} - set ms" "distinct new"
          using add_deps_new by blast
        have obj: "tgen (ms ! i) = Inr (Some obj)" using Inr Some by simp
        have used: "set new \<subseteq> used_names tgen - set ms" using new(2) obj by (auto simp: used_names_def)
        have "used_names tgen - set (ms @ new) = (used_names tgen - set ms) - set new" by auto
        then have "card (used_names tgen - set (ms @ new)) = card (used_names tgen - set ms) - length new"
          using card_Diff_subset[OF finite_set used] new(3) by (simp add: distinct_card)
        moreover have "length new \<le> card (used_names tgen - set ms)"
          using used assms(1) card_mono[of "used_names tgen - set ms" "set new"] new(3) by (simp add: distinct_card)
        ultimately have smaller: "card (used_names tgen - set (ms @ new)) + (length (ms @ new) - Suc i)
            < card (used_names tgen - set ms) + (length ms - i)"
          using True by simp
        have "settled tgen (Suc i) (ms @ new)"
          using less.prems(1,2) True obj add_deps_set[of ms "gen_use obj"] new(1)
          by (fastforce simp: settled_def nth_append less_Suc_eq)
        moreover have "(ms ! i, d) \<in> depends_on tgen" if "d \<in> set new" for d
          using that new(2) obj by (auto simp: depends_on_def)
        then have "set (ms @ new) \<subseteq> needed tgen start"
          using less.prems(4) here by (auto intro: needed_step)
        moreover have "distinct start \<Longrightarrow> distinct (ms @ new)" using less.prems(5) new(2,3) by auto
        ultimately have "\<exists>r. scan_modules tgen (Suc i) (ms @ new) (changed \<or> new \<noteq> []) = Some r \<and>
          (case r of
             Inl e \<Rightarrow> \<exists>m \<in> needed tgen start. lookup_failed tgen m e
           | Inr (ms', changed') \<Rightarrow> \<exists>new. ms' = start @ new \<and> changed' = (new \<noteq> []) \<and> settled tgen (length ms') ms' \<and>
               set ms' \<subseteq> needed tgen start \<and> (distinct start \<longrightarrow> distinct ms'))"
          using less.prems(2,3,6) True by (intro less.hyps[OF smaller, where more_ms = "more_ms @ new"]) auto
        then show ?thesis
          using True obj new(1) by (subst scan_modules.simps) simp
      qed
    qed
  qed
qed

lemma settledD:
  assumes "settled tgen (length ms) ms" "m \<in> set ms"
  obtains obj where "tgen m = Inr (Some obj)" "{d \<in> set (gen_use obj). prefix ''ns3-'' d} \<subseteq> set ms"
proof -
  from assms(2) obtain j where j: "j < length ms" "m = ms ! j" by (metis in_set_conv_nth)
  from assms(1) j(1) obtain obj where "tgen (ms ! j) = Inr (Some obj)" "{d \<in> set (gen_use obj). prefix ''ns3-'' d} \<subseteq> set ms"
    unfolding settled_def by blast
  then show thesis using that j(2) by simp
qed

lemma settled_closed:
  assumes "settled tgen (length ms) ms" "set start \<subseteq> set ms"
  shows "needed tgen start \<subseteq> set ms"
proof (rule needed_least[OF assms(2)])
  fix m d assume "m \<in> set ms" "(m, d) \<in> depends_on tgen"
  moreover from settledD[OF assms(1) this(1)] obtain obj where
    "tgen m = Inr (Some obj)" "{d \<in> set (gen_use obj). prefix ''ns3-'' d} \<subseteq> set ms" by blast
  ultimately show "d \<in> set ms" by (auto simp: depends_on_def)
qed

text \<open>Nothing is left for a further pass.\<close>

lemma scan_settled: "settled tgen (length ms) ms \<Longrightarrow> i \<le> length ms \<Longrightarrow> scan_modules tgen i ms False = Some (Inr (ms, False))"
proof (induction "length ms - i" arbitrary: i)
  case (Suc k)
  then have "ms ! i \<in> set ms" by simp
  from settledD[OF Suc.prems(1) this] obtain obj where
    "tgen (ms ! i) = Inr (Some obj)" "{d \<in> set (gen_use obj). prefix ''ns3-'' d} \<subseteq> set ms" by blast
  then show ?case using Suc by (subst scan_modules.simps) (simp add: add_deps_all_known)
qed (simp add: scan_modules.simps)

lemma enable_needed_result:
  assumes "finite (used_names tgen)"
  shows "\<exists>r. enable_needed tgen modules = Some r \<and>
    (case r of
       Inl e \<Rightarrow> \<exists>m \<in> needed tgen modules. lookup_failed tgen m e
     | Inr ms \<Rightarrow> prefix modules ms \<and> set ms = needed tgen modules \<and> (distinct modules \<longrightarrow> distinct ms) \<and>
         (\<forall>m \<in> needed tgen modules. \<exists>obj. tgen m = Inr (Some obj)))"
proof -
  have "settled tgen 0 modules" by (simp add: settled_def)
  from scan_modules_result[OF assms this, where start = modules and more_ms = "[]"] obtain r where
    r: "scan_modules tgen 0 modules False = Some r" and
    result: "case r of
       Inl e \<Rightarrow> \<exists>m \<in> needed tgen modules. lookup_failed tgen m e
     | Inr (ms', changed') \<Rightarrow> \<exists>new. ms' = modules @ new \<and> changed' = (new \<noteq> []) \<and> settled tgen (length ms') ms' \<and>
         set ms' \<subseteq> needed tgen modules \<and> (distinct modules \<longrightarrow> distinct ms')"
    by (auto simp: needed_start)
  show ?thesis
  proof (cases r)
    case (Inl e)
    then show ?thesis using r result by (subst enable_needed.simps) simp
  next
    case (Inr p)
    then obtain new where p: "p = (modules @ new, new \<noteq> [])" and settled: "settled tgen (length (modules @ new)) (modules @ new)"
      and sound: "set (modules @ new) \<subseteq> needed tgen modules" and dist: "distinct modules \<longrightarrow> distinct (modules @ new)"
      using result by auto
    have again: "scan_modules tgen 0 (modules @ new) False = Some (Inr (modules @ new, False))"
      using scan_settled[OF settled] by simp
    have "enable_needed tgen (modules @ new) = Some (Inr (modules @ new))"
      using again by (subst enable_needed.simps) simp
    then have "enable_needed tgen modules = Some (Inr (modules @ new))"
      using r Inr p by (subst enable_needed.simps) auto
    moreover have "set (modules @ new) = needed tgen modules"
      using sound settled_closed[OF settled, of modules] by auto
    moreover have "\<exists>obj. tgen m = Inr (Some obj)" if "m \<in> needed tgen modules" for m
      using that \<open>set (modules @ new) = needed tgen modules\<close> settledD[OF settled] by metis
    ultimately show ?thesis using dist by (intro exI[of _ "Inr (modules @ new)"]) (simp add: prefix_def)
  qed
qed

subsection \<open>What is taken out\<close>

definition dropped :: "bool \<Rightarrow> string list \<Rightarrow> build_gen \<Rightarrow> bool" where
  "dropped enable_tests modules obj \<longleftrightarrow>
     (\<exists>deps. gen_dependencies obj = Some deps \<and> \<not> set deps \<subseteq> set modules) \<or>
     gen_is_module obj \<and> gen_name obj \<notin> set modules \<or>
     (\<exists>m. gen_tests_module obj = Some m \<and> (\<not> enable_tests \<or> m \<notin> set modules)) \<or>
     has_feature ''ns3pcfile'' (gen_features obj) \<and> (\<forall>m. gen_module obj = Some (Some m) \<longrightarrow> m \<notin> set modules)"

definition marked :: "string list \<Rightarrow> build_gen \<Rightarrow> bool" where
  "marked modules obj \<longleftrightarrow>
     (has_feature ''ns3moduleheader'' (gen_features obj) \<or> has_feature ''ns3header'' (gen_features obj)) \<and>
     ''ns3-'' @ str_of_option (the (gen_module obj)) \<notin> set modules"

definition runs :: "string list \<Rightarrow> build_gen \<Rightarrow> bool" where
  "runs modules obj \<longleftrightarrow> (\<exists>deps. gen_dependencies obj = Some deps \<and> set deps \<subseteq> set modules)"

definition path_of_program :: "host \<Rightarrow> naming \<Rightarrow> build_gen \<Rightarrow> string" where
  "path_of_program host n obj = (case program_path host n obj of Inr p \<Rightarrow> p | Inl e \<Rightarrow> [])"

text \<open>The attributes that the loop reads are there.\<close>

definition readable :: "build_gen \<Rightarrow> bool" where
  "readable obj \<longleftrightarrow>
     (has_feature ''ns3moduleheader'' (gen_features obj) \<or> has_feature ''ns3header'' (gen_features obj) \<or>
        has_feature ''ns3pcfile'' (gen_features obj) \<longrightarrow> gen_module obj \<noteq> None) \<and>
     (gen_dependencies obj \<noteq> None \<longrightarrow> gen_bld_path obj \<noteq> [])"

lemma exclude_groups_absent: "x \<notin> set (concat gs) \<Longrightarrow> exclude_groups x gs = gs"
  by (induction gs) auto

lemma exclude_groups_filter: "distinct (concat gs) \<Longrightarrow> exclude_groups x gs = map (filter (\<lambda>y. y \<noteq> x)) gs"
proof (induction gs)
  case (Cons g gs)
  have out: "map (filter (\<lambda>y. y \<noteq> x)) gs = gs" if "x \<notin> set (concat gs)"
    using that by (induction gs) (auto simp: filter_id_conv)
  show ?case
  proof (cases "x \<in> set g")
    case True
    then have "x \<notin> set (concat gs)" using Cons.prems by auto
    then show ?thesis using True Cons.prems out by (simp add: distinct_remove1_removeAll removeAll_filter_not_eq eq_commute)
  next
    case False
    then have "filter (\<lambda>y. y \<noteq> x) g = g" by (auto simp: filter_id_conv)
    then show ?thesis using Cons False by simp
  qed
qed simp

lemma exclude_groups_twice: "distinct (concat gs) \<Longrightarrow> exclude_groups x (exclude_groups x gs) = exclude_groups x gs"
  by (rule exclude_groups_absent) (auto simp: exclude_groups_filter)

definition checked :: "host \<Rightarrow> naming \<Rightarrow> bool \<Rightarrow> build_state \<Rightarrow> nat \<Rightarrow> build_state" where
  "checked host n enable_tests st x =
     (let obj = b_gens st x; modules = b_enabled st
      in st\<lparr>b_groups := (if dropped enable_tests modules obj then map (filter (\<lambda>y. y \<noteq> x)) (b_groups st) else b_groups st),
            b_programs := b_programs st @ (if runs modules obj then [path_of_program host n obj] else []),
            b_gens := (if marked modules obj then (b_gens st)(x := obj\<lparr>gen_mode := ''remove''\<rparr>) else b_gens st)\<rparr>)"

lemma program_path_found: "gen_bld_path obj \<noteq> [] \<Longrightarrow> program_path host n obj = Inr (path_of_program host n obj)"
  using relpath_raises_iff by (auto simp: path_of_program_def program_path_def split: sum.splits)
    (metis Inl_Inr_False map_value_simps obj_sumE)

lemma distinct_concat_filter: "distinct (concat gs) \<Longrightarrow> distinct (concat (map (filter P) gs))"
  by (induction gs) (auto simp: distinct_filter)

text \<open>The three parts of the state that a round of the loop changes\<close>

definition changed_to :: "build_state \<Rightarrow> nat list list \<Rightarrow> string list \<Rightarrow> (nat \<Rightarrow> build_gen) \<Rightarrow> build_state" where
  "changed_to st gs ps gens = st\<lparr>b_groups := gs, b_programs := ps, b_gens := gens\<rparr>"

lemma changed_to_id: "changed_to st (b_groups st) (b_programs st) (b_gens st) = st"
  by (simp add: changed_to_def)

lemma changed_to_simps [simp]:
  "b_gens (changed_to st gs ps gens) = gens" "b_groups (changed_to st gs ps gens) = gs" "b_programs (changed_to st gs ps gens) = ps"
  "b_enabled (changed_to st gs ps gens) = b_enabled st" "all_gens (changed_to st gs ps gens) = concat gs"
  "(changed_to st gs ps gens)\<lparr>b_gens := gens'\<rparr> = changed_to st gs ps gens'"
  "(changed_to st gs ps gens)\<lparr>b_programs := ps'\<rparr> = changed_to st gs ps' gens"
  "exclude_taskgen x (changed_to st gs ps gens) = changed_to st (exclude_groups x gs) ps gens"
  "changed_to (changed_to st gs ps gens) gs' ps' gens' = changed_to st gs' ps' gens'"
  by (simp_all add: changed_to_def all_gens_def exclude_taskgen_def)

definition remove_mode :: "build_gen \<Rightarrow> build_gen" where
  "remove_mode obj = obj\<lparr>gen_mode := ''remove''\<rparr>"

lemma remove_mode_simps [simp]:
  "gen_name (remove_mode obj) = gen_name obj" "gen_features (remove_mode obj) = gen_features obj"
  "gen_module (remove_mode obj) = gen_module obj" "gen_dependencies (remove_mode obj) = gen_dependencies obj"
  "gen_is_module (remove_mode obj) = gen_is_module obj" "gen_tests_module (remove_mode obj) = gen_tests_module obj"
  "gen_use (remove_mode obj) = gen_use obj"
  "gen_bld_path (remove_mode obj) = gen_bld_path obj" "program_path host n (remove_mode obj) = program_path host n obj"
  "path_of_program host n (remove_mode obj) = path_of_program host n obj"
  "remove_mode (remove_mode obj) = remove_mode obj"
  by (simp_all add: remove_mode_def program_path_def path_of_program_def)

lemma mark_headers_to:
  assumes "has_feature f (gen_features (gens x)) \<Longrightarrow> gen_module (gens x) \<noteq> None"
  shows "mark_headers f x (changed_to st gs ps gens) =
    Inr (changed_to st gs ps
      (if has_feature f (gen_features (gens x)) \<and> ''ns3-'' @ str_of_option (the (gen_module (gens x))) \<notin> set (b_enabled st)
       then gens(x := remove_mode (gens x)) else gens))"
  using assms by (auto simp: mark_headers_def gen_module_of_def remove_mode_def split: option.split)

lemma check_program_to:
  assumes "gen_dependencies (gens x) \<noteq> None \<Longrightarrow> gen_bld_path (gens x) \<noteq> []"
  shows "check_program host n x (changed_to st gs ps gens) =
    Inr (changed_to st
      (if \<exists>deps. gen_dependencies (gens x) = Some deps \<and> \<not> set deps \<subseteq> set (b_enabled st) then exclude_groups x gs else gs)
      (ps @ (if runs (b_enabled st) (gens x) then [path_of_program host n (gens x)] else [])) gens)"
  using assms by (auto simp: check_program_def runs_def program_path_found split: option.split)

lemma check_module_to:
  "check_module x (changed_to st gs ps gens) =
    changed_to st (if gen_is_module (gens x) \<and> gen_name (gens x) \<notin> set (b_enabled st) then exclude_groups x gs else gs) ps gens"
  by (simp add: check_module_def)

lemma check_test_library_to:
  "check_test_library enable_tests x (changed_to st gs ps gens) =
    changed_to st (if \<exists>m. gen_tests_module (gens x) = Some m \<and> (\<not> enable_tests \<or> m \<notin> set (b_enabled st))
      then exclude_groups x gs else gs) ps gens"
  by (auto simp: check_test_library_def split: option.split)

lemma check_pcfile_to:
  assumes "has_feature ''ns3pcfile'' (gen_features (gens x)) \<Longrightarrow> gen_module (gens x) \<noteq> None"
  shows "check_pcfile x (changed_to st gs ps gens) =
    Inr (changed_to st (if has_feature ''ns3pcfile'' (gen_features (gens x)) \<and>
      (\<forall>m. gen_module (gens x) = Some (Some m) \<longrightarrow> m \<notin> set (b_enabled st)) then exclude_groups x gs else gs) ps gens)"
  using assms by (auto simp: check_pcfile_def gen_module_of_def split: option.split)

lemma check_gen_checked:
  assumes "distinct (all_gens st)" "readable (b_gens st x)"
  shows "check_gen host n enable_tests st x = Inr (checked host n enable_tests st x)"
proof -
  define obj where "obj = b_gens st x"
  define E where "E = exclude_groups x (b_groups st)"
  have E: "exclude_groups x E = E" "exclude_groups x (b_groups st) = E" "E = map (filter (\<lambda>y. y \<noteq> x)) (b_groups st)"
    using assms(1) exclude_groups_twice exclude_groups_filter unfolding E_def all_gens_def by blast+
  have obj: "readable obj" using assms(2) by (simp add: obj_def)
  define off where "off m \<longleftrightarrow> ''ns3-'' @ str_of_option (the m) \<notin> set (b_enabled st)" for m :: "string option option"
  define gens1 where "gens1 = (if has_feature ''ns3moduleheader'' (gen_features obj) \<and> off (gen_module obj)
    then (b_gens st)(x := remove_mode obj) else b_gens st)"
  define gens2 where "gens2 = (if has_feature ''ns3header'' (gen_features obj) \<and> off (gen_module obj)
    then gens1(x := remove_mode obj) else gens1)"
  define ps where "ps = b_programs st @ (if runs (b_enabled st) obj then [path_of_program host n obj] else [])"
  define gs1 where "gs1 = (if \<exists>deps. gen_dependencies obj = Some deps \<and> \<not> set deps \<subseteq> set (b_enabled st) then E else b_groups st)"
  define gs2 where "gs2 = (if gen_is_module obj \<and> gen_name obj \<notin> set (b_enabled st) then E else gs1)"
  define gs3 where "gs3 = (if \<exists>m. gen_tests_module obj = Some m \<and> (\<not> enable_tests \<or> m \<notin> set (b_enabled st)) then E else gs2)"
  define gs4 where "gs4 = (if has_feature ''ns3pcfile'' (gen_features obj) \<and>
    (\<forall>m. gen_module obj = Some (Some m) \<longrightarrow> m \<notin> set (b_enabled st)) then E else gs3)"
  have x1: "gens1 x = obj \<or> gens1 x = remove_mode obj" and x2: "gens2 x = obj \<or> gens2 x = remove_mode obj"
    by (auto simp: gens1_def gens2_def obj_def)
  have gs: "exclude_groups x gs1 = E" "exclude_groups x gs2 = E" "exclude_groups x gs3 = E"
    using E by (simp_all add: gs1_def gs2_def gs3_def)
  have "mark_headers ''ns3moduleheader'' x (changed_to st (b_groups st) (b_programs st) (b_gens st)) =
      Inr (changed_to st (b_groups st) (b_programs st) gens1)"
    using obj by (subst mark_headers_to) (auto simp: readable_def gens1_def off_def simp flip: obj_def)
  moreover have "check_program host n x (changed_to st (b_groups st) (b_programs st) gens1) = Inr (changed_to st gs1 ps gens1)"
    using obj x1 by (subst check_program_to) (auto simp: readable_def gs1_def ps_def E runs_def)
  moreover have "check_module x (changed_to st gs1 ps gens1) = changed_to st gs2 ps gens1"
    using x1 by (auto simp: check_module_to gs2_def gs)
  moreover have "check_test_library enable_tests x (changed_to st gs2 ps gens1) = changed_to st gs3 ps gens1"
    using x1 by (auto simp: check_test_library_to gs3_def gs)
  moreover have "mark_headers ''ns3header'' x (changed_to st gs3 ps gens1) = Inr (changed_to st gs3 ps gens2)"
    using obj x1 by (subst mark_headers_to) (auto simp: readable_def gens2_def off_def)
  moreover have "check_pcfile x (changed_to st gs3 ps gens2) = Inr (changed_to st gs4 ps gens2)"
    using obj x2 by (subst check_pcfile_to) (auto simp: readable_def gs4_def gs)
  ultimately have "check_gen host n enable_tests (changed_to st (b_groups st) (b_programs st) (b_gens st)) x =
      Inr (changed_to st gs4 ps gens2)"
    by (simp add: check_gen_def)
  moreover have "gs4 = (if dropped enable_tests (b_enabled st) obj then E else b_groups st)"
    by (auto simp: gs4_def gs3_def gs2_def gs1_def dropped_def)
  moreover have "gens2 = (if marked (b_enabled st) obj then (b_gens st)(x := remove_mode obj) else b_gens st)"
    by (auto simp: gens2_def gens1_def marked_def off_def)
  ultimately show ?thesis
    by (simp add: changed_to_id) (simp add: changed_to_def checked_def Let_def remove_mode_def E(3) ps_def obj_def)
qed

lemma exclude_loop:
  assumes "distinct xs" "distinct (all_gens st)" "\<And>x. x \<in> set xs \<Longrightarrow> readable (b_gens st x)"
  shows "fold_res (check_gen host n enable_tests) st xs =
    Inr (st\<lparr>b_groups := map (filter (\<lambda>x. \<not> (x \<in> set xs \<and> dropped enable_tests (b_enabled st) (b_gens st x)))) (b_groups st),
            b_programs := b_programs st @
              map (\<lambda>x. path_of_program host n (b_gens st x)) (filter (\<lambda>x. runs (b_enabled st) (b_gens st x)) xs),
            b_gens := (\<lambda>x. if x \<in> set xs \<and> marked (b_enabled st) (b_gens st x)
              then (b_gens st x)\<lparr>gen_mode := ''remove''\<rparr> else b_gens st x)\<rparr>)"
  using assms
proof (induction xs arbitrary: st)
  case (Cons x xs)
  let ?st = "checked host n enable_tests st x"
  have "distinct (all_gens ?st)"
    using Cons.prems(2) by (auto simp: checked_def Let_def all_gens_def distinct_concat_filter)
  moreover have same: "b_gens ?st y = b_gens st y" if "y \<in> set xs" for y
    using that Cons.prems(1) by (auto simp: checked_def Let_def)
  moreover have "b_enabled ?st = b_enabled st" by (simp add: checked_def Let_def)
  ultimately have "fold_res (check_gen host n enable_tests) ?st xs =
    Inr (?st\<lparr>b_groups := map (filter (\<lambda>y. \<not> (y \<in> set xs \<and> dropped enable_tests (b_enabled st) (b_gens st y)))) (b_groups ?st),
            b_programs := b_programs ?st @
              map (\<lambda>y. path_of_program host n (b_gens st y)) (filter (\<lambda>y. runs (b_enabled st) (b_gens st y)) xs),
            b_gens := (\<lambda>y. if y \<in> set xs \<and> marked (b_enabled st) (b_gens st y)
              then (b_gens st y)\<lparr>gen_mode := ''remove''\<rparr> else b_gens ?st y)\<rparr>)"
    using Cons.prems Cons.IH[of ?st]
    by (simp cong: conj_cong if_cong filter_cong map_cong)
  moreover have "check_gen host n enable_tests st x = Inr ?st"
    using Cons.prems by (intro check_gen_checked) auto
  ultimately show ?case using Cons.prems(1)
    by (auto simp: checked_def Let_def fun_eq_iff intro!: build_state.equality filter_cong)
qed (simp add: map_idI)

subsection \<open>What a build keeps\<close>

text \<open>The state after the disabled generators are taken out\<close>

definition kept_state :: "host \<Rightarrow> naming \<Rightarrow> bool \<Rightarrow> build_state \<Rightarrow> build_state" where
  "kept_state host n enable_tests st =
     (let modules = b_enabled st; gens = b_gens st
      in st\<lparr>b_groups := map (filter (\<lambda>x. \<not> dropped enable_tests modules (gens x))) (b_groups st),
            b_programs := b_programs st @ map (\<lambda>x. path_of_program host n (gens x)) (filter (\<lambda>x. runs modules (gens x)) (all_gens st)),
            b_gens := (\<lambda>x. if x \<in> set (all_gens st) \<and> marked modules (gens x) then (gens x)\<lparr>gen_mode := ''remove''\<rparr> else gens x)\<rparr>)"

lemma exclude_disabled_kept:
  assumes "b_enabled st \<noteq> []" "distinct (all_gens st)" "\<forall>x \<in> set (all_gens st). readable (b_gens st x)"
  shows "exclude_disabled host n enable_tests st = Inr (kept_state host n enable_tests st)"
proof -
  have "map (filter (\<lambda>x. \<not> (x \<in> set (all_gens st) \<and> P x))) (b_groups st) = map (filter (\<lambda>x. \<not> P x)) (b_groups st)" for P
    by (intro map_cong filter_cong refl) (auto simp: all_gens_def)
  then show ?thesis
    using exclude_loop[OF assms(2,2)] assms(1,3) by (simp add: exclude_disabled_def kept_state_def Let_def)
qed

text \<open>
  What waf finds for a name is a generator of the build; for the name of a module that is needed
  it is that module, and for a module in the groups it is the module itself.
\<close>

definition plain_module :: "build_gen \<Rightarrow> bool" where
  "plain_module obj \<longleftrightarrow>
     gen_is_module obj \<and> gen_dependencies obj = None \<and> gen_tests_module obj = None \<and>
     \<not> has_feature ''ns3pcfile'' (gen_features obj)"

definition finds_modules :: "(string \<Rightarrow> build_gen option res) \<Rightarrow> build_state \<Rightarrow> bool" where
  "finds_modules tgen st \<longleftrightarrow>
     (\<forall>m obj. tgen m = Inr (Some obj) \<longrightarrow>
        (\<exists>x \<in> set (all_gens st). b_gens st x = obj) \<and>
        (m \<in> needed tgen (b_enabled st) \<longrightarrow> gen_name obj = m \<and> plain_module obj)) \<and>
     (\<forall>x \<in> set (all_gens st). gen_is_module (b_gens st x) \<longrightarrow> tgen (gen_name (b_gens st x)) = Inr (Some (b_gens st x)))"

definition adds_programs :: "build_state \<Rightarrow> build_state \<Rightarrow> bool" where
  "adds_programs st st' \<longleftrightarrow>
     b_enabled st' = b_enabled st \<and> set (all_gens st) \<subseteq> set (all_gens st') \<and>
     (\<forall>x \<in> set (all_gens st). b_gens st' x = b_gens st x) \<and>
     (\<forall>x \<in> set (all_gens st') - set (all_gens st). \<not> gen_is_module (b_gens st' x)) \<and>
     distinct (all_gens st') \<and> (\<forall>x \<in> set (all_gens st'). readable (b_gens st' x))"

lemma finds_modules_finite: "finds_modules tgen st \<Longrightarrow> finite (used_names tgen)"
proof (rule finite_subset)
  assume "finds_modules tgen st"
  then show "used_names tgen \<subseteq> (\<Union>x \<in> set (all_gens st). set (gen_use (b_gens st x)))"
    by (fastforce simp: used_names_def finds_modules_def)
qed simp

lemma all_gens_kept:
  "set (all_gens (kept_state host n enable_tests st)) =
     {x \<in> set (all_gens st). \<not> dropped enable_tests (b_enabled st) (b_gens st x)}"
  by (auto simp: kept_state_def all_gens_def Let_def)

lemma kept_gen:
  "gen_name (b_gens (kept_state host n enable_tests st) x) = gen_name (b_gens st x)"
  "gen_is_module (b_gens (kept_state host n enable_tests st) x) = gen_is_module (b_gens st x)"
  "gen_use (b_gens (kept_state host n enable_tests st) x) = gen_use (b_gens st x)"
  "gen_dependencies (b_gens (kept_state host n enable_tests st) x) = gen_dependencies (b_gens st x)"
  "b_enabled (kept_state host n enable_tests st) = b_enabled st"
  by (simp_all add: kept_state_def Let_def)

lemma needed_module_kept:
  assumes "finds_modules tgen st" "m \<in> needed tgen (b_enabled st)" "tgen m = Inr (Some obj)"
    "adds_programs (st\<lparr>b_enabled := ms\<rparr>) st2" "set ms = needed tgen (b_enabled st)"
  shows "\<exists>y \<in> set (all_gens (kept_state host n enable_tests st2)).
    gen_name (b_gens st2 y) = m \<and> gen_is_module (b_gens st2 y)"
proof -
  from assms(1,3) obtain y where y: "y \<in> set (all_gens st)" "b_gens st y = obj" by (auto simp: finds_modules_def)
  have "gen_name obj = m" "plain_module obj" using assms(1-3) by (auto simp: finds_modules_def)
  moreover have same: "b_gens st2 y = obj" "y \<in> set (all_gens st2)" "b_enabled st2 = ms"
    using assms(4) y by (auto simp: adds_programs_def all_gens_def)
  ultimately have "\<not> dropped enable_tests (b_enabled st2) (b_gens st2 y)"
    using assms(2,5) by (simp add: dropped_def plain_module_def)
  then show ?thesis using same \<open>gen_name obj = m\<close> \<open>plain_module obj\<close>
    by (intro bexI[of _ y]) (auto simp: all_gens_kept plain_module_def)
qed

text \<open>
  A whole build: the enabled modules become those that are needed, and each module or program that
  is kept finds the modules it uses among those that are kept.
\<close>

definition complete :: "build_state \<Rightarrow> string set \<Rightarrow> bool" where
  "complete st deps \<longleftrightarrow> (\<forall>d \<in> deps. \<exists>y \<in> set (all_gens st). gen_name (b_gens st y) = d \<and> gen_is_module (b_gens st y))"

lemma kept_complete:
  fixes host n enable_tests
  assumes "finds_modules tgen st" "set ms = needed tgen (b_enabled st)"
    "\<And>m. m \<in> needed tgen (b_enabled st) \<Longrightarrow> \<exists>obj. tgen m = Inr (Some obj)"
    "adds_programs (st\<lparr>b_enabled := ms\<rparr>) st3"
  defines "st4 \<equiv> kept_state host n enable_tests st3"
  assumes x: "x \<in> set (all_gens st4)"
  shows "gen_is_module (b_gens st4 x) \<Longrightarrow>
      gen_name (b_gens st4 x) \<in> set ms \<and> complete st4 {d \<in> set (gen_use (b_gens st4 x)). prefix ''ns3-'' d}"
    "gen_dependencies (b_gens st4 x) = Some deps \<Longrightarrow> complete st4 (set deps)"
proof -
  have complete: "complete st4 ds" if "ds \<subseteq> set ms" for ds
    unfolding complete_def
  proof
    fix d assume "d \<in> ds"
    then have "d \<in> needed tgen (b_enabled st)" using that assms(2) by auto
    moreover from assms(3)[OF this] obtain obj where "tgen d = Inr (Some obj)" by blast
    ultimately show "\<exists>y \<in> set (all_gens st4). gen_name (b_gens st4 y) = d \<and> gen_is_module (b_gens st4 y)"
      using needed_module_kept[OF assms(1) _ _ assms(4,2)] by (simp add: st4_def kept_gen)
  qed
  have en: "b_enabled st3 = ms" using assms(4) by (simp add: adds_programs_def)
  have x3: "x \<in> set (all_gens st3)" "\<not> dropped enable_tests ms (b_gens st3 x)"
    using x en by (auto simp: st4_def all_gens_kept)
  show "gen_name (b_gens st4 x) \<in> set ms \<and> complete st4 {d \<in> set (gen_use (b_gens st4 x)). prefix ''ns3-'' d}"
    if "gen_is_module (b_gens st4 x)"
  proof -
    have is_module: "gen_is_module (b_gens st3 x)" using that by (simp add: st4_def kept_gen)
    then have name: "gen_name (b_gens st3 x) \<in> set ms" using x3 by (auto simp: dropped_def)
    have "x \<in> set (all_gens st)" "b_gens st3 x = b_gens st x"
      using assms(4) x3 is_module by (auto simp: adds_programs_def all_gens_def)
    then have "tgen (gen_name (b_gens st3 x)) = Inr (Some (b_gens st3 x))"
      using assms(1) is_module by (auto simp: finds_modules_def)
    then have "d \<in> set ms" if "d \<in> set (gen_use (b_gens st3 x))" "prefix ''ns3-'' d" for d
      using that name needed_step[of "gen_name (b_gens st3 x)" tgen "b_enabled st" d] unfolding assms(2)
      by (auto simp: depends_on_def)
    then show ?thesis using name by (auto simp: st4_def kept_gen intro!: complete[unfolded st4_def])
  qed
  show "complete st4 (set deps)" if "gen_dependencies (b_gens st4 x) = Some deps"
    using that x3 by (intro complete) (auto simp: st4_def kept_gen dropped_def)
qed

text \<open>
  C3: A build returns; unless a needed module is unknown, the enabled modules become the least
  set closed under the dependencies, and every module and program that is kept finds each ns-3
  module it uses among the kept generators.
\<close>

theorem build_complete:
  fixes tgen_in recurse_src st
  defines "st1 \<equiv> recurse_src (build_start st)"
  defines "tgen \<equiv> tgen_in st1"
  assumes "b_enabled st1 \<noteq> []" "finds_modules tgen st1"
    "\<And>st'. b_gens st' = b_gens st1 \<Longrightarrow> b_groups st' = b_groups st1 \<Longrightarrow> adds_programs st' (add_programs st')"
  shows "\<exists>r. build host n False enable_tests tgen_in recurse_src add_programs st = Some r \<and>
    (case r of
       Inl e \<Rightarrow> \<exists>m \<in> needed tgen (b_enabled st1). lookup_failed tgen m e
     | Inr st' \<Rightarrow> set (b_enabled st') = needed tgen (b_enabled st1) \<and>
         (\<forall>x \<in> set (all_gens st').
            (gen_is_module (b_gens st' x) \<longrightarrow>
               gen_name (b_gens st' x) \<in> set (b_enabled st') \<and>
               complete st' {d \<in> set (gen_use (b_gens st' x)). prefix ''ns3-'' d}) \<and>
            (\<forall>deps. gen_dependencies (b_gens st' x) = Some deps \<longrightarrow> complete st' (set deps))))"
proof -
  obtain r where r: "enable_needed tgen (b_enabled st1) = Some r" and result: "case r of
       Inl e \<Rightarrow> \<exists>m \<in> needed tgen (b_enabled st1). lookup_failed tgen m e
     | Inr ms \<Rightarrow> prefix (b_enabled st1) ms \<and> set ms = needed tgen (b_enabled st1) \<and>
         (distinct (b_enabled st1) \<longrightarrow> distinct ms) \<and>
         (\<forall>m \<in> needed tgen (b_enabled st1). \<exists>obj. tgen m = Inr (Some obj))"
    using enable_needed_result[OF finds_modules_finite[OF assms(4)]] by blast
  show ?thesis
  proof (cases r)
    case (Inl e)
    then show ?thesis using r result assms(3)
      by (simp add: build_def enable_modules_def Let_def flip: st1_def tgen_def)
  next
    case (Inr ms)
    define st2 where "st2 = enabled_test_libraries enable_tests (st1\<lparr>b_enabled := ms\<rparr>)"
    define st4 where "st4 = kept_state host n enable_tests (add_programs st2)"
    have ms: "set ms = needed tgen (b_enabled st1)" "ms \<noteq> []"
      "\<And>m. m \<in> needed tgen (b_enabled st1) \<Longrightarrow> \<exists>obj. tgen m = Inr (Some obj)"
      using result Inr assms(3) by auto
    have st2: "b_gens st2 = b_gens st1" "b_groups st2 = b_groups st1" "b_enabled st2 = ms"
      by (auto simp: st2_def enabled_test_libraries_def)
    have adds: "adds_programs st2 (add_programs st2)" by (rule assms(5)[OF st2(1,2)])
    then have adds1: "adds_programs (st1\<lparr>b_enabled := ms\<rparr>) (add_programs st2)"
      using st2 by (simp add: adds_programs_def all_gens_def)
    have en: "b_enabled (add_programs st2) = ms" "b_enabled st4 = ms"
      using adds st2 by (simp_all add: adds_programs_def st4_def kept_gen)
    then have "exclude_disabled host n enable_tests (add_programs st2) = Inr st4"
      using adds ms(2) unfolding st4_def by (intro exclude_disabled_kept) (auto simp: adds_programs_def)
    moreover obtain st' where st': "runnable_scripts st4 = Inr st'" "b_gens st' = b_gens st4" "b_groups st' = b_groups st4" "b_enabled st' = ms"
      using en ms(2) by (simp add: runnable_scripts_def)
    ultimately have "build host n False enable_tests tgen_in recurse_src add_programs st = Some (Inr st')"
      using r Inr assms(3) by (simp add: build_def enable_modules_def Let_def flip: st1_def tgen_def st2_def)
    moreover have "all_gens st' = all_gens st4" "complete st' deps = complete st4 deps" for deps
      using st'(2,3) by (simp_all add: all_gens_def complete_def)
    ultimately show ?thesis
      using kept_complete[OF assms(4) ms(1,3) adds1] ms(1) st'(2,4)
      by (intro exI[of _ "Inr st'"]) (simp add: st4_def)
  qed
qed

text \<open>An example: \<open>lte\<close> is enabled and needs two more modules, \<open>wifi\<close> and its program are taken out.\<close>

definition example_module :: "string \<Rightarrow> string list \<Rightarrow> build_gen" where
  "example_module name uses =
     \<lparr>gen_name = name, gen_features = Feature_list [''cxx'', ''ns3module''], gen_module = None, gen_mode = ''install'',
      gen_dependencies = None, gen_use = uses, gen_is_module = True, gen_tests_module = None,
      gen_bld_path = ''/ns/build'', gen_target = name, gen_source = []\<rparr>"

definition example_naming :: naming where "example_naming = \<lparr>n_prefix = ''ns3'', n_suffix = ''-debug''\<rparr>"

definition example_gens :: "build_gen list" where
  "example_gens =
     [example_module ''ns3-core'' [], example_module ''ns3-network'' [''ns3-core'', ''RT''],
      example_module ''ns3-lte'' [''ns3-network''], example_module ''ns3-wifi'' [''ns3-network''],
      create_ns3_program example_naming ''/ns/build/examples'' ''cell'' [''lte''],
      create_ns3_program example_naming ''/ns/build/examples'' ''hotspot'' [''wifi'']]"

definition example_state :: build_state where
  "example_state =
     \<lparr>b_gens = (\<lambda>x. if x < 6 then example_gens ! x else example_module [] []), b_groups = [[0, 1, 2], [3]], b_enabled = [''ns3-lte''],
      b_test_libraries = [], b_enabled_tests = [], b_script_dependencies = [(''s.py'', [''ns3-core''])], b_programs = [], b_scripts = []\<rparr>"

definition example_programs :: "build_state \<Rightarrow> build_state" where
  "example_programs st = st\<lparr>b_groups := b_groups st @ [[4, 5]]\<rparr>"

definition tgen_of :: "build_state \<Rightarrow> string \<Rightarrow> build_gen option res" where
  "tgen_of st name =
     (case find (\<lambda>x. gen_name (b_gens st x) = name) (all_gens st) of
        None \<Rightarrow> Inl (WafError name) | Some x \<Rightarrow> Inr (Some (b_gens st x)))"

lemma tgen_of_found: "tgen_of st m = Inr (Some obj) \<Longrightarrow> \<exists>x \<in> set (all_gens st). b_gens st x = obj \<and> gen_name obj = m"
  using find_SomeD by (fastforce simp: tgen_of_def split: option.splits)

lemma example_finds: "finds_modules (tgen_of example_state) example_state"
proof -
  have gens: "all_gens example_state = [0, 1, 2, 3]" by code_simp
  have plain: "list_all (\<lambda>x. plain_module (b_gens example_state x) \<and>
      tgen_of example_state (gen_name (b_gens example_state x)) = Inr (Some (b_gens example_state x))) (all_gens example_state)"
    by code_simp
  show ?thesis
    unfolding finds_modules_def
    using tgen_of_found[of example_state] plain by (fastforce simp: list_all_iff)
qed

lemma example_adds:
  assumes "b_gens st' = b_gens example_state" "b_groups st' = b_groups example_state"
  shows "adds_programs st' (example_programs st')"
proof -
  have "list_all (\<lambda>x. \<not> gen_is_module (b_gens example_state x)) [4, 5]" "list_all (\<lambda>x. readable (b_gens example_state x)) [0, 1, 2, 3, 4, 5]"
    by code_simp+
  moreover have "b_groups example_state = [[0, 1, 2], [3]]" by (simp add: example_state_def)
  ultimately show ?thesis
    using assms by (simp add: adds_programs_def example_programs_def all_gens_def list_all_iff)
qed

theorem build_complete_witness:
  "case build example_host example_naming False False tgen_of (\<lambda>st. example_state) example_programs example_state of
     Some (Inr st') \<Rightarrow> all_gens st' = [0, 1, 2, 4] \<and> complete st' {''ns3-lte''} \<and>
       b_programs st' = [''../build/examples/ns3-cell-debug''] \<and> b_scripts st' = [''s.py'']
   | _ \<Rightarrow> False"
proof -
  let ?r = "build example_host example_naming False False tgen_of (\<lambda>st. example_state) example_programs example_state"
  have "case ?r of
     Some (Inr st') \<Rightarrow> all_gens st' = [0, 1, 2, 4] \<and> gen_dependencies (b_gens st' 4) = Some [''ns3-lte''] \<and>
       b_programs st' = [''../build/examples/ns3-cell-debug''] \<and> b_scripts st' = [''s.py'']
   | _ \<Rightarrow> False"
    by code_simp
  then obtain st' where st': "?r = Some (Inr st')" "all_gens st' = [0, 1, 2, 4]" "gen_dependencies (b_gens st' 4) = Some [''ns3-lte'']"
    "b_programs st' = [''../build/examples/ns3-cell-debug'']" "b_scripts st' = [''s.py'']"
    by (auto split: option.splits sum.splits)
  have "b_enabled example_state \<noteq> []" by (simp add: example_state_def)
  then show ?thesis
    using build_complete[where st = example_state and recurse_src = "\<lambda>st. example_state" and tgen_in = tgen_of and
        host = example_host and n = example_naming and enable_tests = False and add_programs = example_programs]
      example_finds example_adds st' by auto
qed

text \<open>
  The path that is listed for a scratch program is not where it is built: the target is the bare
  name.
\<close>

lemma scratch_target:
  "g \<in> set (add_scratch_programs n bld_path_of is_dir glob enabled listing) \<Longrightarrow>
     gen_target g = gen_name g \<and> gen_target g \<noteq> object_name n (gen_name g)"
  by (auto simp: add_scratch_programs_def scratch_gen_def create_ns3_program_def object_name_def Let_def
      split: if_splits dest!: arg_cong[of _ "_ @ CHR ''-'' # _ @ _" length])

text \<open>With no module enabled, a script with dependencies ends the build.\<close>

lemma no_modules_scripts:
  assumes "b_enabled st = []" "(script, d # deps) \<in> set (b_script_dependencies st)"
  shows "runnable_scripts st = Inl UnboundLocalError"
  using assms by (force simp: runnable_scripts_def)

text \<open>
  The loop over the enabled modules ends, as there are finitely many names in use, with the least
  set that is closed under the dependencies, or with the error of a name that is needed.
\<close>

text \<open>
  C33: With finitely many names in use, the loops over the growing list of modules end, with the
  least set closed under the dependencies, the given modules first and, if they are distinct,
  none twice, or with the error of a name that is needed.
\<close>

theorem enable_needed_least:
  assumes "finite (used_names tgen)"
  shows "\<exists>r. enable_needed tgen modules = Some r \<and>
    (case r of
       Inl e \<Rightarrow> \<exists>m \<in> needed tgen modules. lookup_failed tgen m e
     | Inr ms \<Rightarrow> prefix modules ms \<and> set ms = needed tgen modules \<and> (distinct modules \<longrightarrow> distinct ms) \<and>
         (\<forall>m \<in> needed tgen modules. \<exists>obj. tgen m = Inr (Some obj)))"
  by (rule enable_needed_result[OF assms])

theorem enable_needed_least_witness:
  "enable_needed (tgen_of example_state) [''ns3-lte''] = Some (Inr [''ns3-lte'', ''ns3-network'', ''ns3-core'']) \<and>
   needed (tgen_of example_state) [''ns3-lte''] = {''ns3-lte'', ''ns3-network'', ''ns3-core''}"
proof -
  have "enable_needed (tgen_of example_state) [''ns3-lte''] = Some (Inr [''ns3-lte'', ''ns3-network'', ''ns3-core''])"
    by code_simp
  then show ?thesis
    using enable_needed_least[OF finds_modules_finite[OF example_finds], of "[''ns3-lte'']"] by auto
qed

text \<open>
  C34: With no module enabled nothing is taken out. Otherwise exactly these are taken out of the
  groups: the programs with a disabled module, the disabled modules, the test libraries (with
  tests disabled all of them, else those of disabled modules) and the .pc files whose module is
  not enabled; the other programs are listed, and the headers of disabled modules are to be
  removed.
\<close>

theorem exclude_disabled_result:
  assumes "distinct (all_gens st)" "\<forall>x \<in> set (all_gens st). readable (b_gens st x)"
  shows "exclude_disabled host n enable_tests st =
    Inr (if b_enabled st = [] then st else kept_state host n enable_tests st)"
  using exclude_disabled_kept[OF _ assms] by (cases "b_enabled st = []") (simp_all add: exclude_disabled_def)

lemma dropped_code [code]:
  "dropped enable_tests modules obj \<longleftrightarrow>
     (case gen_dependencies obj of None \<Rightarrow> False | Some deps \<Rightarrow> \<not> set deps \<subseteq> set modules) \<or>
     gen_is_module obj \<and> gen_name obj \<notin> set modules \<or>
     (case gen_tests_module obj of None \<Rightarrow> False | Some m \<Rightarrow> \<not> enable_tests \<or> m \<notin> set modules) \<or>
     has_feature ''ns3pcfile'' (gen_features obj) \<and> gen_module obj \<notin> (\<lambda>m. Some (Some m)) ` set modules"
  by (auto simp: dropped_def split: option.splits)

definition built_example :: build_state where
  "built_example = (example_programs example_state)\<lparr>b_enabled := [''ns3-lte'', ''ns3-network'', ''ns3-core'']\<rparr>"

theorem exclude_disabled_result_witness:
  "map_value b_groups (exclude_disabled example_host example_naming False built_example) = Inr [[0, 1, 2], [], [4]]"
proof -
  have "b_enabled built_example \<noteq> []" "distinct (all_gens built_example)" by code_simp+
  moreover have "list_all (\<lambda>x. readable (b_gens built_example x)) (all_gens built_example)" by code_simp
  then have "\<forall>x \<in> set (all_gens built_example). readable (b_gens built_example x)" by (simp add: list_all_iff)
  ultimately have "exclude_disabled example_host example_naming False built_example =
      Inr (kept_state example_host example_naming False built_example)"
    using exclude_disabled_result[of built_example] by simp
  moreover have "b_groups built_example = [[0, 1, 2], [3], [4, 5]]" by code_simp
  moreover have "map (\<lambda>x. dropped False (b_enabled built_example) (b_gens built_example x)) [0, 1, 2, 3, 4, 5] =
      [False, False, False, True, False, True]" by code_simp
  ultimately show ?thesis by (simp add: kept_state_def Let_def)
qed

end
