(* ===== verification/Configure.thy ===== *)
theory Configure
  imports Cfg_Utils Shlex Py_Format "HOL-Library.List_Lexorder" "HOL-Library.Char_ord"
begin

section \<open>Configuring the build (\<open>wscript\<close>)\<close>

text \<open>
  The function \<open>configure\<close> (here \<open>configure_build\<close>) of the top-level \<^verbatim>\<open>wscript\<close> with its helpers and the summary it prints,
  and the lists that are printed after a build.  The compiler, the programs and packages that are
  found and the scripts of the subdirectories are parameters.
\<close>

subsection \<open>The environment\<close>

type_synonym feature = "string \<times> string \<times> bool \<times> string"

text \<open>
  \<open>NS3_ENABLED_MODULES\<close> may be the very list that is in \<open>NS3_MODULES\<close>: then \<open>v_enabled\<close> is
  \<open>None\<close> and the list is the one in \<open>v_modules\<close>.
\<close>

record conf_env =
  v_ccflags :: "string list"
  v_cxxflags :: "string list"
  v_cflags :: "string list"
  v_linkflags :: "string list"
  v_defines :: "string list"
  v_gcov :: bool
  v_profile :: string
  v_suffix :: string
  v_cxx_name :: string
  v_compiler_cxx :: string
  v_compiler_cc :: string
  v_cxx :: "string list"
  v_module_path :: "string list"
  v_soname :: bool
  v_static :: bool
  v_stlib_marker :: string
  v_shlib_marker :: string
  v_modules :: "string list"
  v_enabled :: "string list option"
  v_not_built :: "string list"
  v_sudo :: bool
  v_tests :: bool
  v_examples :: bool
  v_example_dirs :: "string list"
  v_valgrind :: bool
  v_features :: "feature list"

definition enabled_list :: "conf_env \<Rightarrow> string list" where
  "enabled_list env = (case v_enabled env of None \<Rightarrow> v_modules env | Some ms \<Rightarrow> ms)"

definition set_enabled_list :: "string list \<Rightarrow> conf_env \<Rightarrow> conf_env" where
  "set_enabled_list ms env =
     (case v_enabled env of None \<Rightarrow> env\<lparr>v_modules := ms\<rparr> | Some old \<Rightarrow> env\<lparr>v_enabled := Some ms\<rparr>)"

record conf_options =
  op_gcov :: bool
  op_profile :: string
  op_static :: bool
  op_modules :: string
  op_sudo :: bool
  op_tests :: bool
  op_no_tests :: bool
  op_examples :: bool
  op_no_examples :: bool

text \<open>
  What is outside: the compiler's answer to a test program in an environment (\<open>None\<close> if it cannot
  be built, else its status), the file \<^verbatim>\<open>libstdc++.so\<close> the compiler names, programs and packages,
  the scripts of subdirectories, the directory \<^verbatim>\<open>examples\<close>.
\<close>

record conf_host =
  h_platform :: string
  h_options_platform :: string
  h_environ :: "(string, string) dict"
  h_compiles :: "string \<Rightarrow> conf_env \<Rightarrow> int option"
  h_libstdcxx :: "string list \<Rightarrow> string"
  h_program :: "string \<Rightarrow> bool"
  h_package :: "string \<Rightarrow> bool"
  h_recurse :: "string \<Rightarrow> conf_env \<Rightarrow> conf_env"
  h_examples :: "string list"
  h_is_dir :: "string \<Rightarrow> bool"

subsection \<open>Helpers\<close>

text \<open>\<open>_check_compilation_flag\<close>: the message that is shown, and whether the flag is accepted.\<close>

definition flag_message :: "string list \<Rightarrow> string" where
  "flag_message l =
     (let flag_str = (if 1 < length l then ''flags '' else ''flag '') @ join '' '' l
      in ''Checking for compilation '' @ take 28 flag_str @ ''...'' @ '' support'')"

definition check_compilation_flag ::
  "conf_host \<Rightarrow> conf_env \<Rightarrow> string list \<Rightarrow> string \<Rightarrow> string list \<Rightarrow> string \<times> bool" where
  "check_compilation_flag host env flag mode linkflags =
     (let mode = (if mode = ''cc'' then ''c'' else mode);
          env = (if mode = ''cxx'' then env\<lparr>v_cxxflags := v_cxxflags env @ flag\<rparr> else env\<lparr>v_cflags := v_cflags env @ flag\<rparr>);
          env = env\<lparr>v_linkflags := v_linkflags env @ linkflags\<rparr>
      in (flag_message (flag @ linkflags), h_compiles host mode env = Some 0))"

definition flag_works :: "conf_host \<Rightarrow> conf_env \<Rightarrow> string \<Rightarrow> bool" where
  "flag_works host env flag = snd (check_compilation_flag host env [flag] ''cxx'' [])"

definition report_optional_feature :: "string \<Rightarrow> string \<Rightarrow> bool \<Rightarrow> string \<Rightarrow> conf_env \<Rightarrow> conf_env" where
  "report_optional_feature name caption was_enabled reason env =
     env\<lparr>v_features := v_features env @ [(name, caption, was_enabled, reason)]\<rparr>"

definition check_optional_feature :: "conf_env \<Rightarrow> string \<Rightarrow> bool res" where
  "check_optional_feature env name =
     (case find (\<lambda>f. fst f = name) (v_features env) of
        None \<Rightarrow> Inl KeyError | Some (name1, caption, was_enabled, reason) \<Rightarrow> Inr was_enabled)"

subsection \<open>The steps of \<open>configure\<close>\<close>

definition configure_gcov :: "conf_options \<Rightarrow> conf_env \<Rightarrow> conf_env" where
  "configure_gcov opts env =
     (if op_gcov opts
      then env\<lparr>v_gcov := True, v_ccflags := v_ccflags env @ [''-fprofile-arcs'', ''-ftest-coverage''],
               v_cxxflags := v_cxxflags env @ [''-fprofile-arcs'', ''-ftest-coverage''], v_linkflags := v_linkflags env @ [''-lgcov'']\<rparr>
      else env)"

definition configure_profile :: "conf_options \<Rightarrow> conf_env \<Rightarrow> conf_env" where
  "configure_profile opts env =
     (let env = (if op_profile opts = ''debug''
                 then env\<lparr>v_defines := v_defines env @ [''NS3_ASSERT_ENABLE'', ''NS3_LOG_ENABLE'']\<rparr> else env)
      in env\<lparr>v_profile := op_profile opts,
             v_suffix := (if op_profile opts = ''release'' then [] else CHR ''-'' # op_profile opts)\<rparr>)"

definition configure_compiler :: "conf_host \<Rightarrow> conf_options \<Rightarrow> conf_env \<Rightarrow> conf_env" where
  "configure_compiler host opts env =
     (if v_cxx_name env \<notin> {''gcc'', ''icc''} then env
      else let env = (if op_profile opts = ''release'' then env\<lparr>v_cxxflags := v_cxxflags env @ [''-fomit-frame-pointer'']\<rparr> else env);
               env = (if op_profile opts = ''optimized'' \<and> flag_works host env ''-march=native''
                      then env\<lparr>v_cxxflags := v_cxxflags env @ [''-march=native'']\<rparr> else env);
               env = (if h_platform host = ''win32'' then env\<lparr>v_linkflags := v_linkflags env @ [''-Wl,--enable-runtime-pseudo-reloc'']\<rparr>
                      else if h_platform host = ''cygwin'' then env\<lparr>v_linkflags := v_linkflags env @ [''-Wl,--enable-auto-import'']\<rparr>
                      else env);
               location = dirname (strip (h_libstdcxx host (v_cxx env @ [''-print-file-name=libstdc++.so''])));
               env = (if location \<noteq> [] then env\<lparr>v_module_path := v_module_path env @ [location]\<rparr> else env)
           in if h_options_platform host = ''linux'' \<and> flag_works host env ''-Wl,--soname=foo'' then env\<lparr>v_soname := True\<rparr> else env)"

definition whole_archive :: "string list" where
  "whole_archive = [''-Wl,--whole-archive,-Bstatic'', ''-Wl,-Bdynamic,--no-whole-archive'']"

definition configure_static :: "conf_host \<Rightarrow> conf_options \<Rightarrow> conf_env \<Rightarrow> conf_env" where
  "configure_static host opts env =
     (let env = env\<lparr>v_static := False\<rparr>;
          flags = (if h_options_platform host = ''darwin'' then [''-Wl,-all_load''] else whole_archive)
      in if \<not> op_static opts then env
         else if snd (check_compilation_flag host env [] ''cxx'' flags)
         then (report_optional_feature ''static'' ''Static build'' True [] env)\<lparr>v_static := True\<rparr>
         else report_optional_feature ''static'' ''Static build'' False (''Link flag '' @ hd flags @ '' does not work'') env)"

definition configure_modules :: "conf_options \<Rightarrow> ns3_config \<Rightarrow> conf_env \<Rightarrow> conf_env res" where
  "configure_modules opts cfg env =
     (if op_modules opts \<noteq> []
      then Inr (env\<lparr>v_enabled := Some (map (\<lambda>m. ''ns3-'' @ m) (split_on (CHR '','') (op_modules opts)))\<rparr>)
      else case modules_enabled cfg of
             [] \<Rightarrow> Inl IndexError
           | m # ms \<Rightarrow>
               if m = ''all_modules'' then Inr (env\<lparr>v_enabled := None\<rparr>)
               else Inr (env\<lparr>v_enabled := Some (map (\<lambda>m. ''ns3-'' @ m) (m # ms))\<rparr>))"

definition not_built_message :: "string \<Rightarrow> string" where
  "not_built_message m = ''Exiting because the '' @ m @ '' module can not be built and it was the only one enabled.''"

definition remove_not_built :: "conf_env \<Rightarrow> string \<Rightarrow> conf_env res" where
  "remove_not_built env not_built =
     (let name = ''ns3-'' @ not_built
      in if name \<in> set (enabled_list env)
         then let ms = remove1 name (enabled_list env)
              in if ms = [] then Inl (WafError (not_built_message not_built)) else Inr (set_enabled_list ms env)
         else Inr env)"

definition configure_not_built :: "conf_host \<Rightarrow> conf_env \<Rightarrow> conf_env res" where
  "configure_not_built host env =
     (let env = (if v_static env \<and> h_platform host = ''darwin'' then env\<lparr>v_not_built := v_not_built env @ [''template'']\<rparr> else env)
      in fold_res remove_not_built env (v_not_built env))"

definition configure_sudo :: "conf_host \<Rightarrow> conf_options \<Rightarrow> conf_env \<Rightarrow> conf_env" where
  "configure_sudo host opts env =
     (let on = (op_sudo opts \<and> h_program host ''sudo'');
          why = (if on then ''because we like it'' else if op_sudo opts then ''program sudo not found''
                 else ''option --enable-sudo not selected'')
      in report_optional_feature ''ENABLE_SUDO'' ''Use sudo to set suid bit'' on why (env\<lparr>v_sudo := on\<rparr>))"

text \<open>Tests and examples are decided alike: a pair of options, then the configuration file.\<close>

definition decide :: "string \<Rightarrow> bool \<Rightarrow> bool \<Rightarrow> bool \<Rightarrow> bool \<Rightarrow> bool \<times> string" where
  "decide what enable disable by_file file_exists =
     (if enable then (True, ''option --enable-'' @ what @ '' selected'')
      else if disable then (False, ''option --disable-'' @ what @ '' selected'')
      else (by_file,
        if file_exists then ''based on configuration file'' else if by_file then ''defaults to enabled'' else ''defaults to disabled''))"

definition configure_tests :: "conf_options \<Rightarrow> ns3_config \<Rightarrow> conf_env \<Rightarrow> conf_env" where
  "configure_tests opts cfg env =
     (case decide ''tests'' (op_tests opts) (op_no_tests opts) (tests_enabled cfg) (config_file_exists cfg) of
        (on, why) \<Rightarrow> report_optional_feature ''ENABLE_TESTS'' ''Build tests'' on why (env\<lparr>v_tests := on\<rparr>))"

definition configure_examples :: "conf_host \<Rightarrow> conf_options \<Rightarrow> ns3_config \<Rightarrow> conf_env \<Rightarrow> conf_env" where
  "configure_examples host opts cfg env =
     (case decide ''examples'' (op_examples opts) (op_no_examples opts) (examples_enabled cfg) (config_file_exists cfg) of
        (on, why) \<Rightarrow>
          report_optional_feature ''ENABLE_EXAMPLES'' ''Build examples'' on why
            (env\<lparr>v_examples := on,
                 v_example_dirs := filter (\<lambda>d. \<not> (prefix ''.'' d \<or> d = ''CVS'') \<and> h_is_dir host (path_join ''examples'' d)) (h_examples host)\<rparr>))"

definition configure_tools :: "conf_host \<Rightarrow> conf_env \<Rightarrow> conf_env" where
  "configure_tools host env =
     (let env = env\<lparr>v_valgrind := h_program host ''valgrind''\<rparr>;
          env = (if \<not> v_static env then env
                 else if h_platform host = ''darwin'' then env\<lparr>v_stlib_marker := ''-Wl,-all_load''\<rparr>
                 else env\<lparr>v_stlib_marker := ''-Wl,--whole-archive,-Bstatic'', v_shlib_marker := ''-Wl,-Bdynamic,--no-whole-archive''\<rparr>)
      in report_optional_feature ''GSL'' ''GNU Scientific Library (GSL)'' (h_package host ''gsl'') ''GSL not found'' env)"

definition add_gcc_flag :: "conf_host \<Rightarrow> conf_env \<Rightarrow> string \<Rightarrow> conf_env" where
  "add_gcc_flag host env flag =
     (let env = (if v_compiler_cxx env = ''g++'' \<and> \<not> dict_has (h_environ host) ''CXXFLAGS'' \<and>
                    snd (check_compilation_flag host env [flag] ''cxx'' [])
                 then env\<lparr>v_cxxflags := v_cxxflags env @ [flag]\<rparr> else env)
      in if v_compiler_cc env = ''gcc'' \<and> \<not> dict_has (h_environ host) ''CCFLAGS'' \<and>
            snd (check_compilation_flag host env [flag] ''cc'' [])
         then env\<lparr>v_ccflags := v_ccflags env @ [flag]\<rparr> else env)"

definition extra_flags :: "conf_host \<Rightarrow> conf_env \<Rightarrow> string \<times> (string list \<Rightarrow> conf_env \<Rightarrow> conf_env) \<Rightarrow> conf_env res" where
  "extra_flags host env p =
     (case map_of (h_environ host) (fst p) of
        None \<Rightarrow> Inr env
      | Some text \<Rightarrow> map_value (\<lambda>words. snd p words env) (shlex_split text))"

definition user_flags :: "conf_host \<Rightarrow> conf_env \<Rightarrow> conf_env res" where
  "user_flags host env =
     fold_res (extra_flags host) env
       [(''CCFLAGS_EXTRA'', \<lambda>ws env. env\<lparr>v_ccflags := v_ccflags env @ ws\<rparr>),
        (''CXXFLAGS_EXTRA'', \<lambda>ws env. env\<lparr>v_cxxflags := v_cxxflags env @ ws\<rparr>),
        (''LINKFLAGS_EXTRA'', \<lambda>ws env. env\<lparr>v_linkflags := v_linkflags env @ ws\<rparr>),
        (''LDFLAGS_EXTRA'', \<lambda>ws env. env\<lparr>v_linkflags := v_linkflags env @ ws\<rparr>)]"

definition configure_extra :: "conf_host \<Rightarrow> conf_env \<Rightarrow> conf_env res" where
  "configure_extra host env =
     (let env = env\<lparr>v_ccflags := v_ccflags env @ v_cxxflags env\<rparr>;
          env = foldl (add_gcc_flag host) env
                  [''-Wno-error=deprecated-declarations'', ''-fstrict-aliasing'', ''-Wstrict-aliasing'']
      in user_flags host env)"

definition configure_start :: "conf_host \<Rightarrow> conf_options \<Rightarrow> conf_env \<Rightarrow> conf_env" where
  "configure_start host opts env =
     (let env = configure_gcov opts (env\<lparr>v_features := []\<rparr>);
          env = configure_static host opts (configure_compiler host opts (configure_profile opts env))
      in h_recurse host ''src'' (h_recurse host ''bindings/python'' (env\<lparr>v_not_built := []\<rparr>)))"

definition configure_build :: "conf_host \<Rightarrow> conf_options \<Rightarrow> ns3_config \<Rightarrow> conf_env \<Rightarrow> conf_env res" where
  "configure_build host opts cfg env =
     bind_res (configure_modules opts cfg (configure_start host opts env)) (\<lambda>env.
     bind_res (configure_not_built host env) (\<lambda>env.
     let env = configure_sudo host opts (h_recurse host ''src/mpi'' env);
         env = configure_examples host opts cfg (configure_tests opts cfg env)
     in configure_extra host (configure_tools host env)))"

subsection \<open>The summary\<close>

definition ljust :: "nat \<Rightarrow> string \<Rightarrow> string" where
  "ljust n s = s @ replicate (n - length s) (CHR '' '')"

definition feature_line :: "(string \<Rightarrow> string) \<Rightarrow> feature \<Rightarrow> string" where
  "feature_line colors f =
     (case f of (name, caption, was_enabled, reason) \<Rightarrow>
        let (status, color) = (if was_enabled then (''enabled'', ''GREEN'') else (''not enabled ('' @ reason @ '')'', ''RED''))
        in ljust 30 caption @ '': '' @ colors color @ status @ colors ''NORMAL'')"

definition summary :: "(string \<Rightarrow> string) \<Rightarrow> conf_env \<Rightarrow> string" where
  "summary colors env = ln ''---- Summary of optional NS-3 features:'' @ concat (map (\<lambda>f. ln (feature_line colors f)) (v_features env))"

subsection \<open>After the build\<close>

text \<open>
  \<open>print_module_names\<close>.  \<open>print x,\<close> writes a blank first if the last thing written left the soft
  space on, which it does unless it ends in a tab or newline.
\<close>

definition soft_space :: "string \<Rightarrow> bool" where
  "soft_space s \<longleftrightarrow> s = [] \<or> last s = CHR '' '' \<or> \<not> is_space (last s)"

fun names_loop :: "nat \<Rightarrow> bool \<Rightarrow> string list \<Rightarrow> string" where
  "names_loop i soft [] = (if i \<noteq> 1 then [newline] else [])"
| "names_loop i soft (name # names) =
     (if soft then '' '' else []) @ ljust 25 name @
     (if i = 3 then newline # names_loop 1 False names else names_loop (i + 1) (soft_space (ljust 25 name)) names)"

definition print_module_names :: "string list \<Rightarrow> string list \<times> string" where
  "print_module_names names = (sort names, names_loop 1 False (sort names))"

record shutdown_env =
  s_print :: bool
  s_enabled :: "string list"
  s_modular :: "string list"
  s_not_built :: "string list"
  s_programs :: "string list"
  s_scripts :: "string list"
  s_module_path :: "string list"
  s_executable_path :: "string list"

record shutdown_options =
  so_lcov :: bool
  so_run :: string
  so_pyrun :: string
  so_visualize :: bool
  so_shell :: bool
  so_check :: bool

definition module_names :: "shutdown_env \<Rightarrow> string list" where
  "module_names env =
     map (\<lambda>name. drop 4 name @ (if name \<notin> set (s_modular env) then '' (no Python)'' else [])) (s_enabled env)"

definition print_built :: "shutdown_env \<Rightarrow> shutdown_env \<times> string" where
  "print_built env =
     (if \<not> s_print env then (env, [])
      else let built = [newline] @ ln ''Modules built:'' @ snd (print_module_names (module_names env)) @ [newline];
               (in_order, names) = print_module_names (s_not_built env)
           in if s_not_built env = [] then (env\<lparr>s_print := False\<rparr>, built)
              else (env\<lparr>s_not_built := in_order, s_print := False\<rparr>,
                    built @ ln ''Modules not built (see ns-3 tutorial for explanation):'' @ names @ [newline]))"

definition build_status :: "shutdown_env \<Rightarrow> string" where
  "build_status env =
     ln ''#! /usr/bin/env python'' @ ln [] @ ln ''# Programs that are runnable.'' @
     ln (''ns3_runnable_programs = '' @ str_list (s_programs env)) @ ln [] @ ln ''# Scripts that are runnable.'' @
     ln (''ns3_runnable_scripts = '' @ str_list (s_scripts env)) @ ln []"

definition shell_message :: string where
  "shell_message =
     ln ''Detected shell (./waf shell) with incorrect configuration'' @
     ln ''========================================================='' @
     ln ''Possible reasons for this problem:'' @
     ln ''  1. You switched to another ns-3 tree from inside this shell'' @
     ln ''  2. You switched ns-3 debug level (waf configure --debug)'' @
     ln ''  3. You modified the list of built ns-3 modules'' @
     ln ''You should correct this situation before running any program.  Possible solutions:'' @
     ln ''  1. Exit this shell, and start a new one'' @
     ''  2. Run a new nested shell''"

definition check_shell :: "char \<Rightarrow> (string, string) dict \<Rightarrow> shutdown_env \<Rightarrow> unit res" where
  "check_shell sep environ env =
     (case (map_of environ ''NS3_MODULE_PATH'', map_of environ ''NS3_EXECUTABLE_PATH'') of
        (Some modpath, Some execpath) \<Rightarrow>
          if modpath \<noteq> join [sep] (s_module_path env) \<or> join [sep] (s_executable_path env) \<noteq> execpath
          then Inl (WafError shell_message) else Inr ()
      | _ \<Rightarrow> Inr ())"

text \<open>What is run at the end may raise itself; \<open>perform\<close> says how it ends.\<close>

datatype final_action = Lcov_report | Run_program string bool | Run_python string bool

definition final_steps ::
  "(final_action \<Rightarrow> unit res) \<Rightarrow> char \<Rightarrow> (string, string) dict \<Rightarrow> shutdown_options \<Rightarrow> shutdown_env \<Rightarrow> unit res" where
  "final_steps perform sep environ opts env =
     bind_res (if so_lcov opts then perform Lcov_report else Inr ()) (\<lambda>_.
     bind_res (if so_run opts \<noteq> [] then bind_res (perform (Run_program (so_run opts) (so_visualize opts))) (\<lambda>_. Inl (SystemExit 0))
               else Inr ()) (\<lambda>_.
     bind_res (if so_pyrun opts \<noteq> [] then bind_res (perform (Run_python (so_pyrun opts) (so_visualize opts))) (\<lambda>_. Inl (SystemExit 0))
               else Inr ()) (\<lambda>_.
       if so_shell opts then Inl (WafError (''Please run `./waf shell'' @ [CHR 0x27] @ '' now, instead of `./waf --shell'' @ [CHR 0x27]))
       else if so_check opts then Inl (WafError (''Please run `./test.py'' @ [CHR 0x27] @ '' now, instead of `./waf --check'' @ [CHR 0x27]))
       else check_shell sep environ env)))"

text \<open>\<open>shutdown\<close>: the environment after it, the printed text, the status file and how it ends.\<close>

definition shutdown ::
  "(final_action \<Rightarrow> unit res) \<Rightarrow> char \<Rightarrow> (string, string) dict \<Rightarrow> shutdown_options \<Rightarrow> shutdown_env \<Rightarrow>
   shutdown_env \<times> string \<times> string \<times> unit res" where
  "shutdown perform sep environ opts env =
     (case print_built env of (env, printed) \<Rightarrow> (env, printed, build_status env, final_steps perform sep environ opts env))"

subsection \<open>Which modules stay enabled\<close>

definition still_enabled :: "string list \<Rightarrow> string list \<Rightarrow> string list" where
  "still_enabled not_built ms = filter (\<lambda>m. m \<notin> (\<lambda>x. ''ns3-'' @ x) ` set not_built) ms"

lemma enabled_list_set [simp]: "enabled_list (set_enabled_list ms env) = ms"
  by (auto simp: enabled_list_def set_enabled_list_def split: option.split)

lemma set_enabled_same [simp]: "set_enabled_list (enabled_list env) env = env"
  by (auto simp: enabled_list_def set_enabled_list_def split: option.split)

lemma set_enabled_twice [simp]: "set_enabled_list ms (set_enabled_list ms' env) = set_enabled_list ms env"
  by (auto simp: set_enabled_list_def split: option.split)

lemma remove_not_built_filter:
  assumes "distinct (enabled_list env)"
  shows "remove_not_built env m =
    (if enabled_list env \<noteq> [] \<and> still_enabled [m] (enabled_list env) = []
     then Inl (WafError (not_built_message m)) else Inr (set_enabled_list (still_enabled [m] (enabled_list env)) env))"
proof (cases "''ns3-'' @ m \<in> set (enabled_list env)")
  case True
  then have "remove1 (''ns3-'' @ m) (enabled_list env) = still_enabled [m] (enabled_list env)"
    using assms by (simp add: still_enabled_def distinct_remove1_removeAll removeAll_filter_not_eq eq_commute)
  then show ?thesis using True by (auto simp: remove_not_built_def Let_def)
next
  case False
  then have "still_enabled [m] (enabled_list env) = enabled_list env"
    by (auto simp: still_enabled_def filter_id_conv)
  then show ?thesis using False by (simp add: remove_not_built_def Let_def)
qed

lemma still_enabled_Cons: "still_enabled (m # not_built) ms = still_enabled not_built (still_enabled [m] ms)"
  by (auto simp: still_enabled_def intro!: filter_cong)

lemma distinct_still_enabled [simp]: "distinct ms \<Longrightarrow> distinct (still_enabled not_built ms)"
  by (simp add: still_enabled_def)

lemma remove_all_not_built:
  assumes "distinct (enabled_list env)"
  shows "if enabled_list env \<noteq> [] \<and> still_enabled not_built (enabled_list env) = []
    then \<exists>m \<in> set not_built. fold_res remove_not_built env not_built = Inl (WafError (not_built_message m))
    else fold_res remove_not_built env not_built = Inr (set_enabled_list (still_enabled not_built (enabled_list env)) env)"
  using assms
proof (induction not_built arbitrary: env)
  case (Cons m not_built)
  let ?env = "set_enabled_list (still_enabled [m] (enabled_list env)) env"
  have empty: "still_enabled not_built [] = []" by (simp add: still_enabled_def)
  show ?case
  proof (cases "enabled_list env \<noteq> [] \<and> still_enabled [m] (enabled_list env) = []")
    case True
    then show ?thesis using Cons.prems empty by (simp add: remove_not_built_filter still_enabled_Cons[of m not_built])
  next
    case False
    then have step: "remove_not_built env m = Inr ?env" using Cons.prems by (auto simp: remove_not_built_filter)
    have "enabled_list env \<noteq> [] \<longleftrightarrow> enabled_list ?env \<noteq> []" using False by (auto simp: still_enabled_def)
    then show ?thesis using Cons.IH[of ?env] Cons.prems step
      by (auto simp: still_enabled_Cons[of m not_built])
  qed
qed (simp add: still_enabled_def)

text \<open>What the flags leave alone\<close>

definition settings :: "conf_env \<Rightarrow> conf_env" where
  "settings env = env\<lparr>v_ccflags := [], v_cxxflags := [], v_linkflags := []\<rparr>"

lemma settings_eq:
  assumes "settings e = settings e'"
  shows "enabled_list e = enabled_list e'" "v_modules e = v_modules e'" "v_tests e = v_tests e'" "v_examples e = v_examples e'"
    "v_sudo e = v_sudo e'" "v_features e = v_features e'"
proof -
  have "enabled_list (settings x) = enabled_list x \<and> v_modules (settings x) = v_modules x \<and> v_tests (settings x) = v_tests x \<and>
    v_examples (settings x) = v_examples x \<and> v_sudo (settings x) = v_sudo x \<and> v_features (settings x) = v_features x" for x
    by (simp add: settings_def enabled_list_def split: option.split)
  then show "enabled_list e = enabled_list e'" "v_modules e = v_modules e'" "v_tests e = v_tests e'" "v_examples e = v_examples e'"
    "v_sudo e = v_sudo e'" "v_features e = v_features e'"
    using assms by metis+
qed

lemma settings_flags [simp]:
  "settings (env\<lparr>v_ccflags := ws\<rparr>) = settings env" "settings (env\<lparr>v_cxxflags := ws\<rparr>) = settings env"
  "settings (env\<lparr>v_linkflags := ws\<rparr>) = settings env" "settings (add_gcc_flag host env flag) = settings env"
  by (simp_all add: settings_def add_gcc_flag_def Let_def)

lemma user_flags_settings:
  "case user_flags host env of
     Inr env' \<Rightarrow> settings env' = settings env
   | Inl e \<Rightarrow> \<exists>key text. map_of (h_environ host) key = Some text \<and> shlex_split text = Inl e"
proof -
  have step: "case extra_flags host env p of
     Inr env' \<Rightarrow> settings env' = settings env
   | Inl e \<Rightarrow> map_of (h_environ host) (fst p) \<noteq> None \<and> shlex_split (the (map_of (h_environ host) (fst p))) = Inl e"
    if "\<And>ws e. settings (snd p ws e) = settings e" for p env
    using that by (cases "shlex_split (the (map_of (h_environ host) (fst p)))") (auto simp: extra_flags_def split: option.split)
  have "case fold_res (extra_flags host) env ps of
     Inr env' \<Rightarrow> settings env' = settings env
   | Inl e \<Rightarrow> \<exists>key text. map_of (h_environ host) key = Some text \<and> shlex_split text = Inl e"
    if "\<And>p ws e. p \<in> set ps \<Longrightarrow> settings (snd p ws e) = settings e" for ps
    using that
  proof (induction ps arbitrary: env)
    case (Cons p ps)
    have step: "case extra_flags host env p of
       Inr env' \<Rightarrow> settings env' = settings env
     | Inl e \<Rightarrow> map_of (h_environ host) (fst p) \<noteq> None \<and> shlex_split (the (map_of (h_environ host) (fst p))) = Inl e"
      using Cons.prems by (intro step) simp
    show ?case
    proof (cases "extra_flags host env p")
      case (Inl e)
      then obtain t where "map_of (h_environ host) (fst p) = Some t" "shlex_split t = Inl e" using step by auto
      then show ?thesis using Inl by auto
    next
      case (Inr env')
      then have "settings env' = settings env" using step by simp
      then show ?thesis using Cons.IH[of env'] Cons.prems Inr by (simp split: sum.splits)
    qed
  qed simp
  then show ?thesis unfolding user_flags_def by (rule meta_mp) auto
qed

lemma configure_extra_settings:
  "case configure_extra host env of
     Inr env' \<Rightarrow> settings env' = settings env
   | Inl e \<Rightarrow> \<exists>key text. map_of (h_environ host) key = Some text \<and> shlex_split text = Inl e"
  using user_flags_settings[of host "foldl (add_gcc_flag host) (env\<lparr>v_ccflags := v_ccflags env @ v_cxxflags env\<rparr>)
    [''-Wno-error=deprecated-declarations'', ''-fstrict-aliasing'', ''-Wstrict-aliasing'']"]
  by (simp add: configure_extra_def Let_def split: sum.splits)

text \<open>The environment once the last flag is in, from the one with the modules\<close>

definition decided :: "conf_host \<Rightarrow> conf_options \<Rightarrow> ns3_config \<Rightarrow> conf_env \<Rightarrow> conf_env" where
  "decided host opts cfg env =
     configure_tools host (configure_examples host opts cfg (configure_tests opts cfg
       (configure_sudo host opts (h_recurse host ''src/mpi'' env))))"

lemma enabled_list_update [simp]:
  "enabled_list (env\<lparr>v_features := fs\<rparr>) = enabled_list env" "enabled_list (env\<lparr>v_tests := b\<rparr>) = enabled_list env"
  "enabled_list (env\<lparr>v_examples := b\<rparr>) = enabled_list env" "enabled_list (env\<lparr>v_sudo := b\<rparr>) = enabled_list env"
  "enabled_list (env\<lparr>v_valgrind := b\<rparr>) = enabled_list env" "enabled_list (env\<lparr>v_example_dirs := ds\<rparr>) = enabled_list env"
  "enabled_list (env\<lparr>v_stlib_marker := m\<rparr>) = enabled_list env" "enabled_list (env\<lparr>v_shlib_marker := m\<rparr>) = enabled_list env"
  by (simp_all add: enabled_list_def split: option.split)

lemma decide_fst: "fst (decide what enable disable by_file file_exists) = (enable \<or> \<not> disable \<and> by_file)"
  by (simp add: decide_def)

lemma report_simps [simp]:
  "enabled_list (report_optional_feature n c b r env) = enabled_list env" "v_modules (report_optional_feature n c b r env) = v_modules env"
  "v_tests (report_optional_feature n c b r env) = v_tests env" "v_examples (report_optional_feature n c b r env) = v_examples env"
  "v_sudo (report_optional_feature n c b r env) = v_sudo env" "v_static (report_optional_feature n c b r env) = v_static env"
  "v_features (report_optional_feature n c b r env) = v_features env @ [(n, c, b, r)]"
  by (simp_all add: report_optional_feature_def)

lemma sudo_simps [simp]:
  "enabled_list (configure_sudo host opts env) = enabled_list env" "v_modules (configure_sudo host opts env) = v_modules env"
  "v_sudo (configure_sudo host opts env) = (op_sudo opts \<and> h_program host ''sudo'')"
  "\<exists>r. v_features (configure_sudo host opts env) =
     v_features env @ [(''ENABLE_SUDO'', ''Use sudo to set suid bit'', op_sudo opts \<and> h_program host ''sudo'', r)]"
  by (simp_all add: configure_sudo_def Let_def)

lemma tests_simps [simp]:
  "enabled_list (configure_tests opts cfg env) = enabled_list env" "v_modules (configure_tests opts cfg env) = v_modules env"
  "v_sudo (configure_tests opts cfg env) = v_sudo env"
  "v_tests (configure_tests opts cfg env) = (op_tests opts \<or> \<not> op_no_tests opts \<and> tests_enabled cfg)"
  "\<exists>r. v_features (configure_tests opts cfg env) =
     v_features env @ [(''ENABLE_TESTS'', ''Build tests'', op_tests opts \<or> \<not> op_no_tests opts \<and> tests_enabled cfg, r)]"
  by (simp_all add: configure_tests_def case_prod_beta decide_fst)

lemma examples_simps [simp]:
  "enabled_list (configure_examples host opts cfg env) = enabled_list env"
  "v_modules (configure_examples host opts cfg env) = v_modules env"
  "v_sudo (configure_examples host opts cfg env) = v_sudo env" "v_tests (configure_examples host opts cfg env) = v_tests env"
  "v_examples (configure_examples host opts cfg env) = (op_examples opts \<or> \<not> op_no_examples opts \<and> examples_enabled cfg)"
  "\<exists>r. v_features (configure_examples host opts cfg env) =
     v_features env @ [(''ENABLE_EXAMPLES'', ''Build examples'', op_examples opts \<or> \<not> op_no_examples opts \<and> examples_enabled cfg, r)]"
  by (simp_all add: configure_examples_def case_prod_beta decide_fst)

lemma tools_simps [simp]:
  "enabled_list (configure_tools host env) = enabled_list env" "v_modules (configure_tools host env) = v_modules env"
  "v_sudo (configure_tools host env) = v_sudo env" "v_tests (configure_tools host env) = v_tests env"
  "v_examples (configure_tools host env) = v_examples env"
  "\<exists>r. v_features (configure_tools host env) =
     v_features env @ [(''GSL'', ''GNU Scientific Library (GSL)'', h_package host ''gsl'', r)]"
  by (simp_all add: configure_tools_def Let_def)

lemma decided_simps:
  "enabled_list (decided host opts cfg env) = enabled_list (h_recurse host ''src/mpi'' env)"
  "v_modules (decided host opts cfg env) = v_modules (h_recurse host ''src/mpi'' env)"
  "v_tests (decided host opts cfg env) = (op_tests opts \<or> \<not> op_no_tests opts \<and> tests_enabled cfg)"
  "v_examples (decided host opts cfg env) = (op_examples opts \<or> \<not> op_no_examples opts \<and> examples_enabled cfg)"
  "v_sudo (decided host opts cfg env) = (op_sudo opts \<and> h_program host ''sudo'')"
  by (simp_all add: decided_def)

lemma decided_features:
  "map (\<lambda>f. (fst f, fst (snd (snd f)))) (v_features (decided host opts cfg env)) =
     map (\<lambda>f. (fst f, fst (snd (snd f)))) (v_features (h_recurse host ''src/mpi'' env)) @
     [(''ENABLE_SUDO'', v_sudo (decided host opts cfg env)), (''ENABLE_TESTS'', v_tests (decided host opts cfg env)),
      (''ENABLE_EXAMPLES'', v_examples (decided host opts cfg env)), (''GSL'', h_package host ''gsl'')]"
proof -
  define e1 where "e1 = configure_sudo host opts (h_recurse host ''src/mpi'' env)"
  define e2 where "e2 = configure_tests opts cfg e1"
  define e3 where "e3 = configure_examples host opts cfg e2"
  from sudo_simps(4)[of host opts "h_recurse host ''src/mpi'' env"] tests_simps(5)[of opts cfg e1]
    examples_simps(6)[of host opts cfg e2] tools_simps(6)[of host e3]
  obtain r1 r2 r3 r4 where
    "v_features (configure_tools host e3) = v_features (h_recurse host ''src/mpi'' env) @
       [(''ENABLE_SUDO'', ''Use sudo to set suid bit'', op_sudo opts \<and> h_program host ''sudo'', r1),
        (''ENABLE_TESTS'', ''Build tests'', op_tests opts \<or> \<not> op_no_tests opts \<and> tests_enabled cfg, r2),
        (''ENABLE_EXAMPLES'', ''Build examples'', op_examples opts \<or> \<not> op_no_examples opts \<and> examples_enabled cfg, r3),
        (''GSL'', ''GNU Scientific Library (GSL)'', h_package host ''gsl'', r4)]"
    by (fastforce simp flip: e1_def e2_def e3_def)
  then show ?thesis by (simp only: decided_simps(3-5)) (simp add: decided_def e1_def e2_def e3_def)
qed

definition not_built_list :: "conf_host \<Rightarrow> conf_env \<Rightarrow> string list" where
  "not_built_list host env = v_not_built env @ (if v_static env \<and> h_platform host = ''darwin'' then [''template''] else [])"

lemma configure_not_built_result:
  fixes host
  assumes "distinct (enabled_list env)" "enabled_list env \<noteq> []"
  defines "still \<equiv> still_enabled (not_built_list host env) (enabled_list env)"
  shows "case configure_not_built host env of
     Inl e \<Rightarrow> still = [] \<and> (\<exists>m. e = WafError (not_built_message m))
   | Inr env' \<Rightarrow> still \<noteq> [] \<and> enabled_list env' = still \<and>
       v_modules env' = (if v_enabled env = None then still else v_modules env)"
proof -
  define env1 where "env1 = env\<lparr>v_not_built := not_built_list host env\<rparr>"
  have "configure_not_built host env = fold_res remove_not_built env1 (v_not_built env1)"
    by (simp add: configure_not_built_def env1_def not_built_list_def Let_def)
  moreover have same: "enabled_list env1 = enabled_list env" "v_enabled env1 = v_enabled env" "v_modules env1 = v_modules env"
    "v_not_built env1 = not_built_list host env"
    by (simp_all add: env1_def enabled_list_def split: option.split)
  moreover have "v_modules (set_enabled_list ms env1) = (if v_enabled env = None then ms else v_modules env)" for ms
    using same by (auto simp: set_enabled_list_def split: option.split)
  ultimately show ?thesis
    using remove_all_not_built[of env1 "not_built_list host env"] assms by (auto split: if_splits)
qed

lemma configure_build_decided:
  "configure_build host opts cfg env =
     bind_res (configure_modules opts cfg (configure_start host opts env)) (\<lambda>env.
     bind_res (configure_not_built host env) (\<lambda>env. configure_extra host (decided host opts cfg env)))"
  by (simp add: configure_build_def decided_def Let_def)

lemma configure_build_result:
  fixes host
  assumes "configure_modules opts cfg (configure_start host opts env) = Inr env1"
    "distinct (enabled_list env1)" "enabled_list env1 \<noteq> []"
    "\<And>e. enabled_list (h_recurse host ''src/mpi'' e) = enabled_list e \<and> v_modules (h_recurse host ''src/mpi'' e) = v_modules e"
  defines "still \<equiv> still_enabled (not_built_list host env1) (enabled_list env1)"
  shows "case configure_build host opts cfg env of
     Inl e \<Rightarrow> still = [] \<and> (\<exists>m. e = WafError (not_built_message m)) \<or>
       still \<noteq> [] \<and> (\<exists>key t. map_of (h_environ host) key = Some t \<and> shlex_split t = Inl e)
   | Inr env' \<Rightarrow> still \<noteq> [] \<and> enabled_list env' = still \<and>
       v_modules env' = (if v_enabled env1 = None then still else v_modules env1)"
proof (cases "configure_not_built host env1")
  case (Inl e)
  then show ?thesis
    using configure_not_built_result[OF assms(2,3), of host] assms(1) by (simp add: configure_build_decided still_def)
next
  case (Inr env2)
  then have env2: "still \<noteq> []" "enabled_list env2 = still"
    "v_modules env2 = (if v_enabled env1 = None then still else v_modules env1)"
    using configure_not_built_result[OF assms(2,3), of host] by (simp_all add: still_def)
  show ?thesis
  proof (cases "configure_extra host (decided host opts cfg env2)")
    case (Inl e)
    then show ?thesis using configure_extra_settings[of host "decided host opts cfg env2"] assms(1) Inr env2
      by (simp add: configure_build_decided)
  next
    case (Inr env')
    then have "settings env' = settings (decided host opts cfg env2)"
      using configure_extra_settings[of host "decided host opts cfg env2"] by simp
    from settings_eq(1,2)[OF this] show ?thesis
      using assms(1,4) \<open>configure_not_built host env1 = Inr env2\<close> Inr env2
      by (simp add: configure_build_decided decided_simps)
  qed
qed

text \<open>
  The enabled modules are those asked for, less the ones that cannot be built.  If none is left
  there is a \<open>WafError\<close>; the only other error is one of \<open>shlex\<close> on flags from the environment.  If
  all modules were asked for, the ones that cannot be built leave \<open>NS3_MODULES\<close> too.
\<close>

text \<open>
  C35: The enabled modules are those asked for, less the ones that cannot be built; WafError is
  raised exactly when none is left, and otherwise only flags from the environment that shlex
  rejects raise. When all modules were asked for, NS3_MODULES loses the others too.
\<close>

theorem configured_modules:
  fixes host
  assumes "configure_modules opts cfg (configure_start host opts env) = Inr env1"
    "distinct (enabled_list env1)" "enabled_list env1 \<noteq> []"
    "\<And>e. enabled_list (h_recurse host ''src/mpi'' e) = enabled_list e \<and> v_modules (h_recurse host ''src/mpi'' e) = v_modules e"
  defines "still \<equiv> still_enabled (not_built_list host env1) (enabled_list env1)"
  shows "case configure_build host opts cfg env of
     Inl e \<Rightarrow> still = [] \<and> (\<exists>m. e = WafError (not_built_message m)) \<or>
       still \<noteq> [] \<and> (\<exists>key t. map_of (h_environ host) key = Some t \<and> shlex_split t = Inl e)
   | Inr env' \<Rightarrow> still \<noteq> [] \<and> enabled_list env' = still \<and>
       v_modules env' = (if v_enabled env1 = None then still else v_modules env1)"
  unfolding still_def by (rule configure_build_result[OF assms(1-4)])

lemma find_map_of: "find (\<lambda>f. fst f = n) fs = None \<longleftrightarrow> map_of (map (\<lambda>f. (fst f, g f)) fs) n = None"
  "find (\<lambda>f. fst f = n) fs = Some f \<Longrightarrow> map_of (map (\<lambda>f. (fst f, g f)) fs) n = Some (g f)"
  by (induction fs) (auto split: if_splits)

lemma check_optional_map_of:
  "check_optional_feature env n =
     (case map_of (map (\<lambda>f. (fst f, fst (snd (snd f)))) (v_features env)) n of None \<Rightarrow> Inl KeyError | Some b \<Rightarrow> Inr b)"
  using find_map_of[where n = n and fs = "v_features env" and g = "\<lambda>f. fst (snd (snd f))"]
  by (auto simp: check_optional_feature_def split: option.split)

definition reported :: "conf_env \<Rightarrow> string set" where
  "reported env = fst ` set (v_features env)"

lemma start_features: "v_features (configure_gcov opts env) = v_features env" "v_features (configure_profile opts env) = v_features env"
  "v_features (configure_compiler host opts env) = v_features env"
  "reported (configure_static host opts env) \<subseteq> reported env \<union> {''static''}"
  by (auto simp: configure_gcov_def configure_profile_def configure_compiler_def configure_static_def
      report_optional_feature_def reported_def Let_def)

lemma modules_features: "configure_modules opts cfg env = Inr env' \<Longrightarrow> v_features env' = v_features env"
  by (auto simp: configure_modules_def split: list.splits if_splits)

lemma remove_not_built_features: "remove_not_built env m = Inr env' \<Longrightarrow> v_features env' = v_features env"
  by (auto simp: remove_not_built_def set_enabled_list_def Let_def split: if_splits option.splits)

lemma not_built_features: "configure_not_built host env = Inr env' \<Longrightarrow> v_features env' = v_features env"
proof -
  have "fold_res remove_not_built e ms = Inr env' \<Longrightarrow> v_features env' = v_features e" for e ms
    by (induction ms arbitrary: e) (auto simp: res_simps remove_not_built_features)
  moreover define e where "e = (if v_static env \<and> h_platform host = ''darwin'' then env\<lparr>v_not_built := v_not_built env @ [''template'']\<rparr> else env)"
  moreover have "v_features e = v_features env" by (simp add: e_def)
  moreover assume "configure_not_built host env = Inr env'"
  then have "fold_res remove_not_built e (v_not_built e) = Inr env'" by (simp only: configure_not_built_def Let_def e_def)
  ultimately show ?thesis by metis
qed

text \<open>
  Tests, examples and sudo are on exactly as the options and then the configuration file say, and
  each of them is found under its name among the optional features, if no script of a
  subdirectory reports a feature with that name.
\<close>

text \<open>
  C30: Tests and examples are on exactly when an option turns them on, or no option turns them
  off and the configuration file turns them on; sudo is on exactly when asked for and found; and
  each is found with that value among the optional features, if no script of a subdirectory
  reports a feature of the same name.
\<close>

theorem configured_features:
  fixes host
  assumes "configure_build host opts cfg env = Inr env'"
    "\<And>d e. reported (h_recurse host d e) \<inter> {''ENABLE_SUDO'', ''ENABLE_TESTS'', ''ENABLE_EXAMPLES''} \<subseteq> reported e"
  shows "v_tests env' = (op_tests opts \<or> \<not> op_no_tests opts \<and> tests_enabled cfg) \<and>
    v_examples env' = (op_examples opts \<or> \<not> op_no_examples opts \<and> examples_enabled cfg) \<and>
    v_sudo env' = (op_sudo opts \<and> h_program host ''sudo'') \<and>
    check_optional_feature env' ''ENABLE_TESTS'' = Inr (v_tests env') \<and>
    check_optional_feature env' ''ENABLE_EXAMPLES'' = Inr (v_examples env') \<and>
    check_optional_feature env' ''ENABLE_SUDO'' = Inr (v_sudo env')"
proof -
  let ?names = "{''ENABLE_SUDO'', ''ENABLE_TESTS'', ''ENABLE_EXAMPLES''}"
  obtain env1 env2 where env1: "configure_modules opts cfg (configure_start host opts env) = Inr env1"
    and env2: "configure_not_built host env1 = Inr env2" and env': "configure_extra host (decided host opts cfg env2) = Inr env'"
    using assms(1) unfolding configure_build_decided by (auto simp: bind_res_eq_Inr)
  have "reported (configure_start host opts env) \<inter> ?names = {}"
  proof -
    define e0 where "e0 = configure_static host opts (configure_compiler host opts (configure_profile opts
      (configure_gcov opts (env\<lparr>v_features := []\<rparr>))))"
    have "reported e0 \<inter> ?names = {}"
      using start_features(4)[of host opts "configure_compiler host opts (configure_profile opts
        (configure_gcov opts (env\<lparr>v_features := []\<rparr>)))"]
      by (auto simp: e0_def reported_def start_features(1-3))
    moreover have "reported (e0\<lparr>v_not_built := []\<rparr>) = reported e0" by (simp add: reported_def)
    ultimately show ?thesis
      using assms(2)[of "''bindings/python''" "e0\<lparr>v_not_built := []\<rparr>"]
        assms(2)[of "''src''" "h_recurse host ''bindings/python'' (e0\<lparr>v_not_built := []\<rparr>)"]
      by (simp add: configure_start_def Let_def flip: e0_def) blast
  qed
  then have "reported (h_recurse host ''src/mpi'' env2) \<inter> ?names = {}"
    using assms(2)[of "''src/mpi''" env2] modules_features[OF env1] not_built_features[OF env2] by (auto simp: reported_def)
  then have absent: "map_of (map (\<lambda>f. (fst f, fst (snd (snd f)))) (v_features (h_recurse host ''src/mpi'' env2))) n = None"
    if "n \<in> ?names" for n
    using that by (force simp: reported_def map_of_eq_None_iff)
  have "settings env' = settings (decided host opts cfg env2)"
    using configure_extra_settings[of host "decided host opts cfg env2"] env' by simp
  note same = settings_eq[OF this]
  have "check_optional_feature env' n = check_optional_feature (decided host opts cfg env2) n" for n
    by (simp add: check_optional_feature_def same(6))
  moreover have "check_optional_feature (decided host opts cfg env2) n =
      (case map_of [(''ENABLE_SUDO'', v_sudo (decided host opts cfg env2)), (''ENABLE_TESTS'', v_tests (decided host opts cfg env2)),
        (''ENABLE_EXAMPLES'', v_examples (decided host opts cfg env2)), (''GSL'', h_package host ''gsl'')] n of
        None \<Rightarrow> Inl KeyError | Some b \<Rightarrow> Inr b)" if "n \<in> ?names" for n
    unfolding check_optional_map_of decided_features map_of_append using absent[OF that] by (simp only: map_add_None map_add_def) (auto split: option.split)
  ultimately show ?thesis by (simp add: same decided_simps)
qed

subsection \<open>The columns of names\<close>

fun rows :: "'a list \<Rightarrow> 'a list list" where
  "rows (a # b # c # xs) = [a, b, c] # rows xs"
| "rows [] = []"
| "rows xs = [xs]"

definition row_text :: "string list \<Rightarrow> string" where
  "row_text row = ln (join '' '' (map (ljust 25) row))"

lemma soft_ljust: "soft_space name \<Longrightarrow> soft_space (ljust 25 name)"
  by (cases "25 - length name") (auto simp: soft_space_def ljust_def replicate_append_same[symmetric] simp del: replicate_append_same)

lemma names_loop_rows: "list_all soft_space names \<Longrightarrow> names_loop 1 False names = concat (map row_text (rows names))"
  by (induction names rule: rows.induct) (simp_all add: row_text_def ln_def soft_ljust)

lemma concat_rows: "concat (rows xs) = xs"
  by (induction xs rule: rows.induct) simp_all

lemma rows_width: "row \<in> set (rows xs) \<Longrightarrow> row \<noteq> [] \<and> length row \<le> 3"
  by (induction xs rule: rows.induct) auto

text \<open>
  The printed table is the sorted names in rows of three, each name padded to 25 characters and the
  columns set apart by one more blank.
\<close>

theorem module_table:
  "list_all soft_space names \<Longrightarrow>
     print_module_names names = (sort names, concat (map row_text (rows (sort names))))"
  using names_loop_rows[of "sort names"] by (simp add: print_module_names_def list_all_iff)

theorem module_table_witness:
  "snd (print_module_names [''wifi'', ''core'', ''lte'', ''aodv'']) =
     ''aodv'' @ replicate 21 CHR '' '' @ '' core'' @ replicate 21 CHR '' '' @ '' lte'' @ replicate 22 CHR '' '' @ [newline] @
     ''wifi'' @ replicate 21 CHR '' '' @ [newline]"
proof -
  have "list_all soft_space [''wifi'', ''core'', ''lte'', ''aodv'']" by code_simp
  moreover have "concat (map row_text (rows (sort [''wifi'', ''core'', ''lte'', ''aodv'']))) =
     ''aodv'' @ replicate 21 CHR '' '' @ '' core'' @ replicate 21 CHR '' '' @ '' lte'' @ replicate 22 CHR '' '' @ [newline] @
     ''wifi'' @ replicate 21 CHR '' '' @ [newline]" by code_simp
  ultimately show ?thesis by (simp add: module_table)
qed

text \<open>The message for a flag always ends in dots: a string compares greater than any number.\<close>

lemma flag_message_dots: "suffix ''... support'' (flag_message l)"
  by (simp add: flag_message_def Let_def suffix_def)

subsection \<open>An example\<close>

definition example_conf_host :: conf_host where
  "example_conf_host =
     \<lparr>h_platform = ''linux2'', h_options_platform = ''linux'', h_environ = [(''CXXFLAGS_EXTRA'', ''-Wall -O1'')],
      h_compiles = (\<lambda>mode env. Some 0), h_libstdcxx = (\<lambda>argv. ''/usr/lib/libstdc++.so''),
      h_program = (\<lambda>p. p = ''valgrind''), h_package = (\<lambda>p. False),
      h_recurse = (\<lambda>dir env. if dir = ''src'' then env\<lparr>v_modules := [''ns3-core'', ''ns3-openflow'', ''ns3-wifi''], v_not_built := [''openflow'']\<rparr> else env),
      h_examples = [''.svn'', ''tutorial''], h_is_dir = (\<lambda>p. True)\<rparr>"

definition example_options :: conf_options where
  "example_options =
     \<lparr>op_gcov = False, op_profile = ''debug'', op_static = False, op_modules = [], op_sudo = True, op_tests = True, op_no_tests = False,
      op_examples = False, op_no_examples = False\<rparr>"

definition example_config :: ns3_config where
  "example_config = \<lparr>config_file_exists = False, modules_enabled = [''all_modules''], examples_enabled = False, tests_enabled = False\<rparr>"

definition empty_env :: conf_env where
  "empty_env =
     \<lparr>v_ccflags = [], v_cxxflags = [], v_cflags = [], v_linkflags = [], v_defines = [], v_gcov = False, v_profile = [], v_suffix = [],
      v_cxx_name = ''gcc'', v_compiler_cxx = ''g++'', v_compiler_cc = ''gcc'', v_cxx = [''g++''], v_module_path = [], v_soname = False,
      v_static = False, v_stlib_marker = [], v_shlib_marker = [], v_modules = [], v_enabled = None, v_not_built = [], v_sudo = False,
      v_tests = False, v_examples = False, v_example_dirs = [], v_valgrind = False, v_features = []\<rparr>"

abbreviation "example_configured \<equiv> configure_build example_conf_host example_options example_config empty_env"

lemma example_flags: "map_of (h_environ example_conf_host) key = Some t \<Longrightarrow> shlex_split t \<noteq> Inl e"
proof -
  have "shlex_split ''-Wall -O1'' = Inr [''-Wall'', ''-O1'']" by code_simp
  then show "map_of (h_environ example_conf_host) key = Some t \<Longrightarrow> shlex_split t \<noteq> Inl e"
    by (auto simp: example_conf_host_def split: if_splits)
qed

lemma example_mpi: "enabled_list (h_recurse example_conf_host ''src/mpi'' e) = enabled_list e \<and>
    v_modules (h_recurse example_conf_host ''src/mpi'' e) = v_modules e"
  by (simp add: example_conf_host_def)

lemma example_modules:
  obtains env1 where
    "configure_modules example_options example_config (configure_start example_conf_host example_options empty_env) = Inr env1"
    "enabled_list env1 = [''ns3-core'', ''ns3-openflow'', ''ns3-wifi'']" "v_enabled env1 = None"
    "not_built_list example_conf_host env1 = [''openflow'']"
proof -
  have "case configure_modules example_options example_config (configure_start example_conf_host example_options empty_env) of
      Inl e \<Rightarrow> False
    | Inr env1 \<Rightarrow> enabled_list env1 = [''ns3-core'', ''ns3-openflow'', ''ns3-wifi''] \<and> v_enabled env1 = None \<and>
        not_built_list example_conf_host env1 = [''openflow'']"
    by code_simp
  then show thesis using that by (auto split: sum.splits)
qed

lemma example_still: "still_enabled [''openflow''] [''ns3-core'', ''ns3-openflow'', ''ns3-wifi''] = [''ns3-core'', ''ns3-wifi'']"
  by code_simp

theorem configured_modules_witness:
  "case example_configured of Inl e \<Rightarrow> False | Inr env' \<Rightarrow> enabled_list env' = [''ns3-core'', ''ns3-wifi''] \<and> v_modules env' = [''ns3-core'', ''ns3-wifi'']"
proof -
  obtain env1 where env1: "configure_modules example_options example_config
      (configure_start example_conf_host example_options empty_env) = Inr env1"
    and modules: "enabled_list env1 = [''ns3-core'', ''ns3-openflow'', ''ns3-wifi'']" "v_enabled env1 = None"
    "not_built_list example_conf_host env1 = [''openflow'']" by (rule example_modules)
  show ?thesis
    using configured_modules[OF env1 _ _ example_mpi] modules example_flags example_still by (auto split: sum.splits)
qed

theorem configured_features_witness:
  "case example_configured of
     Inl e \<Rightarrow> False
   | Inr env' \<Rightarrow> check_optional_feature env' ''ENABLE_TESTS'' = Inr True \<and> check_optional_feature env' ''ENABLE_SUDO'' = Inr False"
proof -
  obtain env1 where env1: "configure_modules example_options example_config
      (configure_start example_conf_host example_options empty_env) = Inr env1"
    and modules: "enabled_list env1 = [''ns3-core'', ''ns3-openflow'', ''ns3-wifi'']" "v_enabled env1 = None"
    "not_built_list example_conf_host env1 = [''openflow'']" by (rule example_modules)
  obtain env' where env': "example_configured = Inr env'"
    using configure_build_result[OF env1 _ _ example_mpi] modules example_flags example_still by (auto split: sum.splits)
  have "reported (h_recurse example_conf_host d e) \<inter> ns \<subseteq> reported e" for d e ns
    by (auto simp: example_conf_host_def reported_def split: if_splits)
  from configured_features[OF env' this] show ?thesis
    unfolding env' by (simp add: example_options_def example_conf_host_def)
qed

end
