(* ===== verification/Module_Files.thy ===== *)
theory Module_Files
  imports Module_Build Py_Format "HOL-Library.List_Lexorder" "HOL-Library.Char_ord"
begin

section \<open>The files of a module (\<open>src/wscript\<close>)\<close>

text \<open>
  What \<^verbatim>\<open>src/wscript\<close> makes for each module: its generator, the \<^verbatim>\<open>.pc\<close> file, the installed
  headers and the header that includes them all.  The nodes of waf are the names and paths that
  are asked of them; \<open>subst_vars\<close> and the lookups of waf are parameters.
\<close>

subsection \<open>Which modules there are\<close>

definition list_modules :: "(string \<Rightarrow> bool) \<Rightarrow> (string \<Rightarrow> bool) \<Rightarrow> string list \<Rightarrow> string list" where
  "list_modules is_dir exists listing =
     sort (filter (\<lambda>d. \<not> (prefix ''.'' d \<or> d = ''CVS'') \<and> is_dir (path_join ''src'' d) \<and>
             exists (path_join (path_join ''src'' d) ''wscript'')) listing)"

definition last_part :: "string \<Rightarrow> string" where
  "last_part m = last (split_on slash m)"

definition ns3_modules :: "string list \<Rightarrow> string list" where
  "ns3_modules all_modules = map (\<lambda>m. ''ns3-'' @ last_part m) all_modules"

definition remove_module :: "string list \<Rightarrow> string \<Rightarrow> string list" where
  "remove_module all_modules not_built =
     (let m = (if not_built = ''ns3tcp'' \<or> not_built = ''ns3wifi'' then ''test/'' @ not_built else not_built)
      in remove1 m all_modules)"

definition build_subdirs :: "string list \<Rightarrow> string list \<Rightarrow> string list" where
  "build_subdirs not_built all_modules = foldl remove_module all_modules not_built"

subsection \<open>The \<open>.pc\<close> file\<close>

text \<open>
  A variable of the environment is a string or a list of strings; one that is not set is an empty
  list.  Going through a string gives its characters.
\<close>

datatype env_value = Str_value string | Strs_value "string list"

record pc_env =
  pe_static :: bool
  pe_vars :: "string \<Rightarrow> env_value"

fun items :: "env_value \<Rightarrow> string list" where
  "items (Str_value s) = map (\<lambda>c. [c]) s"
| "items (Strs_value xs) = xs"

fun truthy :: "env_value \<Rightarrow> bool" where
  "truthy (Str_value s) = (s \<noteq> [])"
| "truthy (Strs_value xs) = (xs \<noteq> [])"

fun listify :: "env_value \<Rightarrow> string list" where
  "listify (Str_value s) = [s]"
| "listify (Strs_value xs) = xs"

fun show_value :: "env_value \<Rightarrow> string" where
  "show_value (Str_value s) = s"
| "show_value (Strs_value xs) = str_list xs"

fun percent_value :: "env_value \<Rightarrow> string \<Rightarrow> string res" where
  "percent_value (Str_value t) s = percent t [s]"
| "percent_value (Strs_value xs) s = Inl TypeError"

text \<open>\<open>' '.join\<close>: every item has to be a string.\<close>

definition join_values :: "env_value list \<Rightarrow> string res" where
  "join_values vs =
     map_value (join '' '') (traverse_res (\<lambda>v. case v of Str_value s \<Rightarrow> Inr s | Strs_value xs \<Rightarrow> Inl TypeError) vs)"

definition self_libs :: "pc_env \<Rightarrow> string \<Rightarrow> string \<Rightarrow> env_value list res" where
  "self_libs env name libdir =
     (let v = pe_vars env;
          (path_st, lib_st, marker) =
            (if pe_static env then (v ''STLIBPATH_ST'', v ''STLIB_ST'', v ''STLIB_MARKER'')
             else (v ''LIBPATH_ST'', v ''LIB_ST'', v ''SHLIB_MARKER''))
      in bind_res (percent_value path_st libdir) (\<lambda>path.
         map_value (\<lambda>lib. Str_value path # (if truthy marker then [marker] else []) @ [Str_value lib]) (percent_value lib_st name)))"

definition lib_flags :: "pc_env \<Rightarrow> string \<Rightarrow> string list res" where
  "lib_flags env dep =
     (let v = pe_vars env
      in bind_res (traverse_res (\<lambda>path.
             bind_res (percent_value (v ''LIBPATH_ST'') path) (\<lambda>p.
               case v (''LINKFLAGS_'' @ dep) of Strs_value fs \<Rightarrow> Inr (p # fs) | Str_value s \<Rightarrow> Inl TypeError))
           (items (v (''LIBPATH_'' @ dep)))) (\<lambda>paths.
         map_value (\<lambda>libs. concat paths @ libs)
           (traverse_res (percent_value (v ''LIB_ST'')) (items (v (''LIB_'' @ dep))))))"

definition dep_flags :: "pc_env \<Rightarrow> string \<Rightarrow> string list res" where
  "dep_flags env dep =
     (let v = pe_vars env
      in bind_res (traverse_res (percent_value (v ''DEFINES_ST'')) (items (v (''DEFINES_'' @ dep)))) (\<lambda>defines.
         map_value (\<lambda>includes. listify (v (''CFLAGS_'' @ dep)) @ listify (v (''CXXFLAGS_'' @ dep)) @ defines @ includes)
           (traverse_res (percent_value (v ''CPPPATH_ST'')) (items (v (''INCLUDES_'' @ dep))))))"

record version =
  appname :: string
  version_number :: string

text \<open>Adding a string to a list of strings adds its characters.\<close>

definition pc_libs :: "version \<Rightarrow> pc_env \<Rightarrow> string \<Rightarrow> string list \<Rightarrow> env_value list res" where
  "pc_libs ver env name use =
     bind_res (self_libs env (appname ver @ version_number ver @ ''-'' @ drop 4 name @ show_value (pe_vars env ''BUILD_SUFFIX''))
         ''${libdir}'') (\<lambda>own.
     bind_res (traverse_res (lib_flags env) use) (\<lambda>deps.
     map_value (\<lambda>libs. own @ map Str_value (concat deps) @ map (\<lambda>c. Str_value [c]) (concat libs))
       (traverse_res (percent_value (pe_vars env ''LIB_ST'')) (items (pe_vars env ''LIBS'')))))"

definition pc_cflags :: "pc_env \<Rightarrow> string list \<Rightarrow> string list res" where
  "pc_cflags env use =
     bind_res (percent_value (pe_vars env ''CPPPATH_ST'') ''${includedir}'') (\<lambda>own.
     map_value (\<lambda>deps. own # concat deps) (traverse_res (dep_flags env) use))"

definition pc_requires :: "version \<Rightarrow> pc_env \<Rightarrow> string list \<Rightarrow> string list" where
  "pc_requires ver env use =
     map (\<lambda>dep. ''libns'' @ version_number ver @ ''-'' @ drop 4 dep @ show_value (pe_vars env ''BUILD_SUFFIX''))
       (filter (prefix ''ns3-'') use)"

definition pc_text :: "version \<Rightarrow> pc_env \<Rightarrow> string \<Rightarrow> string \<Rightarrow> string \<Rightarrow> string \<Rightarrow> string \<Rightarrow> string" where
  "pc_text ver env includedir name libs cflags requires =
     ln (''prefix='' @ show_value (pe_vars env ''PREFIX'')) @ ln (''libdir='' @ show_value (pe_vars env ''LIBDIR'')) @
     ln (''includedir='' @ includedir) @ ln [] @ ln (''Name: lib'' @ name) @ ln (''Description: ns-3 module '' @ name) @
     ln (''Version: '' @ version_number ver) @ ln (''Libs: '' @ libs) @ ln (''Cflags: '' @ cflags) @ ln (''Requires: '' @ requires)"

text \<open>The file is opened first, so it is there and empty if something raises.\<close>

definition generate_pcfile ::
  "(string \<Rightarrow> string) \<Rightarrow> version \<Rightarrow> pc_env \<Rightarrow> string \<Rightarrow> string list \<Rightarrow> string \<times> unit res" where
  "generate_pcfile subst_vars ver env name use =
     (case bind_res (pc_libs ver env name use) (\<lambda>libs.
           bind_res (pc_cflags env use) (\<lambda>cflags.
           map_value (\<lambda>l. pc_text ver env (subst_vars (''${INCLUDEDIR}/'' @ appname ver @ version_number ver)) name l
               (join '' '' cflags) (join '' '' (pc_requires ver env use)))
             (join_values libs))) of
        Inl e \<Rightarrow> ([], Inl e)
      | Inr t \<Rightarrow> (t, Inr ()))"

definition pc_name :: "string \<Rightarrow> string" where
  "pc_name target = ''lib'' @ basename target @ ''.pc''"

subsection \<open>Installing headers\<close>

text \<open>
  Files with their permissions; the process is the owner of the files and not the superuser, the
  directories exist, and a new file may be written by its owner only.
\<close>

record disk_file =
  f_content :: string
  f_mode :: nat

type_synonym files = "string \<Rightarrow> disk_file option"

definition may_read :: "disk_file \<Rightarrow> bool" where "may_read f \<longleftrightarrow> odd (f_mode f div 256)"
definition may_write :: "disk_file \<Rightarrow> bool" where "may_write f \<longleftrightarrow> odd (f_mode f div 128)"

definition chmod :: "string \<Rightarrow> nat \<Rightarrow> files \<Rightarrow> files res" where
  "chmod path m fs = (case fs path of None \<Rightarrow> Inl py_error.OSError | Some f \<Rightarrow> Inr (fs(path \<mapsto> f\<lparr>f_mode := m\<rparr>)))"

definition copy2 :: "string \<Rightarrow> string \<Rightarrow> files \<Rightarrow> files res" where
  "copy2 src dst fs =
     (case fs src of
        None \<Rightarrow> Inl IOError
      | Some f \<Rightarrow>
          if src = dst then Inl (GenericException ''are the same file'')
          else if \<not> may_read f then Inl IOError
          else case fs dst of
                 None \<Rightarrow> Inr (fs(dst \<mapsto> f))
               | Some g \<Rightarrow> if may_write g then Inr (fs(dst \<mapsto> f)) else Inl IOError)"

definition install_header :: "files \<Rightarrow> string \<times> string \<Rightarrow> files res" where
  "install_header fs p =
     (case p of (src, dst) \<Rightarrow>
        let fs = (case chmod dst 384 fs of Inl e \<Rightarrow> fs | Inr fs' \<Rightarrow> fs')
        in bind_res (copy2 src dst fs) (chmod dst 256))"

datatype header_mode = Install | Remove

record header_task =
  ht_mode :: header_mode
  ht_inputs :: "string list"
  ht_outputs :: "string list"
  ht_remove :: string

text \<open>\<open>unlink\<close> on a file that is not there is no error; on one that may not be removed it is.\<close>

definition remove_header :: "(string \<Rightarrow> bool) \<Rightarrow> header_task \<Rightarrow> files \<Rightarrow> files res" where
  "remove_header fixed task fs =
     (if ht_inputs task \<noteq> [] \<or> ht_outputs task \<noteq> [] then Inl AssertionError
      else if fs (ht_remove task) = None then Inr fs
      else if fixed (ht_remove task) then Inl py_error.OSError
      else Inr (fs(ht_remove task := None)))"

definition run_header :: "(string \<Rightarrow> bool) \<Rightarrow> header_task \<Rightarrow> files \<Rightarrow> files res" where
  "run_header fixed task fs =
     (case ht_mode task of
        Install \<Rightarrow>
          if length (ht_inputs task) \<noteq> length (ht_outputs task) then Inl AssertionError
          else fold_res install_header fs (zip (ht_inputs task) (ht_outputs task))
      | Remove \<Rightarrow> remove_header fixed task fs)"

datatype status = Run_me | Skip_me

definition header_status :: "status \<Rightarrow> header_task \<Rightarrow> files \<Rightarrow> status" where
  "header_status usual task fs =
     (if ht_mode task = Remove then if fs (ht_remove task) \<noteq> None then Run_me else Skip_me else usual)"

definition header_str :: "(string \<Rightarrow> string) \<Rightarrow> string \<Rightarrow> string \<Rightarrow> header_task \<Rightarrow> string" where
  "header_str nice_path remove_word install_word task =
     (if ht_mode task = Remove then ln (remove_word @ '' '' @ ht_remove task)
      else ln (install_word @ '': '' @ join '' '' (map nice_path (ht_inputs task)) @ (if ht_outputs task \<noteq> [] then '' -> '' else []) @
        join '' '' (map nice_path (ht_outputs task))))"

subsection \<open>The header of a module\<close>

definition guard_macro :: "string \<Rightarrow> string" where
  "guard_macro m = ''NS3_MODULE_'' @ map (\<lambda>c. if c = CHR ''-'' then CHR ''_'' else c) (upper m)"

definition include_line :: "string \<Rightarrow> string" where
  "include_line header = ''#include '' @ [CHR 0x22] @ header @ [CHR 0x22]"

definition module_header_lines :: "string \<Rightarrow> string list \<Rightarrow> string list" where
  "module_header_lines m inputs =
     [[], ''#ifdef NS3_MODULE_COMPILATION'',
      ''# error '' @ [CHR 0x22] @ ''Do not include ns3 module aggregator headers from other modules; these are meant only for end user scripts.'' @ [CHR 0x22],
      ''#endif'', [], ''#ifndef '' @ guard_macro m, ''    '', [], ''// Module headers:''] @
     map include_line (sort (map basename inputs)) @ [''#endif'']"

definition module_header :: "string \<Rightarrow> string list \<Rightarrow> string" where
  "module_header m inputs = concat (map ln (module_header_lines m inputs))"

definition gen_module_header :: "(string \<Rightarrow> bool) \<Rightarrow> string \<Rightarrow> header_task \<Rightarrow> files \<Rightarrow> files res" where
  "gen_module_header fixed m task fs =
     (case ht_mode task of
        Remove \<Rightarrow> remove_header fixed task fs
      | Install \<Rightarrow>
          (case ht_outputs task of
             [out] \<Rightarrow>
               (case fs out of
                  None \<Rightarrow> Inr (fs(out \<mapsto> \<lparr>f_content = module_header m (ht_inputs task), f_mode = 420\<rparr>))
                | Some f \<Rightarrow>
                    if may_write f then Inr (fs(out \<mapsto> f\<lparr>f_content := module_header m (ht_inputs task)\<rparr>)) else Inl IOError)
           | _ \<Rightarrow> Inl AssertionError))"

subsection \<open>The tasks\<close>

text \<open>
  A generator of headers: its module, mode and sources.  \<open>find_resource\<close> gives the path and the
  name of a source, \<open>declare\<close> the path in the directory \<^verbatim>\<open>ns3\<close> for a name; \<open>ord\<close> is the order in
  which a set is gone through.
\<close>

record header_gen =
  hg_features :: features
  hg_module :: "string option"
  hg_mode :: header_mode
  hg_source :: "string list"

definition header_tasks ::
  "(string list \<Rightarrow> string list) \<Rightarrow> (string \<Rightarrow> (string \<times> string) option) \<Rightarrow> (string \<Rightarrow> string option) \<Rightarrow> header_gen \<Rightarrow>
   (header_task list \<times> string list) res" where
  "header_tasks ord find_resource declare_node g =
     (if hg_module g = None then Inl (WafError ''module missing on ns3headers object'')
      else map_value (\<lambda>tasks. (tasks, if hg_mode g = Install then concat (map ht_inputs tasks) else []))
        (traverse_res (\<lambda>filename.
           case find_resource filename of
             None \<Rightarrow> Inl (WafError (''source ns3 header file '' @ filename @ '' not found''))
           | Some (path, name) \<Rightarrow>
               (case declare_node name of
                  None \<Rightarrow> Inl AssertionError
                | Some dst \<Rightarrow>
                    Inr (if hg_mode g = Install then \<lparr>ht_mode = Install, ht_inputs = [path], ht_outputs = [dst], ht_remove = []\<rparr>
                         else \<lparr>ht_mode = Remove, ht_inputs = [], ht_outputs = [], ht_remove = dst\<rparr>)))
          (ord (remdups (hg_source g)))))"

text \<open>
  The task for the header of module \<open>m\<close>; \<open>has_module\<close> says whether waf finds the module, which
  may have been taken out, and \<open>out\<close> is the path of the new header.  For a header that is missing an undefined function is called.
\<close>

definition headers_of :: "(string list \<Rightarrow> string list) \<Rightarrow> string \<Rightarrow> header_gen list \<Rightarrow> string list" where
  "headers_of ord m gens =
     concat (map (\<lambda>g. map basename (ord (remdups (hg_source g))))
       (filter (\<lambda>g. has_feature ''ns3header'' (hg_features g) \<and> hg_module g = Some m) gens))"

definition module_header_task ::
  "(string list \<Rightarrow> string list) \<Rightarrow> (string \<Rightarrow> string option) \<Rightarrow> string \<Rightarrow> (string \<Rightarrow> bool) \<Rightarrow> header_gen list \<Rightarrow> string \<Rightarrow>
   header_mode \<Rightarrow> header_task option res" where
  "module_header_task ord declare_node out has_module gens m mode =
     (if \<forall>g \<in> set gens. \<not> (has_feature ''ns3header'' (hg_features g) \<and> hg_module g = Some m)
      then Inl (WafError (''error finding headers for module '' @ m))
      else bind_res (traverse_res (\<lambda>h. case declare_node h of None \<Rightarrow> Inl NameError | Some n \<Rightarrow> Inr n) (headers_of ord m gens)) (\<lambda>inputs.
        if inputs = [] \<or> \<not> has_module (''ns3-'' @ m) then Inr None
        else Inr (Some (if mode = Install then \<lparr>ht_mode = Install, ht_inputs = inputs, ht_outputs = [out], ht_remove = []\<rparr>
                        else \<lparr>ht_mode = Remove, ht_inputs = [], ht_outputs = [], ht_remove = out\<rparr>))))"

subsection \<open>The modules that are left\<close>

lemma listed_no_slash:
  "(\<And>d. d \<in> set listing \<Longrightarrow> slash \<notin> set d) \<Longrightarrow> m \<in> set (list_modules is_dir exists listing) \<Longrightarrow> slash \<notin> set m"
  by (auto simp: list_modules_def)

text \<open>
  The two modules that are looked for below \<^verbatim>\<open>test/\<close> can never be removed: what is listed has no
  slash.
\<close>

lemma test_modules_stay:
  fixes is_dir exists
  assumes "\<And>d. d \<in> set listing \<Longrightarrow> slash \<notin> set d" "m \<in> {''ns3tcp'', ''ns3wifi''}"
  defines "all_modules \<equiv> list_modules is_dir exists listing"
  shows "build_subdirs [m] all_modules = all_modules"
proof -
  have "''test/'' @ m \<notin> set all_modules" using listed_no_slash[OF assms(1), where m = "''test/'' @ m"] assms(3) by auto
  then show ?thesis using assms(2) by (auto simp: build_subdirs_def remove_module_def remove1_idem)
qed

subsection \<open>What is in a \<open>.pc\<close> file\<close>

text \<open>A variable with one \<open>%s\<close> at its end\<close>

definition template :: "env_value \<Rightarrow> string \<Rightarrow> bool" where
  "template v pre \<longleftrightarrow> v = Str_value (pre @ ''%s'') \<and> CHR ''%'' \<notin> set pre"

lemma percent_value_template: "template v pre \<Longrightarrow> percent_value v s = Inr (pre @ s)"
  using percent_template[of pre "[]" s] by (simp add: template_def)

lemma traverse_template: "template v pre \<Longrightarrow> traverse_res (percent_value v) xs = Inr (map (\<lambda>x. pre @ x) xs)"
  by (intro traverse_res_Inr) (simp add: percent_value_template)

record pc_templates =
  own_path :: string
  own_lib :: string
  own_marker :: string
  path_pre :: string
  lib_pre :: string
  define_pre :: string
  include_pre :: string

definition fits :: "pc_env \<Rightarrow> pc_templates \<Rightarrow> bool" where
  "fits env t \<longleftrightarrow>
     (let v = pe_vars env
      in template (v (if pe_static env then ''STLIBPATH_ST'' else ''LIBPATH_ST'')) (own_path t) \<and>
         template (v (if pe_static env then ''STLIB_ST'' else ''LIB_ST'')) (own_lib t) \<and>
         v (if pe_static env then ''STLIB_MARKER'' else ''SHLIB_MARKER'') = Str_value (own_marker t) \<and>
         template (v ''LIBPATH_ST'') (path_pre t) \<and> template (v ''LIB_ST'') (lib_pre t) \<and>
         template (v ''DEFINES_ST'') (define_pre t) \<and> template (v ''CPPPATH_ST'') (include_pre t))"

lemma fits_percent:
  assumes "fits env t"
  shows "percent_value (pe_vars env ''LIBPATH_ST'') s = Inr (path_pre t @ s)"
    "percent_value (pe_vars env ''CPPPATH_ST'') s = Inr (include_pre t @ s)"
    "traverse_res (percent_value (pe_vars env ''LIB_ST'')) xs = Inr (map (\<lambda>x. lib_pre t @ x) xs)"
    "traverse_res (percent_value (pe_vars env ''DEFINES_ST'')) xs = Inr (map (\<lambda>x. define_pre t @ x) xs)"
    "traverse_res (percent_value (pe_vars env ''CPPPATH_ST'')) xs = Inr (map (\<lambda>x. include_pre t @ x) xs)"
  using assms unfolding fits_def Let_def by (blast intro: percent_value_template traverse_template)+

definition library_words :: "pc_env \<Rightarrow> pc_templates \<Rightarrow> string \<Rightarrow> string list" where
  "library_words env t dep =
     (let v = pe_vars env
      in concat (map (\<lambda>p. (path_pre t @ p) # items (v (''LINKFLAGS_'' @ dep))) (items (v (''LIBPATH_'' @ dep)))) @
         map (\<lambda>l. lib_pre t @ l) (items (v (''LIB_'' @ dep))))"

definition compiler_words :: "pc_env \<Rightarrow> pc_templates \<Rightarrow> string \<Rightarrow> string list" where
  "compiler_words env t dep =
     (let v = pe_vars env
      in listify (v (''CFLAGS_'' @ dep)) @ listify (v (''CXXFLAGS_'' @ dep)) @
         map (\<lambda>d. define_pre t @ d) (items (v (''DEFINES_'' @ dep))) @
         map (\<lambda>i. include_pre t @ i) (items (v (''INCLUDES_'' @ dep))))"

lemma self_libs_words:
  assumes "fits env t"
  shows "self_libs env name libdir =
    Inr (map Str_value ([own_path t @ libdir] @ (if own_marker t \<noteq> [] then [own_marker t] else []) @ [own_lib t @ name]))"
  using assms by (cases "pe_static env") (auto simp: fits_def self_libs_def Let_def percent_value_template)

lemma lib_flags_words:
  assumes "fits env t" "pe_vars env (''LINKFLAGS_'' @ dep) = Strs_value fs"
  shows "lib_flags env dep = Inr (library_words env t dep)"
proof -
  have "traverse_res (\<lambda>path. bind_res (percent_value (pe_vars env ''LIBPATH_ST'') path) (\<lambda>p.
      case pe_vars env (''LINKFLAGS_'' @ dep) of Strs_value fs \<Rightarrow> Inr (p # fs) | Str_value s \<Rightarrow> Inl TypeError)) ps =
    Inr (map (\<lambda>p. (path_pre t @ p) # fs) ps)" for ps
    using assms by (intro traverse_res_Inr) (simp add: fits_percent)
  then show ?thesis
    using assms by (simp add: lib_flags_def library_words_def Let_def fits_percent)
qed

lemma dep_flags_words: "fits env t \<Longrightarrow> dep_flags env dep = Inr (compiler_words env t dep)"
  by (simp add: dep_flags_def compiler_words_def Let_def fits_percent)

lemma join_strings: "join_values (map Str_value xs) = Inr (join '' '' xs)"
proof -
  have "traverse_res (\<lambda>v. case v of Str_value s \<Rightarrow> Inr s | Strs_value xs \<Rightarrow> Inl TypeError) (map Str_value xs) = Inr xs"
    by (induction xs) simp_all
  then show ?thesis by (simp add: join_values_def)
qed

text \<open>
  The libraries of \<open>LIBS\<close> come out character by character; everything else is the flags of the
  module and of what it uses, in order.
\<close>

definition pc_library_words :: "version \<Rightarrow> pc_env \<Rightarrow> pc_templates \<Rightarrow> string \<Rightarrow> string list \<Rightarrow> string list" where
  "pc_library_words ver env t name use =
     [own_path t @ ''${libdir}''] @ (if own_marker t \<noteq> [] then [own_marker t] else []) @
     [own_lib t @ appname ver @ version_number ver @ ''-'' @ drop 4 name @ show_value (pe_vars env ''BUILD_SUFFIX'')] @
     concat (map (library_words env t) use) @
     map (\<lambda>c. [c]) (concat (map (\<lambda>l. lib_pre t @ l) (items (pe_vars env ''LIBS''))))"

lemma pc_libs_words:
  assumes "fits env t" "list_all (\<lambda>dep. pe_vars env (''LINKFLAGS_'' @ dep) \<in> range Strs_value) use"
  shows "pc_libs ver env name use = Inr (map Str_value (pc_library_words ver env t name use))"
proof -
  have "traverse_res (lib_flags env) use = Inr (map (library_words env t) use)"
  proof (rule traverse_res_Inr)
    fix dep assume "dep \<in> set use"
    then obtain fs where "pe_vars env (''LINKFLAGS_'' @ dep) = Strs_value fs" using assms(2) unfolding list_all_iff by blast
    then show "lib_flags env dep = Inr (library_words env t dep)" by (rule lib_flags_words[OF assms(1)])
  qed
  then show ?thesis
    using assms(1) by (simp add: pc_libs_def self_libs_words pc_library_words_def fits_percent comp_def)
qed

text \<open>
  C36: The .pc file of a module holds its own flags and those of everything it uses, in order,
  except that the libraries of LIBS come out character by character.
\<close>

theorem pcfile_contents:
  assumes "fits env t" "list_all (\<lambda>dep. pe_vars env (''LINKFLAGS_'' @ dep) \<in> range Strs_value) use"
  shows "generate_pcfile subst_vars ver env name use =
    (pc_text ver env (subst_vars (''${INCLUDEDIR}/'' @ appname ver @ version_number ver)) name
       (join '' '' (pc_library_words ver env t name use))
       (join '' '' ((include_pre t @ ''${includedir}'') # concat (map (compiler_words env t) use)))
       (join '' '' (pc_requires ver env use)), Inr ())"
proof -
  have "pc_cflags env use = Inr ((include_pre t @ ''${includedir}'') # concat (map (compiler_words env t) use))"
    using assms(1) traverse_res_Inr[of use "dep_flags env" "compiler_words env t"]
    by (simp add: pc_cflags_def dep_flags_words fits_percent)
  then show ?thesis
    by (simp add: generate_pcfile_def pc_libs_words[OF assms] join_strings)
qed

definition example_vars :: "string \<Rightarrow> env_value" where
  "example_vars x =
     (case map_of [(''LIBPATH_ST'', Str_value ''-L%s''), (''LIB_ST'', Str_value ''-l%s''), (''SHLIB_MARKER'', Str_value ''-Wl,-Bdynamic''),
        (''DEFINES_ST'', Str_value ''-D%s''), (''CPPPATH_ST'', Str_value ''-I%s''), (''LIBS'', Strs_value [''rt'']),
        (''BUILD_SUFFIX'', Str_value ''-debug''), (''LIB_GTK'', Strs_value [''gtk'']), (''PREFIX'', Str_value ''/usr''),
        (''LIBDIR'', Str_value ''/usr/lib''), (''DEFINES_GTK'', Strs_value [''X=1''])] x of
        None \<Rightarrow> Strs_value [] | Some v \<Rightarrow> v)"

theorem pcfile_contents_witness:
  "fst (generate_pcfile (\<lambda>s. ''/usr/include/ns3'') \<lparr>appname = ''ns'', version_number = ''3''\<rparr>
       \<lparr>pe_static = False, pe_vars = example_vars\<rparr> ''ns3-core'' [''GTK'', ''ns3-mpi'']) =
     ln ''prefix=/usr'' @ ln ''libdir=/usr/lib'' @ ln ''includedir=/usr/include/ns3'' @ ln [] @ ln ''Name: libns3-core'' @
     ln ''Description: ns-3 module ns3-core'' @ ln ''Version: 3'' @
     ln ''Libs: -L${libdir} -Wl,-Bdynamic -lns3-core-debug -lgtk - l r t'' @ ln ''Cflags: -I${includedir} -DX=1'' @
     ln ''Requires: libns3-mpi-debug''"
proof -
  let ?env = "\<lparr>pe_static = False, pe_vars = example_vars\<rparr>"
  let ?t = "\<lparr>own_path = ''-L'', own_lib = ''-l'', own_marker = ''-Wl,-Bdynamic'', path_pre = ''-L'', lib_pre = ''-l'', define_pre = ''-D'', include_pre = ''-I''\<rparr>"
  let ?ver = "\<lparr>appname = ''ns'', version_number = ''3''\<rparr>"
  have "fits ?env ?t" by code_simp
  moreover have "list_all (\<lambda>dep. pe_vars ?env (''LINKFLAGS_'' @ dep) \<in> range Strs_value) [''GTK'', ''ns3-mpi'']"
    by (simp add: example_vars_def)
  ultimately have "fst (generate_pcfile (\<lambda>s. ''/usr/include/ns3'') ?ver ?env ''ns3-core'' [''GTK'', ''ns3-mpi'']) =
    pc_text ?ver ?env ''/usr/include/ns3'' ''ns3-core'' (join '' '' (pc_library_words ?ver ?env ?t ''ns3-core'' [''GTK'', ''ns3-mpi'']))
      (join '' '' ((include_pre ?t @ ''${includedir}'') # concat (map (compiler_words ?env ?t) [''GTK'', ''ns3-mpi''])))
      (join '' '' (pc_requires ?ver ?env [''GTK'', ''ns3-mpi'']))"
    by (simp only: pcfile_contents[where t = ?t] fst_conv)
  also have "\<dots> = ln ''prefix=/usr'' @ ln ''libdir=/usr/lib'' @ ln ''includedir=/usr/include/ns3'' @ ln [] @ ln ''Name: libns3-core'' @
     ln ''Description: ns-3 module ns3-core'' @ ln ''Version: 3'' @
     ln ''Libs: -L${libdir} -Wl,-Bdynamic -lns3-core-debug -lgtk - l r t'' @ ln ''Cflags: -I${includedir} -DX=1'' @
     ln ''Requires: libns3-mpi-debug''"
    by code_simp
  finally show ?thesis .
qed

subsection \<open>Installed headers\<close>

definition installed :: "files \<Rightarrow> (string \<times> string) list \<Rightarrow> files" where
  "installed fs ps =
     (\<lambda>p. case map_of (map prod.swap ps) p of Some src \<Rightarrow> map_option (\<lambda>f. f\<lparr>f_mode := 256\<rparr>) (fs src) | None \<Rightarrow> fs p)"

text \<open>Every source can be read and is no destination, and no destination comes twice.\<close>

definition installable :: "files \<Rightarrow> (string \<times> string) list \<Rightarrow> bool" where
  "installable fs ps \<longleftrightarrow>
     distinct (map snd ps) \<and> set (map fst ps) \<inter> set (map snd ps) = {} \<and>
     (\<forall>src \<in> set (map fst ps). \<exists>f. fs src = Some f \<and> may_read f)"

lemma install_header_result:
  assumes "fs src = Some f" "may_read f" "src \<noteq> dst"
  shows "install_header fs (src, dst) = Inr (fs(dst \<mapsto> f\<lparr>f_mode := 256\<rparr>))"
proof -
  have "may_write (g\<lparr>f_mode := 384\<rparr>)" for g by (simp add: may_write_def)
  then show ?thesis
    using assms by (cases "fs dst") (simp_all add: install_header_def chmod_def copy2_def Let_def)
qed

lemma install_headers_result:
  "installable fs ps \<Longrightarrow> fold_res install_header fs ps = Inr (installed fs ps)"
proof (induction ps arbitrary: fs)
  case (Cons p ps)
  obtain src dst where p: "p = (src, dst)" by (cases p)
  from Cons.prems obtain f where f: "fs src = Some f" "may_read f" and new: "src \<noteq> dst" "dst \<notin> set (map snd ps)" "dst \<notin> set (map fst ps)"
    by (auto simp: installable_def p)
  define fs1 where "fs1 = fs(dst \<mapsto> f\<lparr>f_mode := 256\<rparr>)"
  have fs1: "install_header fs p = Inr fs1" using install_header_result[of fs src f dst, OF f new(1)] by (simp add: p fs1_def)
  have "fs1 s = fs s" if "s \<in> set (map fst ps)" for s using that new(3) by (auto simp: fs1_def)
  then have "installable fs1 ps" using Cons.prems by (auto simp: installable_def)
  moreover have "installed fs1 ps = installed fs (p # ps)"
  proof
    fix q
    show "installed fs1 ps q = installed fs (p # ps) q"
    proof (cases "map_of (map prod.swap ps) q")
      case None
      then show ?thesis using f by (auto simp: installed_def p fs1_def)
    next
      case (Some s)
      then have "(s, q) \<in> set ps" by (auto dest: map_of_SomeD)
      then have "q \<noteq> dst" "s \<noteq> dst" using new by force+
      then show ?thesis using Some by (simp add: installed_def p fs1_def)
    qed
  qed
  ultimately show ?case using Cons.IH[of fs1] fs1 by simp
qed (simp add: installed_def)

lemma installed_again:
  assumes "installable fs ps"
  shows "installable (installed fs ps) ps" "installed (installed fs ps) ps = installed fs ps"
proof -
  have source: "installed fs ps src = fs src" if "src \<in> set (map fst ps)" for src
  proof -
    have "src \<notin> set (map snd ps)" using that assms by (auto simp: installable_def)
    then have "map_of (map prod.swap ps) src = None" by (force simp: map_of_eq_None_iff)
    then show ?thesis by (simp add: installed_def)
  qed
  then show "installable (installed fs ps) ps" using assms by (auto simp: installable_def)
  show "installed (installed fs ps) ps = installed fs ps"
  proof
    fix q
    show "installed (installed fs ps) ps q = installed fs ps q"
    proof (cases "map_of (map prod.swap ps) q")
      case (Some s)
      then have "s \<in> set (map fst ps)" by (force dest: map_of_SomeD)
      moreover have "installed g ps q = map_option (\<lambda>f. f\<lparr>f_mode := 256\<rparr>) (g s)" for g
        using Some by (simp add: installed_def)
      ultimately show ?thesis using source[of s] by simp
    qed (simp add: installed_def)
  qed
qed

text \<open>
  Installing copies each source to its place, readable by the owner only and writable by nobody,
  and leaves every other file alone; it works again when the headers are in place, although they
  cannot be written.
\<close>

text \<open>
  C37: Installing headers copies each to its place without write permission and touches nothing
  else, and works again when they are in place.
\<close>

theorem run_header_installs:
  assumes "ht_mode task = Install" "length (ht_inputs task) = length (ht_outputs task)"
    "installable fs (zip (ht_inputs task) (ht_outputs task))"
  shows "run_header fixed task fs = Inr (installed fs (zip (ht_inputs task) (ht_outputs task))) \<and>
    bind_res (run_header fixed task fs) (run_header fixed task) = run_header fixed task fs"
  using assms installed_again[OF assms(3)] by (simp add: run_header_def install_headers_result)

definition example_files :: files where
  "example_files = [''/src/a.h'' \<mapsto> \<lparr>f_content = ''new'', f_mode = 420\<rparr>, ''/build/ns3/a.h'' \<mapsto> \<lparr>f_content = ''old'', f_mode = 256\<rparr>]"

definition example_task :: header_task where
  "example_task = \<lparr>ht_mode = Install, ht_inputs = [''/src/a.h''], ht_outputs = [''/build/ns3/a.h''], ht_remove = []\<rparr>"

theorem run_header_installs_witness:
  "map_value (\<lambda>fs. fs ''/build/ns3/a.h'') (run_header (\<lambda>p. False) example_task example_files) =
     Inr (Some \<lparr>f_content = ''new'', f_mode = 256\<rparr>) \<and>
   may_write \<lparr>f_content = ''new'', f_mode = 256\<rparr> = False"
proof -
  have "installable example_files (zip (ht_inputs example_task) (ht_outputs example_task))"
    by (simp add: installable_def example_files_def example_task_def may_read_def)
  then have "run_header (\<lambda>p. False) example_task example_files =
      Inr (installed example_files (zip (ht_inputs example_task) (ht_outputs example_task)))"
    using run_header_installs[of example_task example_files "\<lambda>p. False"] by (simp add: example_task_def)
  then show ?thesis by (simp add: installed_def example_files_def example_task_def may_write_def)
qed

lemma remove_header_gone:
  assumes "ht_mode task = Remove" "ht_inputs task = []" "ht_outputs task = []" "\<not> fixed (ht_remove task)"
  shows "run_header fixed task fs = Inr (fs(ht_remove task := None))"
  using assms by (auto simp: run_header_def remove_header_def)

subsection \<open>What including the header of a module includes\<close>

text \<open>
  The directives that matter of the C preprocessor: the files included, and the macros that are
  defined at the end.
\<close>

fun preprocess :: "string list \<Rightarrow> bool list \<Rightarrow> string list \<Rightarrow> (string list \<times> string list) res" where
  "preprocess macros nest [] = Inr ([], macros)"
| "preprocess macros nest (l # ls) =
     (if prefix ''#ifdef '' l then preprocess macros ((drop 7 l \<in> set macros) # nest) ls
      else if prefix ''#ifndef '' l then preprocess macros ((drop 8 l \<notin> set macros) # nest) ls
      else if l = ''#endif'' then preprocess macros (tl nest) ls
      else if False \<in> set nest then preprocess macros nest ls
      else if prefix ''# error '' l then Inl (GenericException (drop 8 l))
      else if prefix ''#define '' l then preprocess (drop 8 l # macros) nest ls
      else if prefix ''#include '' l then map_value (apfst (Cons (butlast (drop 10 l)))) (preprocess macros nest ls)
      else preprocess macros nest ls)"

lemma preprocess_includes:
  "preprocess macros nest (map include_line hs @ ls) =
     (if False \<in> set nest then preprocess macros nest ls else map_value (apfst (\<lambda>xs. hs @ xs)) (preprocess macros nest ls))"
  by (induction hs; cases "preprocess macros nest ls") (auto simp: include_line_def)

lemma split_lines: "(\<And>l. l \<in> set ls \<Longrightarrow> newline \<notin> set l) \<Longrightarrow> split_on newline (concat (map ln ls)) = ls @ [[]]"
  by (induction ls) (auto simp: ln_def split_on_append)

lemma upper_newline: "newline \<notin> set m \<Longrightarrow> newline \<notin> set (upper m)"
proof -
  have lower_case: "char_of (n - 32) \<noteq> newline" if "97 \<le> n" "n \<le> 122" for n :: nat
  proof
    assume "char_of (n - 32) = newline"
    then have "of_char (char_of (n - 32) :: char) = (10 :: nat)" by simp
    then show False using that by simp
  qed
  show "newline \<notin> set (upper m)" if m: "newline \<notin> set m"
  proof
    assume "newline \<in> set (upper m)"
    then obtain c where "c \<in> set m" "newline = (if 97 \<le> (of_char c :: nat) \<and> (of_char c :: nat) \<le> 122 then char_of ((of_char c :: nat) - 32) else c)"
      unfolding upper_def by (elim imageE[OF ssubst[OF set_map[symmetric], where P = "\<lambda>S. newline \<in> S"]]) blast+
    then show False using m lower_case[of "of_char c"] by (metis (full_types))
  qed
qed

lemma guard_newline: "newline \<notin> set m \<Longrightarrow> newline \<notin> set (guard_macro m)"
  using upper_newline[of m] by (auto simp: guard_macro_def split: if_splits)

lemma header_lines_newline:
  assumes "newline \<notin> set m" "list_all (\<lambda>i. newline \<notin> set (basename i)) inputs" "l \<in> set (module_header_lines m inputs)"
  shows "newline \<notin> set l"
  using assms guard_newline[OF assms(1)] by (auto simp: module_header_lines_def include_line_def list_all_iff)

text \<open>
  Including the header of a module includes the headers of the module in order and defines no
  macro, so that it does so each time; inside another module it is an error.
\<close>

theorem module_header_includes:
  assumes "newline \<notin> set m" "list_all (\<lambda>i. newline \<notin> set (basename i)) inputs"
  shows "preprocess macros [] (split_on newline (module_header m inputs)) =
    (if ''NS3_MODULE_COMPILATION'' \<in> set macros
     then Inl (GenericException ([CHR 0x22] @
       ''Do not include ns3 module aggregator headers from other modules; these are meant only for end user scripts.'' @ [CHR 0x22]))
     else Inr (if guard_macro m \<in> set macros then [] else sort (map basename inputs), macros))"
proof -
  have lines: "split_on newline (module_header m inputs) = module_header_lines m inputs @ [[]]"
    unfolding module_header_def by (rule split_lines) (rule header_lines_newline[OF assms])
  show ?thesis unfolding lines module_header_lines_def by (simp add: preprocess_includes)
qed

theorem module_header_includes_witness:
  "preprocess [] [] (split_on newline (module_header ''flow-monitor'' [''/b/ns3/z.h'', ''/b/ns3/a.h''])) = Inr ([''a.h'', ''z.h''], [])"
proof -
  have "list_all (\<lambda>i. newline \<notin> set (basename i)) [''/b/ns3/z.h'', ''/b/ns3/a.h'']" by code_simp
  moreover have "sort (map basename [''/b/ns3/z.h'', ''/b/ns3/a.h'']) = [''a.h'', ''z.h'']" by code_simp
  ultimately show ?thesis
    using module_header_includes[of "''flow-monitor''" "[''/b/ns3/z.h'', ''/b/ns3/a.h'']" "[]"] by simp
qed

text \<open>
  From the generators of headers to the header of the module: it includes the headers of all its
  generators, sorted, whatever order the sets of sources are gone through.
\<close>

definition module_headers :: "string \<Rightarrow> header_gen list \<Rightarrow> string list" where
  "module_headers m gens =
     concat (map (\<lambda>g. map basename (remdups (hg_source g)))
       (filter (\<lambda>g. has_feature ''ns3header'' (hg_features g) \<and> hg_module g = Some m) gens))"

lemma headers_of_mset: "permuting ord \<Longrightarrow> mset (headers_of ord m gens) = mset (module_headers m gens)"
  by (induction gens) (auto simp: headers_of_def module_headers_def permuting_def)

lemma headers_found:
  "traverse_res (\<lambda>h. Inr (path_join d h)) hs = Inr (map (path_join d) hs)"
  by (induction hs) simp_all

lemma headers_no_slash: "h \<in> set (headers_of ord m gens) \<Longrightarrow> slash \<notin> set h"
  by (auto simp: headers_of_def basename_no_slash)

theorem module_header_of_gens:
  assumes "permuting ord" "module_headers m gens \<noteq> []" "has_module (''ns3-'' @ m)"
  shows "case module_header_task ord (\<lambda>h. Some (path_join d h)) out has_module gens m Install of
     Inr (Some task) \<Rightarrow> ht_mode task = Install \<and> ht_outputs task = [out] \<and>
       module_header m (ht_inputs task) = module_header m (module_headers m gens)
   | _ \<Rightarrow> False"
proof -
  have same: "mset (headers_of ord m gens) = mset (module_headers m gens)" by (rule headers_of_mset[OF assms(1)])
  then have "headers_of ord m gens \<noteq> []" using assms(2) by (metis mset_zero_iff)
  moreover have "\<exists>g \<in> set gens. has_feature ''ns3header'' (hg_features g) \<and> hg_module g = Some m"
    using assms(2) by (auto simp: module_headers_def)
  moreover have "map basename (map (path_join d) (headers_of ord m gens)) = headers_of ord m gens"
    by (simp add: map_idI basename_join headers_no_slash)
  moreover have "map basename (module_headers m gens) = module_headers m gens"
  proof (rule map_idI)
    fix h assume "h \<in> set (module_headers m gens)"
    then have "slash \<notin> set h" by (auto simp: module_headers_def basename_no_slash)
    then have "takeWhile (\<lambda>c. c \<noteq> slash) (rev h) = rev h" by (auto simp: takeWhile_eq_all_conv)
    then show "basename h = h" by (simp only: basename_def rev_rev_ident)
  qed
  moreover have "sort (headers_of ord m gens) = sort (module_headers m gens)"
    using same by (metis properties_for_sort mset_sort sorted_sort)
  ultimately show ?thesis
    using assms(3) by (auto simp: module_header_task_def headers_found module_header_def module_header_lines_def)
qed

definition example_header_gens :: "header_gen list" where
  "example_header_gens =
     [\<lparr>hg_features = Feature_list [''ns3header''], hg_module = Some ''olsr'', hg_mode = Install, hg_source = [''model/olsr.h'', ''helper/a.h'']\<rparr>,
      \<lparr>hg_features = Feature_list [''ns3header''], hg_module = Some ''core'', hg_mode = Install, hg_source = [''b.h'']\<rparr>]"

theorem module_header_of_gens_witness:
  "case module_header_task rev (\<lambda>h. Some (path_join ''ns3'' h)) ''ns3/olsr-module.h'' (\<lambda>n. True) example_header_gens ''olsr'' Install of
     Inr (Some task) \<Rightarrow> ht_inputs task = [''ns3/a.h'', ''ns3/olsr.h''] \<and>
       module_header ''olsr'' (ht_inputs task) = module_header ''olsr'' [''olsr.h'', ''a.h'']
   | _ \<Rightarrow> False"
proof -
  have headers: "module_headers ''olsr'' example_header_gens = [''olsr.h'', ''a.h'']" by code_simp
  have "case module_header_task rev (\<lambda>h. Some (path_join ''ns3'' h)) ''ns3/olsr-module.h'' (\<lambda>n. True) example_header_gens ''olsr'' Install of
     Inr (Some task) \<Rightarrow> ht_inputs task = [''ns3/a.h'', ''ns3/olsr.h''] | _ \<Rightarrow> False"
    by code_simp
  then show ?thesis
    using module_header_of_gens[OF permuting_rev, where m = "''olsr''" and gens = example_header_gens and has_module = "\<lambda>n. True" and d = "''ns3''" and out = "''ns3/olsr-module.h''"] headers
    by (auto split: sum.splits option.splits)
qed

subsection \<open>Libraries\<close>

text \<open>
  The generator of a module's library: its attributes, and the values appended to variables of its
  environment.
\<close>

record ns3_library =
  l_features :: "string list"
  l_target :: string
  l_name :: string
  l_static :: bool
  l_dependencies :: "string list"
  l_use :: "string list"
  l_test :: bool
  l_is_module :: bool
  l_tests_module :: "string option"
  l_appended :: "(string \<times> string list) list"
  l_pcfile_module :: string

record library_env =
  le_static :: bool
  le_cxx_name :: string
  le_soname :: bool
  le_pattern :: string
  le_shlib_flags :: "string list"
  le_suffix :: string

definition create_ns3_module ::
  "version \<Rightarrow> library_env \<Rightarrow> string \<Rightarrow> string \<Rightarrow> string list \<Rightarrow> bool \<Rightarrow> ns3_library res" where
  "create_ns3_module ver env rel_path name dependencies test =
     (let target = rel_path @ ''/ns'' @ version_number ver @ ''-'' @ name @ le_suffix env;
          flags = (if le_static env then [] else le_shlib_flags env)
      in map_value (\<lambda>linkflags.
           \<lparr>l_features = [''cxx'', if le_static env then ''cxxstlib'' else ''cxxshlib'', ''ns3module''], l_target = target,
            l_name = ''ns3-'' @ name, l_static = le_static env, l_dependencies = dependencies,
            l_use = map (\<lambda>d. ''ns3-'' @ d) dependencies, l_test = test, l_is_module = True, l_tests_module = None,
            l_appended = [(''CXXFLAGS'', flags), (''CCFLAGS'', flags), (''LINKFLAGS'', linkflags),
              (''CXXDEFINES'', [''NS3_MODULE_COMPILATION'']), (''CCDEFINES'', [''NS3_MODULE_COMPILATION'']), (''INCLUDES'', [''#''])],
            l_pcfile_module = ''ns3-'' @ name\<rparr>)
         (if \<not> le_static env \<and> le_cxx_name env \<in> {''gcc'', ''icc''} \<and> le_soname env
          then map_value (\<lambda>lib. [''-Wl,--soname='' @ lib]) (percent (le_pattern env) [basename target])
          else Inr []))"

text \<open>A library of tests, and the pair that is added to \<open>NS3_MODULES_WITH_TEST_LIBRARIES\<close>\<close>

definition create_ns3_module_test_library ::
  "version \<Rightarrow> library_env \<Rightarrow> string \<Rightarrow> string \<Rightarrow> string \<Rightarrow> (ns3_library \<times> (string \<times> string)) res" where
  "create_ns3_module_test_library ver env rel_path from_build name =
     map_value (\<lambda>l. let lib = l\<lparr>l_features := l_features l @ [''ns3testlib''], l_is_module := False, l_tests_module := Some (''ns3-'' @ name),
                 l_appended := l_appended l @ [(''CXXFLAGS'', [''-I'' @ from_build]), (''CCFLAGS'', [''-I'' @ from_build])]\<rparr>
               in (lib, (''ns3-'' @ name, l_name lib)))
       (create_ns3_module ver env rel_path (name @ ''-test'') [name] True)"

text \<open>The directory of the last source of a test library is a macro.\<close>

definition test_source_dir :: "string list \<Rightarrow> ns3_library \<Rightarrow> ns3_library" where
  "test_source_dir parents lib =
     (if parents = [] then lib
      else lib\<lparr>l_appended := l_appended lib @ [(''DEFINES'', [''NS_TEST_SOURCEDIR='' @ [CHR 0x22] @ last parents @ [CHR 0x22]])]\<rparr>)"

text \<open>The generators as the build sees them\<close>

definition library_gen :: "string \<Rightarrow> ns3_library \<Rightarrow> build_gen" where
  "library_gen dir l =
     \<lparr>gen_name = l_name l, gen_features = Feature_list (l_features l), gen_module = None, gen_mode = ''install'',
      gen_dependencies = None, gen_use = l_use l, gen_is_module = l_is_module l, gen_tests_module = l_tests_module l,
      gen_bld_path = dir, gen_target = l_target l, gen_source = []\<rparr>"

definition pcfile_gen :: "string \<Rightarrow> string \<Rightarrow> ns3_library \<Rightarrow> build_gen" where
  "pcfile_gen name dir l =
     \<lparr>gen_name = name, gen_features = Feature_text ''ns3pcfile'', gen_module = Some (Some (l_pcfile_module l)), gen_mode = ''install'',
      gen_dependencies = None, gen_use = [], gen_is_module = False, gen_tests_module = None,
      gen_bld_path = dir, gen_target = [], gen_source = []\<rparr>"

definition header_build_gen :: "string \<Rightarrow> string \<Rightarrow> header_gen \<Rightarrow> build_gen" where
  "header_build_gen name dir g =
     \<lparr>gen_name = name, gen_features = hg_features g, gen_module = Some (hg_module g), gen_mode = ''install'',
      gen_dependencies = None, gen_use = [], gen_is_module = False, gen_tests_module = None,
      gen_bld_path = dir, gen_target = [], gen_source = hg_source g\<rparr>"

text \<open>
  What a module that is created has: its name, the modules it uses, and no feature that the build
  looks for.
\<close>

lemma created_module: "create_ns3_module ver env rel name deps test = Inr l \<Longrightarrow>
    l_is_module l \<and> l_tests_module l = None \<and> l_name l = ''ns3-'' @ name \<and> l_use l = map (\<lambda>d. ''ns3-'' @ d) deps \<and>
    l_pcfile_module l = l_name l \<and> set (l_features l) \<subseteq> {''cxx'', ''cxxstlib'', ''cxxshlib'', ''ns3module''}"
  by (auto simp: create_ns3_module_def Let_def res_simps split: if_splits)

text \<open>
  C4: Every generator that the modules create has the attributes the build reads; the library of
  a module uses those of the modules it depends on, its test library uses it; the library and
  its .pc file are taken out exactly when the module is disabled, the test library exactly when
  tests or the module are, and the .pc file of the test library when that is not named as an
  enabled module.
\<close>

theorem created_gens_fit:
  assumes "create_ns3_module ver env rel name deps False = Inr l"
    "create_ns3_module_test_library ver env rel from_build name = Inr (t, pair)" "dir \<noteq> []"
  shows "plain_module (library_gen dir l) \<and> gen_name (library_gen dir l) = ''ns3-'' @ name \<and>
    gen_use (library_gen dir l) = map (\<lambda>d. ''ns3-'' @ d) deps \<and> gen_use (library_gen dir t) = [''ns3-'' @ name] \<and>
    list_all readable [library_gen dir l, library_gen dir t, pcfile_gen pc dir l, pcfile_gen pc dir t,
      header_build_gen h dir g, create_ns3_program n dir p deps'] \<and>
    (dropped tests modules (library_gen dir l) \<longleftrightarrow> ''ns3-'' @ name \<notin> set modules) \<and>
    (dropped tests modules (pcfile_gen pc dir l) \<longleftrightarrow> ''ns3-'' @ name \<notin> set modules) \<and>
    (dropped tests modules (library_gen dir t) \<longleftrightarrow> \<not> tests \<or> ''ns3-'' @ name \<notin> set modules) \<and>
    (dropped tests modules (pcfile_gen pc dir t) \<longleftrightarrow> ''ns3-'' @ name @ ''-test'' \<notin> set modules) \<and>
    pair = (l_name l, l_name t)"
proof -
  obtain l2 where l2: "create_ns3_module ver env rel (name @ ''-test'') [name] True = Inr l2"
    and t: "t = l2\<lparr>l_features := l_features l2 @ [''ns3testlib''], l_is_module := False, l_tests_module := Some (''ns3-'' @ name),
                 l_appended := l_appended l2 @ [(''CXXFLAGS'', [''-I'' @ from_build]), (''CCFLAGS'', [''-I'' @ from_build])]\<rparr>"
    and pair: "pair = (''ns3-'' @ name, l_name t)"
    using assms(2) by (auto simp: create_ns3_module_test_library_def res_simps Let_def)
  have no_feature: "\<not> has_feature f (gen_features (library_gen dir l))" "\<not> has_feature f (gen_features (library_gen dir t))"
    if "f \<in> {''ns3pcfile'', ''ns3header'', ''ns3moduleheader''}" for f
    using that created_module[OF assms(1)] created_module[OF l2] by (auto simp: library_gen_def has_feature_def t)
  have "\<not> has_feature f (Feature_text ''cxx cxxprogram'')" if "f \<in> {''ns3pcfile'', ''ns3header'', ''ns3moduleheader''}" for f
    using that by (auto simp: has_feature_def)
  then have "readable (create_ns3_program n dir p deps')" using assms(3) by (simp add: readable_def create_ns3_program_def Let_def)
  moreover have "readable (library_gen dir l)" "readable (library_gen dir t)"
    using no_feature by (simp_all add: readable_def library_gen_def)
  moreover have "readable (pcfile_gen pc dir l)" "readable (pcfile_gen pc dir t)" "readable (header_build_gen h dir g)"
    by (simp_all add: readable_def pcfile_gen_def header_build_gen_def)
  moreover have "plain_module (library_gen dir l)"
    using created_module[OF assms(1)] no_feature(1)[of "''ns3pcfile''"] by (simp add: plain_module_def library_gen_def)
  moreover have "dropped tests modules (library_gen dir l) \<longleftrightarrow> ''ns3-'' @ name \<notin> set modules"
    using created_module[OF assms(1)] no_feature(1)[of "''ns3pcfile''"] by (simp add: dropped_def library_gen_def)
  moreover have "dropped tests modules (library_gen dir t) \<longleftrightarrow> \<not> tests \<or> ''ns3-'' @ name \<notin> set modules"
    using no_feature(2)[of "''ns3pcfile''"] by (simp add: dropped_def library_gen_def t)
  moreover have "dropped tests modules (pcfile_gen pc dir l) \<longleftrightarrow> ''ns3-'' @ name \<notin> set modules"
    using created_module[OF assms(1)] by (simp add: dropped_def pcfile_gen_def has_feature_def)
  moreover have "dropped tests modules (pcfile_gen pc dir t) \<longleftrightarrow> ''ns3-'' @ name @ ''-test'' \<notin> set modules"
    using created_module[OF l2] by (simp add: dropped_def pcfile_gen_def has_feature_def t)
  moreover have "gen_use (library_gen dir t) = [''ns3-'' @ name]"
    using created_module[OF l2] by (simp add: library_gen_def t)
  ultimately show ?thesis using pair created_module[OF assms(1)] by (simp add: library_gen_def)
qed

definition example_library_env :: library_env where
  "example_library_env =
     \<lparr>le_static = False, le_cxx_name = ''gcc'', le_soname = True, le_pattern = ''lib%s.so'', le_shlib_flags = [''-fPIC''], le_suffix = ''-debug''\<rparr>"

theorem created_gens_fit_witness:
  "case create_ns3_module \<lparr>appname = ''ns'', version_number = ''3''\<rparr> example_library_env ''src/lte'' ''lte'' [''core''] False of
     Inr l \<Rightarrow> plain_module (library_gen ''/b'' l) \<and> gen_use (library_gen ''/b'' l) = [''ns3-core''] \<and>
       \<not> dropped False [''ns3-lte'', ''ns3-core''] (library_gen ''/b'' l)
   | Inl e \<Rightarrow> False"
proof -
  let ?create = "create_ns3_module \<lparr>appname = ''ns'', version_number = ''3''\<rparr> example_library_env ''src/lte''"
  have "case ?create ''lte'' [''core''] False of Inr l \<Rightarrow> True | Inl e \<Rightarrow> False"
    by code_simp
  then obtain l where l: "?create ''lte'' [''core''] False = Inr l" by (auto split: sum.splits)
  have "case create_ns3_module_test_library \<lparr>appname = ''ns'', version_number = ''3''\<rparr> example_library_env ''src/lte'' ''../lte'' ''lte'' of
      Inr r \<Rightarrow> True | Inl e \<Rightarrow> False"
    by code_simp
  then obtain t pair where "create_ns3_module_test_library \<lparr>appname = ''ns'', version_number = ''3''\<rparr> example_library_env ''src/lte'' ''../lte'' ''lte''
      = Inr (t, pair)"
    by (auto split: sum.splits)
  from created_gens_fit[OF l this, of "''/b''" _ _ _ _ _ _ False "[''ns3-lte'', ''ns3-core'']"] show ?thesis using l by simp
qed

subsection \<open>Python bindings of a module\<close>

text \<open>
  \<open>ns3_python_bindings\<close> as the list of what it does to the build, and the exception if it raises.
  \<open>has_resource\<close> says which files of the module there are; the paths from the module to the
  generator script and to the target directory are given by waf.
\<close>

record bindings_env =
  be_apiscan :: bool
  be_enabled :: bool
  be_modules :: "string list"
  be_apidefs :: string
  be_features :: "(string \<times> string \<times> bool \<times> string) list"
  be_static :: bool
  be_platform :: string
  be_options_platform :: string
  be_defines :: "string list"

datatype binding_action =
    Append_value string string
  | Warning
  | Copy_file string string
  | Install_files string string
  | Generate "string list" "string list" "string list" string string
  | Extension string string "string list" "string list" "string list" bool

definition binding_sources :: "bindings_env \<Rightarrow> (string \<Rightarrow> bool) \<Rightarrow> string \<Rightarrow> string list" where
  "binding_sources env has_resource script =
     [script, ''bindings/modulegen__'' @ underscores (be_apidefs env) @ ''.py''] @
     (if has_resource ''bindings/modulegen_customizations.py'' then [''bindings/modulegen_customizations.py''] else []) @
     (if has_resource ''bindings/modulegen_local.py'' then [''bindings/modulegen_local.py''] else [])"

definition binding_command :: "bindings_env \<Rightarrow> string \<Rightarrow> string \<Rightarrow> string list" where
  "binding_command env abs_src extension_name =
     [''NS3_ENABLED_FEATURES=${FEATURES}'', ''GCC_RTTI_ABI_COMPLETE=${GCC_RTTI_ABI_COMPLETE}'', ''${PYTHON}'',
      ''${SRC[0]}'', abs_src, underscores (be_apidefs env), extension_name, ''${TGT[0]}'', ''2>'', ''${TGT[2]}'']"

definition extension_flags :: "bindings_env \<Rightarrow> string list res" where
  "extension_flags env =
     (if \<not> be_static env then Inr []
      else if be_platform env = ''darwin'' then Inl AttributeError
      else Inr ([''-Wl,--whole-archive,-Bstatic''] @ map (\<lambda>m. ''-l'' @ m) (be_modules env) @ [''-Wl,-Bdynamic,--no-whole-archive'']))"

definition extension_defines :: "bindings_env \<Rightarrow> string list" where
  "extension_defines env =
     (let defines = be_defines env @ [''NS_DEPRECATED='', ''NS3_DEPRECATED_H'']
      in if be_options_platform env = ''win32'' then remove1 ''_DEBUG'' defines else defines)"

definition enabled_features :: "bindings_env \<Rightarrow> string list" where
  "enabled_features env = map fst (filter (\<lambda>(name, caption, was_enabled, reason). was_enabled) (be_features env))"

definition make_bindings :: "bindings_env \<Rightarrow> (string \<Rightarrow> bool) \<Rightarrow> string \<Rightarrow> string \<Rightarrow> string \<Rightarrow> binding_action list \<times> unit res" where
  "make_bindings env has_resource abs_src script target_dir =
     (let module = basename abs_src;
          py_name = underscores module;
          front = ''bindings/'' @ py_name @ ''.py'';
          split = has_resource front;
          extension_name = (if split then CHR ''_'' # py_name else py_name);
          before = [Append_value ''PYTHON_MODULES_BUILT'' module] @
            (if split then [Copy_file front (target_dir @ ''/'' @ py_name @ ''.py''), Install_files ''${PYTHONARCHDIR}/ns'' front] else []) @
            [Generate (binding_sources env has_resource script)
               [''bindings/ns3module.cc'', ''bindings/ns3module.h'', ''bindings/ns3modulegen.log'']
               (binding_command env abs_src extension_name) (join '','' (enabled_features env)) (''pybindgen(ns3 module '' @ module @ '')'')]
      in case extension_flags env of
           Inl e \<Rightarrow> (before, Inl e)
         | Inr flags \<Rightarrow>
             (before @ [Extension (target_dir @ ''/'' @ extension_name) (''ns3module_'' @ module) (be_modules env) flags
                (extension_defines env) (be_platform env = ''darwin'')], Inr ()))"

definition ns3_python_bindings ::
  "bindings_env \<Rightarrow> bool \<Rightarrow> (string \<Rightarrow> bool) \<Rightarrow> string \<Rightarrow> string \<Rightarrow> string \<Rightarrow> binding_action list \<times> unit res" where
  "ns3_python_bindings env has_directory has_resource abs_src script target_dir =
     apfst (Cons (Append_value ''MODULAR_BINDINGS_MODULES'' (''ns3-'' @ basename abs_src)))
       (if be_apiscan env \<or> \<not> be_enabled env then ([], Inr ())
        else if \<not> has_directory then ([Warning], Inr ())
        else if ''ns3-'' @ basename abs_src \<notin> set (be_modules env) then ([], Inr ())
        else make_bindings env has_resource abs_src script target_dir)"

definition makes_extension :: "binding_action \<Rightarrow> bool" where
  "makes_extension a = (case a of Extension _ _ _ _ _ _ \<Rightarrow> True | _ \<Rightarrow> False)"

text \<open>
  An extension is made for an enabled module with a directory of bindings, unless bindings are
  disabled or only the API is scanned; a static build on Darwin raises instead.
\<close>

lemma extension_made:
  fixes env has_directory abs_src
  defines "wanted \<equiv> \<not> be_apiscan env \<and> be_enabled env \<and> has_directory \<and> ''ns3-'' @ basename abs_src \<in> set (be_modules env)"
  shows "case ns3_python_bindings env has_directory has_resource abs_src script target_dir of
     (actions, r) \<Rightarrow>
       (r = Inl AttributeError \<longleftrightarrow> wanted \<and> be_static env \<and> be_platform env = ''darwin'') \<and>
       (list_ex makes_extension actions \<longleftrightarrow> wanted \<and> r = Inr ())"
  by (auto simp: ns3_python_bindings_def make_bindings_def extension_flags_def makes_extension_def wanted_def Let_def apfst_def
      split: sum.split)

end
