(* ===== verification/Bindings.thy ===== *)
theory Bindings
  imports Topsort Wutils "HOL-Library.List_Lexorder" "HOL-Library.Char_ord"
begin

section \<open>Scanning headers and generating the Python bindings\<close>

text \<open>
  \<^verbatim>\<open>bindings/python/ns3modulescan-modular.py\<close>, which scans the headers of one module, and
  \<^verbatim>\<open>bindings/python/ns3modulescan.py\<close>, which scans those of all modules at once.  pybindgen
  reads the headers and calls the hook below for each declaration it finds; pygccxml and
  pybindgen are the values they give for a declaration (the record \<open>decl\<close>) and the functions
  on template names (the record \<open>templates\<close>).  Output to stderr is left out.  The last part
  is the generators that read what the scans have written.
\<close>

subsection \<open>The path of a header below \<open>ns3\<close>\<close>

text \<open>\<open>os.path.join(*l)\<close>, which takes at least one argument.\<close>

definition join_parts :: "string list \<Rightarrow> string res" where
  "join_parts l = (if l = [] then Inl TypeError else Inr (path_join_list l))"

text \<open>The functions below split \<open>head\<close> by \<open>os.path.split\<close>, whose value is the pair of \<open>dirname\<close> and \<open>basename\<close>.\<close>

lemma length_dirname: "dirname p \<noteq> p \<Longrightarrow> length (dirname p) < length p"
proof -
  assume ne: "dirname p \<noteq> p"
  let ?h = "rev (dropWhile (\<lambda>c. c \<noteq> slash) (rev p))"
  let ?t = "rev (takeWhile (\<lambda>c. c \<noteq> slash) (rev p))"
  have p: "p = ?h @ ?t" by (metis rev_append rev_rev_ident takeWhile_dropWhile_id)
  have d: "dirname p = ?h \<or> dirname p = rev (dropWhile (\<lambda>c. c = slash) (rev ?h))"
    by (simp add: dirname_def Let_def)
  show ?thesis
  proof (cases "dirname p = ?h")
    case True
    then show ?thesis using ne p by (metis append_Nil2 length_append length_greater_0_conv less_add_same_cancel1)
  next
    case False
    with d have dd: "dirname p = rev (dropWhile (\<lambda>c. c = slash) (rev ?h))" by blast
    have "?h = dirname p @ rev (takeWhile (\<lambda>c. c = slash) (rev ?h))"
      unfolding dd by (metis rev_append rev_rev_ident takeWhile_dropWhile_id)
    with False have "length (dirname p) < length ?h"
      by (metis append_Nil2 length_append length_greater_0_conv less_add_same_cancel1)
    then show ?thesis using p by (metis length_append trans_less_add1)
  qed
qed

function relative_loop :: "string \<Rightarrow> string list \<Rightarrow> string res" where
  "relative_loop head l =
     (if head = [] then Inl AssertionError
      else if dirname head = head then Inl ValueError
      else if basename head = ''ns3'' then join_parts l
      else relative_loop (dirname head) (basename head # l))"
  by pat_completeness auto
termination
  by (relation "measure (\<lambda>(head, l). length head)") (auto dest: length_dirname)

declare relative_loop.simps [simp del]

definition get_ns3_relative_path :: "string \<Rightarrow> string res" where
  "get_ns3_relative_path path = relative_loop path []"

text \<open>The one of \<^verbatim>\<open>ns3modulescan.py\<close> lacks the test of \<open>new_head\<close>; it may run for ever.\<close>

partial_function (option) relative_loop_all :: "string \<Rightarrow> string list \<Rightarrow> string res option" where
  "relative_loop_all head l =
     (if head = [] then Some (Inl AssertionError)
      else if basename head = ''ns3'' then Some (join_parts l)
      else relative_loop_all (dirname head) (basename head # l))"

declare relative_loop_all.simps [code]

definition get_ns3_relative_path_all :: "string \<Rightarrow> string res option" where
  "get_ns3_relative_path_all path = relative_loop_all path []"

subsection \<open>Declarations and annotations\<close>

text \<open>
  The classes of pygccxml that the hooks ask for; a constructor, a function and a method are
  all instances of \<open>calldef_t\<close>, and \<open>Other_callable\<close> stands for its remaining subclasses.
\<close>

datatype decl_class =
    Member_function
  | Constructor
  | Free_function
  | Other_callable
  | Class_decl
  | Enumeration
  | Other_decl

definition is_calldef :: "decl_class \<Rightarrow> bool" where
  "is_calldef c \<longleftrightarrow> c \<in> {Member_function, Constructor, Free_function, Other_callable}"

text \<open>The text of a declaration contains the default values of its arguments, which the hook changes.\<close>

record decl =
  d_class :: decl_class
  d_file :: string
  d_parent :: string
  d_name :: string
  d_demangled :: string
  d_decl_string :: string
  d_arguments :: "string option list"
  d_str :: "string option list \<Rightarrow> string"

record templates =
  t_args :: "string \<Rightarrow> string list"
  t_is_instantiation :: "string \<Rightarrow> bool"
  t_split :: "string \<Rightarrow> string \<times> string list"
  t_location :: "string \<Rightarrow> string option"

text \<open>The values of annotations; \<open>'params'\<close> of the table has a dictionary of dictionaries.\<close>

datatype annotation =
    Text string
  | Truth bool
  | NoneV
  | Params "(string, (string, string) dict) dict"

type_synonym annotations = "(string, annotation) dict"

definition type_annotations :: "(string, annotations) dict" where
  "type_annotations =
    [
     (''::ns3::AttributeChecker'',
      [(''automatic_type_narrowing'', Text ''true''), (''allow_subclassing'', Text ''false'')]),
     (''::ns3::AttributeValue'',
      [(''automatic_type_narrowing'', Text ''true''), (''allow_subclassing'', Text ''false'')]),
     (''::ns3::CommandLine'',
      [(''allow_subclassing'', Text ''true'')]),
     (''::ns3::NscTcpL4Protocol'',
      [(''ignore'', Text ''true'')]),
     (''ns3::RandomVariable::RandomVariable(ns3::RandomVariableBase const & variable) [constructor]'',
      [(''ignore'', NoneV)]),
     (''ns3::RandomVariableBase * ns3::RandomVariable::Peek() const [member function]'',
      [(''ignore'', NoneV)]),
     (''void ns3::RandomVariable::GetSeed(uint32_t * seed) const [member function]'',
      [(''params'', Params [(''seed'', [(''direction'', ''out''), (''array_length'', ''6'')])])]),
     (''bool ns3::TypeId::LookupAttributeByName(std::string name, ns3::TypeId::AttributeInformation * info) const [member function]'',
      [(''params'', Params [(''info'', [(''transfer_ownership'', ''false'')])])]),
     (''static bool ns3::TypeId::LookupByNameFailSafe(std::string name, ns3::TypeId * tid) [member function]'',
      [(''ignore'', NoneV)]),
     (''bool ns3::TraceSourceAccessor::ConnectWithoutContext(ns3::ObjectBase * obj, ns3::CallbackBase const & cb) const [member function]'',
      [(''params'', Params [(''obj'', [(''transfer_ownership'', ''false'')])])]),
     (''bool ns3::TraceSourceAccessor::Connect(ns3::ObjectBase * obj, std::string context, ns3::CallbackBase const & cb) const [member function]'',
      [(''params'', Params [(''obj'', [(''transfer_ownership'', ''false'')])])]),
     (''bool ns3::TraceSourceAccessor::DisconnectWithoutContext(ns3::ObjectBase * obj, ns3::CallbackBase const & cb) const [member function]'',
      [(''params'', Params [(''obj'', [(''transfer_ownership'', ''false'')])])]),
     (''bool ns3::TraceSourceAccessor::Disconnect(ns3::ObjectBase * obj, std::string context, ns3::CallbackBase const & cb) const [member function]'',
      [(''params'', Params [(''obj'', [(''transfer_ownership'', ''false'')])])]),
     (''bool ns3::AttributeAccessor::Set(ns3::ObjectBase * object, ns3::AttributeValue const & value) const [member function]'',
      [(''params'', Params [(''object'', [(''transfer_ownership'', ''false'')])])]),
     (''ns3::EmpiricalVariable::EmpiricalVariable(ns3::RandomVariableBase const & variable) [constructor]'',
      [(''ignore'', NoneV)]),
     (''static ns3::AttributeList * ns3::AttributeList::GetGlobal() [member function]'',
      [(''caller_owns_return'', Text ''false'')]),
     (''void ns3::CommandLine::Parse(int argc, char * * argv) const [member function]'',
      [(''ignore'', NoneV)]),
     (''extern void ns3::PythonCompleteConstruct(ns3::Ptr<ns3::Object> object, ns3::TypeId typeId, ns3::AttributeList const & attributes) [free function]'',
      [(''ignore'', NoneV)]),
     (''ns3::Ptr<ns3::Ipv4RoutingProtocol> ns3::Ipv4ListRouting::GetRoutingProtocol(uint32_t index, int16_t & priority) const [member function]'',
      [(''params'', Params [(''priority'', [(''direction'', ''out'')])])]),
     (''ns3::Ipv4RoutingTableEntry * ns3::GlobalRouter::GetInjectedRoute(uint32_t i) [member function]'',
      [(''params'', Params [(''return'', [(''caller_owns_return'', ''false'')])])]),
     (''ns3::Ipv4RoutingTableEntry * ns3::Ipv4GlobalRouting::GetRoute(uint32_t i) const [member function]'',
      [(''params'', Params [(''return'', [(''caller_owns_return'', ''false'')])])]),
     (''::ns3::TestCase'',
      [(''ignore'', Text ''true'')]),
     (''::ns3::TestRunner'',
      [(''ignore'', Text ''true'')]),
     (''::ns3::TestSuite'',
      [(''ignore'', Text ''true'')])
    ]"

record hook_state =
  h_global :: annotations
  h_params :: "(string, (string, string) dict) dict"
  h_table :: "(string, annotations) dict"
  h_decl :: decl

subsection \<open>The parts of the hooks\<close>

definition get_object_annotations :: "templates \<Rightarrow> decl \<Rightarrow> annotations \<Rightarrow> annotations" where
  "get_object_annotations tm d g =
     (if d_class d = Member_function \<and> d_parent d = ''Object'' \<and> d_name d = ''GetObject'' \<and>
         t_args tm (d_demangled d) = [''ns3::Object'']
      then dict_put ''template_instance_names'' (Text ''ns3::Object=>GetObject'') g else g)"

definition simulator_annotations :: "decl \<Rightarrow> annotations \<Rightarrow> annotations" where
  "simulator_annotations d g =
     (let method = (d_class d = Member_function \<and> d_parent d = ''Simulator'');
          g = (if method \<and> prefix ''Schedule'' (d_name d) then dict_put ''ignore'' NoneV g else g)
      in if method \<and> d_name d = ''Run'' then dict_put ''ignore'' (Truth True) g else g)"

fun fix_default :: "string option \<Rightarrow> string option" where
  "fix_default None = None"
| "fix_default (Some v) =
     Some (if v = ''ns3::MilliSeconds( )'' then ''ns3::MilliSeconds(0)''
           else if v = ''ns3::Seconds( )'' then ''ns3::Seconds(0)'' else v)"

definition fix_arguments :: "decl \<Rightarrow> decl" where
  "fix_arguments d =
     (if is_calldef (d_class d) then d\<lparr>d_arguments := map fix_default (d_arguments d)\<rparr> else d)"

definition decl_text :: "decl \<Rightarrow> string" where
  "decl_text d = d_str d (d_arguments d)"

definition class_annotations :: "(string, annotations) dict \<Rightarrow> string \<Rightarrow> annotations \<Rightarrow> annotations" where
  "class_annotations table name g =
     (if prefix ''::ns3::SimpleRefCount<'' name
      then dict_put ''automatic_type_narrowing'' (Text ''true'')
             (dict_put ''peekref_method'' (Text ''GetReferenceCount'')
                (dict_put ''decref_method'' (Text ''Unref'') (dict_put ''incref_method'' (Text ''Ref'') g)))
      else if prefix ''::ns3::Callback<'' name then dict_put ''ignore'' NoneV g
      else if prefix ''::ns3::TracedCallback<'' name then dict_put ''ignore'' NoneV g
      else if prefix ''::ns3::Ptr<'' name then dict_put ''ignore'' NoneV g
      else (case map_of table name of None \<Rightarrow> g | Some annotations \<Rightarrow> dict_update g annotations))"

text \<open>\<open>parameter_annotations.update (value)\<close>\<close>

definition update_params ::
  "(string, (string, string) dict) dict \<Rightarrow> annotation \<Rightarrow> (string, (string, string) dict) dict res" where
  "update_params p v =
     (case v of
        Params d \<Rightarrow> Inr (dict_update p d)
      | Text t \<Rightarrow> if t = [] then Inr p else Inl ValueError
      | _ \<Rightarrow> Inl TypeError)"

text \<open>
  The customization of methods, constructors and functions; \<open>del annotations['params']\<close> takes
  the entry out of the table itself.
\<close>

definition call_annotations :: "hook_state \<Rightarrow> hook_state res" where
  "call_annotations s =
     (let text = decl_text (h_decl s)
      in case map_of (h_table s) text of
           None \<Rightarrow> Inr s
         | Some annotations \<Rightarrow>
             (case map_of annotations ''params'' of
                None \<Rightarrow> Inr (s\<lparr>h_global := dict_update (h_global s) annotations\<rparr>)
              | Some v \<Rightarrow>
                  (let rest = dict_del ''params'' annotations
                   in map_value (\<lambda>p. s\<lparr>h_global := dict_update (h_global s) rest, h_params := p,
                                        h_table := dict_put text rest (h_table s)\<rparr>)
                        (update_params (h_params s) v))))"

subsection \<open>The hook of the scan of one module\<close>

text \<open>
  The modules of the template arguments that are declared in an ns-3 header; an instance belongs
  to the scanned module if one of them does.
\<close>

fun argument_modules :: "(string, string) dict \<Rightarrow> (string \<Rightarrow> string option) \<Rightarrow> string list \<Rightarrow> string list res" where
  "argument_modules headers_map location [] = Inr []"
| "argument_modules headers_map location (name # names) =
     (case location name of
        None \<Rightarrow> argument_modules headers_map location names
      | Some file \<Rightarrow>
          (case get_ns3_relative_path file of
             Inl ValueError \<Rightarrow> argument_modules headers_map location names
           | Inl e \<Rightarrow> Inl e
           | Inr h \<Rightarrow> bind_res (dict_get headers_map h) (\<lambda>m.
                        map_value ((#) m) (argument_modules headers_map location names))))"

definition instance_module ::
  "templates \<Rightarrow> (string, string) dict \<Rightarrow> string \<Rightarrow> decl \<Rightarrow> string \<Rightarrow> string res" where
  "instance_module tm headers_map scanned d definition_module =
     (if t_is_instantiation tm (d_decl_string d)
      then map_value (\<lambda>modules. if scanned \<in> set modules then scanned else definition_module)
             (argument_modules headers_map (t_location tm) (snd (t_split tm (d_name d))))
      else Inr definition_module)"

definition hook_class ::
  "templates \<Rightarrow> (string, string) dict \<Rightarrow> string \<Rightarrow> string \<Rightarrow> hook_state \<Rightarrow> hook_state res" where
  "hook_class tm headers_map scanned definition_module s =
     map_value (\<lambda>m.
       let g = (if m \<noteq> scanned then dict_put ''import_from_module'' (Text (''ns.'' @ underscores m)) (h_global s)
                else h_global s)
       in s\<lparr>h_global := class_annotations (h_table s) (d_decl_string (h_decl s)) g\<rparr>)
       (instance_module tm headers_map scanned (h_decl s) definition_module)"

definition hook_enum :: "string \<Rightarrow> string \<Rightarrow> hook_state \<Rightarrow> hook_state" where
  "hook_enum scanned definition_module s =
     (if definition_module \<noteq> scanned
      then s\<lparr>h_global := dict_put ''import_from_module'' (Text (''ns.'' @ definition_module)) (h_global s)\<rparr> else s)"

definition hook_function :: "string \<Rightarrow> string \<Rightarrow> hook_state \<Rightarrow> hook_state res" where
  "hook_function scanned definition_module s =
     (if definition_module \<noteq> scanned \<or> d_name (h_decl s) = ''PeekPointer''
      then Inr (s\<lparr>h_global := dict_put ''ignore'' NoneV (h_global s)\<rparr>)
      else call_annotations s)"

definition hook_start :: "templates \<Rightarrow> string \<Rightarrow> hook_state \<Rightarrow> hook_state" where
  "hook_start tm comment s =
     (let d = h_decl s
      in s\<lparr>h_global := simulator_annotations d (get_object_annotations tm d
              (dict_put ''pygen_comment'' (Text comment) (h_global s))),
           h_decl := fix_arguments d\<rparr>)"

definition scan_hook ::
  "templates \<Rightarrow> (string, string) dict \<Rightarrow> string \<Rightarrow> hook_state \<Rightarrow> hook_state res" where
  "scan_hook tm headers_map scanned s =
     (case get_ns3_relative_path (d_file (h_decl s)) of
        Inl ValueError \<Rightarrow> Inr s
      | Inl e \<Rightarrow> Inl e
      | Inr ns3_header \<Rightarrow>
          bind_res (dict_get headers_map ns3_header) (\<lambda>definition_module.
            let s = hook_start tm (ns3_header @ '' (module '' @ repr_str definition_module @ ''): '' @ decl_text (h_decl s)) s
            in case d_class (h_decl s) of
                 Class_decl \<Rightarrow> hook_class tm headers_map scanned definition_module s
               | Enumeration \<Rightarrow> Inr (hook_enum scanned definition_module s)
               | Free_function \<Rightarrow> hook_function scanned definition_module s
               | Member_function \<Rightarrow> call_annotations s
               | Constructor \<Rightarrow> call_annotations s
               | _ \<Rightarrow> Inr s))"

text \<open>The hook of the scan of all modules; it need not return.\<close>

definition scan_hook_all :: "templates \<Rightarrow> hook_state \<Rightarrow> hook_state res option" where
  "scan_hook_all tm s =
     map_option (\<lambda>r. bind_res r (\<lambda>ns3_header.
       let s = hook_start tm (ns3_header @ '': '' @ decl_text (h_decl s)) s
       in case d_class (h_decl s) of
            Class_decl \<Rightarrow> Inr (s\<lparr>h_global := class_annotations (h_table s) (d_decl_string (h_decl s)) (h_global s)\<rparr>)
          | Free_function \<Rightarrow>
              (if d_name (h_decl s) = ''PeekPointer''
               then Inr (s\<lparr>h_global := dict_put ''ignore'' NoneV (h_global s)\<rparr>)
               else call_annotations s)
          | Member_function \<Rightarrow> call_annotations s
          | Constructor \<Rightarrow> call_annotations s
          | _ \<Rightarrow> Inr s))
       (get_ns3_relative_path_all (d_file (h_decl s)))"

subsection \<open>The callback classes of a module\<close>

text \<open>
  Each class found below the namespace is its name and its declaration string; the value is the
  text of \<^verbatim>\<open>callbacks_list.py\<close>.
\<close>

fun callback_lines :: "templates \<Rightarrow> (string \<times> string) list \<Rightarrow> string res" where
  "callback_lines tm [] = Inr []"
| "callback_lines tm ((name, decl_string) # classes) =
     (if \<not> prefix ''Callback<'' name then callback_lines tm classes
      else if \<not> t_is_instantiation tm decl_string then Inl AssertionError
      else map_value ((@) (ln (''    '' @ str_list (snd (t_split tm decl_string)) @ '','')))
             (callback_lines tm classes))"

definition scan_callback_classes :: "templates \<Rightarrow> (string \<times> string) list \<Rightarrow> string res" where
  "scan_callback_classes tm classes =
     map_value (\<lambda>lines. ln ''callback_classes = ['' @ lines @ ln '']'') (callback_lines tm classes)"

subsection \<open>Scanning one module\<close>

text \<open>What a scan does, in order: its calls of the parser and of the operating system.\<close>

datatype scan_step =
    New_parser string string
  | Add_hook string
  | Unlink string
  | Makedirs string
  | Open string
  | Parse_init "string list" "string list" "string list" string
  | Scan_types
  | Write string string
  | Scan_methods
  | Scan_functions
  | Parse_finalize
  | Close string
  | Chmod string nat

definition gccxml_flags :: "string \<Rightarrow> string" where
  "gccxml_flags cflags = ''--gccxml-cxxflags \"'' @ cflags @ '' -DPYTHON_SCAN\"''"

text \<open>
  \<open>found\<close> tells which files there are when the header is chosen. An exception leaves the steps
  done so far.
\<close>

definition scan_header :: "(string \<Rightarrow> bool) \<Rightarrow> string \<Rightarrow> string \<Rightarrow> string \<Rightarrow> string" where
  "scan_header found top_builddir module_name output_file_name =
     (let own = path_join (dirname output_file_name) ''scan-header.h''
      in if \<not> found own then path_join3 top_builddir ''ns3'' (module_name @ ''-module.h'') else own)"

definition ns3_module_scan ::
  "(string \<Rightarrow> bool) \<Rightarrow> templates \<Rightarrow> (string \<times> string) list \<Rightarrow> string \<Rightarrow> string \<Rightarrow> string \<Rightarrow> string \<Rightarrow>
   scan_step list \<times> unit res" where
  "ns3_module_scan found tm classes top_builddir module_name output_file_name cflags =
     (let directory = dirname output_file_name;
          start = [New_parser (''ns.'' @ underscores module_name) ''ns3'', Add_hook module_name,
                   Unlink output_file_name, Makedirs directory, Open output_file_name,
                   Parse_init [scan_header found top_builddir module_name output_file_name] [top_builddir]
                     [top_builddir] (gccxml_flags cflags),
                   Scan_types, Open (path_join directory ''callbacks_list.py'')]
      in case scan_callback_classes tm classes of
           Inl e \<Rightarrow> (start, Inl e)
         | Inr text \<Rightarrow>
             (start @ [Write (path_join directory ''callbacks_list.py'') text, Close (path_join directory ''callbacks_list.py''),
                       Scan_methods, Scan_functions, Parse_finalize, Close output_file_name,
                       Chmod output_file_name 256], Inr ()))"

text \<open>The command line, without the name of the script; \<open>eval\<close> of the third argument is \<open>evaluate\<close>.\<close>

definition scan_main ::
  "(string \<Rightarrow> (string, string) dict res) \<Rightarrow> (string \<Rightarrow> bool) \<Rightarrow> templates \<Rightarrow> (string \<times> string) list \<Rightarrow> string list \<Rightarrow>
   scan_step list \<times> py_error" where
  "scan_main evaluate found tm classes args =
     (case args of
        [top_builddir, module_name, headers, output_file_name, cflags] \<Rightarrow>
          (case evaluate headers of
             Inl e \<Rightarrow> ([], e)
           | Inr headers_map \<Rightarrow>
               (case ns3_module_scan found tm classes top_builddir module_name output_file_name cflags of
                  (steps, r) \<Rightarrow> (steps, case r of Inl e \<Rightarrow> e | Inr u \<Rightarrow> SystemExit 0)))
      | _ \<Rightarrow> ([], SystemExit 1))"

subsection \<open>Scanning all modules\<close>

text \<open>
  A module is given by the modules it depends on and its headers. Each module of the graph of
  dependencies gets a section, in the order of \<open>topsort\<close>.
\<close>

type_synonym module_table = "(string, string list \<times> string list) dict"

record pygen_section =
  s_name :: string
  s_file :: string
  s_local :: "string option"

record scan_layout =
  l_sections :: "pygen_section list"
  l_headers :: "(string, string) dict"
  l_precedences :: "(string, int) dict"

datatype scan_error = Not_sortable "string sort_error" | Raised py_error

definition module_graph :: "module_table \<Rightarrow> (string \<times> string) list" where
  "module_graph ns3_modules =
     concat (map (\<lambda>name. map (\<lambda>dep. (dep, name)) (sort (fst (the (map_of ns3_modules name)))))
               (sort (dict_keys ns3_modules)))"

definition section_name :: "string \<Rightarrow> string" where
  "section_name ns3_module = ''ns3_module_'' @ underscores ns3_module"

definition add_section ::
  "string \<Rightarrow> module_table \<Rightarrow> scan_layout \<Rightarrow> nat \<times> string \<Rightarrow> py_error + scan_layout" where
  "add_section pygen_file_name ns3_modules l p =
     (case p of (prec, ns3_module) \<Rightarrow>
        let section = section_name ns3_module
        in map_value (\<lambda>m.
             \<lparr>l_sections = l_sections l @
                [\<lparr>s_name = section, s_file = path_join (dirname pygen_file_name) (section @ ''.py''),
                  s_local = Some (section @ ''__local'')\<rparr>],
              l_headers = foldl (\<lambda>d header. dict_put header section d) (l_headers l) (snd m),
              l_precedences = dict_put section (int prec) (l_precedences l)\<rparr>)
             (dict_get ns3_modules ns3_module))"

definition scan_sections ::
  "(string list \<Rightarrow> string list) \<Rightarrow> string \<Rightarrow> module_table \<Rightarrow> scan_error + scan_layout" where
  "scan_sections ord pygen_file_name ns3_modules =
     (case topsort ord (module_graph ns3_modules) of
        Inl e \<Rightarrow> Inl (Not_sortable e)
      | Inr sorted_ns3_modules \<Rightarrow>
          (case fold_res (add_section pygen_file_name ns3_modules)
                  \<lparr>l_sections = [\<lparr>s_name = ''__main__'', s_file = pygen_file_name, s_local = None\<rparr>],
                   l_headers = [], l_precedences = []\<rparr>
                  (enumerate 0 sorted_ns3_modules) of
             Inl e \<Rightarrow> Inl (Raised e)
           | Inr l \<Rightarrow> Inr l))"

definition classify :: "(string, string) dict \<Rightarrow> string \<Rightarrow> string" where
  "classify headers_map file_name =
     (case map_of headers_map (basename file_name) of None \<Rightarrow> ''__main__'' | Some section \<Rightarrow> section)"

definition get_section_precedence :: "(string, int) dict \<Rightarrow> string \<Rightarrow> int res" where
  "get_section_precedence section_precedences section =
     (if section = ''__main__'' then Inr (- 1) else dict_get section_precedences section)"

text \<open>The files of the sections are opened before anything is parsed and closed at the end.\<close>

definition ns3_module_scan_all ::
  "(string list \<Rightarrow> string list) \<Rightarrow> templates \<Rightarrow> (string \<times> string) list \<Rightarrow> module_table \<Rightarrow>
   string \<Rightarrow> string \<Rightarrow> string \<Rightarrow> string \<Rightarrow> scan_error + scan_layout \<times> scan_step list" where
  "ns3_module_scan_all ord tm classes ns3_modules top_builddir pygen_file_name everything_h cflags =
     (let callbacks = path_join (dirname pygen_file_name) ''callbacks_list.py''
      in bind_res (scan_sections ord pygen_file_name ns3_modules) (\<lambda>l.
           case scan_callback_classes tm classes of
             Inl e \<Rightarrow> Inl (Raised e)
           | Inr text \<Rightarrow>
               Inr (l, map (\<lambda>s. Open (s_file s)) (l_sections l) @
                       [New_parser ''ns3'' ''ns3'',
                        Parse_init [everything_h] [top_builddir, dirname everything_h] [top_builddir] (gccxml_flags cflags),
                        Scan_types, Open callbacks, Write callbacks text, Close callbacks,
                        Scan_methods, Scan_functions, Parse_finalize] @
                       map (\<lambda>s. Close (s_file s)) (l_sections l))))"

subsection \<open>Relative paths\<close>

definition path_part :: "string \<Rightarrow> bool" where
  "path_part c \<longleftrightarrow> c \<noteq> [] \<and> slash \<notin> set c"

lemma join_snoc: "join s (cs @ [c]) = (if cs = [] then c else join s cs @ s @ c)"
  by (simp add: join_append)

lemma last_join_parts:
  "list_all path_part cs \<Longrightarrow> cs \<noteq> [] \<Longrightarrow> join [slash] cs \<noteq> [] \<and> last (join [slash] cs) \<noteq> slash"
  by (cases cs rule: rev_cases) (auto simp: join_snoc path_part_def dest: last_in_set)

lemma takeWhile_word: "slash \<notin> set c \<Longrightarrow> takeWhile (\<lambda>x. x \<noteq> slash) (rev c) = rev c \<and> dropWhile (\<lambda>x. x \<noteq> slash) (rev c) = []"
  by (subst takeWhile_eq_all_conv, subst dropWhile_eq_Nil_conv) auto

lemma basename_below: "slash \<notin> set c \<Longrightarrow> basename c = c \<and> basename (p @ slash # c) = c"
  using take_drop_until [of slash "rev c" "rev p"] by (simp add: basename_def takeWhile_word)

lemma dirname_below:
  assumes "slash \<notin> set c"
  shows "dirname c = []"
    and "dirname (slash # c) = [slash]"
    and "p \<noteq> [] \<Longrightarrow> last p \<noteq> slash \<Longrightarrow> dirname (p @ slash # c) = p"
proof -
  have d: "rev (dropWhile (\<lambda>c. c \<noteq> slash) (rev (p @ slash # c))) = p @ [slash]" for p
    using take_drop_until [of slash "rev c" "rev p"] assms by simp
  show "dirname c = []" by (simp add: dirname_def takeWhile_word [OF assms, THEN conjunct2])
  show "dirname (slash # c) = [slash]" using d [of "[]"] by (simp add: dirname_def)
  assume ne: "p \<noteq> []" and l: "last p \<noteq> slash"
  have "\<not> list_all (\<lambda>c. c = slash) (p @ [slash])" using ne l by (auto simp: list_all_iff dest: last_in_set)
  moreover have "rev (dropWhile (\<lambda>c. c = slash) (rev (p @ [slash]))) = p"
    using ne l by (cases p rule: rev_cases) auto
  ultimately show "dirname (p @ slash # c) = p" by (simp only: dirname_def d Let_def if_False)
qed

lemma split_below:
  assumes "front \<in> {[], [slash]}" "list_all path_part cs" "path_part c"
  shows "dirname (front @ join [slash] (cs @ [c])) = front @ join [slash] cs"
    and "basename (front @ join [slash] (cs @ [c])) = c"
proof -
  have c: "slash \<notin> set c" using assms(3) by (simp add: path_part_def)
  show "dirname (front @ join [slash] (cs @ [c])) = front @ join [slash] cs"
  proof (cases "cs = []")
    case True
    then show ?thesis using assms(1) dirname_below(1,2) [OF c] by auto
  next
    case False
    then show ?thesis
      using last_join_parts [OF assms(2)] dirname_below(3) [OF c, of "front @ join [slash] cs"] by (simp add: join_snoc)
  qed
  show "basename (front @ join [slash] (cs @ [c])) = c"
  proof (cases "cs = []")
    case True
    then show ?thesis using assms(1) basename_below [OF c, of "[]"] by auto
  next
    case False
    then show ?thesis using basename_below [OF c, of "front @ join [slash] cs"] by (simp add: join_snoc)
  qed
qed

lemma join_parts_below: "list_all path_part cs \<Longrightarrow> cs \<noteq> [] \<Longrightarrow> join_parts cs = Inr (join [slash] cs)"
proof (cases cs)
  case (Cons a as)
  assume "list_all path_part cs"
  then have "foldl path_join a as = join [slash] (a # as)"
    using Cons by (intro foldl_path_join) (auto simp: path_part_def list_all_iff dest!: last_in_set in_set_butlastD)
  then show ?thesis using Cons by (simp add: join_parts_def path_join_list_def)
qed simp

text \<open>The components after the last \<open>ns3\<close> make the relative path.\<close>

lemma relative_loop_result:
  assumes "front \<in> {[], [slash]}" "list_all path_part cs"
  shows "relative_loop (front @ join [slash] cs) l =
    (if ''ns3'' \<in> set cs then join_parts (rev (takeWhile (\<lambda>c. c \<noteq> ''ns3'') (rev cs)) @ l)
     else if front = [] then Inl AssertionError else Inl ValueError)"
  using assms(2)
proof (induction cs arbitrary: l rule: rev_induct)
  case Nil
  then show ?case using assms(1) by (auto simp: relative_loop.simps [of front l] relative_loop.simps [of "[]"] dirname_def)
next
  case (snoc c cs)
  let ?p = "front @ join [slash] (cs @ [c])"
  have p: "path_part c" "list_all path_part cs" using snoc.prems by auto
  note s = split_below [OF assms(1) p(2,1)]
  have ne: "?p \<noteq> []" using p(1) by (auto simp: join_snoc path_part_def)
  have "dirname ?p \<noteq> ?p" unfolding s(1) using p(1) by (auto simp: join_snoc path_part_def)
  then have "relative_loop ?p l = (if c = ''ns3'' then join_parts l else relative_loop (front @ join [slash] cs) (c # l))"
    using ne s by (simp only: relative_loop.simps [of ?p] if_False)
  then show ?case using snoc.IH [OF p(2), of "c # l"] by (cases "front = []"; simp)
qed

lemma get_ns3_relative_path_result:
  assumes "front \<in> {[], [slash]}" "list_all path_part cs"
  shows "get_ns3_relative_path (front @ join [slash] cs) =
    (if ''ns3'' \<notin> set cs then Inl (if front = [] then AssertionError else ValueError)
     else if last cs = ''ns3'' then Inl TypeError
     else Inr (join [slash] (rev (takeWhile (\<lambda>c. c \<noteq> ''ns3'') (rev cs)))))"
proof -
  let ?t = "rev (takeWhile (\<lambda>c. c \<noteq> ''ns3'') (rev cs))"
  have e: "cs \<noteq> [] \<Longrightarrow> ?t = [] \<longleftrightarrow> last cs = ''ns3''" by (cases cs rule: rev_cases) auto
  have "list_all path_part ?t" using assms(2) by (auto simp: list_all_iff dest: set_takeWhileD)
  then have "?t \<noteq> [] \<Longrightarrow> join_parts ?t = Inr (join [slash] ?t)" by (rule join_parts_below)
  then show ?thesis using relative_loop_result [OF assms, of "[]"] e
    by (cases "cs = []") (auto simp: get_ns3_relative_path_def join_parts_def)
qed

text \<open>The two functions agree as far as the second one returns.\<close>

lemma dirname_fixed: "dirname p = p \<Longrightarrow> basename p = []"
proof -
  let ?h = "rev (dropWhile (\<lambda>c. c \<noteq> slash) (rev p))"
  assume "dirname p = p"
  moreover have "length (dirname p) \<le> length ?h"
    using length_dropWhile_le [of "\<lambda>c. c = slash" "rev ?h"] by (simp add: dirname_def Let_def)
  moreover have "p = ?h @ basename p" unfolding basename_def by (metis rev_append rev_rev_ident takeWhile_dropWhile_id)
  ultimately show ?thesis by (metis add_le_same_cancel1 le_zero_eq length_0_conv length_append)
qed

lemma relative_loop_all_stuck:
  assumes "relative_loop_all p l = Some r"
  shows "p = [] \<or> dirname p \<noteq> p \<or> basename p = ''ns3''"
proof (induction rule: relative_loop_all.raw_induct [OF _ assms, consumes 0])
  case (1 rec p l r)
  show ?case
  proof (rule ccontr)
    assume "\<not> ?thesis"
    then have p: "p \<noteq> []" "dirname p = p" "basename p \<noteq> ''ns3''" by auto
    then have "rec p (basename p # l) = Some r"
      using 1(2) by simp_all
    then show False using 1(1) [of p "basename p # l" r] p by simp
  qed
qed

lemma relative_loop_all_eq:
  "relative_loop_all p l = (case relative_loop p l of Inl ValueError \<Rightarrow> None | r \<Rightarrow> Some r)"
proof (induction p l rule: relative_loop.induct)
  case (1 p l)
  consider "p = []" | "p \<noteq> []" "dirname p = p" | "p \<noteq> []" "dirname p \<noteq> p" "basename p = ''ns3''"
    | "p \<noteq> []" "dirname p \<noteq> p" "basename p \<noteq> ''ns3''" by blast
  then show ?case
  proof cases
    case 1
    then show ?thesis by (simp add: relative_loop.simps [of "[]"] relative_loop_all.simps [of "[]"])
  next
    case 2
    then have "relative_loop_all p l = None"
      using relative_loop_all_stuck [of p l] dirname_fixed [of p] by (cases "relative_loop_all p l") auto
    then show ?thesis using 2 by (simp add: relative_loop.simps [of p l])
  next
    case 3
    then show ?thesis by (simp add: relative_loop.simps [of p l] relative_loop_all.simps [of p l] join_parts_def)
  next
    case 4
    then have "relative_loop_all p l = relative_loop_all (dirname p) (basename p # l)"
      "relative_loop p l = relative_loop (dirname p) (basename p # l)"
      by (simp_all only: relative_loop.simps [of p l] relative_loop_all.simps [of p l] if_False)
    then show ?thesis using "1.IH" 4 by simp
  qed
qed

subsection \<open>The customizations of the table\<close>

text \<open>The declarations that the hook looks up by their text, and what the entry says of their parameters.\<close>

definition looked_up :: "(string, string) dict \<Rightarrow> string \<Rightarrow> decl \<Rightarrow> bool" where
  "looked_up headers_map scanned d \<longleftrightarrow>
     (case get_ns3_relative_path (d_file d) of
        Inl e \<Rightarrow> False
      | Inr h \<Rightarrow> d_class d \<in> {Member_function, Constructor} \<or>
                d_class d = Free_function \<and> map_of headers_map h = Some scanned \<and> d_name d \<noteq> ''PeekPointer'')"

definition fixed_text :: "decl \<Rightarrow> string" where
  "fixed_text d = decl_text (fix_arguments d)"

definition with_params ::
  "annotations option \<Rightarrow> (string, (string, string) dict) dict \<Rightarrow> (string, (string, string) dict) dict" where
  "with_params entry p =
     (case Option.bind entry (\<lambda>a. map_of a ''params'') of Some (Params v) \<Rightarrow> dict_update p v | _ \<Rightarrow> p)"

lemma dict_del_absent: "map_of d k = None \<Longrightarrow> dict_del k d = d"
  by (auto simp: dict_del_def map_of_eq_None_iff filter_id_conv intro: rev_image_eqI)

lemma dict_del_idem: "dict_del k (dict_del k d) = dict_del k d"
  by (simp add: dict_del_def)

lemma with_params_del: "with_params (map_option (dict_del ''params'') entry) p = p"
  by (cases entry) (simp_all add: with_params_def)

lemma call_annotations_table:
  assumes "call_annotations s = Inr s'"
  shows "map_of (h_table s') = (map_of (h_table s))(decl_text (h_decl s) :=
      map_option (dict_del ''params'') (map_of (h_table s) (decl_text (h_decl s))))"
    and "h_params s' = with_params (map_of (h_table s) (decl_text (h_decl s))) (h_params s)"
  using assms by (auto simp: call_annotations_def with_params_def update_params_def res_simps dict_del_absent Let_def
      fun_upd_idem split: option.splits annotation.splits if_splits)

lemma fix_arguments_simps [simp]:
  "d_class (fix_arguments d) = d_class d" "d_name (fix_arguments d) = d_name d" "d_file (fix_arguments d) = d_file d"
  "d_decl_string (fix_arguments d) = d_decl_string d"
  by (simp_all add: fix_arguments_def)

lemma hook_start_simps [simp]:
  "h_decl (hook_start tm c s) = fix_arguments (h_decl s)" "h_table (hook_start tm c s) = h_table s"
  "h_params (hook_start tm c s) = h_params s"
  by (simp_all add: hook_start_def Let_def)

lemma scan_hook_table:
  assumes "scan_hook tm headers_map scanned s = Inr s'"
  shows "map_of (h_table s') = (if looked_up headers_map scanned (h_decl s)
      then (map_of (h_table s))(fixed_text (h_decl s) :=
        map_option (dict_del ''params'') (map_of (h_table s) (fixed_text (h_decl s))))
      else map_of (h_table s))" (is ?t)
    and "h_params s' = (if looked_up headers_map scanned (h_decl s)
      then with_params (map_of (h_table s) (fixed_text (h_decl s))) (h_params s) else h_params s)" (is ?p)
proof -
  have "?t \<and> ?p"
  proof (cases "get_ns3_relative_path (d_file (h_decl s))")
    case (Inl e)
    then show ?thesis using assms by (cases e) (auto simp: scan_hook_def looked_up_def)
  next
    case (Inr h)
    then obtain m where m: "map_of headers_map h = Some m"
      using assms by (auto simp: scan_hook_def dict_get_def split: option.splits)
    note st = assms [unfolded scan_hook_def Inr, simplified dict_get_def m option.case sum.case bind_res_simps Let_def]
    show ?thesis
    proof (cases "d_class (h_decl s)")
      case Member_function
      with st show ?thesis by (auto simp: looked_up_def Inr fixed_text_def dest: call_annotations_table)
    next
      case Constructor
      with st show ?thesis by (auto simp: looked_up_def Inr fixed_text_def dest: call_annotations_table)
    next
      case Free_function
      with st m show ?thesis
        by (auto simp: looked_up_def Inr fixed_text_def hook_function_def split: if_splits dest: call_annotations_table)
    next
      case Class_decl
      with st show ?thesis by (auto simp: looked_up_def Inr hook_class_def map_value_def bind_res_eq_Inr Let_def)
    qed (use st in \<open>auto simp: looked_up_def Inr hook_enum_def\<close>)
  qed
  then show ?t ?p by blast+
qed

text \<open>
  A sequence of calls of the hook as pybindgen makes them, each with annotations and a
  declaration of its own; the table is the one the call before has left.
\<close>

fun hook_calls ::
  "templates \<Rightarrow> (string, string) dict \<Rightarrow> string \<Rightarrow> (string, annotations) dict \<Rightarrow> hook_state list \<Rightarrow> hook_state list res" where
  "hook_calls tm headers_map scanned table [] = Inr []"
| "hook_calls tm headers_map scanned table (s # ss) =
     bind_res (scan_hook tm headers_map scanned (s\<lparr>h_table := table\<rparr>)) (\<lambda>s'.
       map_value ((#) s') (hook_calls tm headers_map scanned (h_table s') ss))"

lemma hook_calls_params:
  assumes "hook_calls tm headers_map scanned table' ss = Inr rs" "i < length ss"
    and "\<And>t. map_of table' t = (if t \<in> T then map_option (dict_del ''params'') (map_of table t) else map_of table t)"
  shows "h_params (rs ! i) =
    (if looked_up headers_map scanned (h_decl (ss ! i)) \<and> fixed_text (h_decl (ss ! i)) \<notin> T \<and>
        (\<forall>j < i. \<not> (looked_up headers_map scanned (h_decl (ss ! j)) \<and> fixed_text (h_decl (ss ! j)) = fixed_text (h_decl (ss ! i))))
     then with_params (map_of table (fixed_text (h_decl (ss ! i)))) (h_params (ss ! i)) else h_params (ss ! i))"
  using assms
proof (induction ss arbitrary: table' rs i T)
  case (Cons s ss)
  obtain s' rs' where s': "scan_hook tm headers_map scanned (s\<lparr>h_table := table'\<rparr>) = Inr s'"
      "hook_calls tm headers_map scanned (h_table s') ss = Inr rs'" "rs = s' # rs'"
    using Cons.prems(1) by (auto simp: res_simps map_value_def)
  note step = scan_hook_table [OF s'(1), simplified]
  show ?case
  proof (cases i)
    case 0
    then show ?thesis using step(2) Cons.prems(3) s'(3) by (auto simp: with_params_del)
  next
    case (Suc k)
    let ?L = "looked_up headers_map scanned (h_decl s)" and ?t = "fixed_text (h_decl s)"
    have T: "map_of (h_table s') t = (if t \<in> (if ?L then insert ?t T else T)
        then map_option (dict_del ''params'') (map_of table t) else map_of table t)" for t
      using step(1) Cons.prems(3) by (auto simp: option.map_comp o_def dict_del_idem)
    have k: "k < length ss" using Cons.prems(2) Suc by simp
    show ?thesis
      using Cons.IH [OF s'(2) k T] s'(3) Suc by (auto simp: All_less_Suc2)
  qed
qed simp

subsection \<open>The sections of the modules\<close>

lemma module_graph_edges:
  assumes "distinct (dict_keys mods)"
  shows "(a, b) \<in> set (module_graph mods) \<longleftrightarrow> (\<exists>deps headers. (b, deps, headers) \<in> set mods \<and> a \<in> set deps)"
proof -
  have "(a, b) \<in> set (module_graph mods) \<longleftrightarrow> b \<in> set (dict_keys mods) \<and> a \<in> set (fst (the (map_of mods b)))"
    by (auto simp: module_graph_def)
  also have "\<dots> \<longleftrightarrow> (\<exists>m. (b, m) \<in> set mods \<and> a \<in> set (fst m))"
    using assms by (force simp: dict_keys_def)
  finally show ?thesis by auto
qed

lemma put_headers:
  "map_of (foldl (\<lambda>d header. dict_put header section d) d headers) h =
    (if h \<in> set headers then Some section else map_of d h)"
  by (induction headers arbitrary: d) auto

lemma add_section_result:
  assumes "map_of mods x = Some m"
  obtains l1 where "add_section f mods start (n, x) = Inr l1"
    "map s_name (l_sections l1) = map s_name (l_sections start) @ [section_name x]"
    "map_of (l_precedences l1) = (map_of (l_precedences start))(section_name x \<mapsto> int n)"
    "\<And>h. map_of (l_headers l1) h = (if h \<in> set (snd m) then Some (section_name x) else map_of (l_headers start) h)"
proof
  show "add_section f mods start (n, x) = Inr
      \<lparr>l_sections = l_sections start @ [\<lparr>s_name = section_name x, s_file = path_join (dirname f) (section_name x @ ''.py''),
         s_local = Some (section_name x @ ''__local'')\<rparr>],
       l_headers = foldl (\<lambda>d header. dict_put header (section_name x) d) (l_headers start) (snd m),
       l_precedences = dict_put (section_name x) (int n) (l_precedences start)\<rparr>"
    by (simp add: add_section_def dict_get_def assms Let_def)
qed (simp_all add: put_headers)

text \<open>\<open>l\<close> is what \<open>start\<close> becomes when the modules \<open>xs\<close> get their sections, counted from \<open>n\<close>.\<close>

lemma add_sections_result:
  assumes "distinct xs" "set xs \<subseteq> set (dict_keys mods)" "inj_on underscores (set (dict_keys mods))"
    and "\<forall>a \<in> set xs. \<forall>b \<in> set xs. set (snd (the (map_of mods a))) \<inter> set (snd (the (map_of mods b))) \<noteq> {} \<longrightarrow> a = b"
  shows "\<exists>l. fold_res (add_section f mods) start (enumerate n xs) = Inr l \<and>
    map s_name (l_sections l) = map s_name (l_sections start) @ map section_name xs \<and>
    (\<forall>i < length xs. map_of (l_precedences l) (section_name (xs ! i)) = Some (int (n + i))) \<and>
    (\<forall>s. s \<notin> section_name ` set xs \<longrightarrow> map_of (l_precedences l) s = map_of (l_precedences start) s) \<and>
    (\<forall>x \<in> set xs. \<forall>h \<in> set (snd (the (map_of mods x))). map_of (l_headers l) h = Some (section_name x)) \<and>
    (\<forall>h. (\<forall>x \<in> set xs. h \<notin> set (snd (the (map_of mods x)))) \<longrightarrow> map_of (l_headers l) h = map_of (l_headers start) h)"
  using assms
proof (induction xs arbitrary: start n)
  case (Cons x xs)
  then obtain m where m: "map_of mods x = Some m"
    by (metis dict_has_iff list.set_intros(1) not_Some_eq subset_iff)
  obtain l1 where l1: "add_section f mods start (n, x) = Inr l1"
    "map s_name (l_sections l1) = map s_name (l_sections start) @ [section_name x]"
    "map_of (l_precedences l1) = (map_of (l_precedences start))(section_name x \<mapsto> int n)"
    "\<And>h. map_of (l_headers l1) h = (if h \<in> set (snd m) then Some (section_name x) else map_of (l_headers start) h)"
    using add_section_result [OF m, of f start n] by blast
  obtain l where l: "fold_res (add_section f mods) l1 (enumerate (Suc n) xs) = Inr l"
    "map s_name (l_sections l) = map s_name (l_sections l1) @ map section_name xs"
    "\<And>i. i < length xs \<Longrightarrow> map_of (l_precedences l) (section_name (xs ! i)) = Some (int (Suc n + i))"
    "\<And>s. s \<notin> section_name ` set xs \<Longrightarrow> map_of (l_precedences l) s = map_of (l_precedences l1) s"
    "\<And>x h. x \<in> set xs \<Longrightarrow> h \<in> set (snd (the (map_of mods x))) \<Longrightarrow> map_of (l_headers l) h = Some (section_name x)"
    "\<And>h. (\<And>x. x \<in> set xs \<Longrightarrow> h \<notin> set (snd (the (map_of mods x)))) \<Longrightarrow> map_of (l_headers l) h = map_of (l_headers l1) h"
    using Cons.IH [of "l1" "Suc n"] Cons.prems by (auto simp: subset_iff)
  have new: "section_name x \<notin> section_name ` set xs"
    using Cons.prems(1-3) by (auto simp: section_name_def dest: inj_onD)
  have "map_of (l_precedences l) (section_name ((x # xs) ! i)) = Some (int (n + i))" if "i < Suc (length xs)" for i
    using that l(3) l(4) [OF new] l1(3) by (cases i) auto
  moreover have "map_of (l_headers l) h = Some (section_name x)" if "h \<in> set (snd m)" for h
    using l(6) [of h] l1(4) [of h] that Cons.prems(1,4) m by fastforce
  ultimately show ?case
    using l l1 m by (intro exI [of _ l]) (auto simp: enumerate_simps)
qed simp

text \<open>
  A table of modules that all depend on modules of the table, whose names stay apart when written
  with underscores, and of which no two have a header in common.
\<close>

definition modules_ok :: "module_table \<Rightarrow> bool" where
  "modules_ok mods \<longleftrightarrow>
     distinct (map underscores (dict_keys mods)) \<and>
     list_all (\<lambda>(name, deps, headers). list_all (\<lambda>d. d \<in> set (dict_keys mods)) deps) mods \<and>
     distinct (concat (map (\<lambda>(name, deps, headers). remdups headers) mods))"

lemma headers_apart:
  assumes "distinct (concat (map (\<lambda>(name, deps, headers). remdups headers) mods))"
    "(a, da, ha) \<in> set mods" "(b, db, hb) \<in> set mods" "h \<in> set ha" "h \<in> set hb"
  shows "a = b"
  using assms
proof (induction mods)
  case (Cons p mods)
  obtain y dy hy where p: "p = (y, dy, hy)" by (cases p)
  have no: False if "(x, dx, hx) \<in> set mods" "h \<in> set hx" "h \<in> set hy" for x dx hx
    using Cons.prems(1) that by (fastforce simp: p)
  have tl: "distinct (concat (map (\<lambda>(name, deps, headers). remdups headers) mods))"
    using Cons.prems(1) by (simp add: p)
  show ?case using Cons.prems(2-5) Cons.IH [OF tl] no unfolding p by (metis Pair_inject set_ConsD)
qed simp

lemma modules_okD:
  assumes "modules_ok mods"
  shows "distinct (dict_keys mods)" "inj_on underscores (set (dict_keys mods))"
    "nodes_of (module_graph mods) \<subseteq> set (dict_keys mods)"
    "map_of mods a = Some ma \<Longrightarrow> map_of mods b = Some mb \<Longrightarrow> h \<in> set (snd ma) \<Longrightarrow> h \<in> set (snd mb) \<Longrightarrow> a = b"
proof -
  show d: "distinct (dict_keys mods)" and "inj_on underscores (set (dict_keys mods))"
    using assms by (auto simp: modules_ok_def distinct_map)
  show "nodes_of (module_graph mods) \<subseteq> set (dict_keys mods)"
  proof
    fix x assume "x \<in> nodes_of (module_graph mods)"
    then obtain a b where e: "(a, b) \<in> set (module_graph mods)" "x = a \<or> x = b" by (auto simp: nodes_of_def)
    then obtain deps headers where m: "(b, deps, headers) \<in> set mods" "a \<in> set deps"
      using module_graph_edges [OF d] by blast
    then have "b \<in> set (dict_keys mods)" by (force simp: dict_keys_def)
    moreover have "a \<in> set (dict_keys mods)" using m assms by (fastforce simp: modules_ok_def list_all_iff)
    ultimately show "x \<in> set (dict_keys mods)" using e(2) by blast
  qed
  show "map_of mods a = Some ma \<Longrightarrow> map_of mods b = Some mb \<Longrightarrow> h \<in> set (snd ma) \<Longrightarrow> h \<in> set (snd mb) \<Longrightarrow> a = b"
    using headers_apart [of mods a "fst ma" "snd ma" b "fst mb" "snd mb" h] assms
    by (auto simp: modules_ok_def dest: map_of_SomeD)
qed

lemma dependency_position:
  assumes "dependency_order E xs" "distinct xs" "i < length xs" "(p, xs ! i) \<in> E"
  shows "\<exists>j < i. p = xs ! j"
proof -
  have "p \<in> set (take i xs)"
    using assms(1,3,4) id_take_nth_drop [OF assms(3)] by (metis dependency_order_def)
  then show ?thesis using assms(3) by (auto simp: in_set_conv_nth)
qed

text \<open>The pairs of a module and one that depends on it, as the table has them.\<close>

definition depends :: "module_table \<Rightarrow> (string \<times> string) set" where
  "depends mods = {(dep, m). \<exists>deps headers. (m, deps, headers) \<in> set mods \<and> dep \<in> set deps}"

lemma depends_pairs: "depends mods = (\<Union>(m, deps, headers) \<in> set mods. (\<lambda>dep. (dep, m)) ` set deps)"
  by (force simp: depends_def)

lemma scan_sections_result:
  assumes "permuting ord" "modules_ok mods"
  shows "case scan_sections ord f mods of
      Inl (Not_sortable (CycleError answer num_parents children)) \<Rightarrow> \<not> acyclic (set (module_graph mods))
    | Inl e \<Rightarrow> False
    | Inr l \<Rightarrow>
        acyclic (set (module_graph mods)) \<and>
        (\<forall>dep m. (dep, m) \<in> set (module_graph mods) \<longrightarrow>
          (\<exists>i j. get_section_precedence (l_precedences l) (section_name dep) = Inr i \<and>
                 get_section_precedence (l_precedences l) (section_name m) = Inr j \<and> 0 \<le> i \<and> i < j)) \<and>
        (\<forall>m deps headers directory h. (m, deps, headers) \<in> set mods \<longrightarrow> h \<in> set headers \<longrightarrow> slash \<notin> set h \<longrightarrow>
          classify (l_headers l) (path_join directory h) =
            (if m \<in> nodes_of (module_graph mods) then section_name m else ''__main__''))"
proof -
  note t = topsort_correct [OF assms(1), of "module_graph mods"]
  note ok = modules_okD [OF assms(2)]
  show ?thesis
  proof (cases "topsort ord (module_graph mods)")
    case (Inl e)
    then show ?thesis using t by (cases e) (auto simp: scan_sections_def)
  next
    case (Inr xs)
    then have xs: "acyclic (set (module_graph mods))" "distinct xs" "set xs = nodes_of (module_graph mods)"
      "dependency_order (set (module_graph mods)) xs" using t by auto
    then have sub: "set xs \<subseteq> set (dict_keys mods)" using ok(3) by simp
    have entry: "map_of mods x = Some (the (map_of mods x))" if "x \<in> set xs" for x
    proof -
      have "map_of mods x \<noteq> None" using that sub by (auto simp: dict_keys_def map_of_eq_None_iff)
      then show ?thesis by simp
    qed
    have apart: "\<forall>a \<in> set xs. \<forall>b \<in> set xs.
        set (snd (the (map_of mods a))) \<inter> set (snd (the (map_of mods b))) \<noteq> {} \<longrightarrow> a = b"
      using ok(4) [OF entry entry] by blast
    let ?start = "\<lparr>l_sections = [\<lparr>s_name = ''__main__'', s_file = f, s_local = None\<rparr>], l_headers = [], l_precedences = []\<rparr>"
    obtain l where l: "fold_res (add_section f mods) ?start (enumerate 0 xs) = Inr l"
      "\<And>i. i < length xs \<Longrightarrow> map_of (l_precedences l) (section_name (xs ! i)) = Some (int i)"
      "\<And>x h. x \<in> set xs \<Longrightarrow> h \<in> set (snd (the (map_of mods x))) \<Longrightarrow> map_of (l_headers l) h = Some (section_name x)"
      "\<And>h. (\<And>x. x \<in> set xs \<Longrightarrow> h \<notin> set (snd (the (map_of mods x)))) \<Longrightarrow> map_of (l_headers l) h = None"
      using add_sections_result [OF xs(2) sub ok(2) apart, of f ?start 0] by auto
    have prec: "get_section_precedence (l_precedences l) (section_name (xs ! i)) = Inr (int i)" if "i < length xs" for i
      using l(2) [OF that] by (simp add: get_section_precedence_def dict_get_def section_name_def)
    have "\<exists>i j. get_section_precedence (l_precedences l) (section_name dep) = Inr i \<and>
        get_section_precedence (l_precedences l) (section_name m) = Inr j \<and> 0 \<le> i \<and> i < j"
      if e: "(dep, m) \<in> set (module_graph mods)" for dep m
    proof -
      have "m \<in> set xs" using e xs(3) by (force simp: nodes_of_def)
      then obtain j where j: "j < length xs" "m = xs ! j" by (auto simp: in_set_conv_nth)
      then obtain i where i: "i < j" "dep = xs ! i" using dependency_position [OF xs(4,2) j(1)] e by auto
      then show ?thesis using prec [of i] prec [of j] j by auto
    qed
    moreover have "classify (l_headers l) (path_join directory h) =
        (if m \<in> nodes_of (module_graph mods) then section_name m else ''__main__'')"
      if m: "(m, deps, headers) \<in> set mods" "h \<in> set headers" "slash \<notin> set h" for m deps headers directory h
    proof -
      have mm: "map_of mods m = Some (deps, headers)"
        using m(1) ok(1) by (simp add: dict_keys_def)
      have "map_of (l_headers l) h = (if m \<in> set xs then Some (section_name m) else None)"
      proof (cases "m \<in> set xs")
        case False
        then have "h \<notin> set (snd (the (map_of mods x)))" if "x \<in> set xs" for x
          using that ok(4) [OF mm entry [OF that], of h] m(2) by auto
        with False show ?thesis using l(4) by simp
      qed (use l(3) mm m(2) in simp)
      then show ?thesis using basename_join [OF m(3)] xs(3) by (simp add: classify_def)
    qed
    ultimately show ?thesis using xs(1) l(1) Inr by (simp add: scan_sections_def)
  qed
qed

subsection \<open>Properties of the scans\<close>

text \<open>
  C39: The relative path of a header is what follows the last ns3 in its path; the two versions
  of the function agree where the second returns, and it runs for ever exactly on rooted paths
  without ns3, where the first raises ValueError.
\<close>

theorem relative_path_result:
  assumes "front \<in> {[], [slash]}" "list_all path_part cs"
  shows "get_ns3_relative_path (front @ join [slash] cs) =
      (if ''ns3'' \<notin> set cs then Inl (if front = [] then AssertionError else ValueError)
       else if last cs = ''ns3'' then Inl TypeError
       else Inr (join [slash] (rev (takeWhile (\<lambda>c. c \<noteq> ''ns3'') (rev cs))))) \<and>
    get_ns3_relative_path_all (front @ join [slash] cs) =
      (if ''ns3'' \<notin> set cs \<and> front \<noteq> [] then None else Some (get_ns3_relative_path (front @ join [slash] cs)))"
  using get_ns3_relative_path_result [OF assms] relative_loop_all_eq [of "front @ join [slash] cs" "[]"]
  by (simp add: get_ns3_relative_path_def get_ns3_relative_path_all_def)

theorem relative_path_result_witness:
  "get_ns3_relative_path ''/usr/build/ns3/core/type-id.h'' = Inr ''core/type-id.h'' \<and>
   get_ns3_relative_path_all ''/usr/build/ns3/core/type-id.h'' = Some (Inr ''core/type-id.h'') \<and>
   get_ns3_relative_path ''/usr/include/string.h'' = Inl ValueError \<and>
   get_ns3_relative_path_all ''/usr/include/string.h'' = None"
  using relative_path_result [of "''/''" "[''usr'', ''build'', ''ns3'', ''core'', ''type-id.h'']"]
    relative_path_result [of "''/''" "[''usr'', ''include'', ''string.h'']"]
  by (simp add: path_part_def)

text \<open>
  C38: In a sequence of calls of the hook, the parameter annotations of the table are given to
  the first declaration with a text that is looked up and to no later one with the same text,
  because they are taken out of the shared table.
\<close>

theorem params_given_once:
  assumes "hook_calls tm headers_map scanned table ss = Inr rs" "i < length ss"
  shows "h_params (rs ! i) =
    (if looked_up headers_map scanned (h_decl (ss ! i)) \<and>
        (\<forall>j < i. \<not> (looked_up headers_map scanned (h_decl (ss ! j)) \<and>
                   fixed_text (h_decl (ss ! j)) = fixed_text (h_decl (ss ! i))))
     then with_params (map_of table (fixed_text (h_decl (ss ! i)))) (h_params (ss ! i)) else h_params (ss ! i))"
  using hook_calls_params [OF assms, of "{}" table] by simp

definition example_templates :: templates where
  "example_templates = \<lparr>t_args = (\<lambda>s. []), t_is_instantiation = (\<lambda>s. False), t_split = (\<lambda>s. (s, [])), t_location = (\<lambda>s. None)\<rparr>"

definition example_method :: decl where
  "example_method =
     \<lparr>d_class = Member_function, d_file = ''/b/ns3/random-variable.h'', d_parent = ''RandomVariable'', d_name = ''GetSeed'',
      d_demangled = [], d_decl_string = [], d_arguments = [None],
      d_str = (\<lambda>a. ''void ns3::RandomVariable::GetSeed(uint32_t * seed) const [member function]'')\<rparr>"

definition example_call :: hook_state where
  "example_call = \<lparr>h_global = [], h_params = [], h_table = [], h_decl = example_method\<rparr>"

lemma example_calls:
  "\<exists>rs. hook_calls example_templates [(''random-variable.h'', ''core'')] ''core'' type_annotations
     [example_call, example_call] = Inr rs \<and> length rs = 2"
proof -
  have "case hook_calls example_templates [(''random-variable.h'', ''core'')] ''core'' type_annotations
     [example_call, example_call] of Inl e \<Rightarrow> False | Inr rs \<Rightarrow> length rs = 2"
    by code_simp
  then show ?thesis by (auto split: sum.splits)
qed

theorem params_given_once_witness:
  "\<exists>rs. hook_calls example_templates [(''random-variable.h'', ''core'')] ''core'' type_annotations
     [example_call, example_call] = Inr rs \<and>
   map h_params rs = [[(''seed'', [(''direction'', ''out''), (''array_length'', ''6'')])], []]"
proof -
  obtain rs where rs: "hook_calls example_templates [(''random-variable.h'', ''core'')] ''core'' type_annotations
     [example_call, example_call] = Inr rs" "length rs = 2"
    using example_calls by blast
  have l: "looked_up [(''random-variable.h'', ''core'')] ''core'' (h_decl example_call)" by code_simp
  have w: "with_params (map_of type_annotations (fixed_text (h_decl example_call))) (h_params example_call) =
      [(''seed'', [(''direction'', ''out''), (''array_length'', ''6'')])]" "h_params example_call = []" by code_simp+
  have length: "1 < length [example_call, example_call]" by simp
  have nth: "[example_call, example_call] ! 0 = example_call" "[example_call, example_call] ! 1 = example_call" by simp_all
  have "h_params (rs ! 0) = [(''seed'', [(''direction'', ''out''), (''array_length'', ''6'')])]"
    using params_given_once [OF rs(1), of 0] unfolding nth w(1) using l by simp
  moreover have "h_params (rs ! 1) = []"
    using params_given_once [OF rs(1) length] l
    by (simp only: nth w(2) less_one simp_thms if_False)
  moreover obtain a b where "rs = [a, b]" using rs(2) by (auto simp: numeral_2_eq_2 length_Suc_conv)
  ultimately have "map h_params rs = [[(''seed'', [(''direction'', ''out''), (''array_length'', ''6'')])], []]" by simp
  with rs(1) show ?thesis by (intro exI [of _ rs] conjI)
qed

text \<open>A class and an enumeration of a module with a hyphen in its name, seen from another module.\<close>

lemma hyphenated_module:
  fixes s :: hook_state
  defines "names \<equiv> (\<lambda>r. case r of Inr s' \<Rightarrow> map_of (h_global s') ''import_from_module'' | Inl e \<Rightarrow> None)"
  assumes "get_ns3_relative_path (d_file (h_decl s)) = Inr h" "map_of headers_map h = Some ''flow-monitor''"
    "\<not> t_is_instantiation tm (d_decl_string (h_decl s))" "map_of (h_table s) (d_decl_string (h_decl s)) = None"
    "scanned \<noteq> ''flow-monitor''"
  shows "d_class (h_decl s) = Enumeration \<Longrightarrow>
      names (scan_hook tm headers_map scanned s) = Some (Text ''ns.flow-monitor'')"
    and "d_class (h_decl s) = Class_decl \<Longrightarrow>
      names (scan_hook tm headers_map scanned s) = Some (Text ''ns.flow_monitor'')"
  using assms(2-)
  by (auto simp: names_def scan_hook_def dict_get_def hook_enum_def hook_class_def instance_module_def
      class_annotations_def underscores_def Let_def)

text \<open>
  C9: Scanning all modules fails with CycleError exactly when their dependencies have a cycle;
  otherwise the section of a module comes after the sections of the modules it depends on, and
  its headers are classified into its section, or into __main__ if no dependency mentions the
  module.
\<close>

theorem sections_ordered:
  assumes "permuting ord" "modules_ok mods"
  shows "case scan_sections ord f mods of
      Inl (Not_sortable (CycleError answer num_parents children)) \<Rightarrow> \<not> acyclic (depends mods)
    | Inl e \<Rightarrow> False
    | Inr l \<Rightarrow>
        acyclic (depends mods) \<and>
        (\<forall>dep m. (dep, m) \<in> depends mods \<longrightarrow>
          (\<exists>i j. get_section_precedence (l_precedences l) (section_name dep) = Inr i \<and>
                 get_section_precedence (l_precedences l) (section_name m) = Inr j \<and> 0 \<le> i \<and> i < j)) \<and>
        (\<forall>m deps headers directory h. (m, deps, headers) \<in> set mods \<longrightarrow> h \<in> set headers \<longrightarrow> slash \<notin> set h \<longrightarrow>
          classify (l_headers l) (path_join directory h) =
            (if m \<in> Field (depends mods) then section_name m else ''__main__''))"
proof -
  have "set (module_graph mods) = depends mods"
    using module_graph_edges [OF modules_okD(1) [OF assms(2)]] by (auto simp: depends_def)
  moreover from this have "nodes_of (module_graph mods) = Field (depends mods)"
    by (force simp: nodes_of_def Field_def)
  ultimately show ?thesis using scan_sections_result [OF assms, of f] by (simp only:)
qed

definition example_modules :: module_table where
  "example_modules =
     [(''network'', [''core''], [''node.h'']), (''core'', [], [''object.h'', ''type-id.h'']), (''stats'', [], [''gnuplot.h''])]"

theorem sections_ordered_witness:
  "case scan_sections (\<lambda>xs. xs) ''out/ns3modulegen.py'' example_modules of
      Inl (Not_sortable (CycleError answer num_parents children)) \<Rightarrow> \<not> acyclic (depends example_modules)
    | Inl e \<Rightarrow> False
    | Inr l \<Rightarrow>
        acyclic (depends example_modules) \<and>
        classify (l_headers l) ''build/ns3/node.h'' = ''ns3_module_network'' \<and>
        classify (l_headers l) ''build/ns3/gnuplot.h'' = ''__main__''"
proof -
  have ok: "modules_ok example_modules" by code_simp
  have n: "Field (depends example_modules) = {''core'', ''network''}"
    by (simp add: depends_pairs example_modules_def Field_def insert_commute)
  have s: "section_name ''network'' = ''ns3_module_network''" by code_simp
  have p: "path_join ''build/ns3'' ''node.h'' = ''build/ns3/node.h''" "path_join ''build/ns3'' ''gnuplot.h'' = ''build/ns3/gnuplot.h''"
    by code_simp+
  have m: "(''network'', [''core''], [''node.h'']) \<in> set example_modules" "(''stats'', [], [''gnuplot.h'']) \<in> set example_modules"
    by (simp_all add: example_modules_def)
  show ?thesis
  proof (cases "scan_sections (\<lambda>xs. xs) ''out/ns3modulegen.py'' example_modules")
    case (Inl e)
    then show ?thesis
      using sections_ordered [OF permuting_id ok, of "''out/ns3modulegen.py''"]
      by (auto split: scan_error.splits sort_error.splits)
  next
    case (Inr l)
    have c: "acyclic (depends example_modules)"
      "\<And>m deps headers directory h. (m, deps, headers) \<in> set example_modules \<Longrightarrow> h \<in> set headers \<Longrightarrow> slash \<notin> set h \<Longrightarrow>
          classify (l_headers l) (path_join directory h) =
            (if m \<in> {''core'', ''network''} then section_name m else ''__main__'')"
      using sections_ordered [OF permuting_id ok, of "''out/ns3modulegen.py''"]
      unfolding Inr n sum.case by blast+
    then show ?thesis using c(1) c(2) [OF m(1), of "''node.h''" "''build/ns3''"] c(2) [OF m(2), of "''gnuplot.h''" "''build/ns3''"]
      by (simp add: Inr p s)
  qed
qed

subsection \<open>Generating the bindings\<close>

text \<open>
  \<^verbatim>\<open>ns3modulegen-modular.py\<close> and \<^verbatim>\<open>ns3modulegen.py\<close>. A wrapper of pybindgen keeps the stack of
  the place where it was defined, the innermost frame last.
\<close>

subsubsection \<open>Errors in wrappers\<close>

datatype report = Warn_at "string \<times> nat" | Warn_here

text \<open>The reversed stack is the attribute of the wrapper, if it has one; the value is that of the attribute afterwards.\<close>

definition handle_error :: "string \<Rightarrow> (string \<times> nat) list option \<Rightarrow> report \<times> (string \<times> nat) list option" where
  "handle_error apidefs_file attribute =
     (let stack = (case attribute of None \<Rightarrow> [] | Some frames \<Rightarrow> frames);
          reversed = rev stack
      in (case find (\<lambda>l. fst l = apidefs_file) reversed of Some l \<Rightarrow> Warn_at l | None \<Rightarrow> Warn_here,
          map_option rev attribute))"

text \<open>The handler of \<^verbatim>\<open>ns3modulegen.py\<close> works on a copy; its value is the file name and line it prints.\<close>

definition handle_error_all ::
  "string \<Rightarrow> string \<Rightarrow> (string \<times> nat) list option \<Rightarrow> (string \<times> nat) option \<times> (string \<times> nat) list option" where
  "handle_error_all directory this_script_dir attribute =
     (case attribute of
        None \<Rightarrow> (None, None)
      | Some frames \<Rightarrow>
          (map_option (\<lambda>(filename, line_number). (path_join_list [''..'', ''bindings'', ''python'', basename filename], line_number))
             (find (\<lambda>(filename, line_number). prefix this_script_dir (dirname (abspath directory filename))) (rev frames)),
           Some frames))"

text \<open>The first error of a wrapper is reported at the innermost frame of the file, the second one at the outermost.\<close>

lemma handle_error_twice:
  "handle_error f (snd (handle_error f (Some frames))) =
     (case find (\<lambda>l. fst l = f) frames of Some l \<Rightarrow> Warn_at l | None \<Rightarrow> Warn_here, Some frames)"
  by (simp add: handle_error_def)

lemma handle_error_all_keeps: "snd (handle_error_all directory this_script_dir attribute) = attribute"
  by (cases attribute) (simp_all add: handle_error_all_def)

lemma second_error_elsewhere:
  assumes "frames = [(''test.py'', 3), (''modulegen__gcc_LP64.py'', 20), (''modulegen__gcc_LP64.py'', 410)]"
  shows "fst (handle_error ''modulegen__gcc_LP64.py'' (Some frames)) = Warn_at (''modulegen__gcc_LP64.py'', 410)"
    and "fst (handle_error ''modulegen__gcc_LP64.py'' (snd (handle_error ''modulegen__gcc_LP64.py'' (Some frames)))) =
      Warn_at (''modulegen__gcc_LP64.py'', 20)"
  by (simp_all add: assms handle_error_def)

subsubsection \<open>The generator of one module\<close>

text \<open>\<open>os.path.splitext(path)[0]\<close>: the dots that begin a name are no extension.\<close>

definition splitext_root :: "string \<Rightarrow> string" where
  "splitext_root path =
     (let base = basename path;
          stem = rev (tl (dropWhile (\<lambda>c. c \<noteq> CHR ''.'') (rev base)))
      in if CHR ''.'' \<in> set base \<and> list_ex (\<lambda>c. c \<noteq> CHR ''.'') stem
         then take (length path - length base) path @ stem else path)"

text \<open>
  What the imports of a module directory give: the file of \<^verbatim>\<open>modulegen__<target>.py\<close>, the functions of
  \<^verbatim>\<open>modulegen_customizations.py\<close> and the list in \<^verbatim>\<open>callbacks_list.py\<close>, each if there is one.
\<close>

record binding_files =
  b_apidefs :: "string \<Rightarrow> string option"
  b_customization :: "string list option"
  b_callbacks :: "string list list option"

datatype gen_step =
    Open_output string
  | Error_handler string
  | Module_init
  | Set_name string
  | Add_include string
  | Std_ios_openmode
  | Register_types
  | Customize string
  | Generate_callback_classes "string list list"
  | Register_methods
  | Object_customizations
  | Attribute_customizations
  | Register_functions
  | Generate

text \<open>
  \<open>find_modules\<close> is what the imports find with a list of directories. The value has the steps in
  order and \<open>sys.path\<close> at the end.
\<close>

definition gen_main ::
  "(string list \<Rightarrow> binding_files) \<Rightarrow> string list \<Rightarrow> string list \<Rightarrow> gen_step list \<times> string list \<times> unit res" where
  "gen_main find_modules sys_path args =
     (case args of
        [module_abs_src_path, target, extension_name, output_cc_file_name] \<Rightarrow>
          let module_name = basename module_abs_src_path;
              out = [Open_output output_cc_file_name, Open_output (path_join (dirname output_cc_file_name) ''ns3module.h'')];
              found = find_modules (path_join module_abs_src_path ''bindings'' # sys_path)
          in (case b_apidefs found (''modulegen__'' @ target) of
                None \<Rightarrow> (out, sys_path, Inl ImportError)
              | Some apidefs \<Rightarrow>
                  let hook = (\<lambda>name. if name \<in> set (case b_customization found of None \<Rightarrow> [] | Some names \<Rightarrow> names)
                                     then [Customize name] else []);
                      callback_classes = (case b_callbacks found of None \<Rightarrow> [] | Some classes \<Rightarrow> classes)
                  in (out @ [Error_handler (splitext_root apidefs @ ''.py''), Module_init, Set_name extension_name,
                             Add_include (''\"ns3/'' @ module_name @ ''-module.h\"''), Std_ios_openmode, Register_types] @
                      hook ''post_register_types'' @ [Generate_callback_classes callback_classes, Register_methods] @
                      hook ''post_register_methods'' @ [Object_customizations, Attribute_customizations, Register_functions] @
                      hook ''post_register_functions'' @ [Generate], sys_path, Inr ()))
      | _ \<Rightarrow> ([], sys_path, Inl ValueError))"

lemma gen_main_keeps_path: "fst (snd (gen_main find_modules sys_path args)) = sys_path"
  by (auto simp: gen_main_def Let_def split: list.splits option.splits)

subsubsection \<open>The generator of all modules\<close>

text \<open>
  A root module as far as it is changed: the names it knows and its lists of classes and
  enumerations.
\<close>

record root_module =
  rm_known :: "string list"
  rm_classes :: "string list"
  rm_enums :: "string list"

definition remove_class :: "root_module \<Rightarrow> string \<Rightarrow> root_module res" where
  "remove_class rm name =
     (let full = ''ns3::'' @ name
      in if full \<notin> set (rm_known rm) then Inl KeyError
         else if full \<notin> set (rm_classes rm) then Inl ValueError
         else Inr (rm\<lparr>rm_classes := remove1 full (rm_classes rm)\<rparr>))"

definition remove_enum :: "root_module \<Rightarrow> string \<Rightarrow> root_module res" where
  "remove_enum rm name =
     (let full = ''ns3::'' @ name
      in if full \<notin> set (rm_known rm) then Inl KeyError
         else if full \<notin> set (rm_enums rm) then Inl ValueError
         else Inr (rm\<lparr>rm_enums := remove1 full (rm_enums rm)\<rparr>))"

text \<open>The classes that may be missing, and the ones that belong to a feature with an enumeration.\<close>

definition remove_optional :: "root_module \<Rightarrow> string \<Rightarrow> root_module res" where
  "remove_optional rm name = (case remove_class rm name of Inl KeyError \<Rightarrow> Inr rm | r \<Rightarrow> r)"

definition optional_classes :: "(string \<times> string) list" where
  "optional_classes = [(''GtkConfigStore'', ''GtkConfigStore''), (''SqliteDataOutput'', ''SqliteDataOutput'')]"

definition feature_classes :: "(string \<times> string list \<times> string list) list" where
  "feature_classes =
     [(''Threading'',
       [''SystemThread'', ''SystemMutex'', ''SystemCondition'', ''CriticalSection'',
        ''SimpleRefCount< ns3::SystemThread, ns3::empty, ns3::DefaultDeleter<ns3::SystemThread> >''], []),
      (''EmuNetDevice'', [''EmuNetDevice'', ''EmuHelper''], [''EmuNetDevice::EncapsulationMode'']),
      (''RealTime'', [''WallClockSynchronizer'', ''RealtimeSimulatorImpl''], [''RealtimeSimulatorImpl::SynchronizationMode'']),
      (''TapBridge'', [''TapBridge'', ''TapBridgeHelper'', ''TapBridgeFdReader''], [''TapBridge::Mode''])]"

definition disable_features :: "string \<Rightarrow> root_module \<Rightarrow> root_module res" where
  "disable_features environment rm =
     (let enabled_features = split_on CHR '','' environment
      in bind_res (fold_res (\<lambda>rm (feature, name). if feature \<in> set enabled_features then Inr rm else remove_optional rm name)
                     rm optional_classes) (\<lambda>rm.
         fold_res (\<lambda>rm (feature, classes, enums).
           if feature \<in> set enabled_features then Inr rm
           else bind_res (fold_res remove_class rm classes) (\<lambda>rm. fold_res remove_enum rm enums)) rm feature_classes))"

text \<open>The file of each section; the sections are those of the scan.\<close>

definition section_files :: "string \<Rightarrow> string list \<Rightarrow> (string, string) dict" where
  "section_files main_file_name modules =
     foldl (\<lambda>d m. dict_put (section_name m) (path_join (dirname main_file_name) (section_name m @ ''.cc'')) d)
       [(''__main__'', main_file_name)] modules"

definition section_header :: "string \<Rightarrow> string" where
  "section_header main_file_name = path_join3 (dirname main_file_name) ''pch'' ''ns3module.h''"

lemma section_file:
  "map_of (section_files main_file_name modules) (section_name m) =
     (if section_name m \<in> section_name ` set modules
      then Some (path_join (dirname main_file_name) (section_name m @ ''.cc'')) else None)"
proof (induction modules rule: rev_induct)
  case (snoc x xs)
  then show ?case by (auto simp: section_files_def)
qed (simp add: section_files_def section_name_def)

end
