(* ===== verification/Boost.thy ===== *)
theory Boost
  imports Prelude
begin

section \<open>Finding the Boost libraries (\<open>boost.py\<close>)\<close>

text \<open>
  \<^verbatim>\<open>waf-tools/boost.py\<close>: where the headers and libraries of Boost are, which files are the
  requested libraries, and \<open>check_boost\<close>, which puts the results into the environment.  The file
  system, the compiler and \<open>waf\<close> are the record \<open>boost_host\<close>; messages are left out.  The regular
  expressions are matchers; the parts that a pattern is made of are taken as plain text, so the
  model is for names without special characters of regular expressions.
\<close>

subsection \<open>The version\<close>

text \<open>\<open>^#define\s+BOOST_LIB_VERSION\s+"(.*)"$\<close> from the beginning of a line, and its search with \<open>re.M\<close>\<close>

definition after_spaces :: "string \<Rightarrow> string option" where
  "after_spaces s = (case s of [] \<Rightarrow> None | c # t \<Rightarrow> if is_space c then Some (dropWhile is_space t) else None)"

definition after_word :: "string \<Rightarrow> string \<Rightarrow> string option" where
  "after_word w s = (if prefix w s then Some (drop (length w) s) else None)"

definition version_here :: "string \<Rightarrow> string option" where
  "version_here s =
     Option.bind (after_word ''#define'' s) (\<lambda>s. Option.bind (after_spaces s) (\<lambda>s.
     Option.bind (after_word ''BOOST_LIB_VERSION'' s) (\<lambda>s. Option.bind (after_spaces s) (\<lambda>s.
     Option.bind (after_word [CHR 0x22] s) (\<lambda>s.
       let line = takeWhile (\<lambda>c. c \<noteq> newline) s
       in if line \<noteq> [] \<and> last line = CHR 0x22 then Some (butlast line) else None)))))"

fun version_search :: "bool \<Rightarrow> string \<Rightarrow> string option" where
  "version_search at_line [] = None"
| "version_search at_line (c # s) =
     (case if at_line then version_here (c # s) else None of
        Some v \<Rightarrow> Some v
      | None \<Rightarrow> version_search (c = newline) s)"

datatype env_value = Path "string option" | Strings "string list"

record boost_env =
  be_cxx :: "string list"
  be_cxx_name :: string
  be_cc_name :: string
  be_version :: string
  be_vars :: "(string, env_value) dict"

text \<open>
  \<open>bh_version\<close> is the content of the version file below a directory; \<open>bh_run_version\<close> what the
  compiler finds; \<open>bh_glob\<close> the names matching \<open>*boost_*\<close> in a directory, \<open>None\<close> if there is no
  such directory; \<open>bh_links\<close> tells whether a fragment compiles and links.
\<close>

record boost_host =
  bh_platform :: string
  bh_version :: "string \<Rightarrow> string option"
  bh_run_version :: "string option \<Rightarrow> string res"
  bh_glob :: "string \<Rightarrow> string list option"
  bh_abspath :: "string \<Rightarrow> string"
  bh_links :: "boost_env \<Rightarrow> string \<Rightarrow> string \<Rightarrow> bool"
  bh_listdir :: "string \<Rightarrow> string list"
  bh_shlib :: string

definition BOOST_LIBS :: "string list" where
  "BOOST_LIBS = [''/usr/lib'', ''/usr/local/lib'', ''/opt/local/lib'', ''/sw/lib'', ''/lib'']"

definition BOOST_INCLUDES :: "string list" where
  "BOOST_INCLUDES = [''/usr/include'', ''/usr/local/include'', ''/opt/local/include'', ''/sw/include'']"

text \<open>Without the file, and without a match, the compiler is asked.\<close>

definition boost_get_version :: "boost_host \<Rightarrow> string option \<Rightarrow> string res" where
  "boost_get_version host dir =
     (case Option.bind (Option.bind dir (bh_version host)) (version_search True) of
        Some v \<Rightarrow> Inr v
      | None \<Rightarrow> bh_run_version host dir)"

subsection \<open>Headers and toolset\<close>

text \<open>\<open>includes\<close> is empty when none were given; the result is \<open>None\<close> when nothing is found and that is no error.\<close>

definition boost_get_includes :: "boost_host \<Rightarrow> string \<Rightarrow> bool \<Rightarrow> string option res" where
  "boost_get_includes host includes boost_mandatory =
     (if includes \<noteq> [] \<and> bh_version host includes \<noteq> None then Inr (Some includes)
      else (case find (\<lambda>dir. bh_version host dir \<noteq> None) BOOST_INCLUDES of
              Some dir \<Rightarrow> Inr (Some dir)
            | None \<Rightarrow>
                if boost_mandatory
                then Inl (WafError (if includes \<noteq> [] then ''headers not found in '' @ includes
                       else ''headers not found, please provide a --boost-includes argument (see help)''))
                else Inr None))"

datatype toolset = Named string | Intel | Clang | Mingw

definition BOOST_TOOLSETS :: "(string, toolset) dict" where
  "BOOST_TOOLSETS =
     [(''borland'', Named ''bcb''), (''clang'', Clang), (''como'', Named ''como''), (''cw'', Named ''cw''),
      (''darwin'', Named ''xgcc''), (''edg'', Named ''edg''), (''g++'', Mingw), (''gcc'', Mingw), (''icpc'', Intel),
      (''intel'', Intel), (''kcc'', Named ''kcc''), (''kylix'', Named ''bck''), (''mipspro'', Named ''mp''),
      (''mingw'', Named ''mgw''), (''msvc'', Named ''vc''), (''qcc'', Named ''qcc''), (''sun'', Named ''sw''),
      (''sunc++'', Named ''sw''), (''tru64cxx'', Named ''tru''), (''vacpp'', Named ''xlc'')]"

fun detect :: "string \<Rightarrow> boost_env \<Rightarrow> toolset \<Rightarrow> string res" where
  "detect platform env (Named s) = Inr s"
| "detect platform env Intel = Inr (if platform = ''win32'' then ''iw'' else ''il'')"
| "detect platform env Clang = Inr (if platform = ''darwin'' then ''clang-darwin'' else ''clang'')"
| "detect platform env Mingw =
     (case be_cxx env of [] \<Rightarrow> Inl IndexError | c # cs \<Rightarrow> Inr (if contains ''MinGW'' c then ''mgw'' else ''gcc''))"

text \<open>An empty name that is in no table is called like a function.\<close>

definition boost_get_toolset :: "boost_host \<Rightarrow> boost_env \<Rightarrow> string \<Rightarrow> string res" where
  "boost_get_toolset host env cc =
     (let key = (if cc = [] then if dict_has BOOST_TOOLSETS (bh_platform host) then bh_platform host else be_cxx_name env
                 else cc)
      in case map_of BOOST_TOOLSETS key of
           Some t \<Rightarrow> detect (bh_platform host) env t
         | None \<Rightarrow> if cc = [] then Inl TypeError else Inr cc)"

subsection \<open>The directory of the libraries\<close>

fun libs_loop :: "boost_host \<Rightarrow> (string \<times> string list) option \<Rightarrow> string list \<Rightarrow> (string \<times> string list) option" where
  "libs_loop host found [] = found"
| "libs_loop host found (dir # dirs) =
     (case bh_glob host dir of
        None \<Rightarrow> libs_loop host None dirs
      | Some files \<Rightarrow>
          if files \<noteq> [] then Some (dir, files)
          else (case bh_glob host (dir @ ''64'') of
                  None \<Rightarrow> libs_loop host None dirs
                | Some files64 \<Rightarrow>
                    if files64 \<noteq> [] then Some (dir @ ''64'', files64)
                    else libs_loop host (Some (dir @ ''64'', [])) dirs))"

definition boost_get_libs_path :: "boost_host \<Rightarrow> string \<Rightarrow> (string \<times> string list) res" where
  "boost_get_libs_path host libs =
     (case if libs = [] then Some [] else bh_glob host libs of
        None \<Rightarrow> Inl AttributeError
      | Some files \<Rightarrow>
          if libs \<noteq> [] \<and> files \<noteq> [] then Inr (libs, files)
          else (case libs_loop host None BOOST_LIBS of
                  Some found \<Rightarrow> Inr found
                | None \<Rightarrow> Inl (WafError (if libs \<noteq> [] then ''libs not found in '' @ libs
                            else ''libs not found, please provide a --boost-libs argument (see help)''))))"

subsection \<open>Choosing the files\<close>

text \<open>
  A pattern is a text followed by groups \<open>(-text)+\<close> or \<open>(-text[0-9]{0,3})+\<close>; it is searched for
  anywhere in a name.
\<close>

datatype lib_group = Group bool string

function groups_match :: "lib_group list \<Rightarrow> string \<Rightarrow> bool" where
  "groups_match [] s = True"
| "groups_match (Group digits t # gs) s =
     (prefix (CHR ''-'' # t) s \<and>
      list_ex (\<lambda>k. let r = drop (k + Suc (length t)) s in
          if k + Suc (length t) \<le> length s \<and> list_all is_digit (take k (drop (Suc (length t)) s))
          then groups_match gs r \<or> groups_match (Group digits t # gs) r else False)
        [0..<if digits then 4 else 1])"
  by pat_completeness auto
termination
  by (relation "measure (\<lambda>(gs, s). length gs + length s)") auto

fun search_lib :: "string \<Rightarrow> lib_group list \<Rightarrow> string \<Rightarrow> bool" where
  "search_lib t gs [] = (t = [] \<and> groups_match gs [])"
| "search_lib t gs (c # s) = (prefix t (c # s) \<and> groups_match gs (drop (length t) (c # s)) \<or> search_lib t gs s)"

definition lib_patterns :: "string \<Rightarrow> string list \<Rightarrow> string \<Rightarrow> string \<Rightarrow> string \<Rightarrow> (string \<times> lib_group list) list" where
  "lib_patterns toolset tags version python lib =
     (let t = (if tags = [] then [] else [Group False (join ''-'' tags)]);
          py = (if lib = ''python'' then [Group False (''py'' @ python)] else []);
          tool = [Group True toolset];
          ver = [Group False version];
          name = ''boost_'' @ lib
      in [(name, tool @ t @ py @ ver), (name, t @ py @ ver), (name, t @ ver),
          (name, tool @ t @ py), (name, t @ py), (name, t)])"

definition find_lib :: "string \<times> lib_group list \<Rightarrow> string list \<Rightarrow> string option" where
  "find_lib re_lib files = find (search_lib (fst re_lib) (snd re_lib)) files"

text \<open>\<open>name[:name.rfind('.')]\<close> drops the last character of a name without a dot.\<close>

definition before_last_dot :: "string \<Rightarrow> string" where
  "before_last_dot name =
     (if CHR ''.'' \<in> set name then rev (tl (dropWhile (\<lambda>c. c \<noteq> CHR ''.'') (rev name))) else butlast name)"

definition format_lib_name :: "boost_env \<Rightarrow> string \<Rightarrow> string" where
  "format_lib_name env name =
     before_last_dot (if prefix ''lib'' name \<and> be_cc_name env \<noteq> ''msvc'' then drop 3 name else name)"

fun try_patterns :: "(string \<times> lib_group list) list \<Rightarrow> string list \<Rightarrow> string option" where
  "try_patterns [] files = None"
| "try_patterns (p # ps) files = (case find_lib p files of Some f \<Rightarrow> Some f | None \<Rightarrow> try_patterns ps files)"

record boost_params =
  bp_includes :: string
  bp_libs :: string
  bp_static :: bool
  bp_mt :: bool
  bp_abi :: string
  bp_autodetect :: bool
  bp_toolset :: string
  bp_python :: string

definition boost_get_libs ::
  "boost_host \<Rightarrow> boost_env \<Rightarrow> boost_params \<Rightarrow> string list \<Rightarrow> (string \<times> string list) res" where
  "boost_get_libs host env params libs =
     bind_res (boost_get_libs_path host (bp_libs params)) (\<lambda>(path, files).
     bind_res (boost_get_toolset host env (bp_toolset params)) (\<lambda>toolset.
       let tags = (if bp_mt params then [''mt''] else []) @ (if bp_abi params \<noteq> [] then [bp_abi params] else [])
       in map_value (Pair (bh_abspath host path))
            (traverse_res (\<lambda>lib.
               case try_patterns (lib_patterns toolset tags (be_version env) (bp_python params) lib) files of
                 Some file \<Rightarrow> Inr (format_lib_name env file)
               | None \<Rightarrow> Inl (WafError (''lib '' @ lib @ '' not found in '' @ bh_abspath host path))) libs)))"

subsection \<open>\<open>check_boost\<close>\<close>

text \<open>The libraries are a text or a list; \<open>to_list\<close> of waf splits a text at white space.\<close>

datatype lib_arg = Text string | Names "string list"

function words :: "string \<Rightarrow> string list" where
  "words s =
     (let t = dropWhile is_space s
      in if t = [] then [] else takeWhile (\<lambda>c. \<not> is_space c) t # words (dropWhile (\<lambda>c. \<not> is_space c) t))"
  by pat_completeness auto
termination
proof (relation "measure length")
  fix s t assume t: "t = dropWhile is_space s" "t \<noteq> []"
  then have "\<not> is_space (hd t)" by (metis hd_dropWhile)
  then have "length (dropWhile (\<lambda>c. \<not> is_space c) t) < length t"
    using t(2) by (cases t) (auto simp: le_imp_less_Suc length_dropWhile_le)
  also have "\<dots> \<le> length s" using t(1) by (simp add: length_dropWhile_le)
  finally show "(dropWhile (\<lambda>c. \<not> is_space c) t, s) \<in> measure length" by simp
qed simp

declare words.simps [simp del]

fun lib_names :: "lib_arg \<Rightarrow> string list" where
  "lib_names (Text s) = words s"
| "lib_names (Names xs) = xs"

text \<open>\<open>name in lib\<close> looks for a part of a text, or for an element of a list.\<close>

fun lib_has :: "string \<Rightarrow> lib_arg \<Rightarrow> bool" where
  "lib_has w (Text s) = contains w s"
| "lib_has w (Names xs) = (w \<in> set xs)"

text \<open>A value from the command line, or else the argument.\<close>

definition merge_params :: "boost_params \<Rightarrow> boost_params \<Rightarrow> boost_params" where
  "merge_params opts kw =
     (let pick = (\<lambda>f. if f opts \<noteq> [] then f opts else f kw);
          flag = (\<lambda>f. f opts \<or> f kw)
      in \<lparr>bp_includes = pick bp_includes, bp_libs = pick bp_libs, bp_static = flag bp_static, bp_mt = flag bp_mt,
          bp_abi = pick bp_abi, bp_autodetect = flag bp_autodetect, bp_toolset = pick bp_toolset,
          bp_python = pick bp_python\<rparr>)"

definition system_fragment :: string where
  "system_fragment = ''#include <boost/system/error_code.hpp>'' @ [newline] @ ''int main() { boost::system::error_code c; }''"

definition thread_fragment :: string where
  "thread_fragment = ''#include <boost/thread.hpp>'' @ [newline] @ ''int main() { boost::thread t; }''"

definition try_link :: "boost_host \<Rightarrow> string \<Rightarrow> lib_arg \<Rightarrow> boost_env \<Rightarrow> bool" where
  "try_link host var lib env \<longleftrightarrow>
     (lib_has ''system'' lib \<longrightarrow> bh_links host env var system_fragment) \<and>
     (lib_has ''thread'' lib \<longrightarrow> bh_links host env var thread_fragment)"

definition set_var :: "string \<Rightarrow> env_value \<Rightarrow> boost_env \<Rightarrow> boost_env" where
  "set_var key v env = env\<lparr>be_vars := dict_put key v (be_vars env)\<rparr>"

definition append_var :: "string \<Rightarrow> string list \<Rightarrow> boost_env \<Rightarrow> boost_env" where
  "append_var key xs env =
     set_var key (Strings ((case map_of (be_vars env) key of Some (Strings l) \<Rightarrow> l | _ \<Rightarrow> []) @ xs)) env"

definition static_vars :: "boost_host \<Rightarrow> string \<Rightarrow> string \<Rightarrow> string list \<Rightarrow> boost_env \<Rightarrow> boost_env" where
  "static_vars host var path libs env =
     (if list_ex (\<lambda>x. suffix (bh_shlib host) x) (bh_listdir host path) then env
      else let env = set_var (''STLIB_'' @ var) (Strings libs) (set_var (''STLIBPATH_'' @ var) (Strings [path]) env)
           in env\<lparr>be_vars := dict_del (''LIBPATH_'' @ var) (dict_del (''LIB_'' @ var) (be_vars env))\<rparr>)"

text \<open>The flags are tried in turn, on a copy of the environment.\<close>

fun try_flags :: "(boost_env \<Rightarrow> bool) \<Rightarrow> string \<Rightarrow> string list list \<Rightarrow> boost_env \<Rightarrow> boost_env res" where
  "try_flags links var [] env =
     Inl (WafError ''Could not auto-detect boost linking flags combination, you may report it to boost.py author'')"
| "try_flags links var (flags # rest) env =
     (let env' = append_var (''CXXFLAGS_'' @ var) flags env in if links env' then Inr env' else try_flags links var rest env)"

definition check_linkage ::
  "boost_host \<Rightarrow> boost_params \<Rightarrow> boost_params \<Rightarrow> lib_arg \<Rightarrow> string \<Rightarrow> string \<Rightarrow> string list \<Rightarrow> boost_env \<Rightarrow> boost_env res" where
  "check_linkage host kw params lib var path libs env =
     (if bp_autodetect params
      then bind_res (boost_get_toolset host env (bp_toolset kw)) (\<lambda>toolset.
             if toolset = ''vc''
             then try_flags (try_link host var lib) var [[''/MD'', ''/EHsc''], []]
                    (static_vars host var path libs (append_var (''DEFINES_'' @ var) [''BOOST_ALL_NO_LIB''] env))
             else Inl (WafError ''Boost linkage flags auto-detection not implemented (needed ?) for this toolchain''))
      else if try_link host var lib env then Inr env
      else Inl (WafError ''Could not link against boost libraries using supplied options''))"

definition check_boost ::
  "boost_host \<Rightarrow> boost_params \<Rightarrow> boost_params \<Rightarrow> lib_arg \<Rightarrow> string \<Rightarrow> boost_env \<Rightarrow> boost_env res" where
  "check_boost host opts kw lib var env =
     (if be_cxx env = [] then Inl (WafError ''load a c++ compiler first, conf.load(\"compiler_cxx\")'')
      else let params = merge_params opts kw
           in bind_res (boost_get_includes host (bp_includes params) True) (\<lambda>inc.
              bind_res (boost_get_version host inc) (\<lambda>version.
                let env = (set_var (''INCLUDES_'' @ var) (Path inc) env)\<lparr>be_version := version\<rparr>
                in if lib \<in> {Text [], Names []} then Inr env
                   else bind_res (boost_get_libs host env params (lib_names lib)) (\<lambda>(path, libs).
                          let suffix = (if bp_static params then ''True'' else []);
                              env = set_var (suffix @ ''LIB_'' @ var) (Strings libs)
                                      (set_var (suffix @ ''LIBPATH_'' @ var) (Strings [path]) env)
                          in check_linkage host kw params lib var path libs env))))"

subsection \<open>Properties\<close>

definition matches :: "string list \<Rightarrow> string \<times> lib_group list \<Rightarrow> string \<Rightarrow> bool" where
  "matches files p f \<longleftrightarrow> f \<in> set files \<and> search_lib (fst p) (snd p) f"

text \<open>A file is chosen by the first pattern that finds one, and is the first one it finds.\<close>

definition chosen :: "string list \<Rightarrow> (string \<times> lib_group list) list \<Rightarrow> string \<Rightarrow> bool" where
  "chosen files ps f \<longleftrightarrow>
     (\<exists>before p after earlier later. ps = before @ p # after \<and> files = earlier @ f # later \<and>
        matches files p f \<and> (\<forall>g \<in> set earlier. \<not> matches files p g) \<and>
        (\<forall>q \<in> set before. \<forall>g. \<not> matches files q g))"

lemma find_Some_split: "find P xs = Some x \<Longrightarrow> \<exists>ys zs. xs = ys @ x # zs \<and> P x \<and> (\<forall>y \<in> set ys. \<not> P y)"
proof (induction xs)
  case (Cons a xs)
  show ?case
  proof (cases "P a")
    case True
    then show ?thesis using Cons.prems by (intro exI [of _ "[]"] exI [of _ xs]) auto
  next
    case False
    then obtain ys zs where "xs = ys @ x # zs \<and> P x \<and> (\<forall>y \<in> set ys. \<not> P y)" using Cons by auto
    then show ?thesis using False by (intro exI [of _ "a # ys"] exI [of _ zs]) auto
  qed
qed simp

lemma try_patterns_result:
  "case try_patterns ps files of Some f \<Rightarrow> chosen files ps f | None \<Rightarrow> (\<forall>p \<in> set ps. \<forall>f. \<not> matches files p f)"
proof (induction ps)
  case (Cons p ps)
  show ?case
  proof (cases "find_lib p files")
    case None
    then have no: "\<not> matches files p f" for f by (auto simp: find_lib_def matches_def find_None_iff)
    then have "chosen files (p # ps) f" if "chosen files ps f" for f
    proof -
      from that obtain before q after earlier later where "ps = before @ q # after \<and> files = earlier @ f # later \<and>
          matches files q f \<and> (\<forall>g \<in> set earlier. \<not> matches files q g) \<and> (\<forall>r \<in> set before. \<forall>g. \<not> matches files r g)"
        unfolding chosen_def by (elim exE)
      then show ?thesis unfolding chosen_def using no
        by - (rule exI [of _ "p # before"], rule exI [of _ q], rule exI [of _ after], rule exI [of _ earlier], rule exI [of _ later], auto)
    qed
    with Cons None no show ?thesis by (auto split: option.splits)
  next
    case (Some f)
    then obtain earlier later where "files = earlier @ f # later" "search_lib (fst p) (snd p) f"
      "\<forall>g \<in> set earlier. \<not> search_lib (fst p) (snd p) g"
      unfolding find_lib_def by (blast dest: find_Some_split)
    then have "chosen files (p # ps) f" unfolding chosen_def matches_def
      by - (rule exI [of _ "[]"], rule exI [of _ p], rule exI [of _ ps], rule exI [of _ earlier], rule exI [of _ later], auto)
    with Some show ?thesis by simp
  qed
qed simp

definition lib_tags :: "boost_params \<Rightarrow> string list" where
  "lib_tags params = (if bp_mt params then [''mt''] else []) @ (if bp_abi params \<noteq> [] then [bp_abi params] else [])"

lemma traverse_res_cases:
  "case traverse_res f xs of
     Inl e \<Rightarrow> (\<exists>x \<in> set xs. f x = Inl e)
   | Inr ys \<Rightarrow> list_all2 (\<lambda>x y. f x = Inr y) xs ys"
proof (induction xs)
  case (Cons x xs)
  then show ?case by (cases "f x"; cases "traverse_res f xs") auto
qed simp

lemma boost_get_libs_result:
  assumes "boost_get_libs_path host (bp_libs params) = Inr (path, files)"
    "boost_get_toolset host env (bp_toolset params) = Inr toolset"
  shows "case boost_get_libs host env params libs of
      Inl e \<Rightarrow> (\<exists>lib \<in> set libs. e = WafError (''lib '' @ lib @ '' not found in '' @ bh_abspath host path) \<and>
        (\<forall>p \<in> set (lib_patterns toolset (lib_tags params) (be_version env) (bp_python params) lib). \<forall>f. \<not> matches files p f))
    | Inr (directory, names) \<Rightarrow> directory = bh_abspath host path \<and>
        list_all2 (\<lambda>lib name. \<exists>f. name = format_lib_name env f \<and>
          chosen files (lib_patterns toolset (lib_tags params) (be_version env) (bp_python params) lib) f) libs names"
proof -
  let ?ps = "lib_patterns toolset (lib_tags params) (be_version env) (bp_python params)"
  define one where "one = (\<lambda>lib. case try_patterns (?ps lib) files of
      Some file \<Rightarrow> Inr (format_lib_name env file)
    | None \<Rightarrow> Inl (WafError (''lib '' @ lib @ '' not found in '' @ bh_abspath host path)))"
  have b: "boost_get_libs host env params libs = map_value (Pair (bh_abspath host path)) (traverse_res one libs)"
    by (simp add: boost_get_libs_def assms one_def lib_tags_def)
  have ok: "\<exists>f. name = format_lib_name env f \<and> chosen files (?ps lib) f" if "one lib = Inr name" for lib name
    using that try_patterns_result [of "?ps lib" files] by (auto simp: one_def split: option.splits)
  have no: "e = WafError (''lib '' @ lib @ '' not found in '' @ bh_abspath host path) \<and> (\<forall>p \<in> set (?ps lib). \<forall>f. \<not> matches files p f)"
    if "one lib = Inl e" for lib e
    using that try_patterns_result [of "?ps lib" files] by (auto simp: one_def split: option.splits)
  show ?thesis
  proof (cases "traverse_res one libs")
    case (Inl e)
    then show ?thesis using traverse_res_cases [where f = one and xs = libs] no by (auto simp: b)
  next
    case (Inr names)
    then have "list_all2 (\<lambda>x y. one x = Inr y) libs names" using traverse_res_cases [where f = one and xs = libs] by simp
    then show ?thesis using Inr ok by (auto simp: b elim: list_all2_mono)
  qed
qed

lemma search_lib_plain: "search_lib t [] s = contains t s"
  by (induction s) auto

lemma search_lib_contains: "search_lib t gs s \<Longrightarrow> contains t s"
  by (induction s) auto

text \<open>Without tags the last pattern is the plain name, which every other pattern contains.\<close>

lemma boost_get_libs_found:
  assumes "boost_get_libs_path host (bp_libs params) = Inr (path, files)"
    "boost_get_toolset host env (bp_toolset params) = Inr toolset" "lib_tags params = []"
  shows "(\<exists>r. boost_get_libs host env params libs = Inr r) \<longleftrightarrow>
    list_all (\<lambda>lib. list_ex (contains (''boost_'' @ lib)) files) libs"
proof -
  let ?ps = "lib_patterns toolset (lib_tags params) (be_version env) (bp_python params)"
  have any: "(\<exists>p \<in> set (?ps lib). \<exists>f. matches files p f) \<longleftrightarrow> list_ex (contains (''boost_'' @ lib)) files" for lib
  proof
    assume "\<exists>p \<in> set (?ps lib). \<exists>f. matches files p f"
    then obtain p f where p: "p \<in> set (?ps lib)" "f \<in> set files" "search_lib (fst p) (snd p) f" by (auto simp: matches_def)
    have "fst p = ''boost_'' @ lib" using p(1) by (auto simp: lib_patterns_def Let_def)
    then show "list_ex (contains (''boost_'' @ lib)) files" using p search_lib_contains [of "fst p" "snd p" f]
      by (auto simp: list_ex_iff)
  next
    assume "list_ex (contains (''boost_'' @ lib)) files"
    then obtain f where "f \<in> set files" "contains (''boost_'' @ lib) f" by (auto simp: list_ex_iff)
    then have "matches files (''boost_'' @ lib, []) f" by (simp add: matches_def search_lib_plain)
    moreover have "(''boost_'' @ lib, []) \<in> set (?ps lib)" by (simp add: lib_patterns_def assms(3) Let_def)
    ultimately show "\<exists>p \<in> set (?ps lib). \<exists>f. matches files p f" by blast
  qed
  have chosen: "\<exists>p \<in> set (?ps lib). \<exists>f. matches files p f" if "chosen files (?ps lib) f" for lib f
    using that unfolding chosen_def by fastforce
  show ?thesis
  proof (cases "boost_get_libs host env params libs")
    case (Inl e)
    then show ?thesis using boost_get_libs_result [OF assms(1,2), of libs] any by (auto simp: list_all_iff)
  next
    case (Inr r)
    then have "list_all2 (\<lambda>lib name. \<exists>f. name = format_lib_name env f \<and> chosen files (?ps lib) f) libs (snd r)"
      using boost_get_libs_result [OF assms(1,2), of libs] by (auto split: prod.splits)
    then have "list_all (\<lambda>lib. \<exists>p \<in> set (?ps lib). \<exists>f. matches files p f) libs"
      using chosen by (auto simp: list_all2_conv_all_nth list_all_length)
    then show ?thesis using Inr any by simp
  qed
qed

text \<open>
  C40: For each Boost library the file is the first one found by the first, strictest pattern
  that finds any; the search fails for a library no pattern finds; without tags it succeeds
  exactly when every name occurs in a file.
\<close>

theorem boost_libs_chosen:
  assumes "boost_get_libs_path host (bp_libs params) = Inr (path, files)"
    "boost_get_toolset host env (bp_toolset params) = Inr toolset"
  shows "(case boost_get_libs host env params libs of
      Inl e \<Rightarrow> (\<exists>lib \<in> set libs. e = WafError (''lib '' @ lib @ '' not found in '' @ bh_abspath host path) \<and>
        (\<forall>p \<in> set (lib_patterns toolset (lib_tags params) (be_version env) (bp_python params) lib). \<forall>f. \<not> matches files p f))
    | Inr (directory, names) \<Rightarrow> directory = bh_abspath host path \<and>
        list_all2 (\<lambda>lib name. \<exists>f. name = format_lib_name env f \<and>
          chosen files (lib_patterns toolset (lib_tags params) (be_version env) (bp_python params) lib) f) libs names) \<and>
    (lib_tags params = [] \<longrightarrow>
      ((\<exists>r. boost_get_libs host env params libs = Inr r) \<longleftrightarrow>
       list_all (\<lambda>lib. list_ex (contains (''boost_'' @ lib)) files) libs))"
  using boost_get_libs_result [OF assms] boost_get_libs_found [OF assms] by blast

definition example_boost_host :: boost_host where
  "example_boost_host =
     \<lparr>bh_platform = ''linux'', bh_version = (\<lambda>d. if d = ''/usr/include'' then Some (ln ''// Boost'' @ ln ''#define BOOST_LIB_VERSION \"1_46_1\"'') else None),
      bh_run_version = (\<lambda>d. Inl (WafError [])),
      bh_glob = (\<lambda>d. if d = ''/usr/lib'' then Some [''libboost_system-gcc44-1_42.so'', ''libboost_system.so.1.46.1'', ''libboost_thread.so''] else None),
      bh_abspath = (\<lambda>p. p), bh_links = (\<lambda>env var fragment. True), bh_listdir = (\<lambda>d. []), bh_shlib = ''.so''\<rparr>"

definition example_boost_env :: boost_env where
  "example_boost_env = \<lparr>be_cxx = [''g++''], be_cxx_name = ''gcc'', be_cc_name = ''gcc'', be_version = ''1_46_1'', be_vars = []\<rparr>"

definition no_params :: boost_params where
  "no_params = \<lparr>bp_includes = [], bp_libs = [], bp_static = False, bp_mt = False, bp_abi = [], bp_autodetect = False,
     bp_toolset = [], bp_python = ''27''\<rparr>"

theorem boost_libs_chosen_witness:
  "\<exists>r. boost_get_libs example_boost_host example_boost_env no_params [''system'', ''thread''] = Inr r"
proof -
  let ?files = "[''libboost_system-gcc44-1_42.so'', ''libboost_system.so.1.46.1'', ''libboost_thread.so'']"
  have "boost_get_libs_path example_boost_host (bp_libs no_params) = Inr (''/usr/lib'', ?files)" by code_simp
  moreover have "boost_get_toolset example_boost_host example_boost_env (bp_toolset no_params) = Inr ''gcc''" by code_simp
  moreover have "lib_tags no_params = []" by code_simp
  moreover have "list_all (\<lambda>lib. list_ex (contains (''boost_'' @ lib)) ?files) [''system'', ''thread'']" by code_simp
  ultimately show ?thesis using boost_libs_chosen [of example_boost_host no_params "''/usr/lib''" ?files example_boost_env] by blast
qed

text \<open>What goes wrong: a static library, the name of a versioned file, a directory that does not exist and an unknown compiler.\<close>

lemma static_variable_name:
  "map_value (\<lambda>env. dict_keys (be_vars env))
     (check_boost example_boost_host (no_params\<lparr>bp_static := True\<rparr>) no_params (Text ''thread'') ''BOOST'' example_boost_env) =
   Inr [''INCLUDES_BOOST'', ''TrueLIBPATH_BOOST'', ''TrueLIB_BOOST'']"
  by code_simp

lemma versioned_file_name:
  "be_cc_name env \<noteq> ''msvc'' \<Longrightarrow> format_lib_name env ''libboost_system.so.1.46.1'' = ''boost_system.so.1.46''"
  by (simp add: format_lib_name_def before_last_dot_def)

lemma missing_library_directory:
  "libs \<noteq> [] \<Longrightarrow> bh_glob host libs = None \<Longrightarrow> boost_get_libs_path host libs = Inl AttributeError"
  by (simp add: boost_get_libs_path_def)

lemma unknown_compiler:
  assumes "\<not> dict_has BOOST_TOOLSETS (bh_platform host)" "map_of BOOST_TOOLSETS (be_cxx_name env) = None"
  shows "boost_get_toolset host env [] = Inl TypeError"
  using assms by (simp add: boost_get_toolset_def)

lemma merged_version:
  "boost_get_version example_boost_host (Some ''/usr/include'') = Inr ''1_46_1''"
  by code_simp

end
