(* ===== verification/Spec2Isabelle.thy ===== *)
theory Spec2Isabelle
  imports Rad_Util Topsort Shellcmd Cfg_Utils Test_Main Check_Style Cflags Wutils Grid_Window Create_Module Flowmon Misc_Tools Module_Build Configure Module_Files Bindings Boost
begin

text \<open>
  A model of the Python tools of the RET repository (an ns-3 tree with its build and test
  scripts).  The network simulator itself is C++; the Python code is the test driver, the
  build helpers, the style checker, the binding generators and a viewer.

  \<^bold>\<open>Theories.\<close>
  \<^item> \<open>Prelude\<close>: exceptions as sums, strings, decimal numbers, paths and dictionaries as
    Python 2 has them, and the locale \<open>res_loop\<close> for loops whose step may raise.
    \<open>Py_Num\<close>: numbers that are ints or floats; floats are exact rationals.  \<open>Py_Format\<close>: the
    operator \<open>%\<close> on strings, with a dictionary and with a tuple.
  \<^item> \<open>Rad_Util\<close>: the functions of \<^verbatim>\<open>bindings/python/rad_util.py\<close> on integers, bit strings,
    lists and dictionaries.
  \<^item> \<open>Topsort\<close>: \<^verbatim>\<open>bindings/python/topsort.py\<close>; topological order, levels, and all simple
    cycles.  The locale \<open>rotation_check\<close> states what \<open>is_rotated\<close> has to give.
  \<^item> \<open>Shellcmd\<close>: \<^verbatim>\<open>waf-tools/shellcmd.py\<close>; the parser as a state machine over tokens and
    \<open>Pipeline.run\<close> with a trace of what was opened, started, waited for and closed.  A string is
    first split by \<open>shlex.split\<close>, which is the theory \<open>Shlex\<close>.
  \<^item> \<open>Cfg_Utils\<close>: \<^verbatim>\<open>utils.py\<close>; looking an assignment up in a configuration file.
  \<^item> \<open>Check_Style\<close>: \<^verbatim>\<open>utils/check-style.py\<close>; reading and writing patches, and the pass over a
    patch that undoes changes of trailing blanks.
  \<^item> \<open>Cflags\<close>: \<^verbatim>\<open>waf-tools/cflags.py\<close>; the flags of a build profile for each compiler, with the
    locale \<open>compiler_traits\<close>.
  \<^item> \<open>Wutils\<close>: \<^verbatim>\<open>wutils.py\<close>; finding a program of the tree, its environment and its command line.
  \<^item> \<open>Module_Build\<close>: the build of the top-level \<^verbatim>\<open>wscript\<close>: enabling the modules that are
    needed, taking out what belongs to disabled ones, and the programs and scripts that can be run.
    \<open>Configure\<close>: its \<open>configure\<close> as steps on the variables of the environment, the summary of
    features, and what \<open>shutdown\<close> prints and checks.  \<open>Module_Files\<close>: \<^verbatim>\<open>src/wscript\<close>; the
    generators of a module, its \<^verbatim>\<open>.pc\<close> file, headers and Python bindings.
    \<open>Boost\<close>: \<^verbatim>\<open>waf-tools/boost.py\<close>; the version, directory and files of the Boost libraries.
  \<^item> \<open>Bindings\<close>: \<^verbatim>\<open>bindings/python/ns3modulescan*.py\<close>, the hooks that annotate declarations, the
    table they share, and the sections of modules in the order of \<open>Topsort\<close>; and the error handlers
    and steps of \<^verbatim>\<open>ns3modulegen*.py\<close>.
  \<^item> \<open>Command_Task\<close>: \<^verbatim>\<open>waf-tools/command.py\<close>, a task that fills in a command line and runs it
    with \<open>Shellcmd\<close>.  \<open>Misc_Tools\<close>: \<^verbatim>\<open>waf-tools/misc.py\<close>, files with variables filled in and
    commands whose files are nodes of the build.
  \<^item> \<open>Create_Module\<close>: \<^verbatim>\<open>src/create-module.py\<close>, on a model of directories and files; the locale
    \<open>disk_invariant\<close> is what each action keeps.
  \<^item> \<open>Flowmon\<close>: \<^verbatim>\<open>src/flow-monitor/examples/flowmon-parse-results.py\<close>, with the times as the
    simulator writes them.
  \<^item> \<open>Grid_Data\<close>, \<open>Grid_View\<close>, \<open>Grid_Window\<close>: the timeline viewer \<^verbatim>\<open>utils/grid.py\<close>: its data and
    the reader of its log, the renderers as the calls they make to the drawing library, and the
    window as a handler of mouse, zoom and resize events.  An exception ends a handler.
  \<^item> \<open>Test_Config\<close>, \<open>Test_Workers\<close>, \<open>Test_Results\<close>, \<open>Test_Report\<close>, \<open>Test_Main\<close>: the test driver
    \<^verbatim>\<open>test.py\<close>.  \<open>Test_Config\<close> has the options, globals, environment and the list of examples;
    \<open>Test_Workers\<close> the jobs and the threads with their queues; \<open>Test_Results\<close> what the main
    thread makes of a finished job; \<open>Test_Report\<close> the XML results file and the reports made
    from it; \<open>Test_Main\<close> the phases of \<open>run_tests\<close>.

  \<^bold>\<open>How the parts interact.\<close>  \<open>test.py\<close> reads build files through \<open>utils.py\<close>, makes a list of
  jobs, and hands them to worker threads through a queue; the results come back through another
  queue in any order.  The threads are the relation \<open>pool_step\<close>; the locale \<open>worker_pool\<close> states
  what it needs of the code that performs a job and is interpreted on \<open>perform_job\<close>.  The exit
  code theorem joins the relation with the dispatch and the collection of results.  A command task
  is parsed, substituted and run by the functions of \<open>Shellcmd\<close>; the build lists programs by the
  paths that \<open>Wutils\<close> makes, and the generators of \<open>Module_Files\<close> have what it reads.

  \<^bold>\<open>Conventions.\<close>  A Python exception is a value \<open>Inl\<close> of a sum; functions of the standard
  library that the code uses (string methods, paths, \<open>'%.3f'\<close>, the parser of ElementTree) are
  defined.  What is not code of the repository is a parameter: \<open>eval\<close> and \<open>exec\<close> of lines of
  configuration files, the programs that are run, the order in which Python goes through a
  dictionary (\<open>ord\<close>, with the hypothesis \<open>permuting ord\<close>: it visits every key once).

  \<^bold>\<open>Loops.\<close>  A loop is a recursive function with a termination proof, except for two that need not
  end and are partial functions.  The loops of \<open>Module_Build\<close> over a list of modules that grows are
  proved to return for finitely many names; of the search for \<^verbatim>\<open>ns3\<close> in a path in \<open>Bindings\<close> it
  is proved where it does not return.  The loop of \<open>choose_delta\<close> in \<open>Grid_View\<close> is guarded where it would not end.

  \<^bold>\<open>Simplifications.\<close>  Opening a file and starting a process succeed in \<open>Shellcmd\<close>.  The tasks of
  a generator run in the order of its files (\<open>Misc_Tools\<close>).  An exception of the main thread ends
  the run of the test driver, also when workers are waiting (\<open>Test_Main\<close>).  The XML parser does not
  reject characters (\<open>Test_Report\<close>).

  \<^bold>\<open>Not modelled.\<close>  The build system waf and the third-party libraries of the binding generators:
  their code is not in the repository, and what is asked of them is a parameter.  The generated
  bindings and \<^verbatim>\<open>ns3modulegen_core_customizations.py\<close> are declarations for pybindgen;
  \<^verbatim>\<open>waf-tools/relocation.py\<close> rearranges the nodes of waf.  The visualizer is drawing and
  simulator calls.  Rounding of floats, progress messages to standard error, the statistics and
  interactive helpers of \<^verbatim>\<open>rad_util.py\<close>, and the short experiment scripts are left out too.
\<close>

end
